(* ===== verification/Prelude.thy ===== *)
theory Prelude
  imports Main "HOL-Library.Word" "HOL-Library.Monad_Syntax"
begin

unbundle bit_operations_syntax

text \<open>
  What the components share.

  \<^item> The machine types. The solution is built for Win32 only (\<open>Memcache.sln\<close> has no other
    platform), so \<open>size_t\<close>, \<open>int\<close> and \<open>unsigned int\<close> are 32 bits wide and arithmetic on
    them wraps.
  \<^item> Memory. An array made by \<open>new unsigned char[len]\<close> holds indeterminate bytes until they
    are written: a cell is \<open>None\<close> then. An indeterminate integer is \<open>None\<close> in the same way
    (\<open>'a ind\<close>); copying one is harmless, deciding a branch by one is the fault
    \<open>Indeterminate\<close>.
  \<^item> Abnormal ends as values: a result is \<open>Inl f\<close> for a fault \<open>f\<close> or \<open>Inr x\<close>. A fault is
    \<open>std::bad_alloc\<close>, which no code of the program catches, an access through a null pointer or
    outside an array, a downcast of an object of another class, or the use of an indeterminate
    value.
  \<^item> \<open>yields E P r\<close>: every fault of \<open>r\<close> satisfies \<open>E\<close>, every proper result \<open>P\<close>. The rules
    for it are the collection \<open>yields\<close>.
  \<^item> A call that may not return has a result of type \<open>run\<close>, where \<open>None\<close> is no return.
\<close>

section \<open>Machine types\<close>

type_synonym u8 = "8 word"
type_synonym u16 = "16 word"
type_synonym u32 = "32 word"
type_synonym u64 = "64 word"
type_synonym size_t = "32 word"

type_synonym 'a ind = "'a option"
type_synonym cell = "u8 ind"

section \<open>Faults and results\<close>

datatype fault = BadAlloc | BadAccess | BadCast | Indeterminate

type_synonym 'a res = "fault + 'a"

definition bindE :: "'a res \<Rightarrow> ('a \<Rightarrow> 'b res) \<Rightarrow> 'b res" where
  "bindE r f = (case r of Inl e \<Rightarrow> Inl e | Inr x \<Rightarrow> f x)"

lemma bindE_simps [simp]:
  "bindE (Inl e) f = Inl e"
  "bindE (Inr x) f = f x"
  by (simp_all add: bindE_def)

lemma bindE_eq_Inr: "bindE r f = Inr y \<longleftrightarrow> (\<exists>x. r = Inr x \<and> f x = Inr y)"
  by (cases r) auto

lemma bindE_eq_Inl: "bindE r f = Inl e \<longleftrightarrow> r = Inl e \<or> (\<exists>x. r = Inr x \<and> f x = Inl e)"
  by (cases r) auto

lemma bindE_assoc: "bindE (bindE r f) g = bindE r (\<lambda>x. bindE (f x) g)"
  by (cases r) auto

text \<open>Deciding by a value needs it to be determinate.\<close>

definition determined :: "'a ind \<Rightarrow> 'a res" where
  "determined v = (case v of None \<Rightarrow> Inl Indeterminate | Some x \<Rightarrow> Inr x)"

lemma determined_Some [simp]: "determined (Some x) = Inr x"
  by (simp add: determined_def)

lemma determined_None [simp]: "determined None = Inl Indeterminate"
  by (simp add: determined_def)

definition yields :: "(fault \<Rightarrow> bool) \<Rightarrow> ('a \<Rightarrow> bool) \<Rightarrow> 'a res \<Rightarrow> bool" where
  "yields E P r \<longleftrightarrow> (case r of Inl e \<Rightarrow> E e | Inr x \<Rightarrow> P x)"

named_theorems yields \<open>rules for the outcome of an operation\<close>

lemma yields_Inl [simp]: "yields E P (Inl e) = E e"
  by (simp add: yields_def)

lemma yields_Inr [simp]: "yields E P (Inr x) = P x"
  by (simp add: yields_def)

lemma yields_bindE [yields]:
  assumes "yields E P r" and "\<And>x. P x \<Longrightarrow> yields E Q (f x)"
  shows "yields E Q (bindE r f)"
  using assms by (cases r) auto

lemma yields_mono:
  assumes "yields E P r" and "\<And>e. E e \<Longrightarrow> E' e" and "\<And>x. P x \<Longrightarrow> P' x"
  shows "yields E' P' r"
  using assms by (cases r) auto

lemma yields_InrD: "yields E P r \<Longrightarrow> r = Inr x \<Longrightarrow> P x"
  by simp

lemma yields_InlD: "yields E P r \<Longrightarrow> r = Inl e \<Longrightarrow> E e"
  by simp

lemma yields_if [yields]:
  assumes "c \<Longrightarrow> yields E P r" and "\<not> c \<Longrightarrow> yields E P s"
  shows "yields E P (if c then r else s)"
  using assms by simp

lemma yields_determined [yields]:
  assumes "v = None \<Longrightarrow> E Indeterminate" and "\<And>x. v = Some x \<Longrightarrow> P x"
  shows "yields E P (determined v)"
  using assms by (cases v) auto

section \<open>Runs\<close>

text \<open>
  A call that may never return, because a loop does not end or a lock is never free: \<open>None\<close>.
  \<open>andThen\<close> sequences such calls; \<open>returns E P r\<close> says that \<open>r\<close> returns and what it yields.
\<close>

type_synonym 'a run = "'a res option"

definition andThen :: "'a run \<Rightarrow> ('a \<Rightarrow> 'b run) \<Rightarrow> 'b run" where
  "andThen r f = (case r of None \<Rightarrow> None | Some (Inl e) \<Rightarrow> Some (Inl e) | Some (Inr x) \<Rightarrow> f x)"

lemma andThen_simps [simp]:
  "andThen None f = None" "andThen (Some (Inl e)) f = Some (Inl e)" "andThen (Some (Inr x)) f = f x"
  by (simp_all add: andThen_def)

lemma andThen_eq_Inr:
  "andThen r f = Some (Inr y) \<longleftrightarrow> (\<exists>x. r = Some (Inr x) \<and> f x = Some (Inr y))"
  by (auto simp: andThen_def split: option.split sum.split)

definition returns :: "(fault \<Rightarrow> bool) \<Rightarrow> ('a \<Rightarrow> bool) \<Rightarrow> 'a run \<Rightarrow> bool" where
  "returns E P r \<longleftrightarrow> (\<exists>x. r = Some x \<and> yields E P x)"

lemma returns_simps [simp]:
  "returns E P None = False" "returns E P (Some x) = yields E P x"
  by (simp_all add: returns_def)

lemma returns_andThen:
  assumes "returns E P r" and "\<And>x. P x \<Longrightarrow> returns E Q (f x)"
  shows "returns E Q (andThen r f)"
proof -
  from assms(1) obtain x where x: "r = Some x" "yields E P x" by (auto simp: returns_def)
  with assms(2) show ?thesis by (cases x) auto
qed

lemma yields_andThen:
  assumes "yields E P r" and "\<And>x. P x \<Longrightarrow> returns E Q (f x)"
  shows "returns E Q (andThen (Some r) f)"
  using assms by (intro returns_andThen [of E P]) simp_all

lemma returns_mono:
  "returns E P r \<Longrightarrow> (\<And>e. E e \<Longrightarrow> E' e) \<Longrightarrow> (\<And>x. P x \<Longrightarrow> P' x) \<Longrightarrow> returns E' P' r"
  unfolding returns_def using yields_mono by blast

lemma returns_InrD: "returns E P r \<Longrightarrow> r = Some (Inr x) \<Longrightarrow> P x"
  by simp

text \<open>Partial correctness: what is yielded if the call returns.\<close>

definition if_returns :: "(fault \<Rightarrow> bool) \<Rightarrow> ('a \<Rightarrow> bool) \<Rightarrow> 'a run \<Rightarrow> bool" where
  "if_returns E P r \<longleftrightarrow> (\<forall>x. r = Some x \<longrightarrow> yields E P x)"

lemma if_returns_simps [simp]:
  "if_returns E P None" "if_returns E P (Some x) = yields E P x"
  by (simp_all add: if_returns_def)

lemma returns_if_returns: "returns E P r \<Longrightarrow> if_returns E P r"
  by (auto simp: returns_def)

lemma if_returns_andThen:
  assumes "if_returns E P r" and "\<And>x. P x \<Longrightarrow> if_returns E Q (f x)"
  shows "if_returns E Q (andThen r f)"
proof (cases r)
  case (Some x)
  with assms show ?thesis by (cases x) auto
qed simp

lemma if_yields_andThen:
  assumes "yields E P r" and "\<And>x. P x \<Longrightarrow> if_returns E Q (f x)"
  shows "if_returns E Q (andThen (Some r) f)"
  by (rule if_returns_andThen [of E P]) (use assms in simp_all)

section \<open>Arrays in memory\<close>

text \<open>
  \<open>operator new\<close>: the parameter \<open>ok\<close> says which request sizes the heap can serve at the time.
  Whatever the heap, a request above \<open>_HEAP_MAXREQ\<close>, \<open>0xFFFFFFE0\<close> on Win32, throws.
\<close>

type_synonym heap = "size_t \<Rightarrow> bool"

definition heap_maxreq :: size_t where
  "heap_maxreq = 0xFFFFFFE0"

definition new_array :: "heap \<Rightarrow> size_t \<Rightarrow> cell list res" where
  "new_array ok len =
     (if ok len \<and> len \<le> heap_maxreq then Inr (replicate (unat len) None) else Inl BadAlloc)"

text \<open>\<open>memcpy\<close> out of and into the array a pointer points to (\<open>None\<close> is \<open>nullptr\<close>).\<close>

definition mem_load :: "cell list option \<Rightarrow> size_t \<Rightarrow> size_t \<Rightarrow> cell list res" where
  "mem_load p off n =
     (if n = 0 then Inr []
      else case p of
        None \<Rightarrow> Inl BadAccess
      | Some cs \<Rightarrow>
          if unat off + unat n \<le> length cs then Inr (take (unat n) (drop (unat off) cs))
          else Inl BadAccess)"

definition mem_store :: "cell list option \<Rightarrow> size_t \<Rightarrow> cell list \<Rightarrow> cell list option res" where
  "mem_store p off xs =
     (if xs = [] then Inr p
      else case p of
        None \<Rightarrow> Inl BadAccess
      | Some cs \<Rightarrow>
          if unat off + length xs \<le> length cs
          then Inr (Some (take (unat off) cs @ xs @ drop (unat off + length xs) cs))
          else Inl BadAccess)"

text \<open>\<open>p[i]\<close> as a value and as a target.\<close>

definition load_cell :: "cell list option \<Rightarrow> size_t \<Rightarrow> cell res" where
  "load_cell p i =
     (case p of
        None \<Rightarrow> Inl BadAccess
      | Some cs \<Rightarrow> if unat i < length cs then Inr (cs ! unat i) else Inl BadAccess)"

definition store_cell :: "cell list option \<Rightarrow> size_t \<Rightarrow> cell \<Rightarrow> cell list option res" where
  "store_cell p i v =
     (case p of
        None \<Rightarrow> Inl BadAccess
      | Some cs \<Rightarrow> if unat i < length cs then Inr (Some (cs[unat i := v])) else Inl BadAccess)"

lemma new_array_yields [yields]:
  "yields (\<lambda>e. e = BadAlloc)
     (\<lambda>cs. length cs = unat len \<and> len \<le> heap_maxreq \<and> ok len \<and> (\<forall>c \<in> set cs. c = None))
     (new_array ok len)"
  by (simp add: new_array_def)

lemma mem_load_Some:
  "unat off + unat n \<le> length cs \<Longrightarrow>
     mem_load (Some cs) off n = Inr (take (unat n) (drop (unat off) cs))"
  by (simp add: mem_load_def unat_eq_0)

lemma mem_store_Some:
  "unat off + length xs \<le> length cs \<Longrightarrow>
     mem_store (Some cs) off xs = Inr (Some (take (unat off) cs @ xs @ drop (unat off + length xs) cs))"
  by (simp add: mem_store_def)

lemma load_cell_Some: "unat i < length cs \<Longrightarrow> load_cell (Some cs) i = Inr (cs ! unat i)"
  by (simp add: load_cell_def)

lemma store_cell_Some:
  "unat i < length cs \<Longrightarrow> store_cell (Some cs) i v = Inr (Some (cs[unat i := v]))"
  by (simp add: store_cell_def)

lemma take_min_length [simp]: "take (min n (length xs)) xs = take n xs"
  by (simp add: min_def)

text \<open>\<open>s.find(t)\<close>: where \<open>t\<close> occurs in \<open>s\<close> for the first time; \<open>None\<close> is \<open>npos\<close>.\<close>

fun str_find :: "'a list \<Rightarrow> 'a list \<Rightarrow> nat option" where
  "str_find t [] = (if t = [] then Some 0 else None)"
| "str_find t (c # cs) =
     (if take (length t) (c # cs) = t then Some 0 else map_option Suc (str_find t cs))"

lemma str_find_None: "str_find t s = None \<longleftrightarrow> (\<nexists>xs ys. s = xs @ t @ ys)"
proof (induction s)
  case (Cons c cs)
  have "take (length t) (c # cs) = t \<longleftrightarrow> (\<exists>ys. c # cs = t @ ys)"
    by (metis append_eq_conv_conj append_take_drop_id)
  with Cons show ?case by (auto simp: Cons_eq_append_conv)
qed simp

text \<open>A number as it is written in decimal.\<close>

fun decimal :: "nat \<Rightarrow> string" where
  "decimal n = (if n < 10 then [char_of (48 + n)] else decimal (n div 10) @ [char_of (48 + n mod 10)])"

declare decimal.simps [simp del]

text \<open>The bytes of a text.\<close>

abbreviation ascii :: "string \<Rightarrow> u8 list" where
  "ascii s \<equiv> map of_char s"

section \<open>Bytes of a word\<close>

text \<open>
  \<open>byte_at k v\<close> is the byte of \<open>v\<close> that starts at bit \<open>k\<close>; \<open>be16\<close>, \<open>be32\<close> and \<open>be64\<close> list
  the bytes of a word most significant first. \<open>push_byte_at\<close> and \<open>byte_masks\<close> put a word
  together again: each shifted byte is the word under a mask, and the masks cover it.
\<close>

definition byte_at :: "nat \<Rightarrow> 'a::len word \<Rightarrow> u8" where
  "byte_at k v = ucast (drop_bit k v)"

definition be16 :: "u16 \<Rightarrow> u8 list" where
  "be16 v = [byte_at 8 v, byte_at 0 v]"

definition be32 :: "u32 \<Rightarrow> u8 list" where
  "be32 v = [byte_at 24 v, byte_at 16 v, byte_at 8 v, byte_at 0 v]"

definition be64 :: "u64 \<Rightarrow> u8 list" where
  "be64 v =
     [byte_at 56 v, byte_at 48 v, byte_at 40 v, byte_at 32 v,
      byte_at 24 v, byte_at 16 v, byte_at 8 v, byte_at 0 v]"

lemma length_be [simp]: "length (be16 v) = 2" "length (be32 w) = 4" "length (be64 x) = 8"
  by (simp_all add: be16_def be32_def be64_def)

definition byte_mask :: "nat \<Rightarrow> 'a::len word" where
  "byte_mask k = push_bit k (mask 8)"

lemma bit_byte_mask [bit_simps]:
  "bit (byte_mask k :: 'a::len word) n \<longleftrightarrow> k \<le> n \<and> n < k + 8 \<and> n < LENGTH('a)"
  by (auto simp: byte_mask_def bit_simps)

lemma bit_byte_at [bit_simps]: "bit (byte_at k v) n \<longleftrightarrow> n < 8 \<and> bit v (k + n)"
  by (auto simp: byte_at_def bit_simps)

lemma byte_masks:
  "byte_mask 24 OR byte_mask 16 OR byte_mask 8 OR byte_mask 0 = (-1 :: u32)"
  "byte_mask 56 OR byte_mask 48 OR byte_mask 40 OR byte_mask 32 OR
     byte_mask 24 OR byte_mask 16 OR byte_mask 8 OR byte_mask 0 = (-1 :: u64)"
  by (simp_all add: byte_mask_def mask_eq_exp_minus_1)

lemma push_byte_at: "push_bit k (ucast (byte_at k v)) = v AND byte_mask k"
  for v :: "'a::len word"
  by (rule bit_word_eqI) (auto simp: bit_simps)

lemma sext_byte_at:
  "k + 8 < 32 \<Longrightarrow> scast (push_bit k (ucast (byte_at k v) :: u32)) = v AND byte_mask k"
  for v :: u64
  by (rule bit_word_eqI) (auto simp: bit_simps min_def)

lemma sext_byte_at_24:
  "scast (push_bit 24 (ucast (byte_at 24 v) :: u32)) =
     v AND byte_mask 24 OR (if bit v 31 then push_bit 32 (mask 32) else 0)"
  for v :: u64
proof (rule bit_word_eqI)
  fix n assume "n < LENGTH(64)"
  consider "n < 31" | "n = 31" | "32 \<le> n" by linarith
  then show "bit (scast (push_bit 24 (ucast (byte_at 24 v) :: u32)) :: u64) n =
      bit (v AND byte_mask 24 OR (if bit v 31 then push_bit 32 (mask 32) else 0)) n"
    using \<open>n < LENGTH(64)\<close> by cases (auto simp: bit_simps min_def)
qed

lemma byte_of_masked: "(ucast (w AND 0xFF) :: u8) = ucast (w :: 'a::len word)"
proof (rule bit_word_eqI)
  fix n assume "n < LENGTH(8)"
  then have "bit (255 :: int) n"
    by (auto simp: less_Suc_eq numeral_eq_Suc)
  then show "bit (ucast (w AND 255) :: u8) n = bit (ucast w :: u8) n"
    by (auto simp: bit_simps dest: bit_imp_le_length)
qed

text \<open>Every byte string of the right length is the bytes of a word.\<close>

lemma byte_at_or: "byte_at k (v OR w) = byte_at k v OR byte_at k w"
  by (rule bit_word_eqI) (auto simp: bit_simps)

lemma byte_at_push:
  assumes "k + 8 \<le> LENGTH('a)" "j = k \<or> j + 8 \<le> k \<or> k + 8 \<le> j"
  shows "byte_at k (push_bit j (ucast (x :: u8)) :: 'a::len word) = (if j = k then x else 0)"
  using assms by (intro bit_word_eqI) (auto simp: bit_simps dest: bit_imp_le_length)

lemma be16_surj: "\<exists>v. be16 v = [a, b]"
  by (rule exI [of _ "push_bit 8 (ucast a) OR push_bit 0 (ucast b)"])
    (simp add: be16_def byte_at_or byte_at_push del: push_bit_0_id)

lemma be32_surj: "\<exists>v. be32 v = [a, b, c, d]"
  by (rule exI [of _ "push_bit 24 (ucast a) OR push_bit 16 (ucast b) OR push_bit 8 (ucast c) OR
      push_bit 0 (ucast d)"])
    (simp add: be32_def byte_at_or byte_at_push del: push_bit_0_id)

lemma be64_surj: "\<exists>v. be64 v = [a, b, c, d, e, f, g, h]"
  by (rule exI [of _ "push_bit 56 (ucast a) OR push_bit 48 (ucast b) OR push_bit 40 (ucast c) OR
      push_bit 32 (ucast d) OR push_bit 24 (ucast e) OR push_bit 16 (ucast f) OR push_bit 8 (ucast g) OR
      push_bit 0 (ucast h)"])
    (simp add: be64_def byte_at_or byte_at_push del: push_bit_0_id)

end
