(* ===== verification/DataBuffer.thy ===== *)
theory DataBuffer
  imports Prelude
begin

unbundle bit_operations_syntax

text \<open>
  \<open>DataBuffer.h\<close> and \<open>DataBuffer.cpp\<close>: the byte buffer every message is read from and written
  to. The record has the four members of the class; \<open>data\<close> is \<open>None\<close> for \<open>nullptr\<close>. A method
  takes the object last and returns its value with the changed object; a constructor and
  \<open>Alloc\<close> take the heap first. A pointer into the buffer (\<open>GetWritePtr\<close>, \<open>GetReadPtr\<close>) is the
  index it points to.

  The lemmas see a buffer as two byte queues: \<open>written\<close>, what the write position has passed,
  and \<open>unread\<close>, the part of it the read position has not. \<open>append_cells\<close> and \<open>advance\<close> are the
  effect of a write and of a read on them.
\<close>

section \<open>State and operations\<close>

record DataBuffer =
  data :: "cell list option"
  bufferSize :: size_t
  writeOffset :: size_t
  readOffset :: size_t

definition IsValid :: "DataBuffer \<Rightarrow> bool" where
  "IsValid b \<longleftrightarrow> data b \<noteq> None"

definition ResetRead :: "DataBuffer \<Rightarrow> DataBuffer" where
  "ResetRead b = b\<lparr>readOffset := 0\<rparr>"

definition Reset :: "DataBuffer \<Rightarrow> DataBuffer" where
  "Reset b = b\<lparr>readOffset := 0, writeOffset := 0\<rparr>"

definition Cleanup :: "DataBuffer \<Rightarrow> DataBuffer" where
  "Cleanup b = Reset (b\<lparr>data := None\<rparr>)"

definition Alloc :: "heap \<Rightarrow> size_t \<Rightarrow> DataBuffer \<Rightarrow> (bool \<times> DataBuffer) res" where
  "Alloc ok len b =
     (let b1 = Cleanup b in
      bindE (new_array ok len) (\<lambda>p.
        let b2 = b1\<lparr>data := Some p, bufferSize := len\<rparr> in Inr (IsValid b2, b2)))"

definition GetBytesWritten :: "DataBuffer \<Rightarrow> size_t" where
  "GetBytesWritten b = writeOffset b"

definition GetBytesRead :: "DataBuffer \<Rightarrow> size_t" where
  "GetBytesRead b = readOffset b"

definition GetBytesLeftToRead :: "DataBuffer \<Rightarrow> size_t" where
  "GetBytesLeftToRead b =
     (if writeOffset b > readOffset b then writeOffset b - readOffset b else 0)"

definition GetBytesLeftForWrite :: "DataBuffer \<Rightarrow> size_t" where
  "GetBytesLeftForWrite b =
     (if bufferSize b > writeOffset b then bufferSize b - writeOffset b else 0)"

definition GetWritePtr :: "DataBuffer \<Rightarrow> size_t option" where
  "GetWritePtr b = (if GetBytesLeftForWrite b > 0 then Some (writeOffset b) else None)"

definition GetReadPtr :: "DataBuffer \<Rightarrow> size_t option" where
  "GetReadPtr b = (if GetBytesLeftToRead b > 0 then Some (readOffset b) else None)"

definition MoveReadForward :: "size_t \<Rightarrow> DataBuffer \<Rightarrow> size_t \<times> DataBuffer" where
  "MoveReadForward len b =
     (let r = min (readOffset b + len) (writeOffset b) in (r, b\<lparr>readOffset := r\<rparr>))"

definition MoveReadBackward :: "size_t \<Rightarrow> DataBuffer \<Rightarrow> size_t \<times> DataBuffer" where
  "MoveReadBackward len b =
     (let r = readOffset b - len; r = (if r > writeOffset b then 0 else r)
      in (r, b\<lparr>readOffset := r\<rparr>))"

definition MoveWriteForward :: "size_t \<Rightarrow> DataBuffer \<Rightarrow> size_t \<times> DataBuffer" where
  "MoveWriteForward len b =
     (let w = min (writeOffset b + len) (bufferSize b) in (w, b\<lparr>writeOffset := w\<rparr>))"

definition MoveWriteBackward :: "size_t \<Rightarrow> DataBuffer \<Rightarrow> size_t \<times> DataBuffer" where
  "MoveWriteBackward len b =
     (let w = writeOffset b - len; w = (if w > bufferSize b then 0 else w)
      in (w, b\<lparr>writeOffset := w\<rparr>))"

text \<open>\<open>_data[_readOffset++]\<close> as a value and \<open>_data[_writeOffset++] = v\<close>.\<close>

definition load_next :: "DataBuffer \<Rightarrow> (cell \<times> DataBuffer) res" where
  "load_next b =
     bindE (load_cell (data b) (readOffset b)) (\<lambda>v.
     Inr (v, b\<lparr>readOffset := readOffset b + 1\<rparr>))"

definition store_next :: "cell \<Rightarrow> DataBuffer \<Rightarrow> DataBuffer res" where
  "store_next v b =
     bindE (store_cell (data b) (writeOffset b) v) (\<lambda>p.
     Inr (b\<lparr>data := p, writeOffset := writeOffset b + 1\<rparr>))"

definition ReadByte :: "DataBuffer \<Rightarrow> (u8 ind \<times> DataBuffer) res" where
  "ReadByte b =
     (if IsValid b \<and> readOffset b + 1 \<le> bufferSize b then load_next b else Inr (Some 0, b))"

definition WriteByte :: "u8 ind \<Rightarrow> DataBuffer \<Rightarrow> (bool \<times> DataBuffer) res" where
  "WriteByte byte b =
     (if IsValid b \<and> writeOffset b + 1 \<le> bufferSize b
      then bindE (store_next byte b) (\<lambda>b. Inr (True, b))
      else Inr (False, b))"

text \<open>
  The values the multi-byte reads compute. A byte is promoted to \<open>int\<close> before it is shifted;
  in \<open>ReadLongLong\<close> the upper four bytes are cast to \<open>unsigned long long\<close> first and the lower
  four are not, so each of those is shifted as a 32-bit \<open>int\<close> and then sign-extended by \<open>|=\<close>.
\<close>

definition join16 :: "u8 \<Rightarrow> u8 \<Rightarrow> u16" where
  "join16 a b = ucast (push_bit 8 (ucast a :: 32 word) OR (ucast b :: 32 word))"

definition join32 :: "u8 \<Rightarrow> u8 \<Rightarrow> u8 \<Rightarrow> u8 \<Rightarrow> u32" where
  "join32 a b c d = push_bit 24 (ucast a) OR push_bit 16 (ucast b) OR push_bit 8 (ucast c) OR ucast d"

definition join64 :: "u8 \<Rightarrow> u8 \<Rightarrow> u8 \<Rightarrow> u8 \<Rightarrow> u8 \<Rightarrow> u8 \<Rightarrow> u8 \<Rightarrow> u8 \<Rightarrow> u64" where
  "join64 a b c d e f g h =
     push_bit 56 (ucast a) OR push_bit 48 (ucast b) OR push_bit 40 (ucast c) OR push_bit 32 (ucast d)
     OR scast (push_bit 24 (ucast e :: 32 word)) OR scast (push_bit 16 (ucast f :: 32 word))
     OR scast (push_bit 8 (ucast g :: 32 word)) OR scast (ucast h :: 32 word)"

definition ReadShort :: "DataBuffer \<Rightarrow> (u16 ind \<times> DataBuffer) res" where
  "ReadShort b =
     (if IsValid b \<and> readOffset b + 2 \<le> bufferSize b
      then
        bindE (load_cell (data b) (readOffset b)) (\<lambda>x.
        bindE (load_cell (data b) (readOffset b + 1)) (\<lambda>y.
        Inr (do { x \<leftarrow> x; y \<leftarrow> y; Some (join16 x y) }, snd (MoveReadForward 2 b))))
      else Inr (Some 0, b))"

definition ReadInt :: "DataBuffer \<Rightarrow> (u32 ind \<times> DataBuffer) res" where
  "ReadInt b =
     (if IsValid b \<and> readOffset b + 4 \<le> bufferSize b
      then
        bindE (load_cell (data b) (readOffset b)) (\<lambda>x.
        bindE (load_cell (data b) (readOffset b + 1)) (\<lambda>y.
        bindE (load_cell (data b) (readOffset b + 2)) (\<lambda>z.
        bindE (load_cell (data b) (readOffset b + 3)) (\<lambda>u.
        Inr (do { x \<leftarrow> x; y \<leftarrow> y; z \<leftarrow> z; u \<leftarrow> u; Some (join32 x y z u) },
             snd (MoveReadForward 4 b))))))
      else Inr (Some 0, b))"

definition ReadLongLong :: "DataBuffer \<Rightarrow> (u64 ind \<times> DataBuffer) res" where
  "ReadLongLong b =
     (if IsValid b \<and> readOffset b + 8 \<le> bufferSize b
      then
        bindE (load_next b) (\<lambda>(x1, b).
        bindE (load_next b) (\<lambda>(x2, b).
        bindE (load_next b) (\<lambda>(x3, b).
        bindE (load_next b) (\<lambda>(x4, b).
        bindE (load_next b) (\<lambda>(x5, b).
        bindE (load_next b) (\<lambda>(x6, b).
        bindE (load_next b) (\<lambda>(x7, b).
        bindE (load_next b) (\<lambda>(x8, b).
        Inr (do { x1 \<leftarrow> x1; x2 \<leftarrow> x2; x3 \<leftarrow> x3; x4 \<leftarrow> x4; x5 \<leftarrow> x5; x6 \<leftarrow> x6; x7 \<leftarrow> x7; x8 \<leftarrow> x8;
                  Some (join64 x1 x2 x3 x4 x5 x6 x7 x8) }, b)))))))))
      else Inr (Some 0, b))"

definition WriteShort :: "u16 ind \<Rightarrow> DataBuffer \<Rightarrow> (bool \<times> DataBuffer) res" where
  "WriteShort val b =
     (if IsValid b \<and> writeOffset b + 2 \<le> bufferSize b
      then
        bindE (store_next (map_option (\<lambda>v. ucast (drop_bit 8 v)) val) b) (\<lambda>b.
        bindE (store_next (map_option (\<lambda>v. ucast (v AND 0xFF)) val) b) (\<lambda>b.
        Inr (True, b)))
      else Inr (False, b))"

definition WriteInt :: "u32 ind \<Rightarrow> DataBuffer \<Rightarrow> (bool \<times> DataBuffer) res" where
  "WriteInt val b =
     (if IsValid b \<and> writeOffset b + 4 \<le> bufferSize b
      then
        bindE (store_next (map_option (\<lambda>v. ucast (drop_bit 24 v AND 0xFF)) val) b) (\<lambda>b.
        bindE (store_next (map_option (\<lambda>v. ucast (drop_bit 16 v AND 0xFF)) val) b) (\<lambda>b.
        bindE (store_next (map_option (\<lambda>v. ucast (drop_bit 8 v AND 0xFF)) val) b) (\<lambda>b.
        bindE (store_next (map_option (\<lambda>v. ucast (v AND 0xFF)) val) b) (\<lambda>b.
        Inr (True, b)))))
      else Inr (False, b))"

definition WriteLongLong :: "u64 ind \<Rightarrow> DataBuffer \<Rightarrow> (bool \<times> DataBuffer) res" where
  "WriteLongLong val b =
     (if IsValid b \<and> writeOffset b + 8 \<le> bufferSize b
      then
        bindE (store_next (map_option (\<lambda>v. ucast (drop_bit 56 v AND 0xFF)) val) b) (\<lambda>b.
        bindE (store_next (map_option (\<lambda>v. ucast (drop_bit 48 v AND 0xFF)) val) b) (\<lambda>b.
        bindE (store_next (map_option (\<lambda>v. ucast (drop_bit 40 v AND 0xFF)) val) b) (\<lambda>b.
        bindE (store_next (map_option (\<lambda>v. ucast (drop_bit 32 v AND 0xFF)) val) b) (\<lambda>b.
        bindE (store_next (map_option (\<lambda>v. ucast (drop_bit 24 v AND 0xFF)) val) b) (\<lambda>b.
        bindE (store_next (map_option (\<lambda>v. ucast (drop_bit 16 v AND 0xFF)) val) b) (\<lambda>b.
        bindE (store_next (map_option (\<lambda>v. ucast (drop_bit 8 v AND 0xFF)) val) b) (\<lambda>b.
        bindE (store_next (map_option (\<lambda>v. ucast (v AND 0xFF)) val) b) (\<lambda>b.
        Inr (True, b)))))))))
      else Inr (False, b))"

text \<open>
  \<open>ReadBytes\<close> and \<open>ReadAllBytes\<close> copy to a \<open>dest\<close> the caller owns: the cells copied are part of
  the result, the caller stores them. \<open>WriteBytes\<close> copies from the array \<open>src\<close> points to.
\<close>

definition ReadBytes :: "size_t \<Rightarrow> DataBuffer \<Rightarrow> ((size_t \<times> cell list) \<times> DataBuffer) res" where
  "ReadBytes numToRead b =
     (let numRead = min numToRead (GetBytesLeftToRead b) in
      if numRead > 0
      then
        bindE (mem_load (data b) (readOffset b) numRead) (\<lambda>cs.
        Inr ((numRead, cs), snd (MoveReadForward numRead b)))
      else Inr ((numRead, []), b))"

definition ReadAllBytes :: "DataBuffer \<Rightarrow> (size_t \<times> cell list) res" where
  "ReadAllBytes b =
     (let ret = GetBytesWritten b in
      if ret > 0 then bindE (mem_load (data b) 0 ret) (\<lambda>cs. Inr (ret, cs)) else Inr (ret, []))"

definition WriteBytes ::
  "cell list option \<Rightarrow> size_t \<Rightarrow> DataBuffer \<Rightarrow> (size_t \<times> DataBuffer) res" where
  "WriteBytes src numToWrite b =
     (let numWritten = min numToWrite (GetBytesLeftForWrite b) in
      if numWritten > 0
      then
        bindE (mem_load src 0 numWritten) (\<lambda>cs.
        bindE (mem_store (data b) (writeOffset b) cs) (\<lambda>p.
        Inr (numWritten, snd (MoveWriteForward numWritten (b\<lparr>data := p\<rparr>)))))
      else Inr (numWritten, b))"

definition Realloc :: "heap \<Rightarrow> size_t \<Rightarrow> DataBuffer \<Rightarrow> (bool \<times> DataBuffer) res" where
  "Realloc ok len b =
     (if IsValid b
      then
        bindE (new_array ok len) (\<lambda>temp.
        let oldRead = readOffset b; b = ResetRead b in
        bindE (ReadBytes len b) (\<lambda>((n, cs), b).
        bindE (mem_store (Some temp) 0 cs) (\<lambda>temp.
        let b = b\<lparr>data := temp, bufferSize := len\<rparr>;
            b = b\<lparr>writeOffset := min (writeOffset b) (bufferSize b)\<rparr>;
            b = b\<lparr>readOffset := min (readOffset b) (bufferSize b)\<rparr>
        in Inr (IsValid b, b))))
      else Alloc ok len b)"

text \<open>The constructors. \<open>operator=\<close> takes whether \<open>this == &rhs\<close> as its \<open>same\<close>.\<close>

definition DataBuffer_new :: DataBuffer where
  "DataBuffer_new = \<lparr>data = None, bufferSize = 0, writeOffset = 0, readOffset = 0\<rparr>"

definition DataBuffer_len :: "heap \<Rightarrow> size_t \<Rightarrow> DataBuffer res" where
  "DataBuffer_len ok len = bindE (Alloc ok len DataBuffer_new) (\<lambda>(_, b). Inr b)"

definition copy_from :: "heap \<Rightarrow> DataBuffer \<Rightarrow> DataBuffer \<Rightarrow> DataBuffer res" where
  "copy_from ok rhs b =
     (let len = bufferSize rhs in
      if len > 0
      then
        bindE (Alloc ok len b) (\<lambda>(_, b).
        bindE (mem_load (data rhs) 0 len) (\<lambda>cs.
        bindE (mem_store (data b) 0 cs) (\<lambda>p.
        Inr (b\<lparr>data := p, writeOffset := writeOffset rhs, readOffset := readOffset rhs\<rparr>))))
      else Inr b)"

definition DataBuffer_copy :: "heap \<Rightarrow> DataBuffer \<Rightarrow> DataBuffer res" where
  "DataBuffer_copy ok rhs = copy_from ok rhs DataBuffer_new"

definition operator_assign :: "heap \<Rightarrow> bool \<Rightarrow> DataBuffer \<Rightarrow> DataBuffer \<Rightarrow> DataBuffer res" where
  "operator_assign ok same rhs b = (if \<not> same then copy_from ok rhs b else Inr b)"

section \<open>The class invariant\<close>

text \<open>
  The array is as long as \<open>_bufferSize\<close> says, and both offsets are inside it. \<open>readOffset\<close> may
  pass \<open>writeOffset\<close>: \<open>ReadByte\<close> is bounded by the size only.
\<close>

definition cells :: "DataBuffer \<Rightarrow> cell list" where
  "cells b = (case data b of None \<Rightarrow> [] | Some cs \<Rightarrow> cs)"

definition wf_buffer :: "DataBuffer \<Rightarrow> bool" where
  "wf_buffer b \<longleftrightarrow>
     length (cells b) = unat (bufferSize b) \<and> bufferSize b \<le> heap_maxreq \<and>
     writeOffset b \<le> bufferSize b \<and> readOffset b \<le> bufferSize b"

definition written :: "DataBuffer \<Rightarrow> cell list" where
  "written b = take (unat (writeOffset b)) (cells b)"

definition unread :: "DataBuffer \<Rightarrow> cell list" where
  "unread b = drop (unat (readOffset b)) (written b)"

definition room :: "DataBuffer \<Rightarrow> nat" where
  "room b = unat (bufferSize b) - unat (writeOffset b)"

definition append_cells :: "cell list \<Rightarrow> DataBuffer \<Rightarrow> DataBuffer" where
  "append_cells xs b =
     b\<lparr>data := map_option (\<lambda>cs. written b @ xs @ drop (unat (writeOffset b) + length xs) cs) (data b),
       writeOffset := writeOffset b + of_nat (length xs)\<rparr>"

definition advance :: "nat \<Rightarrow> DataBuffer \<Rightarrow> DataBuffer" where
  "advance n b = b\<lparr>readOffset := readOffset b + of_nat n\<rparr>"

lemma wf_offsets:
  assumes "wf_buffer b"
  shows "unat (bufferSize b) \<le> 4294967264" "unat (writeOffset b) \<le> unat (bufferSize b)"
    "unat (readOffset b) \<le> unat (bufferSize b)" "length (cells b) = unat (bufferSize b)"
  using assms by (simp_all add: wf_buffer_def word_le_nat_alt heap_maxreq_def)

lemma wf_data: "wf_buffer b \<Longrightarrow> data b = Some cs \<Longrightarrow> length cs = unat (bufferSize b)"
  by (simp add: wf_buffer_def cells_def)

lemma wf_null: "wf_buffer b \<Longrightarrow> data b = None \<Longrightarrow> bufferSize b = 0"
  by (simp add: wf_buffer_def cells_def unat_eq_0)

lemma length_written: "wf_buffer b \<Longrightarrow> length (written b) = unat (writeOffset b)"
  using wf_offsets by (simp add: written_def)

lemma length_unread: "wf_buffer b \<Longrightarrow> length (unread b) = unat (writeOffset b) - unat (readOffset b)"
  by (simp add: unread_def length_written)

lemma unat_left_to_read: "wf_buffer b \<Longrightarrow> unat (GetBytesLeftToRead b) = length (unread b)"
  by (auto simp: GetBytesLeftToRead_def length_unread unat_sub word_less_nat_alt word_le_nat_alt not_less)

lemma unat_left_for_write: "unat (GetBytesLeftForWrite b) = room b"
  by (auto simp: GetBytesLeftForWrite_def room_def unat_sub word_less_nat_alt word_le_nat_alt not_less)

lemma unat_plus_wf:
  assumes "wf_buffer b" "x \<le> bufferSize b" "n \<le> 8"
  shows "unat (x + of_nat n) = unat x + n"
proof -
  have "unat x \<le> 4294967264"
    using assms wf_offsets(1) by (force simp: word_le_nat_alt)
  then show ?thesis
    using assms(3) by (simp add: unat_word_ariths unat_of_nat take_bit_eq_mod)
qed
lemma fits_iff:
  assumes "wf_buffer b" "x \<le> bufferSize b" "n \<le> 8"
  shows "x + of_nat n \<le> bufferSize b \<longleftrightarrow> unat x + n \<le> unat (bufferSize b)"
  using unat_plus_wf [OF assms] by (simp add: word_le_nat_alt)

lemma wf_le: "wf_buffer b \<Longrightarrow> writeOffset b \<le> bufferSize b" "wf_buffer b \<Longrightarrow> readOffset b \<le> bufferSize b"
  by (simp_all add: wf_buffer_def)

lemma write_guard:
  "wf_buffer b \<Longrightarrow> n \<le> 8 \<Longrightarrow>
     writeOffset b + of_nat n \<le> bufferSize b \<longleftrightarrow> unat (writeOffset b) + n \<le> unat (bufferSize b)"
  by (simp add: fits_iff wf_le)

lemma read_guard:
  "wf_buffer b \<Longrightarrow> n \<le> 8 \<Longrightarrow>
     readOffset b + of_nat n \<le> bufferSize b \<longleftrightarrow> unat (readOffset b) + n \<le> unat (bufferSize b)"
  by (simp add: fits_iff wf_le)

lemma valid_if_room: "wf_buffer b \<Longrightarrow> 0 < room b \<Longrightarrow> IsValid b"
  using wf_null by (force simp: IsValid_def room_def)

subsection \<open>Appending to the write queue\<close>

lemma append_cells_simps [simp]:
  "bufferSize (append_cells xs b) = bufferSize b"
  "readOffset (append_cells xs b) = readOffset b"
  "IsValid (append_cells xs b) = IsValid b"
  by (simp_all add: append_cells_def IsValid_def)

lemma unat_append_offset:
  assumes "wf_buffer b" "length xs \<le> room b"
  shows "unat (writeOffset (append_cells xs b)) = unat (writeOffset b) + length xs"
proof -
  have "length xs < 2 ^ 32" "unat (writeOffset b) + length xs < 2 ^ 32"
    using assms(2) wf_offsets [OF assms(1)] by (simp_all add: room_def)
  then show ?thesis
    by (simp add: append_cells_def unat_word_ariths unat_of_nat take_bit_eq_mod)
qed

lemma cells_append:
  assumes "wf_buffer b" "length xs \<le> room b"
  shows "cells (append_cells xs b) = written b @ xs @ drop (unat (writeOffset b) + length xs) (cells b)"
  using assms wf_null [of b]
  by (cases "data b") (auto simp: cells_def append_cells_def room_def written_def)

lemma room_append: "wf_buffer b \<Longrightarrow> length xs \<le> room b \<Longrightarrow> room (append_cells xs b) = room b - length xs"
  by (simp add: room_def unat_append_offset)

lemma wf_append [intro]:
  assumes "wf_buffer b" "length xs \<le> room b"
  shows "wf_buffer (append_cells xs b)"
  using assms wf_offsets [OF assms(1)] unat_append_offset [OF assms]
  by (simp add: wf_buffer_def [of "append_cells xs b"] cells_append length_written room_def
      word_le_nat_alt heap_maxreq_def)

lemma written_append:
  "wf_buffer b \<Longrightarrow> length xs \<le> room b \<Longrightarrow> written (append_cells xs b) = written b @ xs"
  by (simp add: written_def [of "append_cells xs b"] unat_append_offset cells_append length_written)

lemma append_append:
  assumes "wf_buffer b" "length xs + length ys \<le> room b"
  shows "append_cells ys (append_cells xs b) = append_cells (xs @ ys) b"
proof -
  have w: "written (append_cells xs b) = written b @ xs"
    using assms by (simp add: written_append)
  have o: "unat (writeOffset (append_cells xs b)) = unat (writeOffset b) + length xs"
    using assms by (simp add: unat_append_offset)
  show ?thesis
    unfolding append_cells_def [of ys] w o
    using wf_offsets [OF assms(1)] length_written [OF assms(1)]
    by (cases "data b") (simp_all add: append_cells_def ac_simps)
qed

lemma append_cells_Nil [simp]: "wf_buffer b \<Longrightarrow> append_cells [] b = b"
  by (cases "data b") (simp_all add: append_cells_def written_def cells_def)

lemma store_next_append:
  assumes "wf_buffer b" "0 < room b"
  shows "store_next v b = Inr (append_cells [v] b)"
proof -
  obtain cs where cs: "data b = Some cs"
    using valid_if_room [OF assms] by (auto simp: IsValid_def)
  have i: "unat (writeOffset b) < length cs"
    using assms wf_data [OF assms(1) cs] by (simp add: room_def)
  then show ?thesis
    by (simp add: store_next_def cs store_cell_Some append_cells_def written_def cells_def
        upd_conv_take_nth_drop)
qed
text \<open>An integer write appends the big-endian bytes of the value, or fails and changes nothing.\<close>

lemma write_guard_room:
  assumes "wf_buffer b" "0 < n" "n \<le> 8"
  shows "(IsValid b \<and> writeOffset b + of_nat n \<le> bufferSize b) \<longleftrightarrow> n \<le> room b"
  using write_guard [OF assms(1,3)] valid_if_room [OF assms(1)] assms
  by (auto simp: room_def)

definition cells_of :: "('a \<Rightarrow> u8 list) \<Rightarrow> nat \<Rightarrow> 'a ind \<Rightarrow> cell list" where
  "cells_of enc n v = (case v of None \<Rightarrow> replicate n None | Some x \<Rightarrow> map Some (enc x))"

abbreviation "cells16 \<equiv> cells_of be16 2"
abbreviation "cells32 \<equiv> cells_of be32 4"
abbreviation "cells64 \<equiv> cells_of be64 8"

lemma length_cells_of [simp]: "length (cells16 v) = 2" "length (cells32 w) = 4" "length (cells64 x) = 8"
  by (simp_all add: cells_of_def split: option.split)

lemma cells_of_Some [simp]: "cells_of enc n (Some v) = map Some (enc v)"
  by (simp add: cells_of_def)

lemma store_list:
  assumes "wf_buffer b" "Suc (length xs) \<le> room b"
  shows "store_next v (append_cells xs b) = Inr (append_cells (xs @ [v]) b)"
  using assms by (simp add: store_next_append wf_append room_append append_append)

lemma cells16_eq:
  "cells16 val = [map_option (\<lambda>v. ucast (drop_bit 8 v)) val, map_option (\<lambda>v. ucast (v AND 0xFF)) val]"
  by (cases val) (simp_all add: cells_of_def be16_def byte_at_def byte_of_masked numeral_eq_Suc)

lemma cells32_eq:
  "cells32 val =
     [map_option (\<lambda>v. ucast (drop_bit 24 v AND 0xFF)) val, map_option (\<lambda>v. ucast (drop_bit 16 v AND 0xFF)) val,
      map_option (\<lambda>v. ucast (drop_bit 8 v AND 0xFF)) val, map_option (\<lambda>v. ucast (v AND 0xFF)) val]"
  by (cases val) (simp_all add: cells_of_def be32_def byte_at_def byte_of_masked numeral_eq_Suc)

lemma cells64_eq:
  "cells64 val =
     [map_option (\<lambda>v. ucast (drop_bit 56 v AND 0xFF)) val, map_option (\<lambda>v. ucast (drop_bit 48 v AND 0xFF)) val,
      map_option (\<lambda>v. ucast (drop_bit 40 v AND 0xFF)) val, map_option (\<lambda>v. ucast (drop_bit 32 v AND 0xFF)) val,
      map_option (\<lambda>v. ucast (drop_bit 24 v AND 0xFF)) val, map_option (\<lambda>v. ucast (drop_bit 16 v AND 0xFF)) val,
      map_option (\<lambda>v. ucast (drop_bit 8 v AND 0xFF)) val, map_option (\<lambda>v. ucast (v AND 0xFF)) val]"
  by (cases val) (simp_all add: cells_of_def be64_def byte_at_def byte_of_masked numeral_eq_Suc)

lemma WriteByte_eq:
  assumes "wf_buffer b"
  shows "WriteByte v b = Inr (if 1 \<le> room b then (True, append_cells [v] b) else (False, b))"
  using write_guard_room [OF assms, of 1] assms by (simp add: WriteByte_def store_next_append)

lemma WriteShort_eq:
  assumes "wf_buffer b"
  shows "WriteShort v b = Inr (if 2 \<le> room b then (True, append_cells (cells16 v) b) else (False, b))"
  using write_guard_room [OF assms, of 2] assms
  by (simp add: WriteShort_def store_next_append store_list cells16_eq)

lemma WriteInt_eq:
  assumes "wf_buffer b"
  shows "WriteInt v b = Inr (if 4 \<le> room b then (True, append_cells (cells32 v) b) else (False, b))"
  using write_guard_room [OF assms, of 4] assms
  by (simp add: WriteInt_def store_next_append store_list cells32_eq)

lemma WriteLongLong_eq:
  assumes "wf_buffer b"
  shows "WriteLongLong v b = Inr (if 8 \<le> room b then (True, append_cells (cells64 v) b) else (False, b))"
  using write_guard_room [OF assms, of 8] assms
  by (simp add: WriteLongLong_def store_next_append store_list cells64_eq)

text \<open>\<open>WriteBytes\<close> appends as much of the source as there is room for.\<close>

lemma unat_min: "unat (min a b) = min (unat a) (unat b)"
  by (simp add: min_def word_le_nat_alt)

lemma WriteBytes_eq:
  assumes wf: "wf_buffer b" and src: "unat n \<le> length xs"
  shows "WriteBytes (Some xs) n b =
     (let k = min (unat n) (room b) in Inr (of_nat k, append_cells (take k xs) b))"
proof -
  define k where "k = min n (GetBytesLeftForWrite b)"
  have k: "unat k = min (unat n) (room b)"
    by (simp add: k_def unat_min unat_left_for_write)
  show ?thesis
  proof (cases "k = 0")
    case True
    then show ?thesis
      using k wf by (simp add: WriteBytes_def Let_def flip: k_def)
  next
    case False
    then have pos: "0 < unat k" by (simp add: unat_gt_0)
    then obtain cs where cs: "data b = Some cs"
      using valid_if_room [OF wf] k by (auto simp: IsValid_def)
    have fit: "unat (writeOffset b) + unat k \<le> length cs"
      using pos k wf_data [OF wf cs] wf_offsets(2) [OF wf] by (auto simp: room_def min_def)
    have off: "unat (writeOffset b + k) = unat (writeOffset b) + unat k"
      using fit wf_data [OF wf cs] wf_offsets(1) [OF wf]
      by (simp add: unat_word_ariths)
    have le: "writeOffset b + k \<le> bufferSize b"
      using fit wf_data [OF wf cs] off by (simp add: word_le_nat_alt)
    have ld: "mem_load (Some xs) 0 k = Inr (take (unat k) xs)"
      using src k by (simp add: mem_load_Some)
    have st: "mem_store (data b) (writeOffset b) (take (unat k) xs) =
        Inr (Some (written b @ take (unat k) xs @ drop (unat (writeOffset b) + unat k) cs))"
      using fit src k by (simp add: cs mem_store_Some written_def cells_def)
    have len: "min (length xs) (unat k) = unat k"
      using src k by simp
    have app: "append_cells (take (unat k) xs) b =
        b\<lparr>data := Some (written b @ take (unat k) xs @ drop (unat (writeOffset b) + unat k) cs),
          writeOffset := writeOffset b + k\<rparr>"
      using len by (simp add: append_cells_def cs)
    have "WriteBytes (Some xs) n b = Inr (k, append_cells (take (unat k) xs) b)"
      unfolding WriteBytes_def Let_def k_def [symmetric] app
      using False ld st le by (simp add: word_gt_0 MoveWriteForward_def min_absorb1 Let_def)
    then show ?thesis
      unfolding k [symmetric] by (simp add: Let_def)
  qed
qed

lemma WriteBytes_fits:
  assumes "wf_buffer b" "unat n = length xs" "length xs \<le> room b"
  shows "WriteBytes (Some xs) n b = Inr (n, append_cells xs b)"
  using assms by (simp add: WriteBytes_eq Let_def flip: assms(2))

lemma WriteBytes_0 [simp]: "WriteBytes src 0 b = Inr (0, b)"
  by (simp add: WriteBytes_def)
subsection \<open>Taking from the read queue\<close>

lemma advance_simps [simp]:
  "bufferSize (advance n b) = bufferSize b"
  "writeOffset (advance n b) = writeOffset b"
  "data (advance n b) = data b"
  "cells (advance n b) = cells b"
  "written (advance n b) = written b"
  "room (advance n b) = room b"
  "advance 0 b = b"
  "ResetRead (advance n b) = ResetRead b"
  by (simp_all add: ResetRead_def advance_def cells_def written_def room_def)

lemma unat_advance:
  assumes "wf_buffer b" "n \<le> length (unread b)"
  shows "unat (readOffset (advance n b)) = unat (readOffset b) + n"
  using assms wf_offsets [OF assms(1)]
  by (cases "n = 0") (simp_all add: advance_def length_unread unat_word_ariths unat_of_nat take_bit_eq_mod)

lemma unread_advance:
  "wf_buffer b \<Longrightarrow> n \<le> length (unread b) \<Longrightarrow> unread (advance n b) = drop n (unread b)"
  by (simp add: unread_def unat_advance add.commute)

lemma wf_advance [intro]:
  assumes "wf_buffer b" "n \<le> length (unread b)"
  shows "wf_buffer (advance n b)"
  using assms wf_offsets [OF assms(1)] unat_advance [OF assms]
  by (cases "n = 0")
    (simp_all add: wf_buffer_def [of "advance n b"] length_unread word_le_nat_alt heap_maxreq_def)

lemma advance_advance: "advance m (advance n b) = advance (n + m) b"
  by (simp add: advance_def add.assoc)

lemma MoveReadForward_advance:
  assumes "wf_buffer b" "0 < unat n" "unat n \<le> length (unread b)"
  shows "snd (MoveReadForward n b) = advance (unat n) b"
  using unat_advance [OF assms(1,3)] assms wf_offsets [OF assms(1)]
  by (auto simp: MoveReadForward_def advance_def length_unread word_le_nat_alt min_def Let_def)

lemma load_unread:
  assumes "wf_buffer b" "unat i = unat (readOffset b) + k" "k < length (unread b)"
  shows "load_cell (data b) i = Inr (unread b ! k)"
proof -
  obtain cs where cs: "data b = Some cs"
    using assms by (cases "data b") (auto simp: unread_def written_def cells_def)
  then show ?thesis
    using assms wf_data [OF assms(1) cs] wf_offsets [OF assms(1)]
    by (simp add: load_cell_Some length_unread) (simp add: unread_def written_def cells_def)
qed

lemma unread_valid:
  assumes "wf_buffer b" "0 < length (unread b)"
  shows "IsValid b"
  using assms by (cases "data b") (auto simp: unread_def written_def cells_def IsValid_def)

lemma read_guard_unread:
  assumes "wf_buffer b" "n \<le> length (unread b)" "0 < n" "n \<le> 8"
  shows "IsValid b \<and> readOffset b + of_nat n \<le> bufferSize b"
  using read_guard [OF assms(1,4)] unread_valid [OF assms(1)] assms wf_offsets [OF assms(1)]
  by (auto simp: length_unread)

lemma load_next_unread:
  assumes "wf_buffer b" "unread b = x # xs"
  shows "load_next b = Inr (x, advance 1 b)"
  using load_unread [OF assms(1), of "readOffset b" 0] assms(2)
  by (simp add: load_next_def advance_def)

lemma ReadByte_unread:
  assumes "wf_buffer b" "unread b = x # xs"
  shows "ReadByte b = Inr (x, advance 1 b)"
  using read_guard_unread [OF assms(1), of 1] assms by (simp add: ReadByte_def load_next_unread)

lemma ReadShort_unread:
  assumes wf: "wf_buffer b" and "unread b = Some x # Some y # xs"
  shows "ReadShort b = Inr (Some (join16 x y), advance 2 b)"
  using read_guard_unread [OF wf, of 2] load_unread [OF wf, of "readOffset b" 0]
    load_unread [OF wf unat_plus_wf [OF wf wf_le(2) [OF wf], of 1], simplified]
    MoveReadForward_advance [OF wf, of 2] assms
  by (simp add: ReadShort_def)

lemma ReadInt_cells:
  assumes wf: "wf_buffer b" and "unread b = x # y # z # u # xs"
  shows "ReadInt b =
     Inr (do { x \<leftarrow> x; y \<leftarrow> y; z \<leftarrow> z; u \<leftarrow> u; Some (join32 x y z u) }, advance 4 b)"
  using read_guard_unread [OF wf, of 4] load_unread [OF wf, of "readOffset b" 0]
    load_unread [OF wf unat_plus_wf [OF wf wf_le(2) [OF wf], of 1], simplified]
    load_unread [OF wf unat_plus_wf [OF wf wf_le(2) [OF wf], of 2], simplified]
    load_unread [OF wf unat_plus_wf [OF wf wf_le(2) [OF wf], of 3], simplified]
    MoveReadForward_advance [OF wf, of 4] assms
  by (simp add: ReadInt_def)

lemma join16_bytes: "join16 (byte_at 8 v) (byte_at 0 v) = v"
  by (rule bit_word_eqI) (auto simp: join16_def bit_simps)

lemma join32_bytes: "join32 (byte_at 24 v) (byte_at 16 v) (byte_at 8 v) (byte_at 0 v) = v"
  using push_byte_at [of 0 v]
  by (simp add: join32_def push_byte_at byte_masks flip: bit.conj_disj_distrib)

text \<open>What \<open>ReadLongLong\<close> returns for the bytes of \<open>v\<close>: the upper half is lost when bit 31 is set.\<close>

definition sext31 :: "u64 \<Rightarrow> u64" where
  "sext31 v = (if bit v 31 then v OR 0xFFFFFFFF00000000 else v)"

lemma join64_bytes:
  "join64 (byte_at 56 v) (byte_at 48 v) (byte_at 40 v) (byte_at 32 v)
     (byte_at 24 v) (byte_at 16 v) (byte_at 8 v) (byte_at 0 v) = sext31 v"
proof -
  define s where "s = (if bit v 31 then push_bit 32 (mask 32) else (0 :: u64))"
  have "join64 (byte_at 56 v) (byte_at 48 v) (byte_at 40 v) (byte_at 32 v)
      (byte_at 24 v) (byte_at 16 v) (byte_at 8 v) (byte_at 0 v) =
    (v AND (byte_mask 56 OR byte_mask 48 OR byte_mask 40 OR byte_mask 32 OR
      byte_mask 24 OR byte_mask 16 OR byte_mask 8 OR byte_mask 0)) OR s"
    using sext_byte_at [of 0 v]
    by (simp add: join64_def push_byte_at sext_byte_at sext_byte_at_24 s_def bit.conj_disj_distrib
        or.assoc or.commute or.left_commute)
  then show ?thesis
    by (simp add: byte_masks s_def sext31_def mask_eq_exp_minus_1)
qed

lemma ReadShort_be16:
  "wf_buffer b \<Longrightarrow> unread b = map Some (be16 v) @ xs \<Longrightarrow> ReadShort b = Inr (Some v, advance 2 b)"
  by (simp add: be16_def ReadShort_unread join16_bytes)

lemma ReadInt_be32:
  "wf_buffer b \<Longrightarrow> unread b = map Some (be32 v) @ xs \<Longrightarrow> ReadInt b = Inr (Some v, advance 4 b)"
  by (simp add: be32_def ReadInt_cells join32_bytes)

lemma load_nth:
  assumes "wf_buffer b" "unread b = xs @ x # ys"
  shows "load_next (advance (length xs) b) = Inr (x, advance (Suc (length xs)) b)"
proof -
  have "unread (advance (length xs) b) = x # ys"
    using assms by (simp add: unread_advance)
  then show ?thesis
    using load_next_unread [of "advance (length xs) b"] assms
    by (simp add: wf_advance advance_advance)
qed

lemma advance_8: "advance (Suc (Suc (Suc (Suc (Suc (Suc (Suc (Suc 0)))))))) b = advance 8 b"
  by (simp add: numeral_eq_Suc)

lemma ReadLongLong_be64:
  assumes wf: "wf_buffer b" and un: "unread b = map Some (be64 v) @ xs"
  shows "ReadLongLong b = Inr (Some (sext31 v), advance 8 b)"
  using read_guard_unread [OF wf, of 8] un
    load_nth [OF wf, of "[]"] load_nth [OF wf, of "[_]"] load_nth [OF wf, of "[_, _]"]
    load_nth [OF wf, of "[_, _, _]"] load_nth [OF wf, of "[_, _, _, _]"]
    load_nth [OF wf, of "[_, _, _, _, _]"] load_nth [OF wf, of "[_, _, _, _, _, _]"]
    load_nth [OF wf, of "[_, _, _, _, _, _, _]"]
  by (simp add: ReadLongLong_def be64_def join64_bytes advance_8)
lemma ReadBytes_eq:
  assumes wf: "wf_buffer b"
  shows "ReadBytes n b =
     (let k = min (unat n) (length (unread b)) in Inr ((of_nat k, take k (unread b)), advance k b))"
proof -
  define k where "k = min n (GetBytesLeftToRead b)"
  have k: "min (unat n) (length (unread b)) = unat k"
    by (simp add: k_def unat_min unat_left_to_read wf)
  have "ReadBytes n b = Inr ((k, take (unat k) (unread b)), advance (unat k) b)"
  proof (cases "k = 0")
    case True
    then show ?thesis by (simp add: ReadBytes_def Let_def flip: k_def)
  next
    case False
    then have pos: "0 < unat k" by (simp add: unat_gt_0)
    have le: "unat k \<le> length (unread b)"
      using k by linarith
    obtain cs where cs: "data b = Some cs"
      using unread_valid [OF wf] pos le by (force simp: IsValid_def)
    have un: "unread b = drop (unat (readOffset b)) (take (unat (writeOffset b)) cs)"
      by (simp add: unread_def written_def cells_def cs)
    have "mem_load (data b) (readOffset b) k = Inr (take (unat k) (unread b))"
      using le wf_offsets [OF wf] wf_data [OF wf cs] pos
      by (simp add: cs mem_load_Some un length_unread [OF wf] drop_take min_absorb1)
    then show ?thesis
      using False MoveReadForward_advance [OF wf pos le]
      by (simp add: ReadBytes_def Let_def word_gt_0 flip: k_def)
  qed
  then show ?thesis
    by (simp add: k Let_def)
qed

subsection \<open>Replacing the array\<close>

definition fresh :: "size_t \<Rightarrow> DataBuffer" where
  "fresh len = \<lparr>data = Some (replicate (unat len) None), bufferSize = len, writeOffset = 0, readOffset = 0\<rparr>"

definition resized :: "size_t \<Rightarrow> DataBuffer \<Rightarrow> DataBuffer" where
  "resized len b =
     (let k = min (unat len) (length (written b)) in
      \<lparr>data = Some (take k (written b) @ replicate (unat len - k) None), bufferSize = len,
       writeOffset = of_nat k, readOffset = of_nat k\<rparr>)"

lemma Alloc_eq: "Alloc ok len b = bindE (new_array ok len) (\<lambda>_. Inr (True, fresh len))"
  by (simp add: Alloc_def Cleanup_def Reset_def IsValid_def fresh_def new_array_def)

lemma wf_fresh: "len \<le> heap_maxreq \<Longrightarrow> wf_buffer (fresh len)"
  by (simp add: wf_buffer_def fresh_def cells_def)

lemma fresh_simps [simp]:
  "bufferSize (fresh len) = len" "written (fresh len) = []" "unread (fresh len) = []"
  "room (fresh len) = unat len" "IsValid (fresh len)" "readOffset (fresh len) = 0"
  "writeOffset (fresh len) = 0"
  by (simp_all add: fresh_def written_def unread_def room_def IsValid_def)

lemma resized_simps [simp]:
  "bufferSize (resized len b) = len" "IsValid (resized len b)"
  by (simp_all add: resized_def IsValid_def Let_def)

lemma unat_min_written:
  "unat (of_nat (min (unat (len :: size_t)) n) :: size_t) = min (unat len) n"
proof -
  have "min (unat len) n \<le> unat len" by simp
  also have "\<dots> < 2 ^ LENGTH(32)" by (rule unsigned_less)
  finally show ?thesis by (simp add: unat_of_nat take_bit_eq_mod)
qed

lemma resized_fields:
  "cells (resized len b) =
     take (unat len) (written b) @ replicate (unat len - min (unat len) (length (written b))) None"
  "unat (writeOffset (resized len b)) = min (unat len) (length (written b))"
  "unat (readOffset (resized len b)) = min (unat len) (length (written b))"
  by (simp_all add: resized_def cells_def Let_def unat_min_written)

lemma wf_resized: "len \<le> heap_maxreq \<Longrightarrow> wf_buffer (resized len b)"
  by (simp add: wf_buffer_def resized_fields word_le_nat_alt)

lemma written_resized: "written (resized len b) = take (unat len) (written b)"
  by (simp add: written_def [of "resized len b"] resized_fields)

lemma unread_resized: "unread (resized len b) = []"
  by (simp add: unread_def written_resized resized_fields)

lemma room_resized: "room (resized len b) = unat len - length (written b)"
  by (simp add: room_def resized_fields)

lemma Realloc_eq:
  assumes wf: "wf_buffer b"
  shows "Realloc ok len b = bindE (new_array ok len) (\<lambda>_. Inr (True, resized len b))"
proof (cases "IsValid b")
  case False
  then have "bufferSize b = 0" and "cells b = []"
    using wf_null [OF wf] by (simp_all add: IsValid_def cells_def)
  then have "resized len b = fresh len"
    by (simp add: resized_def fresh_def written_def)
  then show ?thesis
    using False by (simp add: Realloc_def Alloc_eq)
next
  case True
  define b0 where "b0 = ResetRead b"
  define k where "k = min (unat len) (length (written b))"
  have wf0: "wf_buffer b0"
    using wf by (simp add: wf_buffer_def b0_def ResetRead_def cells_def)
  have un0: "unread b0 = written b"
    by (simp add: unread_def written_def b0_def ResetRead_def cells_def)
  have read: "ReadBytes len b0 = Inr ((of_nat k, take k (written b)), advance k b0)"
    unfolding ReadBytes_eq [OF wf0] un0 k_def Let_def ..
  have k: "unat (of_nat k :: size_t) = k" "k \<le> unat len" "k \<le> length (written b)"
    by (simp_all add: k_def unat_min_written)
  have store: "mem_store (Some (replicate (unat len) None)) 0 (take k (written b)) =
      Inr (Some (take k (written b) @ replicate (unat len - k) None))"
    using k by (simp add: mem_store_Some)
  have w: "min (writeOffset b) len = of_nat k"
    using k length_written [OF wf] by (simp add: k_def min_def word_le_nat_alt)
  have adv: "advance k b0 = b\<lparr>readOffset := of_nat k\<rparr>"
    by (simp add: advance_def b0_def ResetRead_def)
  have r: "min (of_nat k) len = (of_nat k :: size_t)"
    using k by (simp add: min_def word_le_nat_alt)
  show ?thesis
    using True read [unfolded adv, unfolded b0_def] store w r
    by (simp add: Realloc_def new_array_def Let_def IsValid_def resized_def flip: k_def)
qed

lemma copy_from_eq:
  assumes "wf_buffer rhs"
  shows "copy_from ok rhs b =
     (if bufferSize rhs = 0 then Inr b else bindE (new_array ok (bufferSize rhs)) (\<lambda>_. Inr rhs))"
proof (cases "data rhs")
  case None
  then show ?thesis using wf_null [OF assms] by (simp add: copy_from_def)
next
  case (Some cs)
  then show ?thesis
    using wf_data [OF assms Some]
    by (simp add: copy_from_def Alloc_eq word_gt_0 new_array_def mem_load_Some mem_store_Some fresh_def Let_def)
qed
subsection \<open>Every operation keeps the invariant and stays inside the array\<close>

definition readable :: "nat \<Rightarrow> DataBuffer \<Rightarrow> DataBuffer \<Rightarrow> bool" where
  "readable k b b' \<longleftrightarrow> wf_buffer b' \<and> ResetRead b' = ResetRead b \<and>
     unat (readOffset b') + k \<le> unat (bufferSize b')"

lemma ResetRead_idem [simp]: "ResetRead (b\<lparr>readOffset := r\<rparr>) = ResetRead b"
  by (simp add: ResetRead_def)

lemma ResetRead_cong:
  assumes "ResetRead b' = ResetRead b"
  shows "data b' = data b" "bufferSize b' = bufferSize b" "writeOffset b' = writeOffset b"
    "cells b' = cells b" "written b' = written b" "room b' = room b"
  using assms by (cases b; cases b'; simp add: ResetRead_def cells_def written_def room_def)+

lemma wf_set_read: "wf_buffer b \<Longrightarrow> r \<le> bufferSize b \<Longrightarrow> wf_buffer (b\<lparr>readOffset := r\<rparr>)"
  by (simp add: wf_buffer_def cells_def)

lemma wf_set_write: "wf_buffer b \<Longrightarrow> w \<le> bufferSize b \<Longrightarrow> wf_buffer (b\<lparr>writeOffset := w\<rparr>)"
  by (simp add: wf_buffer_def cells_def)

lemma load_cell_yields:
  assumes "wf_buffer b" "unat i < unat (bufferSize b)"
  shows "yields E (\<lambda>c. c \<in> set (cells b)) (load_cell (data b) i)"
  using assms wf_null [OF assms(1)] wf_data [OF assms(1)]
  by (cases "data b") (auto simp: load_cell_Some cells_def)

lemma load_next_yields:
  assumes "readable (Suc k) b b'"
  shows "yields E (\<lambda>(_, b''). readable k b b'') (load_next b')"
  unfolding load_next_def
proof (rule yields_bindE)
  from assms have wf: "wf_buffer b'" and le: "unat (readOffset b') + Suc k \<le> unat (bufferSize b')"
    by (simp_all add: readable_def)
  show "yields E (\<lambda>_. True) (load_cell (data b') (readOffset b'))"
    by (rule yields_mono [OF load_cell_yields [OF wf, where E = E]]) (use le in auto)
  have r: "unat (readOffset b' + 1) = unat (readOffset b') + 1"
    using unat_plus_wf [OF wf wf_le(2) [OF wf], of 1] by simp
  then show "yields E (\<lambda>(_, b''). readable k b b'') (Inr (v, b'\<lparr>readOffset := readOffset b' + 1\<rparr>))" for v
    using assms le by (simp add: readable_def wf_set_read word_le_nat_alt)
qed

lemma readable_intro:
  "wf_buffer b \<Longrightarrow> n \<le> 8 \<Longrightarrow> readOffset b + of_nat n \<le> bufferSize b \<Longrightarrow> readable n b b"
  by (simp add: readable_def read_guard)

lemma MoveReadForward_wf:
  "wf_buffer b \<Longrightarrow> wf_buffer (snd (MoveReadForward n b)) \<and> ResetRead (snd (MoveReadForward n b)) = ResetRead b"
  by (auto simp: MoveReadForward_def Let_def wf_buffer_def cells_def intro: min.coboundedI2)

lemma MoveReadBackward_wf:
  "wf_buffer b \<Longrightarrow> wf_buffer (snd (MoveReadBackward n b)) \<and> ResetRead (snd (MoveReadBackward n b)) = ResetRead b"
  by (auto simp: MoveReadBackward_def Let_def wf_buffer_def cells_def)

lemma MoveWriteForward_wf: "wf_buffer b \<Longrightarrow> wf_buffer (snd (MoveWriteForward n b))"
  by (simp add: MoveWriteForward_def Let_def wf_set_write)

lemma MoveWriteBackward_wf: "wf_buffer b \<Longrightarrow> wf_buffer (snd (MoveWriteBackward n b))"
  by (auto simp: MoveWriteBackward_def Let_def wf_set_write)

abbreviation "read_ok b \<equiv> \<lambda>(_, b'). wf_buffer b' \<and> ResetRead b' = ResetRead b"

lemma readable_0: "readable k b b' \<Longrightarrow> wf_buffer b' \<and> ResetRead b' = ResetRead b"
  by (simp add: readable_def)

lemma ReadByte_yields [yields]:
  assumes "wf_buffer b"
  shows "yields E (read_ok b) (ReadByte b)"
  unfolding ReadByte_def
proof (rule yields_if)
  assume "IsValid b \<and> readOffset b + 1 \<le> bufferSize b"
  then have "readable (Suc 0) b b" using readable_intro [of b 1] assms by simp
  from load_next_yields [OF this, of E] show "yields E (read_ok b) (load_next b)"
    by (rule yields_mono) (auto dest: readable_0)
qed (simp add: assms)

lemma load_at_yields:
  assumes "wf_buffer b" "IsValid b \<and> readOffset b + of_nat n \<le> bufferSize b" "k < n" "n \<le> 8"
  shows "yields E (\<lambda>_. True) (load_cell (data b) (readOffset b + of_nat k))"
proof -
  have "unat (readOffset b) + n \<le> unat (bufferSize b)"
    using read_guard [OF assms(1,4)] assms(1,2) by simp
  then have "unat (readOffset b + of_nat k) < unat (bufferSize b)"
    using unat_plus_wf [OF assms(1) wf_le(2), of k] assms by simp
  from load_cell_yields [OF assms(1) this, of E] show ?thesis
    by (rule yields_mono) auto
qed

lemma ReadShort_yields [yields]:
  assumes "wf_buffer b"
  shows "yields E (read_ok b) (ReadShort b)"
  unfolding ReadShort_def
proof (rule yields_if)
  assume g: "IsValid b \<and> readOffset b + 2 \<le> bufferSize b"
  show "yields E (read_ok b)
      (bindE (load_cell (data b) (readOffset b)) (\<lambda>x.
       bindE (load_cell (data b) (readOffset b + 1)) (\<lambda>y.
       Inr (do { x \<leftarrow> x; y \<leftarrow> y; Some (join16 x y) }, snd (MoveReadForward 2 b)))))"
    using load_at_yields [OF assms, of 2 0 E] load_at_yields [OF assms, of 2 1 E] g
    by (auto intro!: yields_bindE simp: MoveReadForward_wf assms)
qed (simp add: assms)

lemma ReadInt_yields [yields]:
  assumes "wf_buffer b"
  shows "yields E (read_ok b) (ReadInt b)"
proof (cases "IsValid b \<and> readOffset b + 4 \<le> bufferSize b")
  case True
  then show ?thesis
    using load_at_yields [OF assms, of 4 0 E] load_at_yields [OF assms, of 4 1 E]
      load_at_yields [OF assms, of 4 2 E] load_at_yields [OF assms, of 4 3 E]
    by (auto simp: ReadInt_def intro!: yields_bindE simp: MoveReadForward_wf assms)
qed (auto simp: ReadInt_def assms)

lemma ReadLongLong_yields [yields]:
  assumes "wf_buffer b"
  shows "yields E (read_ok b) (ReadLongLong b)"
proof (cases "IsValid b \<and> readOffset b + 8 \<le> bufferSize b")
  case True
  have step: "yields E P (bindE (load_next b') f)"
    if "readable (Suc k) b b'" "\<And>v b''. readable k b b'' \<Longrightarrow> yields E P (f (v, b''))"
    for b' k P and f :: "cell \<times> DataBuffer \<Rightarrow> (u64 ind \<times> DataBuffer) res"
    by (rule yields_bindE [OF load_next_yields [OF that(1)]]) (auto intro: that(2))
  from True have r: "readable (Suc (Suc (Suc (Suc (Suc (Suc (Suc (Suc 0)))))))) b b"
    using readable_intro [OF assms, of 8] by (simp add: numeral_eq_Suc)
  show ?thesis
    unfolding ReadLongLong_def using True r
    by simp ((rule step, assumption, simp)+, simp add: readable_def)
qed (auto simp: ReadLongLong_def assms)
abbreviation "write_ok \<equiv> \<lambda>(_, b'). wf_buffer b'"

lemma write_yields [yields]:
  assumes "wf_buffer b"
  shows "yields E write_ok (WriteByte v8 b)" "yields E write_ok (WriteShort v16 b)"
    "yields E write_ok (WriteInt v32 b)" "yields E write_ok (WriteLongLong v64 b)"
  using assms by (auto simp: WriteByte_eq WriteShort_eq WriteInt_eq WriteLongLong_eq)

lemma WriteBytes_yields [yields]:
  "wf_buffer b \<Longrightarrow> unat n \<le> length xs \<Longrightarrow> yields E write_ok (WriteBytes (Some xs) n b)"
  by (auto simp: WriteBytes_eq Let_def)

lemma ReadBytes_yields [yields]: "wf_buffer b \<Longrightarrow> yields E (read_ok b) (ReadBytes n b)"
  by (auto simp: ReadBytes_eq Let_def)

lemma new_array_then [yields]:
  assumes "E BadAlloc" and "len \<le> heap_maxreq \<Longrightarrow> yields E P r"
  shows "yields E P (bindE (new_array ok len) (\<lambda>_. r))"
  using assms by (simp add: new_array_def)

lemma Alloc_yields [yields]: "E BadAlloc \<Longrightarrow> yields E write_ok (Alloc ok len b)"
  by (auto simp: Alloc_eq intro!: yields wf_fresh)

lemma Realloc_yields [yields]: "E BadAlloc \<Longrightarrow> wf_buffer b \<Longrightarrow> yields E write_ok (Realloc ok len b)"
  by (auto simp: Realloc_eq intro!: yields wf_resized)

lemma copy_from_yields [yields]:
  "E BadAlloc \<Longrightarrow> wf_buffer rhs \<Longrightarrow> wf_buffer b \<Longrightarrow> yields E wf_buffer (copy_from ok rhs b)"
  by (auto simp: copy_from_eq intro!: yields)

lemma bufferSize_new [simp]: "bufferSize DataBuffer_new = 0"
  by (simp add: DataBuffer_new_def)

lemma wf_new [simp]: "wf_buffer DataBuffer_new"
  by (simp add: wf_buffer_def DataBuffer_new_def cells_def)

lemma wf_reset: "wf_buffer b \<Longrightarrow> wf_buffer (Reset b)" "wf_buffer b \<Longrightarrow> wf_buffer (ResetRead b)"
  by (simp_all add: wf_buffer_def Reset_def ResetRead_def cells_def)

section \<open>Call sequences\<close>

text \<open>
  The calls that change a buffer, and \<open>ReadAllBytes\<close>, with their arguments; \<open>CallAssign\<close> is given
  whether the right-hand side is the buffer itself.
\<close>

datatype buffer_call =
    CallAlloc size_t | CallRealloc size_t | CallCleanup | CallResetRead | CallReset
  | CallReadByte | CallReadShort | CallReadInt | CallReadLongLong | CallReadBytes size_t
  | CallReadAllBytes
  | CallWriteByte "u8 ind" | CallWriteShort "u16 ind" | CallWriteInt "u32 ind"
  | CallWriteLongLong "u64 ind" | CallWriteBytes "cell list"
  | CallMoveReadForward size_t | CallMoveReadBackward size_t
  | CallMoveWriteForward size_t | CallMoveWriteBackward size_t
  | CallAssign bool DataBuffer

definition object :: "('a \<times> DataBuffer) res \<Rightarrow> DataBuffer res" where
  "object r = bindE r (\<lambda>(_, b). Inr b)"

fun exec_call :: "heap \<Rightarrow> buffer_call \<Rightarrow> DataBuffer \<Rightarrow> DataBuffer res" where
  "exec_call ok (CallAlloc n) b = object (Alloc ok n b)"
| "exec_call ok (CallRealloc n) b = object (Realloc ok n b)"
| "exec_call ok CallCleanup b = Inr (Cleanup b)"
| "exec_call ok CallResetRead b = Inr (ResetRead b)"
| "exec_call ok CallReset b = Inr (Reset b)"
| "exec_call ok CallReadByte b = object (ReadByte b)"
| "exec_call ok CallReadShort b = object (ReadShort b)"
| "exec_call ok CallReadInt b = object (ReadInt b)"
| "exec_call ok CallReadLongLong b = object (ReadLongLong b)"
| "exec_call ok (CallReadBytes n) b = object (ReadBytes n b)"
| "exec_call ok CallReadAllBytes b = bindE (ReadAllBytes b) (\<lambda>_. Inr b)"
| "exec_call ok (CallWriteByte v) b = object (WriteByte v b)"
| "exec_call ok (CallWriteShort v) b = object (WriteShort v b)"
| "exec_call ok (CallWriteInt v) b = object (WriteInt v b)"
| "exec_call ok (CallWriteLongLong v) b = object (WriteLongLong v b)"
| "exec_call ok (CallWriteBytes xs) b = object (WriteBytes (Some xs) (of_nat (length xs)) b)"
| "exec_call ok (CallMoveReadForward n) b = Inr (snd (MoveReadForward n b))"
| "exec_call ok (CallMoveReadBackward n) b = Inr (snd (MoveReadBackward n b))"
| "exec_call ok (CallMoveWriteForward n) b = Inr (snd (MoveWriteForward n b))"
| "exec_call ok (CallMoveWriteBackward n) b = Inr (snd (MoveWriteBackward n b))"
| "exec_call ok (CallAssign same rhs) b = operator_assign ok same rhs b"

fun exec_calls :: "heap \<Rightarrow> buffer_call list \<Rightarrow> DataBuffer \<Rightarrow> DataBuffer res" where
  "exec_calls ok [] b = Inr b"
| "exec_calls ok (c # cs) b = bindE (exec_call ok c b) (exec_calls ok cs)"

fun call_ok :: "buffer_call \<Rightarrow> bool" where
  "call_ok (CallAssign same rhs) = wf_buffer rhs"
| "call_ok _ = True"

text \<open>
  \<open>Cleanup\<close> leaves a size without an array, which an allocation mends. Until then \<open>WriteBytes\<close> and
  whatever moves the write offset must not be called.
\<close>

fun needs_array :: "buffer_call \<Rightarrow> bool" where
  "needs_array (CallWriteBytes xs) = True"
| "needs_array (CallMoveWriteForward n) = True"
| "needs_array (CallMoveWriteBackward n) = True"
| "needs_array _ = False"

fun freed_by :: "buffer_call \<Rightarrow> bool \<Rightarrow> bool" where
  "freed_by CallCleanup freed = True"
| "freed_by (CallAlloc n) freed = False"
| "freed_by (CallRealloc n) freed = False"
| "freed_by (CallAssign same rhs) freed \<longleftrightarrow> freed \<and> (same \<or> bufferSize rhs = 0)"
| "freed_by _ freed = freed"

fun calls_ok :: "bool \<Rightarrow> buffer_call list \<Rightarrow> bool" where
  "calls_ok freed [] \<longleftrightarrow> True"
| "calls_ok freed (c # cs) \<longleftrightarrow> call_ok c \<and> \<not> (freed \<and> needs_array c) \<and> calls_ok (freed_by c freed) cs"

definition cleaned :: "DataBuffer \<Rightarrow> bool" where
  "cleaned b \<longleftrightarrow> data b = None \<and> writeOffset b = 0 \<and> readOffset b = 0"

lemma object_yields: "yields E (\<lambda>(_, b). P b) r \<Longrightarrow> yields E P (object r)"
  by (cases r) (auto simp: object_def)

lemma object_read_yields: "yields E (read_ok b) r \<Longrightarrow> yields E wf_buffer (object r)"
  by (cases r) (auto simp: object_def)

lemmas object_outcomes =
  object_read_yields [OF ReadByte_yields] object_read_yields [OF ReadShort_yields]
  object_read_yields [OF ReadInt_yields] object_read_yields [OF ReadLongLong_yields]
  object_read_yields [OF ReadBytes_yields] object_yields [OF Alloc_yields]
  object_yields [OF Realloc_yields] object_yields [OF write_yields(1)]
  object_yields [OF write_yields(2)] object_yields [OF write_yields(3)]
  object_yields [OF write_yields(4)] object_yields [OF WriteBytes_yields]

lemma ReadAllBytes_yields:
  assumes "wf_buffer b"
  shows "yields E (\<lambda>(n, cs). n = writeOffset b \<and> cs = written b) (ReadAllBytes b)"
  using assms wf_data [OF assms] wf_null [OF assms] wf_offsets [OF assms]
  by (cases "data b")
    (auto simp: ReadAllBytes_def GetBytesWritten_def Let_def word_gt_0 mem_load_Some written_def cells_def
      unat_eq_0)

lemma exec_call_yields:
  assumes "call_ok c" "c \<noteq> CallCleanup" "wf_buffer b" "E BadAlloc"
  shows "yields E wf_buffer (exec_call ok c b)"
proof (cases c)
  case CallReadAllBytes
  then show ?thesis
    using assms by (auto intro!: yields_bindE [OF ReadAllBytes_yields])
next
  case (CallWriteBytes xs)
  then show ?thesis
    using assms by (auto intro!: object_outcomes simp: unat_of_nat take_bit_eq_mod)
qed (use assms in \<open>auto intro!: object_outcomes copy_from_yields
       simp: wf_reset MoveReadForward_wf MoveReadBackward_wf MoveWriteForward_wf MoveWriteBackward_wf
         operator_assign_def\<close>)

text \<open>A buffer that is usable, or one without an array.\<close>

definition buffer_at :: "bool \<Rightarrow> DataBuffer \<Rightarrow> bool" where
  "buffer_at freed b \<longleftrightarrow> (if freed then cleaned b else wf_buffer b)"

lemma freed_assign:
  assumes "cleaned b" "wf_buffer rhs" "E BadAlloc"
  shows "yields E (buffer_at (same \<or> bufferSize rhs = 0)) (operator_assign ok same rhs b)"
  using assms by (auto simp: operator_assign_def buffer_at_def copy_from_eq intro!: yields)

lemma exec_call_freed:
  assumes "call_ok c" "\<not> needs_array c" "cleaned b" "E BadAlloc"
  shows "yields E (buffer_at (freed_by c True)) (exec_call ok c b)"
proof (cases c)
  case (CallAlloc n)
  then show ?thesis using Alloc_yields [of E ok n b] assms(4) by (auto simp: buffer_at_def [abs_def] intro!: object_outcomes)
next
  case (CallRealloc n)
  then show ?thesis
    using assms(3,4) by (auto simp: buffer_at_def [abs_def] Realloc_def IsValid_def cleaned_def intro!: object_outcomes)
next
  case (CallAssign same rhs)
  then show ?thesis using freed_assign [of b rhs E same ok] assms(1,3,4) by simp
qed (use assms in \<open>auto simp: buffer_at_def cleaned_def object_def Cleanup_def Reset_def ResetRead_def IsValid_def Let_def
    ReadByte_def ReadShort_def ReadInt_def ReadLongLong_def ReadBytes_def ReadAllBytes_def GetBytesLeftToRead_def GetBytesWritten_def
    WriteByte_def WriteShort_def WriteInt_def WriteLongLong_def MoveReadForward_def MoveReadBackward_def min_def word_gt_0\<close>)

lemma exec_call_outcome:
  assumes "call_ok c" "\<not> (freed \<and> needs_array c)" "buffer_at freed b" "E BadAlloc"
  shows "yields E (buffer_at (freed_by c freed)) (exec_call ok c b)"
proof (cases freed)
  case True
  then show ?thesis using exec_call_freed [of c b E ok] assms by (simp add: buffer_at_def)
next
  case False
  then have "freed_by c freed \<longleftrightarrow> c = CallCleanup" by (cases c) simp_all
  then show ?thesis
    using exec_call_yields [of c b E ok] assms False
    by (cases "c = CallCleanup") (auto simp: buffer_at_def [abs_def] cleaned_def Cleanup_def Reset_def)
qed

section \<open>The buffer as a queue of typed values\<close>

datatype item = IByte u8 | IShort u16 | IInt u32 | ILongLong u64

fun item_cells :: "item \<Rightarrow> cell list" where
  "item_cells (IByte v) = [Some v]"
| "item_cells (IShort v) = map Some (be16 v)"
| "item_cells (IInt v) = map Some (be32 v)"
| "item_cells (ILongLong v) = map Some (be64 v)"

fun write_item :: "item \<Rightarrow> DataBuffer \<Rightarrow> (bool \<times> DataBuffer) res" where
  "write_item (IByte v) b = WriteByte (Some v) b"
| "write_item (IShort v) b = WriteShort (Some v) b"
| "write_item (IInt v) b = WriteInt (Some v) b"
| "write_item (ILongLong v) b = WriteLongLong (Some v) b"

text \<open>\<open>read_item\<close> reads a value of the same type as its argument.\<close>

fun read_item :: "item \<Rightarrow> DataBuffer \<Rightarrow> (item ind \<times> DataBuffer) res" where
  "read_item (IByte _) b = bindE (ReadByte b) (\<lambda>(v, b). Inr (map_option IByte v, b))"
| "read_item (IShort _) b = bindE (ReadShort b) (\<lambda>(v, b). Inr (map_option IShort v, b))"
| "read_item (IInt _) b = bindE (ReadInt b) (\<lambda>(v, b). Inr (map_option IInt v, b))"
| "read_item (ILongLong _) b = bindE (ReadLongLong b) (\<lambda>(v, b). Inr (map_option ILongLong v, b))"

fun write_items :: "item list \<Rightarrow> DataBuffer \<Rightarrow> (bool list \<times> DataBuffer) res" where
  "write_items [] b = Inr ([], b)"
| "write_items (i # is) b =
     bindE (write_item i b) (\<lambda>(r, b). bindE (write_items is b) (\<lambda>(rs, b). Inr (r # rs, b)))"

fun read_items :: "item list \<Rightarrow> DataBuffer \<Rightarrow> (item ind list \<times> DataBuffer) res" where
  "read_items [] b = Inr ([], b)"
| "read_items (i # is) b =
     bindE (read_item i b) (\<lambda>(r, b). bindE (read_items is b) (\<lambda>(rs, b). Inr (r # rs, b)))"

fun item_seen :: "item \<Rightarrow> item" where
  "item_seen (ILongLong v) = ILongLong (sext31 v)"
| "item_seen i = i"

definition items_cells :: "item list \<Rightarrow> cell list" where
  "items_cells is = concat (map item_cells is)"

lemma items_cells_simps [simp]:
  "items_cells [] = []" "items_cells (i # is) = item_cells i @ items_cells is"
  by (simp_all add: items_cells_def)

lemma write_item_eq:
  "wf_buffer b \<Longrightarrow> length (item_cells i) \<le> room b \<Longrightarrow>
     write_item i b = Inr (True, append_cells (item_cells i) b)"
  by (cases i) (simp_all add: WriteByte_eq WriteShort_eq WriteInt_eq WriteLongLong_eq)

lemma write_items_eq:
  "wf_buffer b \<Longrightarrow> length (items_cells is) \<le> room b \<Longrightarrow>
     write_items is b = Inr (replicate (length is) True, append_cells (items_cells is) b)"
proof (induction "is" arbitrary: b)
  case (Cons i "is")
  then show ?case
    by (simp add: write_item_eq wf_append room_append append_append)
qed simp

lemma read_item_eq:
  "wf_buffer b \<Longrightarrow> unread b = item_cells i @ xs \<Longrightarrow>
     read_item i b = Inr (Some (item_seen i), advance (length (item_cells i)) b)"
  by (cases i) (simp_all add: ReadByte_unread ReadShort_be16 ReadInt_be32 ReadLongLong_be64)

lemma read_items_eq:
  "wf_buffer b \<Longrightarrow> unread b = items_cells is @ xs \<Longrightarrow>
     read_items is b = Inr (map (Some \<circ> item_seen) is, advance (length (items_cells is)) b)"
proof (induction "is" arbitrary: b)
  case (Cons i "is")
  from Cons.prems have r: "read_item i b = Inr (Some (item_seen i), advance (length (item_cells i)) b)"
    by (simp add: read_item_eq)
  have "wf_buffer (advance (length (item_cells i)) b)"
    and "unread (advance (length (item_cells i)) b) = items_cells is @ xs"
    using Cons.prems by (auto simp: unread_advance intro!: wf_advance)
  from Cons.IH [OF this] r show ?case
    by (simp add: advance_advance)
qed simp

lemma unread_append:
  "wf_buffer b \<Longrightarrow> readOffset b \<le> writeOffset b \<Longrightarrow> length xs \<le> room b \<Longrightarrow>
     unread (append_cells xs b) = unread b @ xs"
  by (simp add: unread_def written_append length_written word_le_nat_alt)

lemma upper_half_set: "v OR push_bit 32 (mask 32) = v \<longleftrightarrow> drop_bit 32 v = mask 32" for v :: u64
proof -
  have "v OR push_bit 32 (mask 32) = v \<longleftrightarrow> (\<forall>n. 32 \<le> n \<and> n < 64 \<longrightarrow> bit v n)"
    by (auto simp: bit_eq_iff [of "v OR _"] bit_simps)
  also have "\<dots> \<longleftrightarrow> (\<forall>n < 32. bit v (32 + n))"
    by (auto simp: le_iff_add)
  also have "\<dots> \<longleftrightarrow> drop_bit 32 v = mask 32"
    by (auto simp: bit_eq_iff [of "drop_bit 32 v"] bit_simps dest: bit_imp_le_length)
  finally show ?thesis .
qed

lemma sext31_fixpoint: "sext31 v = v \<longleftrightarrow> \<not> bit v 31 \<or> drop_bit 32 v = 0xFFFFFFFF"
  using upper_half_set [of v] by (simp add: sext31_def mask_eq_exp_minus_1)

section \<open>Properties\<close>

text \<open>
  C8. Class invariant and memory safety. Whatever sequence of calls a client makes on a
  default-constructed buffer, \<open>Cleanup\<close> among them, in any order and with any arguments, no call reads
  or writes through a null pointer or outside the array, and the only abnormal end is
  \<open>std::bad_alloc\<close>; provided that between a \<open>Cleanup\<close> and the next allocation (\<open>Alloc\<close>, \<open>Realloc\<close>,
  or the assignment of a buffer that has a size) neither \<open>WriteBytes\<close> nor a move of the write offset is
  called, and that an assigned buffer is itself sound. After the sequence the array has the length
  \<open>_bufferSize\<close> records and both offsets are inside it, or, if it has not been allocated again after a
  \<open>Cleanup\<close>, there is no array and both offsets are 0.
\<close>

theorem buffer_calls_safe:
  assumes "calls_ok False cs"
  shows "yields (\<lambda>e. e = BadAlloc) (\<lambda>b. if fold freed_by cs False then cleaned b else wf_buffer b) (exec_calls ok cs DataBuffer_new)"
proof -
  have "yields (\<lambda>e. e = BadAlloc) (buffer_at (fold freed_by cs freed)) (exec_calls ok cs b)" if "buffer_at freed b" "calls_ok freed cs" for b freed
    using that
    by (induction cs arbitrary: b freed) (auto intro!: yields_bindE [OF exec_call_outcome])
  from this [of False DataBuffer_new] assms show ?thesis by (simp add: buffer_at_def [abs_def])
qed

theorem buffer_calls_safe_witness:
  "yields (\<lambda>e. e = BadAlloc) wf_buffer
     (exec_calls (\<lambda>n. n < 1024)
       [CallAlloc 6, CallWriteInt (Some 0xDEADBEEF), CallRealloc 5, CallReadLongLong, CallCleanup, CallReadByte, CallReadAllBytes,
        CallMoveReadForward 0xFFFFFFFF, CallAssign False DataBuffer_new, CallAlloc 2, CallWriteBytes [Some 1, Some 2, Some 3]] DataBuffer_new)"
  using buffer_calls_safe [of "[CallAlloc 6, CallWriteInt (Some 0xDEADBEEF), CallRealloc 5, CallReadLongLong, CallCleanup, CallReadByte, CallReadAllBytes,
        CallMoveReadForward 0xFFFFFFFF, CallAssign False DataBuffer_new, CallAlloc 2, CallWriteBytes [Some 1, Some 2, Some 3]]" "\<lambda>n. n < 1024"] by simp

text \<open>
  Typed round trip. Values of any types written one after the other are all accepted when
  the buffer has room for their bytes, and read back in order as they were written, with one
  exception: an 8-byte value comes back as \<open>sext31\<close> of it.
\<close>

theorem typed_round_trip:
  assumes "wf_buffer b" "readOffset b = writeOffset b" "length (items_cells is) \<le> room b"
  shows "\<exists>b1 b2. write_items is b = Inr (replicate (length is) True, b1) \<and>
     read_items is b1 = Inr (map (Some \<circ> item_seen) is, b2) \<and> unread b2 = []"
proof -
  let ?b1 = "append_cells (items_cells is) b"
  have un: "unread ?b1 = items_cells is @ []"
    using assms by (simp add: unread_append) (simp add: unread_def length_written)
  have wf: "wf_buffer ?b1"
    using assms by blast
  show ?thesis
    using write_items_eq [OF assms(1,3)] read_items_eq [OF wf un] un wf
    by (auto simp: unread_advance)
qed

theorem typed_round_trip_witness:
  "\<exists>b1 b2. write_items [IShort 0x1122, IByte 7, ILongLong 0xFF, IInt 0xDEADBEEF] (fresh 24) =
       Inr ([True, True, True, True], b1) \<and>
     read_items [IShort 0x1122, IByte 7, ILongLong 0xFF, IInt 0xDEADBEEF] b1 =
       Inr ([Some (IShort 0x1122), Some (IByte 7), Some (ILongLong 0xFF), Some (IInt 0xDEADBEEF)], b2) \<and>
     unread b2 = []"
proof -
  let ?is = "[IShort 0x1122, IByte 7, ILongLong 0xFF, IInt 0xDEADBEEF]"
  have "sext31 0xFF = 0xFF"
    by (simp add: sext31_def bit_numeral_word_iff)
  then show ?thesis
    using typed_round_trip [of "fresh 24" ?is] by (simp add: wf_fresh heap_maxreq_def del: write_items.simps read_items.simps)
qed

text \<open>
  C24. \<open>ReadLongLong\<close> is not the inverse of \<open>WriteLongLong\<close>. The lower four bytes are shifted as
  \<open>int\<close> and sign-extended, so a value with bit 31 set comes back with all upper 32 bits set; the
  value survives exactly when bit 31 is clear or the upper half is all ones already.
\<close>

theorem long_long_sign_extension:
  assumes "wf_buffer b" "readOffset b = writeOffset b" "8 \<le> room b"
  shows "\<exists>b1 b2. WriteLongLong (Some v) b = Inr (True, b1) \<and> ReadLongLong b1 = Inr (Some (sext31 v), b2) \<and>
     (sext31 v = v \<longleftrightarrow> \<not> bit v 31 \<or> drop_bit 32 v = 0xFFFFFFFF)"
proof -
  let ?b1 = "append_cells (map Some (be64 v)) b"
  have "unread ?b1 = map Some (be64 v) @ []"
    using assms by (simp add: unread_append) (simp add: unread_def length_written)
  then have "ReadLongLong ?b1 = Inr (Some (sext31 v), advance 8 ?b1)"
    using assms by (intro ReadLongLong_be64) auto
  then show ?thesis
    using assms by (simp add: WriteLongLong_eq sext31_fixpoint)
qed

theorem long_long_sign_extension_witness:
  "\<exists>b1 b2. WriteLongLong (Some 0x80000000) (fresh 8) = Inr (True, b1) \<and>
     ReadLongLong b1 = Inr (Some 0xFFFFFFFF80000000, b2)"
proof -
  have "sext31 0x80000000 = 0xFFFFFFFF80000000"
    by (simp add: sext31_def bit_numeral_word_iff)
  then show ?thesis
    using long_long_sign_extension [of "fresh 8" "0x80000000"] by (simp add: wf_fresh heap_maxreq_def)
qed
text \<open>
  \<open>Realloc\<close> keeps what has been written, as far as it fits, and leaves the cells behind it
  indeterminate; it does not keep the read position (it saves it in \<open>oldRead\<close> and never restores
  it): afterwards nothing is left to read.
\<close>

theorem realloc_keeps_written:
  assumes "wf_buffer b" "ok len" "len \<le> heap_maxreq"
  shows "\<exists>b'. Realloc ok len b = Inr (True, b') \<and> wf_buffer b' \<and> bufferSize b' = len \<and>
     written b' = take (unat len) (written b) \<and>
     set (drop (length (written b')) (cells b')) \<subseteq> {None} \<and>
     GetBytesLeftToRead b' = 0"
proof -
  have "set (drop (length (written (resized len b))) (cells (resized len b))) \<subseteq> {None}"
    by (auto simp: written_resized resized_fields min.commute)
  moreover have "GetBytesLeftToRead (resized len b) = 0"
    using unat_left_to_read [OF wf_resized [OF assms(3)], of b] by (simp add: unread_resized unat_eq_0)
  ultimately show ?thesis
    using assms by (simp add: Realloc_eq new_array_def wf_resized written_resized)
qed

theorem realloc_keeps_written_witness:
  "\<exists>b'. Realloc (\<lambda>_. True) 9 (append_cells [Some 1, Some 2] (fresh 4)) = Inr (True, b') \<and>
     written b' = [Some 1, Some 2] \<and> GetBytesLeftToRead b' = 0"
proof -
  have wf: "wf_buffer (append_cells [Some 1, Some 2] (fresh 4))"
    by (intro wf_append wf_fresh) (simp_all add: heap_maxreq_def)
  have "written (append_cells [Some 1, Some 2] (fresh 4)) = [Some 1, Some 2]"
    by (subst written_append) (simp_all add: wf_fresh heap_maxreq_def)
  then show ?thesis
    using realloc_keeps_written [OF wf, of "\<lambda>_. True" 9] by (auto simp: heap_maxreq_def)
qed

text \<open>
  Copying. The copy constructor makes an equal buffer, offsets included, and \<open>operator=\<close> the
  same for any target, with one exception: assigning a buffer of size 0 leaves the target as it
  was, old contents included.
\<close>

theorem buffer_copies:
  assumes "wf_buffer rhs" "ok (bufferSize rhs)"
  shows "operator_assign ok False rhs b = Inr (if bufferSize rhs = 0 then b else rhs) \<and>
     operator_assign ok True rhs b = Inr b \<and>
     DataBuffer_copy ok rhs = Inr (if bufferSize rhs = 0 then DataBuffer_new else rhs)"
  using assms
  by (simp add: operator_assign_def DataBuffer_copy_def copy_from_eq new_array_def wf_buffer_def)

theorem buffer_copies_witness:
  "operator_assign (\<lambda>_. True) False DataBuffer_new (fresh 3) = Inr (fresh 3) \<and>
   operator_assign (\<lambda>_. True) False (fresh 2) (fresh 3) = Inr (fresh 2)"
  using buffer_copies [of DataBuffer_new "\<lambda>_. True" "fresh 3"]
    buffer_copies [of "fresh 2" "\<lambda>_. True" "fresh 3"]
  by (simp add: wf_fresh heap_maxreq_def)

text \<open>
  Bulk transfer. \<open>WriteBytes\<close> takes as many bytes as there is room for and reports how many,
  \<open>ReadBytes\<close> hands out as many as are left to read, in order; both leave the rest alone.
\<close>

theorem bulk_transfer:
  assumes "wf_buffer b" "readOffset b \<le> writeOffset b" "unat n \<le> length xs"
  shows "\<exists>b1 b2. WriteBytes (Some xs) n b = Inr (min n (GetBytesLeftForWrite b), b1) \<and>
     written b1 = written b @ take (min (unat n) (room b)) xs \<and>
     ReadBytes m b1 = Inr ((of_nat (min (unat m) (length (unread b1))), take (unat m) (unread b1)), b2) \<and>
     unread b1 = unread b @ take (min (unat n) (room b)) xs \<and> unread b2 = drop (unat m) (unread b1)"
proof -
  define k where "k = min (unat n) (room b)"
  define b1 where "b1 = append_cells (take k xs) b"
  have len: "length (take k xs) \<le> room b" by (simp add: k_def)
  have n: "of_nat k = min n (GetBytesLeftForWrite b)"
    unfolding k_def unat_left_for_write [symmetric] unat_min [symmetric] by simp
  have wf: "wf_buffer b1"
    unfolding b1_def by (rule wf_append [OF assms(1) len])
  have "WriteBytes (Some xs) n b = Inr (min n (GetBytesLeftForWrite b), b1)"
    using assms by (simp add: WriteBytes_eq Let_def n b1_def flip: k_def)
  moreover have "written b1 = written b @ take k xs" "unread b1 = unread b @ take k xs"
    unfolding b1_def using written_append [OF assms(1) len] unread_append [OF assms(1,2) len] .
  moreover have "ReadBytes m b1 = Inr ((of_nat (min (unat m) (length (unread b1))), take (unat m) (unread b1)),
      advance (min (unat m) (length (unread b1))) b1)"
    by (simp add: ReadBytes_eq wf Let_def)
  moreover have "unread (advance (min (unat m) (length (unread b1))) b1) = drop (unat m) (unread b1)"
    using wf by (simp add: unread_advance min_def)
  ultimately show ?thesis
    by (simp flip: k_def)
qed

theorem bulk_transfer_witness:
  "\<exists>b1 b2. WriteBytes (Some [Some 1, Some 2, Some 3]) 3 (fresh 2) = Inr (2, b1) \<and>
     ReadBytes 1 b1 = Inr ((1, [Some 1]), b2) \<and> unread b2 = [Some 2]"
  using bulk_transfer [of "fresh 2" 3 "[Some 1, Some 2, Some 3]" 1]
  by (auto simp: wf_fresh heap_maxreq_def GetBytesLeftForWrite_def)

text \<open>
  Moving back. As long as the distance does not wrap around past the other offset, moving
  back by \<open>n\<close> subtracts \<open>n\<close> and stops at 0, for the read offset and for the write offset.
\<close>

theorem move_backward:
  assumes "wf_buffer b" "readOffset b \<le> writeOffset b" "unat n + unat (bufferSize b) < 2 ^ 32"
  shows "unat (fst (MoveReadBackward n b)) = unat (readOffset b) - unat n \<and>
     unat (fst (MoveWriteBackward n b)) = unat (writeOffset b) - unat n"
proof -
  have moved: "unat (if hi < off - n then 0 else off - n) = unat off - unat n"
    if "off \<le> hi" "hi \<le> bufferSize b" for off hi :: size_t
  proof (cases "n \<le> off")
    case True
    then show ?thesis using that
      by (simp add: unat_sub word_le_nat_alt word_less_nat_alt)
  next
    case False
    then have "unat (off - n) = 2 ^ 32 + unat off - unat n"
      by (simp add: unat_sub_if_size word_size word_le_nat_alt)
    then show ?thesis
      using False that assms(3) by (simp add: word_le_nat_alt word_less_nat_alt)
  qed
  show ?thesis
    using moved [OF assms(2)] moved [of "writeOffset b" "bufferSize b"] wf_le(1) [OF assms(1)]
    by (simp add: MoveReadBackward_def MoveWriteBackward_def Let_def)
qed

theorem move_backward_witness:
  "unat (fst (MoveReadBackward 3 (advance 1 (append_cells [Some 1, Some 2] (fresh 4))))) = 0 \<and>
   unat (fst (MoveWriteBackward 1 (append_cells [Some 1, Some 2] (fresh 4)))) = 1"
proof -
  let ?b = "append_cells [Some 1, Some 2] (fresh 4)"
  have wf: "wf_buffer ?b"
    by (intro wf_append wf_fresh) (simp_all add: heap_maxreq_def)
  have o: "writeOffset ?b = 2" "readOffset ?b = 0" by (simp_all add: append_cells_def fresh_def)
  have "wf_buffer (advance 1 ?b)"
    using o wf by (intro wf_advance) (simp_all add: length_unread)
  then show ?thesis
    using move_backward [of "advance 1 ?b" 3] move_backward [of ?b 1] wf o
    by (simp add: advance_def)
qed

text \<open>
  \<open>Cleanup\<close> frees the array but keeps \<open>_bufferSize\<close>. A buffer that held an array still claims
  room for writing, \<open>WriteBytes\<close> on it copies to a null pointer, and copying it reads from one:
  the reason for the provision of the property above.
\<close>

theorem cleanup_leaves_size:
  assumes "wf_buffer b" "bufferSize b \<noteq> 0" "ok (bufferSize b)" "0 < n" "unat n \<le> length xs"
  shows "GetBytesLeftForWrite (Cleanup b) = bufferSize b \<and>
     WriteBytes (Some xs) n (Cleanup b) = Inl BadAccess \<and>
     DataBuffer_copy ok (Cleanup b) = Inl BadAccess"
proof -
  have left: "GetBytesLeftForWrite (Cleanup b) = bufferSize b"
    using assms(2) by (simp add: GetBytesLeftForWrite_def Cleanup_def Reset_def word_gt_0)
  define k where "k = min n (bufferSize b)"
  have k: "0 < k" "unat k \<le> length xs"
    using assms(2,4,5) by (auto simp: k_def word_gt_0 min_def word_le_nat_alt)
  have "take (unat k) xs \<noteq> []"
    using k by (auto simp: word_gt_0 unat_eq_0)
  then have "WriteBytes (Some xs) n (Cleanup b) = Inl BadAccess"
    using k by (simp add: WriteBytes_def left Let_def mem_load_Some flip: k_def)
      (simp add: mem_store_def Cleanup_def Reset_def)
  moreover have "DataBuffer_copy ok (Cleanup b) = Inl BadAccess"
    using assms by (simp add: DataBuffer_copy_def copy_from_def Alloc_eq new_array_def Cleanup_def
        Reset_def mem_load_def word_gt_0 wf_buffer_def Let_def)
  ultimately show ?thesis using left by simp
qed
theorem cleanup_leaves_size_witness:
  "WriteBytes (Some [Some 1]) 1 (Cleanup (fresh 4)) = Inl BadAccess"
  using cleanup_leaves_size [of "fresh 4" "\<lambda>_. True" 1 "[Some 1]"] by (simp add: wf_fresh heap_maxreq_def)

text \<open>
  Reads are bounded by the size of the array, not by what has been written: reading a byte
  when everything written has been read returns a cell that was never written, if the array has
  one, and puts the read offset past the write offset.
\<close>

theorem read_past_written:
  assumes "wf_buffer b" "readOffset b = writeOffset b" "0 < room b"
  shows "\<exists>b'. ReadByte b = Inr (cells b ! length (written b), b') \<and> writeOffset b' < readOffset b' \<and>
     GetBytesLeftToRead b' = 0"
proof -
  have fit: "unat (readOffset b) + 1 \<le> unat (bufferSize b)"
    using assms by (simp add: room_def)
  have o: "unat (readOffset b + 1) = unat (readOffset b) + 1"
    using unat_plus_wf [OF assms(1) wf_le(2) [OF assms(1)], of 1] by simp
  obtain cs where cs: "data b = Some cs"
    using valid_if_room [OF assms(1,3)] by (auto simp: IsValid_def)
  have "ReadByte b = Inr (cells b ! length (written b), b\<lparr>readOffset := readOffset b + 1\<rparr>)"
    using read_guard [OF assms(1), of 1] fit valid_if_room [OF assms(1,3)] wf_data [OF assms(1) cs] assms(2)
    by (simp add: ReadByte_def load_next_def load_cell_Some cs cells_def length_written [OF assms(1)])
  then show ?thesis
    using o assms(2) by (simp add: word_less_nat_alt GetBytesLeftToRead_def)
qed

theorem read_past_written_witness:
  "\<exists>b'. ReadByte (fresh 1) = Inr (None, b') \<and> writeOffset b' < readOffset b'"
proof -
  have "cells (fresh 1) = [None]" by (simp add: cells_def fresh_def)
  then show ?thesis
    using read_past_written [of "fresh 1"] by (auto simp: wf_fresh heap_maxreq_def)
qed

end
