(* ===== verification/Header.thy ===== *)
theory Header
  imports DataBuffer
begin

unbundle bit_operations_syntax

text \<open>
  \<open>MemcacheDefs.h\<close> and the \<open>MessageHeader\<close> of \<open>MemcacheMessages\<close>: the protocol's constants, the
  24-byte header and its two codecs. \<open>header_bytes\<close> is the abstract wire format; the lemmas show
  that \<open>WriteToBuffer\<close> appends it and that \<open>ParseFromBuffer\<close> inverts it, up to the sign extension
  of \<open>CAS\<close>.
\<close>

section \<open>Constants\<close>

definition kMBPHeaderSize :: size_t where "kMBPHeaderSize = 24"

definition kMagicReq :: u8 where "kMagicReq = 0x80"
definition kMagicRes :: u8 where "kMagicRes = 0x81"

definition kOpGet :: u8 where "kOpGet = 0x00"
definition kOpSet :: u8 where "kOpSet = 0x01"

definition kResNoError :: u16 where "kResNoError = 0x0000"
definition kResKeyNotFound :: u16 where "kResKeyNotFound = 0x0001"
definition kResKeyExists :: u16 where "kResKeyExists = 0x0002"
definition kResTooLarge :: u16 where "kResTooLarge = 0x0003"
definition kResInvalidArgs :: u16 where "kResInvalidArgs = 0x0004"
definition kResNotStored :: u16 where "kResNotStored = 0x0005"
definition kResNonNum :: u16 where "kResNonNum = 0x0006"
definition kResUnknownComm :: u16 where "kResUnknownComm = 0x0081"
definition kResOutOfMem :: u16 where "kResOutOfMem = 0x0082"

lemmas protocol_constants =
  kMagicReq_def kMagicRes_def kOpGet_def kOpSet_def

lemmas status_constants =
  kResNoError_def kResKeyNotFound_def kResKeyExists_def kResTooLarge_def kResInvalidArgs_def
  kResNotStored_def kResNonNum_def kResUnknownComm_def kResOutOfMem_def

definition StatusToString :: "u16 \<Rightarrow> string" where
  "StatusToString statusCode =
     (if statusCode = kResInvalidArgs then ''Invalid Arguments''
      else if statusCode = kResKeyExists then ''Key exists''
      else if statusCode = kResKeyNotFound then ''Key not found''
      else if statusCode = kResNoError then ''No error''
      else if statusCode = kResNonNum then ''Incr/Decr on non-numeric value''
      else if statusCode = kResNotStored then ''Item not stored''
      else if statusCode = kResOutOfMem then ''Out of memory''
      else if statusCode = kResTooLarge then ''Value too large''
      else if statusCode = kResUnknownComm then ''Unknown command''
      else '''')"

section \<open>The header and its codecs\<close>

record MessageHeader =
  Magic :: u8
  Opcode :: u8
  KeyLen :: u16
  ExtrasLen :: u8
  DataType :: u8
  Status :: u16
  TotalBodyLen :: u32
  Opaque :: u32
  CAS :: u64

definition MessageHeader_new :: MessageHeader where
  "MessageHeader_new =
     \<lparr>Magic = 0, Opcode = 0, KeyLen = 0, ExtrasLen = 0, DataType = 0, Status = 0,
      TotalBodyLen = 0, Opaque = 0, CAS = 0\<rparr>"

text \<open>The fields steer the rest of the program, so the values read must be determinate.\<close>

definition read_field ::
  "(DataBuffer \<Rightarrow> ('a ind \<times> DataBuffer) res) \<Rightarrow> DataBuffer \<Rightarrow> ('a \<times> DataBuffer) res" where
  "read_field rd b = bindE (rd b) (\<lambda>(v, b). bindE (determined v) (\<lambda>v. Inr (v, b)))"

definition ParseFromBuffer ::
  "DataBuffer \<Rightarrow> MessageHeader \<Rightarrow> ((size_t \<times> MessageHeader) \<times> DataBuffer) res" where
  "ParseFromBuffer b h =
     (let start = GetBytesLeftToRead b in
      if GetBytesLeftToRead b \<ge> kMBPHeaderSize
      then
        bindE (read_field ReadByte b) (\<lambda>(magic, b).
        bindE (read_field ReadByte b) (\<lambda>(opcode, b).
        bindE (read_field ReadShort b) (\<lambda>(keyLen, b).
        bindE (read_field ReadByte b) (\<lambda>(extrasLen, b).
        bindE (read_field ReadByte b) (\<lambda>(dataType, b).
        bindE (read_field ReadShort b) (\<lambda>(status, b).
        bindE (read_field ReadInt b) (\<lambda>(totalBodyLen, b).
        bindE (read_field ReadInt b) (\<lambda>(opaque, b).
        bindE (read_field ReadLongLong b) (\<lambda>(cas, b).
        Inr ((start - GetBytesLeftToRead b,
          h\<lparr>Magic := magic, Opcode := opcode, KeyLen := keyLen, ExtrasLen := extrasLen,
            DataType := dataType, Status := status, TotalBodyLen := totalBodyLen,
            Opaque := opaque, CAS := cas\<rparr>), b))))))))))
      else Inr ((start - GetBytesLeftToRead b, h), b))"

definition WriteToBuffer :: "MessageHeader \<Rightarrow> DataBuffer \<Rightarrow> (size_t \<times> DataBuffer) res" where
  "WriteToBuffer h b =
     (let start = GetBytesWritten b in
      if GetBytesLeftForWrite b \<ge> kMBPHeaderSize
      then
        bindE (WriteByte (Some (Magic h)) b) (\<lambda>(_, b).
        bindE (WriteByte (Some (Opcode h)) b) (\<lambda>(_, b).
        bindE (WriteShort (Some (KeyLen h)) b) (\<lambda>(_, b).
        bindE (WriteByte (Some (ExtrasLen h)) b) (\<lambda>(_, b).
        bindE (WriteByte (Some (DataType h)) b) (\<lambda>(_, b).
        bindE (WriteShort (Some (Status h)) b) (\<lambda>(_, b).
        bindE (WriteInt (Some (TotalBodyLen h)) b) (\<lambda>(_, b).
        bindE (WriteInt (Some (Opaque h)) b) (\<lambda>(_, b).
        bindE (WriteLongLong (Some (CAS h)) b) (\<lambda>(_, b).
        Inr (GetBytesWritten b - start, b))))))))))
      else Inr (GetBytesWritten b - start, b))"

section \<open>The wire format\<close>

definition header_items :: "MessageHeader \<Rightarrow> item list" where
  "header_items h =
     [IByte (Magic h), IByte (Opcode h), IShort (KeyLen h), IByte (ExtrasLen h), IByte (DataType h),
      IShort (Status h), IInt (TotalBodyLen h), IInt (Opaque h), ILongLong (CAS h)]"

definition header_bytes :: "MessageHeader \<Rightarrow> u8 list" where
  "header_bytes h =
     [Magic h, Opcode h] @ be16 (KeyLen h) @ [ExtrasLen h, DataType h] @ be16 (Status h) @
     be32 (TotalBodyLen h) @ be32 (Opaque h) @ be64 (CAS h)"

lemma length_header_bytes [simp]: "length (header_bytes h) = 24"
  by (simp add: header_bytes_def)

lemma length_header_items [simp]: "length (header_items h) = 9"
  by (simp add: header_items_def)

lemma header_cells: "items_cells (header_items h) = map Some (header_bytes h)"
  by (simp add: header_items_def header_bytes_def)

text \<open>The codecs are the typed writes and reads of the header's items.\<close>

lemma write_header_items:
  "bindE (write_items (header_items h) b) (\<lambda>(_, b). f b) =
    bindE (WriteByte (Some (Magic h)) b) (\<lambda>(_, b).
    bindE (WriteByte (Some (Opcode h)) b) (\<lambda>(_, b).
    bindE (WriteShort (Some (KeyLen h)) b) (\<lambda>(_, b).
    bindE (WriteByte (Some (ExtrasLen h)) b) (\<lambda>(_, b).
    bindE (WriteByte (Some (DataType h)) b) (\<lambda>(_, b).
    bindE (WriteShort (Some (Status h)) b) (\<lambda>(_, b).
    bindE (WriteInt (Some (TotalBodyLen h)) b) (\<lambda>(_, b).
    bindE (WriteInt (Some (Opaque h)) b) (\<lambda>(_, b).
    bindE (WriteLongLong (Some (CAS h)) b) (\<lambda>(_, b). f b)))))))))"
  by (simp add: header_items_def bindE_assoc case_prod_unfold)

lemma left_for_write_ge: "kMBPHeaderSize \<le> GetBytesLeftForWrite b \<longleftrightarrow> 24 \<le> room b"
  by (simp add: word_le_nat_alt unat_left_for_write kMBPHeaderSize_def)

lemma left_to_read_ge: "wf_buffer b \<Longrightarrow> kMBPHeaderSize \<le> GetBytesLeftToRead b \<longleftrightarrow> 24 \<le> length (unread b)"
  by (simp add: word_le_nat_alt unat_left_to_read kMBPHeaderSize_def)

lemma WriteToBuffer_eq:
  assumes "wf_buffer b"
  shows "WriteToBuffer h b =
     Inr (if 24 \<le> room b then (24, append_cells (map Some (header_bytes h)) b) else (0, b))"
proof (cases "24 \<le> room b")
  case True
  then have "write_items (header_items h) b =
      Inr (replicate 9 True, append_cells (map Some (header_bytes h)) b)"
    using write_items_eq [OF assms, of "header_items h"] by (simp add: header_cells)
  moreover have "GetBytesWritten (append_cells (map Some (header_bytes h)) b) - GetBytesWritten b = 24"
    by (simp add: GetBytesWritten_def append_cells_def)
  ultimately show ?thesis
    using True by (simp add: WriteToBuffer_def Let_def left_for_write_ge flip: write_header_items)
qed (simp add: WriteToBuffer_def Let_def left_for_write_ge)

lemma unread_items:
  assumes "wf_buffer b" "unread b = items_cells is @ zs" "k < length is"
  shows "wf_buffer (advance (length (items_cells (take k is))) b)"
    "unread (advance (length (items_cells (take k is))) b) =
       item_cells (is ! k) @ items_cells (drop (Suc k) is) @ zs"
proof -
  have "items_cells is = items_cells (take k is @ is ! k # drop (Suc k) is)"
    using assms(3) by (simp add: id_take_nth_drop [symmetric])
  then have un: "unread b = items_cells (take k is) @ item_cells (is ! k) @ items_cells (drop (Suc k) is) @ zs"
    using assms(2) by (simp add: items_cells_def)
  show "wf_buffer (advance (length (items_cells (take k is))) b)"
    "unread (advance (length (items_cells (take k is))) b) =
       item_cells (is ! k) @ items_cells (drop (Suc k) is) @ zs"
    using assms(1) un by (auto simp: unread_advance intro!: wf_advance)
qed

lemma field_at:
  assumes "wf_buffer b" "unread b = items_cells is @ zs" "k < length is"
  shows "is ! k = IByte v8 \<Longrightarrow> read_field ReadByte (advance (length (items_cells (take k is))) b) =
        Inr (v8, advance (length (items_cells (take k is)) + 1) b)"
    "is ! k = IShort v16 \<Longrightarrow> read_field ReadShort (advance (length (items_cells (take k is))) b) =
        Inr (v16, advance (length (items_cells (take k is)) + 2) b)"
    "is ! k = IInt v32 \<Longrightarrow> read_field ReadInt (advance (length (items_cells (take k is))) b) =
        Inr (v32, advance (length (items_cells (take k is)) + 4) b)"
    "is ! k = ILongLong v64 \<Longrightarrow> read_field ReadLongLong (advance (length (items_cells (take k is))) b) =
        Inr (sext31 v64, advance (length (items_cells (take k is)) + 8) b)"
  using unread_items [OF assms]
  by (simp_all add: read_field_def ReadByte_unread ReadShort_be16 ReadInt_be32 ReadLongLong_be64 advance_advance)

definition header_seen :: "MessageHeader \<Rightarrow> MessageHeader" where
  "header_seen h = h\<lparr>CAS := sext31 (CAS h)\<rparr>"

lemma header_seen_simps [simp]:
  "Magic (header_seen h) = Magic h" "Opcode (header_seen h) = Opcode h"
  "KeyLen (header_seen h) = KeyLen h" "ExtrasLen (header_seen h) = ExtrasLen h"
  "DataType (header_seen h) = DataType h" "Status (header_seen h) = Status h"
  "TotalBodyLen (header_seen h) = TotalBodyLen h" "Opaque (header_seen h) = Opaque h"
  by (simp_all add: header_seen_def)

lemma advance_4: "advance (Suc (Suc (Suc (Suc 0)))) b = advance 4 b"
  by (simp add: numeral_eq_Suc)

lemma ParseFromBuffer_eq:
  assumes wf: "wf_buffer b" and un: "unread b = map Some (header_bytes h) @ xs"
  shows "ParseFromBuffer b h0 = Inr ((24, header_seen h), advance 24 b)"
proof -
  have un': "unread b = items_cells (header_items h) @ xs"
    using un by (simp add: header_cells)
  note f = field_at [OF wf un']
  have left: "GetBytesLeftToRead b - GetBytesLeftToRead (advance 24 b) = 24"
  proof -
    have "unat (GetBytesLeftToRead b) = 24 + length xs" "unat (GetBytesLeftToRead (advance 24 b)) = length xs"
      using wf un by (simp_all add: unat_left_to_read unread_advance wf_advance)
    then have "unat (GetBytesLeftToRead b - GetBytesLeftToRead (advance 24 b)) = unat (24 :: size_t)"
      by (simp add: unat_sub word_le_nat_alt)
    then show ?thesis by (rule unsigned_word_eqI)
  qed
  have enough: "kMBPHeaderSize \<le> GetBytesLeftToRead b"
    using wf un by (simp add: left_to_read_ge)
  show ?thesis
    unfolding ParseFromBuffer_def
    using enough left f(1) [of 0] f(1) [of 1] f(2) [of 2] f(1) [of 3] f(1) [of 4] f(2) [of 5]
      f(3) [of 6] f(3) [of 7] f(4) [of 8]
    by (simp add: header_items_def header_seen_def Let_def advance_4)
qed

lemma ParseFromBuffer_short:
  "wf_buffer b \<Longrightarrow> length (unread b) < 24 \<Longrightarrow> ParseFromBuffer b h = Inr ((0, h), b)"
  by (simp add: ParseFromBuffer_def left_to_read_ge)

text \<open>On any buffer the parser stays inside it; it needs determinate cells.\<close>

lemma read_field_yields:
  assumes "\<And>b. wf_buffer b \<Longrightarrow> yields E (read_ok b) (rd b)" "E Indeterminate" "wf_buffer b"
  shows "yields E (read_ok b) (read_field rd b)"
  using assms(1) [OF assms(3)] assms(2)
  by (cases "rd b") (auto simp: read_field_def determined_def split: option.splits)

lemma read_field_bind:
  assumes "\<And>b. wf_buffer b \<Longrightarrow> yields E (read_ok b) (rd b)" "E Indeterminate" "wf_buffer b"
    and "\<And>v b'. wf_buffer b' \<Longrightarrow> ResetRead b' = ResetRead b \<Longrightarrow> yields E P (f (v, b'))"
  shows "yields E P (bindE (read_field rd b) f)"
  by (rule yields_bindE [OF read_field_yields [OF assms(1-3)]]) (use assms(4) in auto)

lemmas header_reads =
  read_field_bind [where rd = ReadByte, OF ReadByte_yields]
  read_field_bind [where rd = ReadShort, OF ReadShort_yields]
  read_field_bind [where rd = ReadInt, OF ReadInt_yields]
  read_field_bind [where rd = ReadLongLong, OF ReadLongLong_yields]

lemma ParseFromBuffer_yields:
  assumes "wf_buffer b" "E Indeterminate"
  shows "yields E (read_ok b) (ParseFromBuffer b h)"
proof -
  have "yields E (read_ok b) (ParseFromBuffer b h)" if "kMBPHeaderSize \<le> GetBytesLeftToRead b"
    unfolding ParseFromBuffer_def Let_def if_P [OF that] split_beta
    using assms by (auto intro!: header_reads simp: split_beta)
  then show ?thesis
    using assms by (cases "kMBPHeaderSize \<le> GetBytesLeftToRead b") (simp_all add: ParseFromBuffer_def)
qed

text \<open>Every 24 bytes are the bytes of a header.\<close>

lemma header_bytes_surj:
  assumes "length bs = 24"
  obtains h where "header_bytes h = bs"
proof -
  from assms obtain m oc k1 k2 e d s1 s2 t1 t2 t3 t4 o1 o2 o3 o4 c1 c2 c3 c4 c5 c6 c7 c8
    where bs: "bs = [m, oc] @ [k1, k2] @ [e, d] @ [s1, s2] @ [t1, t2, t3, t4] @ [o1, o2, o3, o4] @
      [c1, c2, c3, c4, c5, c6, c7, c8]"
    by (auto simp: numeral_eq_Suc length_Suc_conv)
  obtain k where k: "be16 k = [k1, k2]" using be16_surj by blast
  obtain s where s: "be16 s = [s1, s2]" using be16_surj by blast
  obtain t where t: "be32 t = [t1, t2, t3, t4]" using be32_surj by blast
  obtain p where p: "be32 p = [o1, o2, o3, o4]" using be32_surj by blast
  obtain c where c: "be64 c = [c1, c2, c3, c4, c5, c6, c7, c8]" using be64_surj by blast
  show thesis
    by (rule that [of "\<lparr>Magic = m, Opcode = oc, KeyLen = k, ExtrasLen = e, DataType = d, Status = s,
      TotalBodyLen = t, Opaque = p, CAS = c\<rparr>"]) (simp add: header_bytes_def bs k s t p c)
qed

section \<open>Properties\<close>

text \<open>
  Wire layout. \<open>WriteToBuffer\<close> writes the whole header, big-endian and in the protocol's
  field order, and reports 24; with fewer than 24 bytes of room it writes nothing and reports 0.
\<close>

theorem header_wire_layout:
  assumes "wf_buffer b"
  shows "\<exists>b'. WriteToBuffer h b = Inr (if 24 \<le> room b then 24 else 0, b') \<and>
     written b' = written b @ (if 24 \<le> room b then map Some (header_bytes h) else [])"
  using assms by (simp add: WriteToBuffer_eq written_append)

theorem header_wire_layout_witness:
  "\<exists>b'. WriteToBuffer (MessageHeader_new\<lparr>Magic := 0x80, KeyLen := 0x1122\<rparr>) (fresh 24) = Inr (24, b') \<and>
     take 4 (written b') = [Some 0x80, Some 0, Some 0x11, Some 0x22]"
proof -
  have "be16 0x1122 = [0x11, 0x22]"
    by (simp add: be16_def byte_at_def drop_bit_eq_div)
  then show ?thesis
    using header_wire_layout [of "fresh 24" "MessageHeader_new\<lparr>Magic := 0x80, KeyLen := 0x1122\<rparr>"]
    by (auto simp: wf_fresh heap_maxreq_def header_bytes_def MessageHeader_new_def)
qed

text \<open>
  Header round trip. Parsing what \<open>WriteToBuffer\<close> wrote consumes exactly the 24 bytes and
  gives back every field, but for \<open>CAS\<close>, which is sign-extended from bit 31.
\<close>

theorem header_round_trip:
  assumes "wf_buffer b" "readOffset b = writeOffset b" "24 \<le> room b"
  shows "\<exists>b1 b2. WriteToBuffer h b = Inr (24, b1) \<and>
     ParseFromBuffer b1 h0 = Inr ((24, h\<lparr>CAS := sext31 (CAS h)\<rparr>), b2) \<and> unread b2 = []"
proof -
  let ?b1 = "append_cells (map Some (header_bytes h)) b"
  have un: "unread ?b1 = map Some (header_bytes h) @ []"
    using assms by (simp add: unread_append) (simp add: unread_def length_written)
  have wf: "wf_buffer ?b1" using assms by (simp add: wf_append)
  show ?thesis
    using assms ParseFromBuffer_eq [OF wf un, of h0] un wf
    by (simp add: WriteToBuffer_eq header_seen_def unread_advance)
qed

theorem header_round_trip_witness:
  "\<exists>b1 b2. WriteToBuffer (MessageHeader_new\<lparr>CAS := 0x80000000, TotalBodyLen := 7\<rparr>) (fresh 24) = Inr (24, b1) \<and>
     ParseFromBuffer b1 MessageHeader_new =
       Inr ((24, MessageHeader_new\<lparr>CAS := 0xFFFFFFFF80000000, TotalBodyLen := 7\<rparr>), b2)"
proof -
  have "sext31 0x80000000 = 0xFFFFFFFF80000000"
    by (simp add: sext31_def bit_numeral_word_iff)
  then show ?thesis
    using header_round_trip [of "fresh 24" "MessageHeader_new\<lparr>CAS := 0x80000000, TotalBodyLen := 7\<rparr>" MessageHeader_new]
    by (auto simp: wf_fresh heap_maxreq_def MessageHeader_new_def)
qed

text \<open>
  \<open>ParseFromBuffer\<close> accepts any 24 bytes: it yields a header whose encoding they are, but
  for the sign-extended \<open>CAS\<close>; with fewer than 24 bytes left it changes nothing and reports 0.
\<close>

theorem header_parse_total:
  assumes "wf_buffer b" "unread b = map Some bs"
  shows "if 24 \<le> length bs
     then \<exists>h b'. header_bytes h = take 24 bs \<and>
       ParseFromBuffer b h0 = Inr ((24, h\<lparr>CAS := sext31 (CAS h)\<rparr>), b') \<and> unread b' = map Some (drop 24 bs)
     else ParseFromBuffer b h0 = Inr ((0, h0), b)"
proof (cases "24 \<le> length bs")
  case True
  then have "length (take 24 bs) = 24" by simp
  then obtain h where h: "header_bytes h = take 24 bs" by (rule header_bytes_surj)
  have un: "unread b = map Some (header_bytes h) @ map Some (drop 24 bs)"
    unfolding h assms(2) map_append [symmetric] append_take_drop_id ..
  have "unread (advance 24 b) = map Some (drop 24 bs)"
    using assms True by (simp add: unread_advance drop_map)
  then show ?thesis
    using True h ParseFromBuffer_eq [OF assms(1) un, of h0] by (auto simp: header_seen_def)
qed (use assms in \<open>simp add: ParseFromBuffer_short\<close>)

theorem header_parse_total_witness:
  "ParseFromBuffer (append_cells [Some 1] (fresh 24)) MessageHeader_new =
     Inr ((0, MessageHeader_new), append_cells [Some 1] (fresh 24)) \<and>
   (\<exists>h b'. header_bytes h = replicate 24 1 \<and>
     ParseFromBuffer (append_cells (map Some (replicate 24 1)) (fresh 24)) MessageHeader_new =
       Inr ((24, h\<lparr>CAS := sext31 (CAS h)\<rparr>), b'))"
proof -
  have a: "unread (append_cells [Some 1] (fresh 24)) = map Some [1]"
    and b: "unread (append_cells (map Some (replicate 24 1)) (fresh 24)) = map Some (replicate 24 1)"
    by (subst unread_append; simp add: wf_fresh heap_maxreq_def)+
  have "wf_buffer (append_cells [Some 1] (fresh 24))"
    "wf_buffer (append_cells (map Some (replicate 24 1)) (fresh 24))"
    by (intro wf_append wf_fresh; simp add: heap_maxreq_def)+
  from header_parse_total [OF this(1) a, of MessageHeader_new]
    header_parse_total [OF this(2) b, of MessageHeader_new] show ?thesis
    by auto
qed

end
