(* ===== verification/Messages.thy ===== *)
theory Messages
  imports Header
begin

text \<open>
  \<open>MemcacheMessages\<close>: the four message classes. A message object is the record \<open>BaseMessage\<close>:
  the members of the base class and \<open>derived\<close>, whose constructor is the dynamic class of the
  object and whose arguments are the members the class adds (\<open>_value\<close>, \<open>_flags\<close>, \<open>_expires\<close>).
  The virtual methods are functions by cases on it, with the base class's body where a class
  does not override.

  \<open>m_buffer\<close> is the buffer \<open>_buffer\<close> points to, \<open>None\<close> for a null pointer. A message made for
  sending owns its buffer; a received one shares the socket's read buffer, and \<open>Socket\<close> passes
  that in and takes it back at each use. \<open>std::string\<close> is the list of its bytes; its own
  allocations are taken to succeed.

  The abstract wire format is \<open>frame_cells\<close>: the header, the extras, the key, the value.
\<close>

section \<open>Objects\<close>

datatype derived =
    GetRequest
  | GetResponse DataBuffer "u32 ind"
  | SetRequest DataBuffer "u32 ind" "u32 ind"
  | SetResponse

record BaseMessage =
  m_buffer :: "DataBuffer option"
  m_header :: MessageHeader
  m_key :: "u8 list"
  m_derived :: derived

definition BaseMessage_new :: "heap \<Rightarrow> derived \<Rightarrow> BaseMessage res" where
  "BaseMessage_new ok d =
     bindE (DataBuffer_len ok 2048) (\<lambda>b.
     Inr \<lparr>m_buffer = Some b, m_header = MessageHeader_new, m_key = [], m_derived = d\<rparr>)"

definition BaseMessage_buf :: "DataBuffer option \<Rightarrow> derived \<Rightarrow> BaseMessage" where
  "BaseMessage_buf buffer d =
     \<lparr>m_buffer = buffer, m_header = MessageHeader_new, m_key = [], m_derived = d\<rparr>"

lemma BaseMessage_buf_simps [simp]:
  "m_buffer (BaseMessage_buf b d) = b" "m_header (BaseMessage_buf b d) = MessageHeader_new"
  "m_key (BaseMessage_buf b d) = []" "m_derived (BaseMessage_buf b d) = d"
  by (simp_all add: BaseMessage_buf_def)

definition GetRequest_new :: "heap \<Rightarrow> BaseMessage res" where
  "GetRequest_new ok =
     bindE (BaseMessage_new ok GetRequest) (\<lambda>m.
     Inr (m\<lparr>m_header := m_header m\<lparr>ExtrasLen := 0, TotalBodyLen := 0\<rparr>\<rparr>))"

definition GetRequest_buf :: "DataBuffer option \<Rightarrow> BaseMessage" where
  "GetRequest_buf buffer = BaseMessage_buf buffer GetRequest"

definition GetResponse_new :: "heap \<Rightarrow> BaseMessage res" where
  "GetResponse_new ok = BaseMessage_new ok (GetResponse DataBuffer_new (Some 0))"

definition GetResponse_buf :: "DataBuffer option \<Rightarrow> BaseMessage" where
  "GetResponse_buf buffer = BaseMessage_buf buffer (GetResponse DataBuffer_new (Some 0))"

text \<open>Neither constructor of \<open>SetRequest\<close> initialises \<open>_expires\<close>.\<close>

definition SetRequest_new :: "heap \<Rightarrow> BaseMessage res" where
  "SetRequest_new ok = BaseMessage_new ok (SetRequest DataBuffer_new (Some 0) None)"

definition SetRequest_buf :: "DataBuffer option \<Rightarrow> BaseMessage" where
  "SetRequest_buf buffer = BaseMessage_buf buffer (SetRequest DataBuffer_new (Some 0) None)"

definition SetResponse_new :: "heap \<Rightarrow> BaseMessage res" where
  "SetResponse_new ok = BaseMessage_new ok SetResponse"

definition SetResponse_buf :: "DataBuffer option \<Rightarrow> BaseMessage" where
  "SetResponse_buf buffer = BaseMessage_buf buffer SetResponse"

section \<open>Accessors\<close>

definition GetHeader :: "BaseMessage \<Rightarrow> MessageHeader" where
  "GetHeader m = m_header m"

definition SetHeader :: "MessageHeader \<Rightarrow> BaseMessage \<Rightarrow> BaseMessage" where
  "SetHeader h m = m\<lparr>m_header := h\<rparr>"

definition SetStatus :: "u16 \<Rightarrow> BaseMessage \<Rightarrow> BaseMessage" where
  "SetStatus s m = m\<lparr>m_header := m_header m\<lparr>Status := s\<rparr>\<rparr>"

definition GetStatus :: "BaseMessage \<Rightarrow> u16" where
  "GetStatus m = Status (m_header m)"

definition SetKey :: "u8 list \<Rightarrow> BaseMessage \<Rightarrow> BaseMessage" where
  "SetKey k m = m\<lparr>m_key := k\<rparr>"

definition GetKey :: "BaseMessage \<Rightarrow> u8 list" where
  "GetKey m = m_key m"

text \<open>
  The accessors of the classes with a value. On an object of another class they are not
  defined: they are reached by \<open>static_cast\<close>, which does not check.
\<close>

definition SetValue :: "heap \<Rightarrow> DataBuffer \<Rightarrow> BaseMessage \<Rightarrow> BaseMessage res" where
  "SetValue ok v m =
     (case m_derived m of
        GetResponse v0 f \<Rightarrow> bindE (operator_assign ok False v v0) (\<lambda>v. Inr (m\<lparr>m_derived := GetResponse v f\<rparr>))
      | SetRequest v0 f e \<Rightarrow> bindE (operator_assign ok False v v0) (\<lambda>v. Inr (m\<lparr>m_derived := SetRequest v f e\<rparr>))
      | _ \<Rightarrow> Inl BadCast)"

definition GetValue :: "BaseMessage \<Rightarrow> DataBuffer res" where
  "GetValue m =
     (case m_derived m of GetResponse v _ \<Rightarrow> Inr v | SetRequest v _ _ \<Rightarrow> Inr v | _ \<Rightarrow> Inl BadCast)"

definition SetFlags :: "u32 ind \<Rightarrow> BaseMessage \<Rightarrow> BaseMessage res" where
  "SetFlags f m =
     (case m_derived m of
        GetResponse v _ \<Rightarrow> Inr (m\<lparr>m_derived := GetResponse v f\<rparr>)
      | SetRequest v _ e \<Rightarrow> Inr (m\<lparr>m_derived := SetRequest v f e\<rparr>)
      | _ \<Rightarrow> Inl BadCast)"

definition GetFlags :: "BaseMessage \<Rightarrow> u32 ind res" where
  "GetFlags m =
     (case m_derived m of GetResponse _ f \<Rightarrow> Inr f | SetRequest _ f _ \<Rightarrow> Inr f | _ \<Rightarrow> Inl BadCast)"

definition SetExpiration :: "u32 ind \<Rightarrow> BaseMessage \<Rightarrow> BaseMessage res" where
  "SetExpiration e m =
     (case m_derived m of SetRequest v f _ \<Rightarrow> Inr (m\<lparr>m_derived := SetRequest v f e\<rparr>) | _ \<Rightarrow> Inl BadCast)"

definition GetExpiration :: "BaseMessage \<Rightarrow> u32 ind res" where
  "GetExpiration m = (case m_derived m of SetRequest _ _ e \<Rightarrow> Inr e | _ \<Rightarrow> Inl BadCast)"

section \<open>Writing\<close>

definition the_buffer :: "BaseMessage \<Rightarrow> DataBuffer res" where
  "the_buffer m = (case m_buffer m of None \<Rightarrow> Inl BadAccess | Some b \<Rightarrow> Inr b)"

text \<open>
  The step \<open>WriteKey\<close> and \<open>WriteValue\<close> share: if there is less room than needed, reallocate to
  the current size plus what is needed.
\<close>

definition reserve :: "heap \<Rightarrow> size_t \<Rightarrow> DataBuffer \<Rightarrow> DataBuffer res" where
  "reserve ok n b =
     (if GetBytesLeftForWrite b < n
      then bindE (Realloc ok (bufferSize b + n) b) (\<lambda>(_, b). Inr b)
      else Inr b)"

definition Base_WriteExtras :: "BaseMessage \<Rightarrow> (size_t \<times> BaseMessage) res" where
  [simp]: "Base_WriteExtras m = Inr (0, m)"

definition GetResponse_WriteExtras :: "u32 ind \<Rightarrow> BaseMessage \<Rightarrow> (size_t \<times> BaseMessage) res" where
  [simp]: "GetResponse_WriteExtras flags m =
     bindE (the_buffer m) (\<lambda>b.
     bindE (WriteInt flags b) (\<lambda>(r, b).
     Inr (if r then 4 else 0, m\<lparr>m_buffer := Some b\<rparr>)))"

definition SetRequest_WriteExtras ::
  "u32 ind \<Rightarrow> u32 ind \<Rightarrow> BaseMessage \<Rightarrow> (size_t \<times> BaseMessage) res" where
  [simp]: "SetRequest_WriteExtras flags expires m =
     bindE (the_buffer m) (\<lambda>b.
     bindE (WriteInt flags b) (\<lambda>(r, b).
     if r
     then
       bindE (WriteInt expires b) (\<lambda>(r, b).
       Inr (if r then 8 else 4, m\<lparr>m_buffer := Some b\<rparr>))
     else Inr (0, m\<lparr>m_buffer := Some b\<rparr>)))"

definition WriteExtras :: "BaseMessage \<Rightarrow> (size_t \<times> BaseMessage) res" where
  "WriteExtras m =
     (case m_derived m of
        GetRequest \<Rightarrow> Base_WriteExtras m
      | GetResponse _ flags \<Rightarrow> GetResponse_WriteExtras flags m
      | SetRequest _ flags expires \<Rightarrow> SetRequest_WriteExtras flags expires m
      | SetResponse \<Rightarrow> Base_WriteExtras m)"

definition WriteKey :: "heap \<Rightarrow> BaseMessage \<Rightarrow> (size_t \<times> BaseMessage) res" where
  "WriteKey ok m =
     (if m_key m = []
      then Inr (0, m\<lparr>m_header := m_header m\<lparr>KeyLen := 0\<rparr>\<rparr>)
      else
        let len = (of_nat (length (m_key m)) :: size_t);
            m = m\<lparr>m_header := m_header m\<lparr>KeyLen := ucast len\<rparr>\<rparr>
        in
          bindE (the_buffer m) (\<lambda>b.
          bindE (reserve ok len b) (\<lambda>b.
          bindE (WriteBytes (Some (map Some (m_key m))) len b) (\<lambda>(n, b).
          Inr (n, m\<lparr>m_buffer := Some b\<rparr>)))))"

definition Base_WriteValue :: "BaseMessage \<Rightarrow> (size_t \<times> BaseMessage) res" where
  [simp]: "Base_WriteValue m = Inr (0, m)"

text \<open>\<open>GetResponse::WriteValue\<close> and \<open>SetRequest::WriteValue\<close> have the same body.\<close>

definition write_value :: "heap \<Rightarrow> DataBuffer \<Rightarrow> BaseMessage \<Rightarrow> (size_t \<times> BaseMessage) res" where
  "write_value ok v m =
     bindE (the_buffer m) (\<lambda>b.
     bindE (reserve ok (GetBytesWritten v) b) (\<lambda>b.
     bindE (WriteBytes (data v) (GetBytesWritten v) b) (\<lambda>(n, b).
     Inr (n, m\<lparr>m_buffer := Some b\<rparr>))))"

definition GetResponse_WriteValue :: "heap \<Rightarrow> DataBuffer \<Rightarrow> BaseMessage \<Rightarrow> (size_t \<times> BaseMessage) res" where
  [simp]: "GetResponse_WriteValue ok v m = write_value ok v m"

definition SetRequest_WriteValue :: "heap \<Rightarrow> DataBuffer \<Rightarrow> BaseMessage \<Rightarrow> (size_t \<times> BaseMessage) res" where
  [simp]: "SetRequest_WriteValue ok v m = write_value ok v m"

definition WriteValue :: "heap \<Rightarrow> BaseMessage \<Rightarrow> (size_t \<times> BaseMessage) res" where
  "WriteValue ok m =
     (case m_derived m of
        GetRequest \<Rightarrow> Base_WriteValue m
      | GetResponse v _ \<Rightarrow> GetResponse_WriteValue ok v m
      | SetRequest v _ _ \<Rightarrow> SetRequest_WriteValue ok v m
      | SetResponse \<Rightarrow> Base_WriteValue m)"

text \<open>
  \<open>BaseMessage::Build\<close>. \<open>ExtrasLen\<close> and \<open>KeyLen\<close> are narrower than the \<open>size_t\<close> assigned to
  them, and what is added to \<open>TotalBodyLen\<close> is the value after narrowing.
\<close>

definition Base_Build :: "heap \<Rightarrow> BaseMessage \<Rightarrow> (bool \<times> BaseMessage) res" where
  "Base_Build ok m =
     (case m_buffer m of
        None \<Rightarrow> Inr (False, m)
      | Some b \<Rightarrow>
          let m = m\<lparr>m_buffer := Some (snd (MoveWriteForward kMBPHeaderSize (Reset b)))\<rparr> in
          bindE (WriteExtras m) (\<lambda>(n, m).
          let e = (ucast n :: u8); h = m_header m;
              m = m\<lparr>m_header := h\<lparr>ExtrasLen := e, TotalBodyLen := TotalBodyLen h + ucast e\<rparr>\<rparr> in
          bindE (WriteKey ok m) (\<lambda>(n, m).
          let k = (ucast n :: u16); h = m_header m;
              m = m\<lparr>m_header := h\<lparr>KeyLen := k, TotalBodyLen := TotalBodyLen h + ucast k\<rparr>\<rparr> in
          bindE (WriteValue ok m) (\<lambda>(n, m).
          let h = m_header m; m = m\<lparr>m_header := h\<lparr>TotalBodyLen := TotalBodyLen h + n\<rparr>\<rparr> in
          bindE (the_buffer m) (\<lambda>b.
          bindE (WriteToBuffer (m_header m) (Reset b)) (\<lambda>(n, b).
          if n = kMBPHeaderSize
          then Inr (True, m\<lparr>m_buffer := Some (snd (MoveWriteForward (TotalBodyLen (m_header m)) b))\<rparr>)
          else Inr (False, m\<lparr>m_buffer := Some b\<rparr>)))))))"

text \<open>Only \<open>GetRequest\<close> starts from a new header.\<close>

definition GetRequest_Build :: "heap \<Rightarrow> BaseMessage \<Rightarrow> (bool \<times> BaseMessage) res" where
  [simp]: "GetRequest_Build ok m =
     Base_Build ok (m\<lparr>m_header := MessageHeader_new\<lparr>Magic := kMagicReq, Opcode := kOpGet\<rparr>\<rparr>)"

definition GetResponse_Build :: "heap \<Rightarrow> BaseMessage \<Rightarrow> (bool \<times> BaseMessage) res" where
  [simp]: "GetResponse_Build ok m =
     Base_Build ok (m\<lparr>m_header := m_header m\<lparr>Magic := kMagicRes, Opcode := kOpGet\<rparr>\<rparr>)"

definition SetRequest_Build :: "heap \<Rightarrow> BaseMessage \<Rightarrow> (bool \<times> BaseMessage) res" where
  [simp]: "SetRequest_Build ok m =
     Base_Build ok (m\<lparr>m_header := m_header m\<lparr>Magic := kMagicReq, Opcode := kOpSet\<rparr>\<rparr>)"

definition SetResponse_Build :: "heap \<Rightarrow> BaseMessage \<Rightarrow> (bool \<times> BaseMessage) res" where
  [simp]: "SetResponse_Build ok m =
     Base_Build ok (m\<lparr>m_header := m_header m\<lparr>Magic := kMagicRes, Opcode := kOpSet\<rparr>\<rparr>)"

definition Build :: "heap \<Rightarrow> BaseMessage \<Rightarrow> (bool \<times> BaseMessage) res" where
  "Build ok m =
     (case m_derived m of
        GetRequest \<Rightarrow> GetRequest_Build ok m
      | GetResponse _ _ \<Rightarrow> GetResponse_Build ok m
      | SetRequest _ _ _ \<Rightarrow> SetRequest_Build ok m
      | SetResponse \<Rightarrow> SetResponse_Build ok m)"

section \<open>Parsing\<close>

definition Base_ReadExtras :: "BaseMessage \<Rightarrow> (bool \<times> BaseMessage) res" where
  [simp]: "Base_ReadExtras m = Inr (True, m)"

definition GetResponse_ReadExtras :: "DataBuffer \<Rightarrow> BaseMessage \<Rightarrow> (bool \<times> BaseMessage) res" where
  [simp]: "GetResponse_ReadExtras v m =
     (if ExtrasLen (m_header m) = 4
      then
        bindE (the_buffer m) (\<lambda>b.
        bindE (ReadInt b) (\<lambda>(flags, b).
        Inr (True, m\<lparr>m_buffer := Some b, m_derived := GetResponse v flags\<rparr>)))
      else Inr (False, m))"

definition SetRequest_ReadExtras :: "DataBuffer \<Rightarrow> BaseMessage \<Rightarrow> (bool \<times> BaseMessage) res" where
  [simp]: "SetRequest_ReadExtras v m =
     (if ExtrasLen (m_header m) = 8
      then
        bindE (the_buffer m) (\<lambda>b.
        bindE (ReadInt b) (\<lambda>(flags, b).
        bindE (ReadInt b) (\<lambda>(expires, b).
        Inr (True, m\<lparr>m_buffer := Some b, m_derived := SetRequest v flags expires\<rparr>))))
      else Inr (False, m))"

definition ReadExtras :: "BaseMessage \<Rightarrow> (bool \<times> BaseMessage) res" where
  "ReadExtras m =
     (case m_derived m of
        GetRequest \<Rightarrow> Base_ReadExtras m
      | GetResponse v _ \<Rightarrow> GetResponse_ReadExtras v m
      | SetRequest v _ _ \<Rightarrow> SetRequest_ReadExtras v m
      | SetResponse \<Rightarrow> Base_ReadExtras m)"

definition ReadKey :: "BaseMessage \<Rightarrow> (bool \<times> BaseMessage) res" where
  "ReadKey m =
     (let m = m\<lparr>m_key := []\<rparr>; len = (ucast (KeyLen (m_header m)) :: size_t) in
      if KeyLen (m_header m) > 0
      then
        bindE (the_buffer m) (\<lambda>b.
        if GetBytesLeftToRead b \<ge> len
        then
          (case GetReadPtr b of
             None \<Rightarrow> Inl BadAccess
           | Some p \<Rightarrow>
               bindE (mem_load (data b) p len) (\<lambda>cs.
               bindE (determined (those cs)) (\<lambda>k.
               Inr (True, m\<lparr>m_key := k, m_buffer := Some (snd (MoveReadForward len b))\<rparr>))))
        else Inr (False, m))
      else Inr (True, m))"

text \<open>
  \<open>KeyLen + ExtrasLen\<close> is added as \<open>int\<close> and then subtracted as \<open>unsigned int\<close>: the size wraps when
  \<open>TotalBodyLen\<close> is smaller than the sum.
\<close>

definition value_size :: "MessageHeader \<Rightarrow> size_t" where
  "value_size h = TotalBodyLen h - (ucast (KeyLen h) + ucast (ExtrasLen h))"

definition read_value :: "heap \<Rightarrow> size_t \<Rightarrow> DataBuffer \<Rightarrow> DataBuffer \<Rightarrow> (DataBuffer \<times> DataBuffer) res" where
  "read_value ok valSize v b =
     bindE (Alloc ok valSize v) (\<lambda>(_, v).
     bindE (ReadBytes valSize b) (\<lambda>((_, cs), b).
     bindE (mem_store (data v) 0 cs) (\<lambda>p.
     let b = snd (MoveReadForward valSize b); v = snd (MoveWriteForward valSize (v\<lparr>data := p\<rparr>))
     in Inr (v, b))))"

definition Base_ReadValue :: "BaseMessage \<Rightarrow> (bool \<times> BaseMessage) res" where
  [simp]: "Base_ReadValue m = Inr (True, m)"

definition GetResponse_ReadValue :: "heap \<Rightarrow> DataBuffer \<Rightarrow> u32 ind \<Rightarrow> BaseMessage \<Rightarrow> (bool \<times> BaseMessage) res" where
  [simp]: "GetResponse_ReadValue ok v flags m =
     (let valSize = value_size (m_header m) in
      if valSize > 0
      then
        bindE (the_buffer m) (\<lambda>b.
        bindE (read_value ok valSize v b) (\<lambda>(v, b).
        Inr (True, m\<lparr>m_buffer := Some b, m_derived := GetResponse v flags\<rparr>)))
      else Inr (True, m))"

definition SetRequest_ReadValue ::
  "heap \<Rightarrow> DataBuffer \<Rightarrow> u32 ind \<Rightarrow> u32 ind \<Rightarrow> BaseMessage \<Rightarrow> (bool \<times> BaseMessage) res" where
  [simp]: "SetRequest_ReadValue ok v flags expires m =
     (let valSize = value_size (m_header m) in
      if valSize > 0
      then
        bindE (the_buffer m) (\<lambda>b.
        bindE (read_value ok valSize v b) (\<lambda>(v, b).
        Inr (True, m\<lparr>m_buffer := Some b, m_derived := SetRequest v flags expires\<rparr>)))
      else Inr (True, m))"

definition ReadValue :: "heap \<Rightarrow> BaseMessage \<Rightarrow> (bool \<times> BaseMessage) res" where
  "ReadValue ok m =
     (case m_derived m of
        GetRequest \<Rightarrow> Base_ReadValue m
      | GetResponse v flags \<Rightarrow> GetResponse_ReadValue ok v flags m
      | SetRequest v flags expires \<Rightarrow> SetRequest_ReadValue ok v flags expires m
      | SetResponse \<Rightarrow> Base_ReadValue m)"

definition Base_Parse :: "heap \<Rightarrow> BaseMessage \<Rightarrow> (bool \<times> BaseMessage) res" where
  "Base_Parse ok m =
     (case m_buffer m of
        None \<Rightarrow> Inr (False, m)
      | Some b \<Rightarrow>
          bindE (ParseFromBuffer (ResetRead b) (m_header m)) (\<lambda>((n, h), b).
          let m = m\<lparr>m_buffer := Some b, m_header := h\<rparr> in
          if n = kMBPHeaderSize
          then
            bindE (ReadExtras m) (\<lambda>(r1, m).
            bindE (ReadKey m) (\<lambda>(r2, m).
            bindE (ReadValue ok m) (\<lambda>(r3, m).
            Inr (r1 \<and> r2 \<and> r3, m))))
          else Inr (False, m)))"

definition GetRequest_checks :: "MessageHeader \<Rightarrow> bool" where
  "GetRequest_checks h =
     (if Magic h \<noteq> kMagicReq then False
      else if Opcode h \<noteq> kOpGet then False
      else if ExtrasLen h > 0 then False
      else if KeyLen h = 0 then False
      else if TotalBodyLen h \<noteq> ucast (KeyLen h) then False
      else True)"

definition GetRequest_Parse :: "heap \<Rightarrow> BaseMessage \<Rightarrow> (bool \<times> BaseMessage) res" where
  "GetRequest_Parse ok m =
     bindE (Base_Parse ok m) (\<lambda>(r, m).
     if r then Inr (GetRequest_checks (m_header m), m) else Inr (False, m))"

definition GetResponse_Parse :: "heap \<Rightarrow> BaseMessage \<Rightarrow> (bool \<times> BaseMessage) res" where
  "GetResponse_Parse ok m =
     bindE (Base_Parse ok m) (\<lambda>(r, m).
     if r then Inr (True, m) else Inr (False, m))"

definition SetRequest_checks :: "MessageHeader \<Rightarrow> bool" where
  "SetRequest_checks h =
     (if ExtrasLen h \<noteq> 8 then False
      else if KeyLen h = 0 then False
      else if TotalBodyLen h \<le> ucast (ExtrasLen h) + ucast (KeyLen h) then False
      else True)"

definition SetRequest_Parse :: "heap \<Rightarrow> BaseMessage \<Rightarrow> (bool \<times> BaseMessage) res" where
  "SetRequest_Parse ok m =
     bindE (Base_Parse ok m) (\<lambda>(r, m).
     if r then Inr (SetRequest_checks (m_header m), m) else Inr (False, m))"

text \<open>\<open>SetResponse\<close> does not override \<open>Parse\<close>.\<close>

definition Parse :: "heap \<Rightarrow> BaseMessage \<Rightarrow> (bool \<times> BaseMessage) res" where
  "Parse ok m =
     (case m_derived m of
        GetRequest \<Rightarrow> GetRequest_Parse ok m
      | GetResponse _ _ \<Rightarrow> GetResponse_Parse ok m
      | SetRequest _ _ _ \<Rightarrow> SetRequest_Parse ok m
      | SetResponse \<Rightarrow> Base_Parse ok m)"

lemma Parse_eq:
  "Parse ok m =
     bindE (Base_Parse ok m) (\<lambda>(r, m').
     Inr (r \<and> (case m_derived m of
         GetRequest \<Rightarrow> GetRequest_checks (m_header m')
       | SetRequest _ _ _ \<Rightarrow> SetRequest_checks (m_header m')
       | _ \<Rightarrow> True), m'))"
  by (cases "Base_Parse ok m")
    (auto simp: Parse_def GetRequest_Parse_def GetResponse_Parse_def SetRequest_Parse_def split: derived.split)

section \<open>The wire format\<close>

fun extras_cells :: "derived \<Rightarrow> cell list" where
  "extras_cells (GetResponse _ f) = cells32 f"
| "extras_cells (SetRequest _ f e) = cells32 f @ cells32 e"
| "extras_cells _ = []"

fun value_of :: "derived \<Rightarrow> DataBuffer" where
  "value_of (GetResponse v _) = v"
| "value_of (SetRequest v _ _) = v"
| "value_of _ = DataBuffer_new"

definition value_cells :: "derived \<Rightarrow> cell list" where
  "value_cells d = written (value_of d)"

definition frame_cells :: "MessageHeader \<Rightarrow> derived \<Rightarrow> u8 list \<Rightarrow> cell list" where
  "frame_cells h d k = map Some (header_bytes h) @ extras_cells d @ map Some k @ value_cells d"

text \<open>The bytes a built message is sent as.\<close>

definition wire :: "BaseMessage \<Rightarrow> cell list" where
  "wire m = (case m_buffer m of None \<Rightarrow> [] | Some b \<Rightarrow> written b)"

definition wf_message :: "BaseMessage \<Rightarrow> bool" where
  "wf_message m \<longleftrightarrow> (\<forall>b. m_buffer m = Some b \<longrightarrow> wf_buffer b) \<and> wf_buffer (value_of (m_derived m))"

fun same_class :: "derived \<Rightarrow> derived \<Rightarrow> bool" where
  "same_class GetRequest GetRequest = True"
| "same_class (GetResponse _ _) (GetResponse _ _) = True"
| "same_class (SetRequest _ _ _) (SetRequest _ _ _) = True"
| "same_class SetResponse SetResponse = True"
| "same_class _ _ = False"

lemma same_class_refl [simp]: "same_class d d"
  by (cases d) simp_all

lemma same_class_trans: "same_class a b \<Longrightarrow> same_class b c \<Longrightarrow> same_class a c"
  by (cases a; cases b; cases c) simp_all

lemma written_new [simp]: "written DataBuffer_new = []"
  by (simp add: written_def DataBuffer_new_def cells_def)

subsection \<open>Building\<close>

definition heap_serves :: "nat \<Rightarrow> heap \<Rightarrow> bool" where
  "heap_serves n ok \<longleftrightarrow> n \<le> unat heap_maxreq \<and> (\<forall>s. unat s \<le> n \<longrightarrow> ok s)"

lemma heap_serves_new:
  "heap_serves n ok \<Longrightarrow> unat s \<le> n \<Longrightarrow> new_array ok s = Inr (replicate (unat s) None)"
  by (simp add: heap_serves_def new_array_def word_le_nat_alt)

lemma heap_serves_mono: "heap_serves n ok \<Longrightarrow> m \<le> n \<Longrightarrow> heap_serves m ok"
  by (simp add: heap_serves_def)

lemma reserve_eq:
  assumes "wf_buffer b" "heap_serves (unat (bufferSize b) + unat n) ok"
  obtains b' where "reserve ok n b = Inr b'" "wf_buffer b'" "written b' = written b"
    "unat n \<le> room b'" "unat (bufferSize b') \<le> unat (bufferSize b) + unat n"
    "unat (bufferSize b) \<le> unat (bufferSize b')"
proof (cases "GetBytesLeftForWrite b < n")
  case True
  let ?len = "bufferSize b + n"
  have "unat (bufferSize b) + unat n < 2 ^ 32"
    using assms(2) by (simp add: heap_serves_def heap_maxreq_def)
  then have len: "unat ?len = unat (bufferSize b) + unat n"
    by (simp add: unat_word_ariths)
  have max: "?len \<le> heap_maxreq"
    using assms(2) len by (simp add: heap_serves_def word_le_nat_alt)
  have w: "length (written b) \<le> unat (bufferSize b)"
    using assms(1) wf_offsets by (simp add: length_written)
  show thesis
    by (rule that [of "resized ?len b"])
      (use True assms len max w in \<open>simp_all add: reserve_def Realloc_eq heap_serves_new wf_resized
        written_resized room_resized\<close>)
next
  case False
  then have "unat n \<le> room b"
    by (simp add: word_le_nat_alt not_less flip: unat_left_for_write)
  with False show thesis
    using that [of b] assms by (simp add: reserve_def)
qed

text \<open>What the three writes do to the buffer of a message that has room for the extras.\<close>

lemma WriteExtras_eq:
  assumes "m_buffer m = Some b" "wf_buffer b" "8 \<le> room b"
  shows "WriteExtras m = Inr (of_nat (length (extras_cells (m_derived m))),
     m\<lparr>m_buffer := Some (append_cells (extras_cells (m_derived m)) b)\<rparr>)"
  using assms
  by (cases "m_derived m")
    (simp_all add: WriteExtras_def the_buffer_def WriteInt_eq wf_append room_append append_append)

lemma WriteKey_eq:
  assumes "m_buffer m = Some b" "wf_buffer b" "heap_serves (unat (bufferSize b) + length (m_key m)) ok"
  obtains b' where "WriteKey ok m = Inr (of_nat (length (m_key m)),
      m\<lparr>m_header := m_header m\<lparr>KeyLen := of_nat (length (m_key m))\<rparr>, m_buffer := Some b'\<rparr>)"
    "wf_buffer b'" "written b' = written b @ map Some (m_key m)"
    "unat (bufferSize b) \<le> unat (bufferSize b')"
    "unat (bufferSize b') \<le> unat (bufferSize b) + length (m_key m)"
proof (cases "m_key m = []")
  case True
  then show thesis
    using assms that [of b] by (simp add: WriteKey_def)
next
  case False
  let ?len = "of_nat (length (m_key m)) :: size_t"
  have len: "unat ?len = length (m_key m)"
    using assms(3) by (simp add: heap_serves_def heap_maxreq_def unat_of_nat take_bit_eq_mod)
  have cast: "ucast ?len = (of_nat (length (m_key m)) :: u16)"
    by (rule bit_word_eqI) (simp add: bit_simps)
  obtain b1 where b1: "reserve ok ?len b = Inr b1" "wf_buffer b1" "written b1 = written b"
      "length (m_key m) \<le> room b1" "unat (bufferSize b1) \<le> unat (bufferSize b) + length (m_key m)"
      "unat (bufferSize b) \<le> unat (bufferSize b1)"
    using reserve_eq [OF assms(2), of ?len ok] assms(3) len by metis
  have "WriteBytes (Some (map Some (m_key m))) ?len b1 = Inr (?len, append_cells (map Some (m_key m)) b1)"
    using b1 len by (intro WriteBytes_fits) simp_all
  then show thesis
    using False assms(1) b1 cast that [of "append_cells (map Some (m_key m)) b1"]
    by (simp add: WriteKey_def the_buffer_def Let_def wf_append written_append)
qed

lemma write_value_eq:
  assumes "m_buffer m = Some b" "wf_buffer b" "wf_buffer v"
    "heap_serves (unat (bufferSize b) + length (written v)) ok"
  obtains b' where "write_value ok v m = Inr (of_nat (length (written v)), m\<lparr>m_buffer := Some b'\<rparr>)"
    "wf_buffer b'" "written b' = written b @ written v"
    "unat (bufferSize b) \<le> unat (bufferSize b')"
    "unat (bufferSize b') \<le> unat (bufferSize b) + length (written v)"
proof -
  let ?n = "GetBytesWritten v"
  have n: "unat ?n = length (written v)" "?n = of_nat (length (written v))"
    using assms(3) by (simp_all add: GetBytesWritten_def length_written)
  obtain b1 where b1: "reserve ok ?n b = Inr b1" "wf_buffer b1" "written b1 = written b"
      "length (written v) \<le> room b1" "unat (bufferSize b1) \<le> unat (bufferSize b) + length (written v)"
      "unat (bufferSize b) \<le> unat (bufferSize b1)"
    using reserve_eq [OF assms(2), of ?n ok] assms(4) n by metis
  have "WriteBytes (data v) ?n b1 = Inr (?n, append_cells (written v) b1)"
  proof (cases "data v")
    case None
    then have "written v = []" by (simp add: written_def cells_def)
    then have "?n = 0" using n by (simp add: unat_eq_0)
    then show ?thesis using \<open>written v = []\<close> b1(2) by simp
  next
    case (Some cs)
    then have "unat ?n \<le> length cs" "take (unat ?n) cs = written v"
      using wf_data [OF assms(3)] wf_offsets [OF assms(3)]
      by (simp_all add: GetBytesWritten_def written_def cells_def)
    then show ?thesis
      using Some b1(4) n by (simp add: WriteBytes_eq [OF b1(2)] Let_def min_absorb1)
  qed
  then show thesis
    using assms(1) b1 n that [of "append_cells (written v) b1"]
    by (simp add: write_value_def the_buffer_def wf_append written_append)
qed

lemma WriteValue_eq:
  assumes "m_buffer m = Some b" "wf_buffer b" "wf_buffer (value_of (m_derived m))"
    "heap_serves (unat (bufferSize b) + length (value_cells (m_derived m))) ok"
  obtains b' where
    "WriteValue ok m = Inr (of_nat (length (value_cells (m_derived m))), m\<lparr>m_buffer := Some b'\<rparr>)"
    "wf_buffer b'" "written b' = written b @ value_cells (m_derived m)"
    "unat (bufferSize b) \<le> unat (bufferSize b')"
proof (cases "m_derived m")
  case (GetResponse v f)
  then show thesis
    using write_value_eq [OF assms(1,2), of v ok] assms(3,4) that
    by (simp add: WriteValue_def value_cells_def) blast
next
  case (SetRequest v f e)
  then show thesis
    using write_value_eq [OF assms(1,2), of v ok] assms(3,4) that
    by (simp add: WriteValue_def value_cells_def) blast
qed (use assms that [of b] in \<open>simp_all add: WriteValue_def value_cells_def\<close>)

text \<open>
  The header \<open>Base_Build\<close> leaves: \<open>T\<close> is the \<open>TotalBodyLen\<close> the message had before, and the
  key length is counted modulo \<open>2 ^ 16\<close>.
\<close>

definition built_header :: "BaseMessage \<Rightarrow> MessageHeader" where
  "built_header m =
     (let h = m_header m; d = m_derived m; k = length (m_key m) in
      h\<lparr>ExtrasLen := of_nat (length (extras_cells d)), KeyLen := of_nat k,
        TotalBodyLen := TotalBodyLen h +
          of_nat (length (extras_cells d) + k mod 65536 + length (value_cells d))\<rparr>)"

lemma extras_lengths: "length (extras_cells d) \<in> {0, 4, 8}"
  by (cases d) simp_all

lemma narrow_extras:
  "ucast (of_nat (length (extras_cells d)) :: size_t) = (of_nat (length (extras_cells d)) :: u8)"
  "ucast (of_nat (length (extras_cells d)) :: u8) = (of_nat (length (extras_cells d)) :: u32)"
  using extras_lengths [of d] by auto

lemma narrow_key:
  "ucast (of_nat n :: size_t) = (of_nat n :: u16)"
  "ucast (of_nat n :: u16) = (of_nat (n mod 65536) :: u32)"
proof -
  show "ucast (of_nat n :: size_t) = (of_nat n :: u16)"
    by (rule bit_word_eqI) (simp add: bit_simps)
  show "ucast (of_nat n :: u16) = (of_nat (n mod 65536) :: u32)"
  proof (rule bit_word_eqI)
    fix i assume "i < LENGTH(32)"
    have "n mod 65536 = take_bit 16 n" by (simp add: take_bit_eq_mod)
    then show "bit (ucast (of_nat n :: u16) :: u32) i = bit (of_nat (n mod 65536) :: u32) i"
      using \<open>i < LENGTH(32)\<close> by (auto simp: bit_simps)
  qed
qed

lemma wf_start:
  assumes "wf_buffer b" "32 \<le> unat (bufferSize b)"
  defines "b0 \<equiv> snd (MoveWriteForward kMBPHeaderSize (Reset b))"
  shows "wf_buffer b0" "bufferSize b0 = bufferSize b" "length (written b0) = 24" "8 \<le> room b0"
proof -
  have "min 24 (bufferSize b) = 24"
    using assms(2) by (simp add: min_def word_le_nat_alt)
  then have b0: "b0 = b\<lparr>readOffset := 0, writeOffset := 24\<rparr>"
    by (simp add: b0_def MoveWriteForward_def kMBPHeaderSize_def Reset_def)
  show wf: "wf_buffer b0"
    unfolding b0_def by (rule MoveWriteForward_wf [OF wf_reset(1) [OF assms(1)]])
  show "bufferSize b0 = bufferSize b" "8 \<le> room b0" "length (written b0) = 24"
    using length_written [OF wf] assms(2) by (simp_all add: b0 room_def)
qed

lemma Base_Build_eq:
  assumes b: "m_buffer m = Some b" and wf: "wf_message m" and size: "32 \<le> unat (bufferSize b)"
    and heap: "heap_serves (unat (bufferSize b) + length (m_key m) + length (value_cells (m_derived m))) ok"
  obtains b' rest where "Base_Build ok m = Inr (True, m\<lparr>m_header := built_header m, m_buffer := Some b'\<rparr>)"
    "wf_buffer b'" "writeOffset b' = min (24 + TotalBodyLen (built_header m)) (bufferSize b')"
    "cells b' = frame_cells (built_header m) (m_derived m) (m_key m) @ rest"
proof -
  let ?d = "m_derived m" and ?h = "built_header m"
  define b0 where "b0 = snd (MoveWriteForward kMBPHeaderSize (Reset b))"
  have wfb: "wf_buffer b" and wfv: "wf_buffer (value_of ?d)"
    using wf b by (simp_all add: wf_message_def)
  note start = wf_start [OF wfb size, folded b0_def]
  define m0 where "m0 = m\<lparr>m_buffer := Some b0\<rparr>"
  define b1 where "b1 = append_cells (extras_cells ?d) b0"
  have extras: "WriteExtras m0 = Inr (of_nat (length (extras_cells ?d)), m\<lparr>m_buffer := Some b1\<rparr>)"
    using WriteExtras_eq [of m0 b0] start by (simp add: m0_def b1_def)
  have fits: "length (extras_cells ?d) \<le> room b0"
    using start(4) extras_lengths [of ?d] by auto
  have wf1: "wf_buffer b1" and w1: "written b1 = written b0 @ extras_cells ?d"
      and s1: "bufferSize b1 = bufferSize b"
    using fits start by (simp_all add: b1_def wf_append written_append)
  define m1 where "m1 = m\<lparr>m_buffer := Some b1, m_header := (m_header m)\<lparr>
      ExtrasLen := of_nat (length (extras_cells ?d)),
      TotalBodyLen := TotalBodyLen (m_header m) + of_nat (length (extras_cells ?d))\<rparr>\<rparr>"
  obtain b2 where k: "WriteKey ok m1 = Inr (of_nat (length (m_key m)),
      m1\<lparr>m_header := m_header m1\<lparr>KeyLen := of_nat (length (m_key m))\<rparr>, m_buffer := Some b2\<rparr>)"
    "wf_buffer b2" "written b2 = written b1 @ map Some (m_key m)"
    "unat (bufferSize b) \<le> unat (bufferSize b2)"
    "unat (bufferSize b2) \<le> unat (bufferSize b) + length (m_key m)"
    using WriteKey_eq [of m1 b1 ok] wf1 s1 heap_serves_mono [OF heap]
    by (force simp: m1_def)
  define m2 where "m2 = m1\<lparr>m_buffer := Some b2, m_header := (m_header m1)\<lparr>KeyLen := of_nat (length (m_key m)),
      TotalBodyLen := TotalBodyLen (m_header m1) + of_nat (length (m_key m) mod 65536)\<rparr>\<rparr>"
  have d2: "m_derived m2 = ?d" "m_buffer m2 = Some b2" by (simp_all add: m2_def m1_def)
  have "heap_serves (unat (bufferSize b2) + length (value_cells ?d)) ok"
    using k(5) by (intro heap_serves_mono [OF heap]) simp
  then obtain b3 where v: "WriteValue ok m2 = Inr (of_nat (length (value_cells ?d)), m2\<lparr>m_buffer := Some b3\<rparr>)"
    "wf_buffer b3" "written b3 = written b2 @ value_cells ?d" "unat (bufferSize b2) \<le> unat (bufferSize b3)"
    using WriteValue_eq [of m2 b2 ok] d2 k(2) wfv by metis
  have hdr: "(m_header m2)\<lparr>TotalBodyLen := TotalBodyLen (m_header m2) + of_nat (length (value_cells ?d))\<rparr> = ?h"
    by (simp add: m2_def m1_def built_header_def Let_def ac_simps)
  define b4 where "b4 = append_cells (map Some (header_bytes ?h)) (Reset b3)"
  have wf3: "wf_buffer (Reset b3)" by (rule wf_reset(1) [OF v(2)])
  have room3: "24 \<le> room (Reset b3)"
    using size k(4) v(4) by (simp add: room_def Reset_def)
  have b4: "WriteToBuffer ?h (Reset b3) = Inr (kMBPHeaderSize, b4)"
    using room3 by (simp add: WriteToBuffer_eq [OF wf3] b4_def kMBPHeaderSize_def)
  have wf4: "wf_buffer b4" using room3 wf3 by (simp add: b4_def wf_append)
  have w4: "writeOffset b4 = 24" by (simp add: b4_def append_cells_def Reset_def)
  have "cells b3 = written b3 @ drop (length (written b3)) (cells b3)"
    using length_written [OF v(2)] by (simp add: written_def min_absorb2)
  then have "drop 24 (cells b3) = extras_cells ?d @ map Some (m_key m) @ value_cells ?d @
      drop (length (written b3)) (cells b3)"
    using start(3) v(3) k(3) w1 by (metis append.assoc append_eq_conv_conj)
  moreover have "written (Reset b3) = []" "cells (Reset b3) = cells b3" "writeOffset (Reset b3) = 0"
    by (simp_all add: written_def Reset_def cells_def)
  ultimately have cells4: "cells b4 = frame_cells ?h ?d (m_key m) @ drop (length (written b3)) (cells b3)"
    using room3 by (simp add: b4_def cells_append [OF wf3] frame_cells_def)
  define b5 where "b5 = snd (MoveWriteForward (TotalBodyLen ?h) b4)"
  have "Base_Build ok m = Inr (True, m\<lparr>m_header := ?h, m_buffer := Some b5\<rparr>)"
    using extras [unfolded m0_def b0_def] k(1) [unfolded m1_def] v(1) [unfolded m2_def m1_def] b4
      hdr [unfolded m2_def m1_def]
    by (simp add: Base_Build_def b Let_def narrow_extras narrow_key the_buffer_def b5_def)
  moreover have "wf_buffer b5" unfolding b5_def by (rule MoveWriteForward_wf [OF wf4])
  moreover have "writeOffset b5 = min (24 + TotalBodyLen ?h) (bufferSize b5)" "cells b5 = cells b4"
    by (simp_all add: b5_def MoveWriteForward_def Let_def w4 cells_def)
  ultimately show thesis
    using that cells4 by metis
qed

subsection \<open>Parsing\<close>

lemma those_map_Some [simp]: "those (map Some xs) = Some xs"
  by (induction xs) simp_all

lemma ReadInt_cells32: "wf_buffer b \<Longrightarrow> unread b = cells32 v @ xs \<Longrightarrow> ReadInt b = Inr (v, advance 4 b)"
  by (cases v) (simp_all add: ReadInt_be32 cells_of_def ReadInt_cells numeral_eq_Suc)

definition filled :: "size_t \<Rightarrow> cell list \<Rightarrow> DataBuffer" where
  "filled n xs = \<lparr>data = Some (take (unat n) xs @ replicate (unat n - length xs) None), bufferSize = n,
     writeOffset = n, readOffset = 0\<rparr>"

lemma filled_simps [simp]:
  "bufferSize (filled n xs) = n" "writeOffset (filled n xs) = n" "readOffset (filled n xs) = 0"
  "written (filled n xs) = take (unat n) xs @ replicate (unat n - length xs) None"
  by (simp_all add: filled_def written_def cells_def)

lemma wf_filled: "n \<le> heap_maxreq \<Longrightarrow> wf_buffer (filled n xs)"
  by (simp add: wf_buffer_def) (simp add: filled_def cells_def)

lemma read_value_eq:
  assumes "wf_buffer b"
  shows "read_value ok n v b =
     bindE (new_array ok n) (\<lambda>_. Inr (filled n (unread b),
       snd (MoveReadForward n (advance (min (unat n) (length (unread b))) b))))"
proof -
  have "mem_store (data (fresh n)) 0 (take (unat n) (unread b)) =
      Inr (Some (take (unat n) (unread b) @ replicate (unat n - length (unread b)) None))"
    by (simp add: fresh_def mem_store_Some)
  then show ?thesis
    using assms
    by (simp add: read_value_def Alloc_eq bindE_assoc ReadBytes_eq Let_def MoveWriteForward_def filled_def
        fresh_def)
qed

lemma MoveReadForward_advance_wf:
  assumes "wf_buffer b"
  shows "wf_buffer (snd (MoveReadForward n (advance (min k (length (unread b))) b)))"
    "written (snd (MoveReadForward n (advance (min k (length (unread b))) b))) = written b"
proof -
  let ?b = "advance (min k (length (unread b))) b"
  have "wf_buffer ?b" using assms by (intro wf_advance) simp_all
  note moved = MoveReadForward_wf [OF this, of n]
  then show "wf_buffer (snd (MoveReadForward n ?b))" ..
  show "written (snd (MoveReadForward n ?b)) = written b"
    using ResetRead_cong(5) [OF moved [THEN conjunct2]] by simp
qed

lemma unat_wide_key: "unat (ucast k :: size_t) = unat k" for k :: u16
proof -
  have "unat k < 2 ^ LENGTH(16)" by (rule unsigned_less)
  then show ?thesis by (simp add: unsigned_ucast_eq take_bit_nat_eq_self_iff)
qed

lemma ReadKey_eq:
  assumes "m_buffer m = Some b" "wf_buffer b" "unread b = map Some k @ xs" "length k = unat (KeyLen (m_header m))"
  shows "ReadKey m = Inr (True, m\<lparr>m_key := k, m_buffer := Some (advance (length k) b)\<rparr>)"
proof (cases "KeyLen (m_header m) = 0")
  case True
  then show ?thesis using assms by (simp add: ReadKey_def Let_def)
next
  case False
  let ?len = "ucast (KeyLen (m_header m)) :: size_t"
  have len: "unat ?len = length k"
    using assms(4) by (simp add: unat_wide_key)
  have pos: "0 < length k"
    using False assms(4) by (simp add: unat_gt_0)
  have left: "?len \<le> GetBytesLeftToRead b" "0 < GetBytesLeftToRead b"
    using assms pos len by (simp_all add: word_le_nat_alt word_less_nat_alt unat_left_to_read)
  have rb: "ReadBytes ?len b = Inr ((?len, map Some k), advance (length k) b)"
  proof -
    have "(of_nat (length k) :: size_t) = ?len" by (simp flip: len)
    then show ?thesis using assms len by (simp add: ReadBytes_eq Let_def)
  qed
  have "min ?len (GetBytesLeftToRead b) = ?len" "0 < ?len"
    using left len pos by (simp_all add: min_def word_less_nat_alt)
  then have "bindE (mem_load (data b) (readOffset b) ?len) (\<lambda>cs.
      Inr ((?len, cs), snd (MoveReadForward ?len b))) = Inr ((?len, map Some k), advance (length k) b)"
    using rb by (simp add: ReadBytes_def Let_def)
  then have "mem_load (data b) (readOffset b) ?len = Inr (map Some k)"
      "snd (MoveReadForward ?len b) = advance (length k) b"
    by (auto simp: bindE_eq_Inr)
  then show ?thesis
    using False left assms(1) by (simp add: ReadKey_def Let_def the_buffer_def GetReadPtr_def word_gt_0)
qed

lemma ReadKey_short:
  assumes "m_buffer m = Some b" "wf_buffer b" "length (unread b) < unat (KeyLen (m_header m))"
  shows "ReadKey m = Inr (False, m\<lparr>m_key := []\<rparr>)"
proof -
  have "unat (ucast (KeyLen (m_header m)) :: size_t) = unat (KeyLen (m_header m))"
    by (rule unat_wide_key)
  then have "\<not> ucast (KeyLen (m_header m)) \<le> GetBytesLeftToRead b"
    using assms by (simp add: word_le_nat_alt unat_left_to_read)
  moreover have "KeyLen (m_header m) \<noteq> 0"
    using assms(3) by auto
  ultimately show ?thesis
    using assms(1) by (simp add: ReadKey_def Let_def the_buffer_def word_gt_0)
qed

lemma Base_Parse_header:
  assumes "m_buffer m = Some b" "wf_buffer b" "written b = map Some (header_bytes h) @ xs"
  defines "b1 \<equiv> advance 24 (ResetRead b)"
  shows "Base_Parse ok m =
      (let m = m\<lparr>m_buffer := Some b1, m_header := header_seen h\<rparr> in
       bindE (ReadExtras m) (\<lambda>(r1, m).
       bindE (ReadKey m) (\<lambda>(r2, m).
       bindE (ReadValue ok m) (\<lambda>(r3, m).
       Inr (r1 \<and> r2 \<and> r3, m)))))"
    "wf_buffer b1" "unread b1 = xs" "written b1 = written b"
proof -
  have wf: "wf_buffer (ResetRead b)" by (rule wf_reset(2) [OF assms(2)])
  have un: "unread (ResetRead b) = map Some (header_bytes h) @ xs"
    using assms(3) by (simp add: unread_def ResetRead_def written_def cells_def)
  show "wf_buffer b1" "unread b1 = xs"
    using wf un by (auto simp: b1_def unread_advance intro!: wf_advance)
  show "written b1 = written b"
    by (simp add: b1_def) (simp add: written_def cells_def ResetRead_def)
  show "Base_Parse ok m =
      (let m = m\<lparr>m_buffer := Some b1, m_header := header_seen h\<rparr> in
       bindE (ReadExtras m) (\<lambda>(r1, m).
       bindE (ReadKey m) (\<lambda>(r2, m).
       bindE (ReadValue ok m) (\<lambda>(r3, m).
       Inr (r1 \<and> r2 \<and> r3, m)))))"
    using ParseFromBuffer_eq [OF wf un, of "m_header m"] assms(1)
    by (simp add: Base_Parse_def Let_def kMBPHeaderSize_def b1_def)
qed

lemma Base_Parse_short:
  assumes "m_buffer m = Some b" "wf_buffer b" "length (written b) < 24"
  shows "Base_Parse ok m = Inr (False, m\<lparr>m_buffer := Some (ResetRead b)\<rparr>)"
proof -
  have "length (unread (ResetRead b)) < 24"
    using assms(3) by (simp add: unread_def ResetRead_def written_def cells_def)
  then show ?thesis
    using ParseFromBuffer_short [OF wf_reset(2) [OF assms(2)]] assms(1)
    by (simp add: Base_Parse_def kMBPHeaderSize_def)
qed

text \<open>
  The state of a parse over the determinate bytes \<open>bs\<close>: the buffer holds them all the time, only
  the read position moves.
\<close>

definition parsing :: "u8 list \<Rightarrow> MessageHeader \<Rightarrow> derived \<Rightarrow> DataBuffer \<Rightarrow> BaseMessage \<Rightarrow> bool" where
  "parsing bs h d b m \<longleftrightarrow> m_buffer m = Some b \<and> wf_buffer b \<and> written b = map Some bs \<and>
     m_header m = h \<and> same_class d (m_derived m) \<and> wf_buffer (value_of (m_derived m))"

lemma parsing_wf: "parsing bs h d b m \<Longrightarrow> wf_message m \<and> same_class d (m_derived m)"
  by (simp add: parsing_def wf_message_def)

lemma read_ok_written:
  "wf_buffer b' \<and> ResetRead b' = ResetRead b \<Longrightarrow> wf_buffer b' \<and> written b' = written b"
  using ResetRead_cong(5) [of b' b] by simp

lemma ReadInt_step:
  assumes "wf_buffer b" "\<And>v b'. wf_buffer b' \<Longrightarrow> written b' = written b \<Longrightarrow> yields E P (f (v, b'))"
  shows "yields E P (bindE (ReadInt b) f)"
proof (rule yields_bindE [OF ReadInt_yields [OF assms(1)]])
  fix x :: "u32 ind \<times> DataBuffer"
  assume "case x of (_, b') \<Rightarrow> wf_buffer b' \<and> ResetRead b' = ResetRead b"
  then show "yields E P (f x)"
    using read_ok_written [of "snd x" b] assms(2) [of "snd x" "fst x"] by (cases x) simp
qed

lemma parsing_SetRequest:
  "parsing bs h (SetRequest v0 f0 e0) b m \<longleftrightarrow> m_buffer m = Some b \<and> wf_buffer b \<and> written b = map Some bs \<and>
     m_header m = h \<and> (\<exists>v f e. m_derived m = SetRequest v f e \<and> wf_buffer v)"
  by (cases "m_derived m") (auto simp: parsing_def)

lemma parsing_GetResponse:
  "parsing bs h (GetResponse v0 f0) b m \<longleftrightarrow> m_buffer m = Some b \<and> wf_buffer b \<and> written b = map Some bs \<and>
     m_header m = h \<and> (\<exists>v f. m_derived m = GetResponse v f \<and> wf_buffer v)"
  by (cases "m_derived m") (auto simp: parsing_def)

lemma parsing_plain:
  "parsing bs h GetRequest b m \<longleftrightarrow> m_buffer m = Some b \<and> wf_buffer b \<and> written b = map Some bs \<and>
     m_header m = h \<and> m_derived m = GetRequest"
  "parsing bs h SetResponse b m \<longleftrightarrow> m_buffer m = Some b \<and> wf_buffer b \<and> written b = map Some bs \<and>
     m_header m = h \<and> m_derived m = SetResponse"
  by (cases "m_derived m"; auto simp: parsing_def)+

lemmas parsing_simps = parsing_SetRequest parsing_GetResponse parsing_plain

lemma ReadExtras_yields:
  assumes "parsing bs h d b m"
  shows "yields E (\<lambda>(_, m'). \<exists>b'. parsing bs h d b' m') (ReadExtras m)"
proof (cases d)
  case (GetResponse v f)
  with assms show ?thesis
    by (auto simp: parsing_simps ReadExtras_def the_buffer_def intro!: ReadInt_step)
next
  case (SetRequest v f e)
  with assms show ?thesis
    by (auto simp: parsing_simps ReadExtras_def the_buffer_def intro!: ReadInt_step)
qed (use assms in \<open>auto simp: parsing_simps ReadExtras_def\<close>)

lemma ReadKey_outcome:
  assumes "parsing bs h d b m"
  obtains m' b' where "ReadKey m = Inr (unat (KeyLen h) \<le> length (unread b), m')" "parsing bs h d b' m'"
    "unat (KeyLen h) \<le> length (unread b) \<Longrightarrow> map Some (m_key m') = take (unat (KeyLen h)) (unread b)"
    "m_derived m' = m_derived m"
proof (cases "unat (KeyLen h) \<le> length (unread b)")
  case True
  define k where "k = take (unat (KeyLen h)) (drop (unat (readOffset b)) bs)"
  have un: "unread b = map Some (drop (unat (readOffset b)) bs)"
    using assms by (simp add: parsing_def unread_def drop_map)
  then have split: "unread b = map Some k @ map Some (drop (unat (KeyLen h)) (drop (unat (readOffset b)) bs))"
    unfolding k_def map_append [symmetric] append_take_drop_id by simp
  have len: "length k = unat (KeyLen h)"
    using True un by (simp add: k_def)
  have "ReadKey m = Inr (True, m\<lparr>m_key := k, m_buffer := Some (advance (length k) b)\<rparr>)"
    by (rule ReadKey_eq [OF _ _ split]) (use assms len in \<open>simp_all add: parsing_def\<close>)
  moreover have "wf_buffer (advance (length k) b)"
    using assms True len by (intro wf_advance) (simp_all add: parsing_def)
  ultimately show thesis
    using that [of "m\<lparr>m_key := k, m_buffer := Some (advance (length k) b)\<rparr>" "advance (length k) b"]
      True assms split len
    by (simp add: parsing_def)
next
  case False
  then have "ReadKey m = Inr (False, m\<lparr>m_key := []\<rparr>)"
    using assms False by (intro ReadKey_short [of m b]) (simp_all add: parsing_def not_le)
  then show thesis
    using that [of "m\<lparr>m_key := []\<rparr>" b] False assms by (simp add: parsing_def)
qed

lemma read_value_yields:
  assumes "wf_buffer b" "E BadAlloc"
  shows "yields E (\<lambda>(v', b'). wf_buffer v' \<and> wf_buffer b' \<and> written b' = written b) (read_value ok n v b)"
  unfolding read_value_eq [OF assms(1)]
  by (rule new_array_then) (use assms in \<open>auto simp: wf_filled MoveReadForward_advance_wf\<close>)

lemma read_value_step:
  assumes "wf_buffer b" "E BadAlloc"
    "\<And>v' b'. wf_buffer v' \<Longrightarrow> wf_buffer b' \<Longrightarrow> written b' = written b \<Longrightarrow> yields E P (f (v', b'))"
  shows "yields E P (bindE (read_value ok n v b) f)"
  by (rule yields_bindE, rule read_value_yields [where E = E]) (use assms in auto)

lemma ReadValue_yields:
  assumes "parsing bs h d b m" "E BadAlloc"
  shows "yields E (\<lambda>(r, m'). r \<and> (\<exists>b'. parsing bs h d b' m')) (ReadValue ok m)"
proof (cases d)
  case (GetResponse v f)
  with assms show ?thesis
    by (auto simp: parsing_simps ReadValue_def Let_def the_buffer_def intro!: read_value_step)
next
  case (SetRequest v f e)
  with assms show ?thesis
    by (auto simp: parsing_simps ReadValue_def Let_def the_buffer_def intro!: read_value_step)
qed (use assms in \<open>auto simp: parsing_simps ReadValue_def\<close>)

text \<open>
  Parsing as a whole: what each class requires of the extras, and how many bytes they take.
\<close>

fun extras_size :: "derived \<Rightarrow> nat" where
  "extras_size (GetResponse _ _) = 4"
| "extras_size (SetRequest _ _ _) = 8"
| "extras_size _ = 0"

fun extras_match :: "derived \<Rightarrow> MessageHeader \<Rightarrow> bool" where
  "extras_match (GetResponse _ _) h = (ExtrasLen h = 4)"
| "extras_match (SetRequest _ _ _) h = (ExtrasLen h = 8)"
| "extras_match _ h = True"

fun class_checks :: "derived \<Rightarrow> MessageHeader \<Rightarrow> bool" where
  "class_checks GetRequest h = GetRequest_checks h"
| "class_checks (SetRequest _ _ _) h = SetRequest_checks h"
| "class_checks (GetResponse _ _) h = (ExtrasLen h = 4)"
| "class_checks SetResponse h = True"

lemma ReadInt_moves:
  assumes wf: "wf_buffer b" and "readOffset b \<le> writeOffset b" "unat (readOffset b) + 4 \<le> unat (bufferSize b)"
  obtains v b' where "ReadInt b = Inr (v, b')" "wf_buffer b'" "ResetRead b' = ResetRead b"
    "unat (readOffset b') = min (unat (readOffset b) + 4) (unat (writeOffset b))"
proof -
  have g: "IsValid b \<and> readOffset b + 4 \<le> bufferSize b"
    using read_guard [OF wf, of 4] assms(3) wf_null [OF wf] by (cases "data b") (auto simp: IsValid_def)
  have "unat (readOffset b + 4) = unat (readOffset b) + 4"
    using unat_plus_wf [OF wf wf_le(2) [OF wf], of 4] by simp
  then have o: "unat (readOffset (snd (MoveReadForward 4 b))) = min (unat (readOffset b) + 4) (unat (writeOffset b))"
    by (simp add: MoveReadForward_def Let_def unat_min)
  have "yields (\<lambda>_. False) (\<lambda>(_, b'). b' = snd (MoveReadForward 4 b)) (ReadInt b)"
    using g load_at_yields [OF wf, of 4 0 "\<lambda>_. False"] load_at_yields [OF wf, of 4 1 "\<lambda>_. False"]
      load_at_yields [OF wf, of 4 2 "\<lambda>_. False"] load_at_yields [OF wf, of 4 3 "\<lambda>_. False"]
    by (auto simp: ReadInt_def intro!: yields_bindE)
  then obtain v where "ReadInt b = Inr (v, snd (MoveReadForward 4 b))"
    by (cases "ReadInt b") auto
  with o MoveReadForward_wf [OF wf, of 4] that show thesis by blast
qed

text \<open>
  \<open>received d n val d0\<close>: the members of an object of class \<open>d0\<close> after parsing the extras of \<open>d\<close>
  and a value of \<open>n\<close> bytes of which the cells \<open>val\<close> are there.
\<close>

fun received :: "derived \<Rightarrow> size_t \<Rightarrow> cell list \<Rightarrow> derived \<Rightarrow> derived" where
  "received (GetResponse _ f) n val (GetResponse v0 _) = GetResponse (if n = 0 then v0 else filled n val) f"
| "received (SetRequest _ f e) n val (SetRequest v0 _ _) = SetRequest (if n = 0 then v0 else filled n val) f e"
| "received _ _ _ d0 = d0"

lemma ReadExtras_eq:
  assumes "m_buffer m = Some b" "wf_buffer b" "unread b = extras_cells d @ xs" "same_class d (m_derived m)"
    "unat (ExtrasLen (m_header m)) = extras_size d"
  shows "ReadExtras m = Inr (True, m\<lparr>m_buffer := Some (advance (extras_size d) b),
     m_derived := received d 0 [] (m_derived m)\<rparr>)"
proof (cases d)
  case (GetResponse v f)
  moreover from this assms(5) have "ExtrasLen (m_header m) = 4"
    by (simp add: word_unat_eq_iff)
  ultimately show ?thesis
    using assms by (cases "m_derived m") (simp_all add: ReadExtras_def the_buffer_def ReadInt_cells32)
next
  case (SetRequest v f e)
  moreover from this assms(5) have "ExtrasLen (m_header m) = 8"
    by (simp add: word_unat_eq_iff)
  moreover have "ReadInt b = Inr (f, advance 4 b)"
    using assms(2,3) SetRequest by (simp add: ReadInt_cells32)
  moreover have "ReadInt (advance 4 b) = Inr (e, advance 8 b)"
    using assms(2,3) SetRequest ReadInt_cells32 [of "advance 4 b" e xs]
    by (simp add: unread_advance wf_advance advance_advance)
  ultimately show ?thesis
    using assms by (cases "m_derived m") (simp_all add: ReadExtras_def the_buffer_def)
next
  case GetRequest
  then show ?thesis using assms by (cases "m_derived m") (simp_all add: ReadExtras_def)
next
  case SetResponse
  then show ?thesis using assms by (cases "m_derived m") (simp_all add: ReadExtras_def)
qed

lemma ReadValue_eq:
  assumes "m_buffer m = Some b" "wf_buffer b" "m_derived m = received d 0 [] d0" "same_class d d0"
    "value_size (m_header m) = 0 \<or> (ok (value_size (m_header m)) \<and> value_size (m_header m) \<le> heap_maxreq)"
  obtains b' where "ReadValue ok m = Inr (True, m\<lparr>m_buffer := Some b',
      m_derived := received d (value_size (m_header m)) (unread b) d0\<rparr>)"
    "wf_buffer b'" "written b' = written b"
proof (cases "value_size (m_header m) = 0")
  case True
  have "m = m\<lparr>m_buffer := Some b, m_derived := received d 0 [] d0\<rparr>"
    using assms(1,3) by simp
  moreover have "received d 0 [] d0 = received d 0 (unread b) d0"
    by (cases d; cases d0) simp_all
  ultimately show thesis
    using True that [of b] assms
    by (cases d; cases d0) (simp_all add: ReadValue_def)
next
  case False
  let ?n = "value_size (m_header m)"
  define b' where "b' = snd (MoveReadForward ?n (advance (min (unat ?n) (length (unread b))) b))"
  have rv: "read_value ok ?n v b = Inr (filled ?n (unread b), b')" for v
    using False assms(2,5) by (simp add: read_value_eq new_array_def b'_def)
  have b': "wf_buffer b'" "written b' = written b"
    unfolding b'_def by (simp_all only: MoveReadForward_advance_wf [OF assms(2)])
  show thesis
  proof (cases d)
    case (GetResponse v f)
    then show thesis using that [of b'] b' False assms rv
      by (cases d0) (simp_all add: ReadValue_def Let_def the_buffer_def word_gt_0)
  next
    case (SetRequest v f e)
    then show thesis using that [of b'] b' False assms rv
      by (cases d0) (simp_all add: ReadValue_def Let_def the_buffer_def word_gt_0)
  next
    case GetRequest
    then show thesis using that [of b] assms by (cases d0) (simp_all add: ReadValue_def)
  next
    case SetResponse
    then show thesis using that [of b] assms by (cases d0) (simp_all add: ReadValue_def)
  qed
qed

lemma length_extras_cells: "length (extras_cells d) = extras_size d"
  by (cases d) simp_all

lemma Base_Parse_frame:
  assumes "wf_buffer rb" "written rb = map Some (header_bytes h) @ extras_cells d @ map Some k @ val"
    "same_class d d0" "unat (ExtrasLen h) = extras_size d" "unat (KeyLen h) = length k"
    "value_size h = 0 \<or> (ok (value_size h) \<and> value_size h \<le> heap_maxreq)"
  obtains b' where "Base_Parse ok (BaseMessage_buf (Some rb) d0) = Inr (True,
      \<lparr>m_buffer = Some b', m_header = header_seen h, m_key = k, m_derived = received d (value_size h) val d0\<rparr>)"
    "wf_buffer b'" "written b' = written rb"
proof -
  define m where "m = BaseMessage_buf (Some rb) d0"
  define b1 where "b1 = advance 24 (ResetRead rb)"
  define m1 where "m1 = m\<lparr>m_buffer := Some b1, m_header := header_seen h\<rparr>"
  have "m_buffer m = Some rb" by (simp add: m_def BaseMessage_buf_def)
  note hdr = Base_Parse_header [OF this assms(1,2), folded b1_def]
  define b2 where "b2 = advance (extras_size d) b1"
  have b2: "wf_buffer b2" "unread b2 = map Some k @ val"
    using hdr(2,3) by (auto simp: b2_def unread_advance length_extras_cells intro!: wf_advance)
  define m2 where "m2 = m1\<lparr>m_buffer := Some b2, m_derived := received d 0 [] d0\<rparr>"
  have extras: "ReadExtras m1 = Inr (True, m2)"
    using ReadExtras_eq [of m1 b1 d] hdr(2,3) assms(3,4)
    by (simp add: m2_def m1_def m_def BaseMessage_buf_def b2_def)
  define b3 where "b3 = advance (length k) b2"
  have b3: "wf_buffer b3" "unread b3 = val" "written b3 = written rb"
    using b2 hdr(4) by (auto simp: b3_def b2_def unread_advance intro!: wf_advance)
  define m3 where "m3 = m2\<lparr>m_key := k, m_buffer := Some b3\<rparr>"
  have key: "ReadKey m2 = Inr (True, m3)"
    unfolding m3_def b3_def
    by (rule ReadKey_eq [OF _ b2]) (simp_all add: m2_def m1_def assms(5))
  obtain b4 where val_read: "ReadValue ok m3 = Inr (True, m3\<lparr>m_buffer := Some b4,
      m_derived := received d (value_size (m_header m3)) (unread b3) d0\<rparr>)"
    and b4: "wf_buffer b4" "written b4 = written b3"
    using ReadValue_eq [of m3 b3 d d0 ok] b3(1) assms(3,6)
    by (auto simp: m3_def m2_def m1_def value_size_def)
  show thesis
    using that [of b4] hdr(1) [of ok] extras key val_read b3 b4
    by (simp add: Let_def m3_def m2_def m1_def m_def BaseMessage_buf_def value_size_def)
qed

subsection \<open>What a parse accepts\<close>

lemma ReadExtras_outcome:
  assumes "parsing bs h d b m" "unat (readOffset b) = 24" "24 \<le> length bs" "32 \<le> unat (bufferSize b)"
  obtains m' b' where "ReadExtras m = Inr (extras_match d h, m')" "parsing bs h d b' m'"
    "extras_match d h \<Longrightarrow> unat (readOffset b') = min (24 + extras_size d) (length bs)"
proof -
  have wf: "wf_buffer b" and len: "unat (writeOffset b) = length bs"
    using assms(1) by (auto simp: parsing_def simp flip: length_written)
  have le: "readOffset b \<le> writeOffset b"
    using assms(2,3) len by (simp add: word_le_nat_alt)
  obtain f b1 where r1: "ReadInt b = Inr (f, b1)" "wf_buffer b1" "ResetRead b1 = ResetRead b"
      "unat (readOffset b1) = min 28 (length bs)"
    using ReadInt_moves [OF wf le] assms(2,4) len by auto
  note same1 = ResetRead_cong [OF r1(3)]
  have w1: "written b1 = written b" "writeOffset b1 = writeOffset b" "bufferSize b1 = bufferSize b"
    using same1 by simp_all
  have le1: "readOffset b1 \<le> writeOffset b1" "unat (readOffset b1) + 4 \<le> unat (bufferSize b1)"
    using r1(4) w1 len assms(4) by (simp_all add: word_le_nat_alt)
  obtain e b2 where r2: "ReadInt b1 = Inr (e, b2)" "wf_buffer b2" "ResetRead b2 = ResetRead b1"
      "unat (readOffset b2) = min (unat (readOffset b1) + 4) (length bs)"
    using ReadInt_moves [OF r1(2) le1] w1 len by auto
  have w2: "written b2 = written b"
    using ResetRead_cong(5) [OF r2(3)] w1 by simp
  show thesis
  proof (cases d)
    case (GetResponse v0 f0)
    with assms(1) r1 w1 show thesis
      by (cases "ExtrasLen h = 4")
        (auto simp: parsing_simps ReadExtras_def the_buffer_def intro!: that)
  next
    case (SetRequest v0 f0 e0)
    with assms(1) r1 r2 w1 w2 show thesis
      by (cases "ExtrasLen h = 8")
        (auto simp: parsing_simps ReadExtras_def the_buffer_def min_def intro!: that)
  qed (use assms that [of m b] in \<open>auto simp: parsing_simps ReadExtras_def\<close>)
qed





lemma Base_Parse_parsing:
  assumes "m_buffer m = Some b" "wf_message m" "written b = map Some (header_bytes h @ body)"
  shows "yields (\<lambda>e. e = BadAlloc)
     (\<lambda>(_, m'). \<exists>b'. parsing (header_bytes h @ body) (header_seen h) (m_derived m) b' m') (Base_Parse ok m)"
proof -
  have wf: "wf_buffer b" using assms by (simp add: wf_message_def)
  note hdr = Base_Parse_header [OF assms(1) wf assms(3) [simplified], unfolded Let_def]
  define b1 where "b1 = advance 24 (ResetRead b)"
  define m1 where "m1 = m\<lparr>m_buffer := Some b1, m_header := header_seen h\<rparr>"
  have p1: "parsing (header_bytes h @ body) (header_seen h) (m_derived m) b1 m1"
    using assms hdr(2,4) by (simp add: parsing_def m1_def b1_def wf_message_def)
  have keys: "yields E (\<lambda>(_, m'). \<exists>b'. parsing bs h' d b' m') (ReadKey m2)"
    if "parsing bs h' d b2 m2" for E bs h' d b2 m2
    by (rule ReadKey_outcome [OF that]) auto
  show ?thesis
    unfolding hdr(1) b1_def [symmetric] m1_def [symmetric]
    by (intro yields_bindE [OF ReadExtras_yields [OF p1]])
      (auto intro!: yields_bindE [OF keys] yields_bindE [OF ReadValue_yields])
qed

lemma Base_Parse_safe:
  assumes "m_buffer m = Some b" "wf_message m" "written b = map Some bs"
  shows "yields (\<lambda>e. e = BadAlloc)
     (\<lambda>(r, m'). (\<exists>b' h. parsing bs h (m_derived m) b' m') \<and> (r \<longrightarrow> 24 \<le> length bs)) (Base_Parse ok m)"
proof (cases "length bs < 24")
  case True
  have wf: "wf_buffer b" using assms by (simp add: wf_message_def)
  have "parsing bs (m_header m) (m_derived m) (ResetRead b) (m\<lparr>m_buffer := Some (ResetRead b)\<rparr>)"
    using assms wf wf_reset(2) [OF wf] by (simp add: parsing_def wf_message_def)
      (simp add: written_def ResetRead_def cells_def)
  then show ?thesis
    using True assms(3) Base_Parse_short [OF assms(1) wf] by (auto simp: assms)
next
  case False
  then obtain h where h: "header_bytes h = take 24 bs"
    using header_bytes_surj [of "take 24 bs"] by auto
  have bs: "header_bytes h @ drop 24 bs = bs"
    unfolding h by (rule append_take_drop_id)
  have "written b = map Some (header_bytes h @ drop 24 bs)"
    unfolding bs by (rule assms(3))
  from Base_Parse_parsing [OF assms(1,2) this, unfolded bs] show ?thesis
    by (rule yields_mono) (use False in auto)
qed

lemma Parse_parsing:
  assumes "m_buffer m = Some b" "wf_message m" "written b = map Some (header_bytes h @ body)"
  shows "yields (\<lambda>e. e = BadAlloc)
     (\<lambda>(_, m'). \<exists>b'. parsing (header_bytes h @ body) (header_seen h) (m_derived m) b' m') (Parse ok m)"
  unfolding Parse_eq by (rule yields_bindE [OF Base_Parse_parsing [OF assms]]) auto

subsection \<open>What a build sends\<close>

text \<open>The header \<open>Build\<close> starts from, and the body length it adds to \<open>TotalBodyLen\<close>.\<close>

definition start_header :: "BaseMessage \<Rightarrow> MessageHeader" where
  "start_header m =
     (case m_derived m of
        GetRequest \<Rightarrow> MessageHeader_new\<lparr>Magic := kMagicReq, Opcode := kOpGet\<rparr>
      | GetResponse _ _ \<Rightarrow> m_header m\<lparr>Magic := kMagicRes, Opcode := kOpGet\<rparr>
      | SetRequest _ _ _ \<Rightarrow> m_header m\<lparr>Magic := kMagicReq, Opcode := kOpSet\<rparr>
      | SetResponse \<Rightarrow> m_header m\<lparr>Magic := kMagicRes, Opcode := kOpSet\<rparr>)"

definition body_length :: "BaseMessage \<Rightarrow> nat" where
  "body_length m =
     extras_size (m_derived m) + length (m_key m) mod 65536 + length (value_cells (m_derived m))"

definition sent_header :: "BaseMessage \<Rightarrow> MessageHeader" where
  "sent_header m =
     start_header m\<lparr>ExtrasLen := of_nat (extras_size (m_derived m)), KeyLen := of_nat (length (m_key m)),
       TotalBodyLen := TotalBodyLen (start_header m) + of_nat (body_length m)\<rparr>"

text \<open>What a build needs: a buffer with room for the header and extras, and a heap that serves.\<close>

definition buildable :: "heap \<Rightarrow> BaseMessage \<Rightarrow> bool" where
  "buildable ok m \<longleftrightarrow> wf_message m \<and> (\<exists>b. m_buffer m = Some b \<and> 32 \<le> unat (bufferSize b) \<and>
     heap_serves (unat (bufferSize b) + length (m_key m) + length (value_cells (m_derived m))) ok)"

lemma Build_eq:
  assumes "buildable ok m"
  obtains m' where "Build ok m = Inr (True, m')" "wf_message m'" "m_header m' = sent_header m"
    "m_key m' = m_key m" "m_derived m' = m_derived m"
    "TotalBodyLen (start_header m) = 0 \<Longrightarrow>
       wire m' = take (24 + body_length m) (frame_cells (sent_header m) (m_derived m) (m_key m)) \<and>
       unat (TotalBodyLen (m_header m')) = body_length m"
proof -
  obtain b where b: "m_buffer m = Some b" "32 \<le> unat (bufferSize b)" "wf_message m"
      "heap_serves (unat (bufferSize b) + length (m_key m) + length (value_cells (m_derived m))) ok"
    using assms by (auto simp: buildable_def)
  define m0 where "m0 = m\<lparr>m_header := start_header m\<rparr>"
  have m0: "m_buffer m0 = Some b" "m_key m0 = m_key m" "m_derived m0 = m_derived m" "wf_message m0"
    using b by (simp_all add: m0_def wf_message_def)
  have hdr: "built_header m0 = sent_header m"
    by (simp add: built_header_def sent_header_def m0_def Let_def body_length_def length_extras_cells)
  have bl: "Build ok m = Base_Build ok m0"
    by (simp add: Build_def m0_def start_header_def split: derived.split)
  obtain b' rest where r: "Base_Build ok m0 = Inr (True, m0\<lparr>m_header := sent_header m, m_buffer := Some b'\<rparr>)"
      "wf_buffer b'" "writeOffset b' = min (24 + TotalBodyLen (sent_header m)) (bufferSize b')"
      "cells b' = frame_cells (sent_header m) (m_derived m) (m_key m) @ rest"
    using Base_Build_eq [OF m0(1,4) b(2), of ok] b(4) unfolding m0(2,3) hdr by metis
  have wire: "written b' = take (24 + body_length m) (frame_cells (sent_header m) (m_derived m) (m_key m)) \<and>
      unat (TotalBodyLen (sent_header m)) = body_length m"
    if "TotalBodyLen (start_header m) = 0"
  proof -
    have le: "24 + body_length m \<le> length (frame_cells (sent_header m) (m_derived m) (m_key m))"
      by (simp add: frame_cells_def body_length_def length_extras_cells)
    also have "\<dots> \<le> unat (bufferSize b')"
      using r(2,4) by (simp add: wf_buffer_def)
    finally have fit: "24 + body_length m \<le> unat (bufferSize b')" .
    have "unat (bufferSize b') < 2 ^ LENGTH(32)" by (rule unsigned_less)
    with fit have small: "24 + body_length m < 2 ^ 32" by simp
    then have t: "unat (TotalBodyLen (sent_header m)) = body_length m"
      using that by (simp add: sent_header_def unat_of_nat take_bit_eq_mod)
    with small have "unat (24 + TotalBodyLen (sent_header m)) = 24 + body_length m"
      by (simp add: unat_word_ariths)
    then have "unat (writeOffset b') = 24 + body_length m"
      using fit r(3) by (simp add: unat_min)
    with le t r(4) show ?thesis by (simp add: written_def)
  qed
  show thesis
    by (rule that [of "m0\<lparr>m_header := sent_header m, m_buffer := Some b'\<rparr>"])
      (use bl r(1,2) m0 b(3) wire in \<open>simp_all add: wire_def wf_message_def\<close>)
qed

subsection \<open>Fixtures\<close>

text \<open>A buffer of \<open>n\<close> bytes that holds \<open>bs\<close>, for examples.\<close>

definition buffer_with :: "size_t \<Rightarrow> u8 list \<Rightarrow> DataBuffer" where
  "buffer_with n bs = append_cells (map Some bs) (fresh n)"

lemma buffer_with_simps:
  assumes "length bs \<le> unat n" "n \<le> heap_maxreq"
  shows "wf_buffer (buffer_with n bs)" "written (buffer_with n bs) = map Some bs"
    "bufferSize (buffer_with n bs) = n"
  using assms by (simp_all add: buffer_with_def wf_fresh wf_append written_append)

lemma buffer_with_small:
  assumes "length bs \<le> 64"
  shows "wf_buffer (buffer_with 64 bs)" "written (buffer_with 64 bs) = map Some bs"
    "bufferSize (buffer_with 64 bs) = 64"
  using assms by (simp_all add: buffer_with_simps heap_maxreq_def)

lemma heap_serves_all: "n \<le> 4294967264 \<Longrightarrow> heap_serves n (\<lambda>_. True)"
  by (simp add: heap_serves_def heap_maxreq_def)

subsection \<open>The size of a value\<close>

lemma unat_wide_extras: "unat (ucast e :: size_t) = unat e" for e :: u8
proof -
  have "unat e < 2 ^ LENGTH(8)" by (rule unsigned_less)
  then show ?thesis by (simp add: unsigned_ucast_eq take_bit_nat_eq_self_iff)
qed

lemma unat_overhead: "unat (ucast k + ucast e :: size_t) = unat k + unat e" for k :: u16 and e :: u8
proof -
  have "unat k < 2 ^ LENGTH(16)" "unat e < 2 ^ LENGTH(8)" by (rule unsigned_less)+
  then show ?thesis by (simp add: unat_word_ariths unat_wide_key unat_wide_extras)
qed

lemma value_size_enough:
  "unat (KeyLen h) + unat (ExtrasLen h) \<le> unat (TotalBodyLen h) \<Longrightarrow>
     unat (value_size h) = unat (TotalBodyLen h) - (unat (KeyLen h) + unat (ExtrasLen h))"
  by (simp add: value_size_def unat_sub word_le_nat_alt unat_overhead)

lemma value_size_wraps:
  assumes "unat (TotalBodyLen h) < unat (KeyLen h) + unat (ExtrasLen h)"
    "unat (KeyLen h) + unat (ExtrasLen h) \<le> unat (TotalBodyLen h) + 31"
  shows "heap_maxreq < value_size h"
proof -
  let ?o = "ucast (KeyLen h) + ucast (ExtrasLen h) :: size_t"
  have lt: "unat (TotalBodyLen h) < unat ?o" "unat ?o \<le> unat (TotalBodyLen h) + 31"
    using assms by (simp_all add: unat_overhead)
  define d where "d = unat ?o - unat (TotalBodyLen h)"
  have d: "0 < d" "d \<le> 31" using lt by (simp_all add: d_def)
  have "?o - TotalBodyLen h = of_nat d"
    using lt by (simp add: d_def of_nat_diff)
  then have "value_size h = - of_nat d"
    by (simp add: value_size_def algebra_simps)
  also have "\<dots> = of_nat (4294967296 - d)"
    using d by (simp add: of_nat_diff)
  finally have eq: "value_size h = of_nat (4294967296 - d)" .
  have "unat (value_size h) = 4294967296 - d"
    unfolding eq unat_of_nat using d by simp
  then show ?thesis
    using d by (simp add: heap_maxreq_def word_less_nat_alt)
qed

lemma SetRequest_value_size:
  assumes "SetRequest_checks h"
  shows "value_size h \<noteq> 0"
proof -
  have "\<not> TotalBodyLen h \<le> ucast (ExtrasLen h) + ucast (KeyLen h)"
    using assms by (simp add: SetRequest_checks_def split: if_splits)
  then have "TotalBodyLen h \<noteq> ucast (KeyLen h) + ucast (ExtrasLen h)"
    by (metis add.commute order_refl)
  then show ?thesis by (simp only: value_size_def right_minus_eq not_False_eq_True)
qed

lemma sent_lengths:
  "unat (ExtrasLen (sent_header m)) = extras_size (m_derived m)"
  "length (m_key m) < 65536 \<Longrightarrow> unat (KeyLen (sent_header m)) = length (m_key m)"
  by (cases "m_derived m"; simp add: sent_header_def) (simp add: sent_header_def unat_of_nat take_bit_eq_mod)

text \<open>The class members of a message object that was just made to receive.\<close>

fun blank :: "derived \<Rightarrow> derived" where
  "blank GetRequest = GetRequest"
| "blank (GetResponse _ _) = GetResponse DataBuffer_new (Some 0)"
| "blank (SetRequest _ _ _) = SetRequest DataBuffer_new (Some 0) None"
| "blank SetResponse = SetResponse"

text \<open>The message the protocol lets a peer send: what each class requires of key and value.\<close>

definition protocol_ok :: "BaseMessage \<Rightarrow> bool" where
  "protocol_ok m \<longleftrightarrow> length (m_key m) < 65536 \<and>
     (m_derived m = GetRequest \<longrightarrow> m_key m \<noteq> []) \<and>
     (same_class (SetRequest DataBuffer_new (Some 0) None) (m_derived m) \<longrightarrow>
        m_key m \<noteq> [] \<and> value_cells (m_derived m) \<noteq> [])"

lemma received_blank:
  assumes "n = of_nat (length (value_cells d))" "length (value_cells d) < 2 ^ 32"
  shows "extras_cells (received d n (value_cells d) (blank d)) = extras_cells d"
    "value_cells (received d n (value_cells d) (blank d)) = value_cells d"
    "same_class d (received d n (value_cells d) (blank d))"
proof -
  have n: "unat n = length (value_cells d)"
    using assms by (simp add: unat_of_nat take_bit_eq_mod)
  then have "n = 0 \<longleftrightarrow> value_cells d = []"
    by (simp flip: unat_eq_0)
  with n show "extras_cells (received d n (value_cells d) (blank d)) = extras_cells d"
    "value_cells (received d n (value_cells d) (blank d)) = value_cells d"
    "same_class d (received d n (value_cells d) (blank d))"
    by (cases d; auto simp: value_cells_def)+
qed

lemma sent_value_size:
  assumes "length (m_key m) < 65536" "TotalBodyLen (start_header m) = 0"
  shows "value_size (sent_header m) = of_nat (length (value_cells (m_derived m)))"
proof -
  have "ucast (ExtrasLen (sent_header m)) = (of_nat (extras_size (m_derived m)) :: size_t)"
    by (cases "m_derived m") (simp_all add: sent_header_def)
  moreover have "ucast (KeyLen (sent_header m)) = (of_nat (length (m_key m)) :: size_t)"
    using assms(1) by (simp add: sent_header_def narrow_key)
  ultimately show ?thesis
    using assms by (simp add: value_size_def) (simp add: sent_header_def body_length_def)
qed

lemma sent_checks:
  assumes "protocol_ok m" "TotalBodyLen (start_header m) = 0" "length (value_cells (m_derived m)) < 2 ^ 31"
  shows "class_checks (m_derived m) (sent_header m)"
proof -
  have k: "length (m_key m) < 65536" using assms(1) by (simp add: protocol_ok_def)
  have klen: "ucast (KeyLen (sent_header m)) = (of_nat (length (m_key m)) :: size_t)"
    using k by (simp add: sent_header_def narrow_key)
  have k0: "KeyLen (sent_header m) = 0 \<longleftrightarrow> m_key m = []"
    using sent_lengths(2) [OF k] by (simp flip: unat_eq_0)
  show ?thesis
  proof (cases "m_derived m")
    case GetRequest
    then have "TotalBodyLen (sent_header m) = of_nat (length (m_key m))" "Magic (sent_header m) = kMagicReq"
        "Opcode (sent_header m) = kOpGet" "ExtrasLen (sent_header m) = 0"
      using assms(2) k by (simp_all add: sent_header_def body_length_def value_cells_def start_header_def)
    then show ?thesis
      using GetRequest assms(1) k0 klen by (simp add: GetRequest_checks_def protocol_ok_def)
  next
    case (SetRequest v f e)
    have "unat (TotalBodyLen (sent_header m)) = 8 + length (m_key m) + length (value_cells (m_derived m))"
    proof -
      have "TotalBodyLen (sent_header m) = of_nat (body_length m)"
        using assms(2) by (simp add: sent_header_def)
      moreover have "body_length m = 8 + length (m_key m) + length (value_cells (m_derived m))"
        using SetRequest k by (simp add: body_length_def)
      ultimately show ?thesis
        using assms(3) k by (simp only: unat_of_nat) simp
    qed
    moreover have "unat (ucast (ExtrasLen (sent_header m)) + ucast (KeyLen (sent_header m)) :: size_t) = 8 + length (m_key m)"
      using SetRequest k sent_lengths [of m] unat_overhead [of "KeyLen (sent_header m)" "ExtrasLen (sent_header m)"]
      by (simp add: add.commute)
    moreover have "ExtrasLen (sent_header m) = 8" using SetRequest by (simp add: sent_header_def)
    moreover have "0 < length (value_cells (m_derived m))" "m_key m \<noteq> []"
      using SetRequest assms(1) by (auto simp: protocol_ok_def)
    ultimately show ?thesis
      using SetRequest k0 by (simp add: SetRequest_checks_def word_le_nat_alt)
  qed (simp_all add: sent_header_def)
qed

lemma Parse_frame:
  assumes "buildable ok m" "protocol_ok m" "TotalBodyLen (start_header m) = 0"
    "length (value_cells (m_derived m)) < 2 ^ 31" "heap_serves (length (value_cells (m_derived m))) ok'"
    "wf_buffer rb" "written rb = frame_cells (sent_header m) (m_derived m) (m_key m)"
  obtains m' where "Parse ok' (BaseMessage_buf (Some rb) (blank (m_derived m))) = Inr (True, m')"
    "m_header m' = header_seen (sent_header m)" "m_key m' = m_key m"
    "m_derived m' = received (m_derived m) (value_size (sent_header m)) (value_cells (m_derived m)) (blank (m_derived m))"
proof -
  let ?d = "m_derived m" and ?h = "sent_header m"
  have k: "length (m_key m) < 65536" using assms(2) by (simp add: protocol_ok_def)
  have n: "unat (value_size ?h) = length (value_cells ?d)"
    using assms(4) by (simp add: sent_value_size [OF k assms(3)] unat_of_nat take_bit_eq_mod)
  then have heap: "ok' (value_size ?h) \<and> value_size ?h \<le> heap_maxreq"
    using assms(5) by (auto simp: heap_serves_def word_le_nat_alt)
  have cls: "same_class ?d (blank ?d)" by (cases ?d) simp_all
  obtain b' where "Base_Parse ok' (BaseMessage_buf (Some rb) (blank ?d)) = Inr (True,
      \<lparr>m_buffer = Some b', m_header = header_seen ?h, m_key = m_key m,
        m_derived = received ?d (value_size ?h) (value_cells ?d) (blank ?d)\<rparr>)"
    using Base_Parse_frame [OF assms(6,7) [unfolded frame_cells_def] cls sent_lengths(1) sent_lengths(2) [OF k]] heap
    by blast
  moreover have "GetRequest_checks (header_seen ?h) = GetRequest_checks ?h"
      "SetRequest_checks (header_seen ?h) = SetRequest_checks ?h"
    by (simp_all add: GetRequest_checks_def SetRequest_checks_def)
  ultimately show thesis
    using that sent_checks [OF assms(2,3,4)] by (cases ?d) (simp_all add: Parse_eq BaseMessage_buf_def)
qed

lemma sent_buffer:
  assumes "buildable ok m" "Build ok m = Inr (True, m')" "TotalBodyLen (start_header m) = 0"
  shows "\<exists>b. m_buffer m' = Some b \<and> wf_buffer b \<and> written b = wire m'"
proof (rule Build_eq [OF assms(1)])
  fix m1 assume m1: "Build ok m = Inr (True, m1)" "wf_message m1"
    "TotalBodyLen (start_header m) = 0 \<Longrightarrow> wire m1 = take (24 + body_length m)
       (frame_cells (sent_header m) (m_derived m) (m_key m)) \<and>
     unat (TotalBodyLen (m_header m1)) = body_length m"
  then have "m1 = m'" "wire m1 \<noteq> []"
    using assms by (auto simp: frame_cells_def header_bytes_def)
  with m1(2) show ?thesis
    by (cases "m_buffer m1") (auto simp: wire_def wf_message_def)
qed

subsection \<open>Building with any heap\<close>

definition building :: "derived \<Rightarrow> BaseMessage \<Rightarrow> bool" where
  "building d m \<longleftrightarrow> (\<exists>b. m_buffer m = Some b \<and> wf_buffer b) \<and> m_derived m = d"

lemma building_simps [simp]:
  "building d (m\<lparr>m_header := h\<rparr>) = building d m"
  "building d (m\<lparr>m_buffer := Some b\<rparr>) \<longleftrightarrow> wf_buffer b \<and> m_derived m = d"
  by (simp_all add: building_def)

lemma the_buffer_step:
  assumes "building d m" "\<And>b. wf_buffer b \<Longrightarrow> yields E P (f b)"
  shows "yields E P (bindE (the_buffer m) f)"
  using assms by (auto simp: building_def the_buffer_def)

lemma building_step:
  assumes "yields E (\<lambda>(_, m'). building d m') r" "\<And>n m'. building d m' \<Longrightarrow> yields E P (f (n, m'))"
  shows "yields E P (bindE r f)"
  by (rule yields_bindE [OF assms(1)]) (use assms(2) in auto)

lemma reserve_yields: "wf_buffer b \<Longrightarrow> E BadAlloc \<Longrightarrow> yields E wf_buffer (reserve ok n b)"
  by (auto simp: reserve_def intro!: yields_bindE [OF Realloc_yields])

lemma WriteInt_step:
  assumes "wf_buffer b" "\<And>r b'. wf_buffer b' \<Longrightarrow> yields E P (f (r, b'))"
  shows "yields E P (bindE (WriteInt v b) f)"
  by (rule yields_bindE [OF write_yields(3) [OF assms(1)]]) (use assms(2) in auto)

lemma append_step:
  assumes "wf_buffer b" "E BadAlloc" "unat n \<le> length xs" "\<And>k b'. wf_buffer b' \<Longrightarrow> yields E P (f (k, b'))"
  shows "yields E P (bindE (reserve ok n b) (\<lambda>b. bindE (WriteBytes (Some xs) n b) f))"
  by (rule yields_bindE [OF reserve_yields [where E = E, OF assms(1,2)]], rule yields_bindE [OF WriteBytes_yields])
    (use assms(3,4) in auto)

lemma WriteExtras_yields:
  assumes "building d m"
  shows "yields E (\<lambda>(_, m'). building d m') (WriteExtras m)"
proof -
  have "m_derived m = d" using assms by (simp add: building_def)
  then show ?thesis
    using assms by (cases d) (auto simp: WriteExtras_def intro!: the_buffer_step [OF assms] WriteInt_step)
qed

lemma WriteKey_yields:
  assumes "building d m" "E BadAlloc"
  shows "yields E (\<lambda>(_, m'). building d m') (WriteKey ok m)"
proof -
  have d: "m_derived m = d" using assms by (simp add: building_def)
  have "unat (of_nat n :: size_t) \<le> n" for n
    by (simp add: unat_of_nat)
  then show ?thesis
    using assms d
    by (cases "m_key m = []")
      (auto simp: WriteKey_def Let_def intro!: the_buffer_step [where d = d] append_step)
qed

lemma write_value_yields:
  assumes "building d m" "E BadAlloc" "wf_buffer v"
  shows "yields E (\<lambda>(_, m'). building d m') (write_value ok v m)"
proof -
  have d: "m_derived m = d" using assms by (simp add: building_def)
  show ?thesis
  proof (cases "data v")
    case None
    then have "GetBytesWritten v = 0"
      using wf_null [OF assms(3)] wf_le(1) [OF assms(3)] by (simp add: GetBytesWritten_def)
    then show ?thesis
      using assms d
      by (auto simp: write_value_def intro!: the_buffer_step [where d = d] yields_bindE [OF reserve_yields])
  next
    case (Some cs)
    then have "unat (GetBytesWritten v) \<le> length cs"
      using wf_data [OF assms(3)] wf_offsets [OF assms(3)] by (simp add: GetBytesWritten_def)
    then show ?thesis
      using assms d Some by (auto simp: write_value_def intro!: the_buffer_step [where d = d] append_step)
  qed
qed

lemma WriteValue_yields:
  assumes "building d m" "E BadAlloc" "wf_buffer (value_of d)"
  shows "yields E (\<lambda>(_, m'). building d m') (WriteValue ok m)"
proof -
  have "m_derived m = d" using assms by (simp add: building_def)
  then show ?thesis
    using assms by (cases d) (auto simp: WriteValue_def intro!: write_value_yields)
qed

lemma Base_Build_yields:
  assumes "wf_message m" "E BadAlloc"
  shows "yields E (\<lambda>(r, m'). wf_message m' \<and> m_derived m' = m_derived m) (Base_Build ok m)"
proof (cases "m_buffer m")
  case None
  then show ?thesis using assms by (simp add: Base_Build_def)
next
  case (Some b)
  let ?d = "m_derived m"
  have wf: "wf_buffer b" and v: "wf_buffer (value_of ?d)" using assms(1) Some by (simp_all add: wf_message_def)
  have b0: "building ?d (m\<lparr>m_buffer := Some (snd (MoveWriteForward kMBPHeaderSize (Reset b)))\<rparr>)"
    by (simp add: MoveWriteForward_wf wf_reset(1) [OF wf])
  have fin: "yields E (\<lambda>(r, m'). wf_message m' \<and> m_derived m' = ?d)
      (bindE (the_buffer m') (\<lambda>b. bindE (WriteToBuffer (m_header m') (Reset b)) (\<lambda>(n, b).
        if n = kMBPHeaderSize
        then Inr (True, m'\<lparr>m_buffer := Some (snd (MoveWriteForward (TotalBodyLen (m_header m')) b))\<rparr>)
        else Inr (False, m'\<lparr>m_buffer := Some b\<rparr>))))" if "building ?d m'" for m'
  proof (rule the_buffer_step [OF that])
    fix b1 assume "wf_buffer b1"
    then have wf1: "wf_buffer (Reset b1)" by (rule wf_reset(1))
    have "m_derived m' = ?d" using that by (simp add: building_def)
    then show "yields E (\<lambda>(r, m'). wf_message m' \<and> m_derived m' = ?d)
        (bindE (WriteToBuffer (m_header m') (Reset b1)) (\<lambda>(n, b).
          if n = kMBPHeaderSize
          then Inr (True, m'\<lparr>m_buffer := Some (snd (MoveWriteForward (TotalBodyLen (m_header m')) b))\<rparr>)
          else Inr (False, m'\<lparr>m_buffer := Some b\<rparr>)))"
      using wf1 v by (simp add: WriteToBuffer_eq [OF wf1] wf_message_def MoveWriteForward_wf wf_append kMBPHeaderSize_def)
  qed
  show ?thesis
    unfolding Base_Build_def Some option.case Let_def
    apply (rule building_step [OF WriteExtras_yields [OF b0]], unfold split)
    apply (rule building_step [OF WriteKey_yields [where d = ?d]], simp, rule assms(2), unfold split)
    apply (rule building_step [OF WriteValue_yields [where d = ?d]], simp, rule assms(2), rule v, unfold split)
    apply (rule fin, simp)
    done
qed

lemma Build_yields:
  assumes "wf_message m" "E BadAlloc"
  shows "yields E (\<lambda>(r, m'). wf_message m' \<and> m_derived m' = m_derived m) (Build ok m)"
proof -
  have wf: "wf_message (m\<lparr>m_header := h\<rparr>)" for h using assms(1) by (simp add: wf_message_def)
  show ?thesis
    using Base_Build_yields [where E = E, OF wf assms(2)] by (cases "m_derived m") (simp_all add: Build_def)
qed

section \<open>Properties\<close>

text \<open>
  C3. Memory safety of parsing. Whatever bytes a well-formed message's buffer holds, parsing them
  reads and writes only inside the arrays, keeps the message and the received bytes intact, and the
  only abnormal end is a failed allocation of the value. Fewer than 24 bytes are never accepted.
\<close>

theorem parse_safe:
  assumes "wf_message m" "m_buffer m = Some b" "written b = map Some bs"
  shows "yields (\<lambda>e. e = BadAlloc)
     (\<lambda>(r, m'). wf_message m' \<and> same_class (m_derived m) (m_derived m') \<and> map_option written (m_buffer m') = Some (map Some bs) \<and>
        (r \<longrightarrow> 24 \<le> length bs))
     (Parse ok m)"
  unfolding Parse_eq
  by (rule yields_bindE [OF Base_Parse_safe [OF assms(2,1,3)]])
    (auto simp: parsing_def wf_message_def split: derived.splits)

theorem parse_safe_witness:
  "yields (\<lambda>e. e = BadAlloc)
     (\<lambda>(r, m'). wf_message m' \<and> same_class (SetRequest DataBuffer_new (Some 0) None) (m_derived m') \<and> map_option written (m_buffer m') = Some (map Some [1, 2, 3]) \<and>
        (r \<longrightarrow> 24 \<le> length [1, 2, 3 :: u8]))
     (Parse (\<lambda>_. True) (SetRequest_buf (Some (buffer_with 64 [1, 2, 3]))))"
  using parse_safe [of "SetRequest_buf (Some (buffer_with 64 [1, 2, 3]))" "buffer_with 64 [1, 2, 3]" "[1, 2, 3]"
      "\<lambda>_. True"] buffer_with_small [of "[1, 2, 3]"]
  by (simp add: SetRequest_buf_def BaseMessage_buf_def wf_message_def wf_new)



text \<open>
  What a set request stores. A received set request with flags, expiration, a key and any number
  of value bytes is accepted if its header passes the checks and the heap serves the announced
  value size \<open>n\<close>. Its value is \<open>n\<close> bytes long whatever arrived: what arrived, cut at \<open>n\<close>, then
  bytes of the heap that nobody wrote.
\<close>

theorem set_request_value:
  assumes "wf_buffer rb" "written rb = map Some (header_bytes h @ be32 f @ be32 e @ k @ val)"
    "SetRequest_checks h" "unat (KeyLen h) = length k"
    "ok (value_size h)" "value_size h \<le> heap_maxreq"
  shows "\<exists>m v. Parse ok (SetRequest_buf (Some rb)) = Inr (True, m) \<and> GetKey m = k \<and>
     GetFlags m = Inr (Some f) \<and> GetExpiration m = Inr (Some e) \<and> GetValue m = Inr v \<and>
     written v = map Some (take (unat (value_size h)) val) @ replicate (unat (value_size h) - length val) None"
proof -
  have "ExtrasLen h = 8" "value_size h \<noteq> 0"
    using assms(3) SetRequest_value_size [of h] by (auto simp: SetRequest_checks_def split: if_splits)
  moreover obtain b' where "Base_Parse ok (BaseMessage_buf (Some rb) (SetRequest DataBuffer_new (Some 0) None)) =
      Inr (True, \<lparr>m_buffer = Some b', m_header = header_seen h, m_key = k,
        m_derived = received (SetRequest DataBuffer_new (Some f) (Some e)) (value_size h) (map Some val)
          (SetRequest DataBuffer_new (Some 0) None)\<rparr>)"
    using Base_Parse_frame [of rb h "SetRequest DataBuffer_new (Some f) (Some e)" k "map Some val"
        "SetRequest DataBuffer_new (Some 0) None" ok] assms calculation
    by auto
  ultimately show ?thesis
    using assms(3)
    by (simp add: Parse_eq SetRequest_buf_def GetKey_def GetFlags_def GetExpiration_def GetValue_def
        SetRequest_checks_def take_map split: if_splits)
qed

theorem set_request_value_witness:
  "\<exists>m v. Parse (\<lambda>_. True) (SetRequest_buf (Some (buffer_with 64 (header_bytes
        (MessageHeader_new\<lparr>Magic := 0x80, Opcode := 1, ExtrasLen := 8, KeyLen := 1, TotalBodyLen := 12\<rparr>) @
        be32 0 @ be32 0 @ [65] @ [7])))) = Inr (True, m) \<and>
     GetValue m = Inr v \<and> written v = [Some 7, None, None]"
proof -
  let ?h = "MessageHeader_new\<lparr>Magic := 0x80, Opcode := 1, ExtrasLen := 8, KeyLen := 1, TotalBodyLen := 12\<rparr>"
  have "SetRequest_checks ?h" "value_size ?h = 3" "KeyLen ?h = 1"
    by (simp_all add: SetRequest_checks_def value_size_def MessageHeader_new_def)
  moreover have "take 3 [7 :: u8] = [7]" "replicate (3 - length [7 :: u8]) None = [None, None :: cell]"
    by (simp_all add: numeral_eq_Suc)
  ultimately show ?thesis
    using set_request_value [of "buffer_with 64 (header_bytes ?h @ be32 0 @ be32 0 @ [65] @ [7])" ?h 0 0 "[65]" "[7]"
        "\<lambda>_. True"] buffer_with_small [of "header_bytes ?h @ be32 0 @ be32 0 @ [65] @ [7]"]
    by (simp add: heap_maxreq_def) blast
qed

text \<open>
  C20. A header can make the parse throw. If a set request or get response announces a body shorter
  than its key and extras, by at most 31 bytes, the value size wraps around to more than any heap
  serves: the parse ends in \<open>std::bad_alloc\<close>, whatever follows the header, before the checks of the
  class are reached.
\<close>

theorem short_total_throws:
  assumes "wf_message m" "m_buffer m = Some b" "32 \<le> unat (bufferSize b)"
    "written b = map Some (header_bytes h @ body)"
    "\<not> same_class GetRequest (m_derived m)" "\<not> same_class SetResponse (m_derived m)"
    "unat (TotalBodyLen h) < unat (KeyLen h) + unat (ExtrasLen h)"
    "unat (KeyLen h) + unat (ExtrasLen h) \<le> unat (TotalBodyLen h) + 31"
  shows "Parse ok m = Inl BadAlloc"
proof -
  have big: "heap_maxreq < value_size h" and pos: "value_size h > 0"
    using value_size_wraps [OF assms(7,8)] by (simp_all, meson order_le_less_trans word_zero_le)
  have wf: "wf_buffer b" using assms by (simp add: wf_message_def)
  define b1 where "b1 = advance 24 (ResetRead b)"
  define m1 where "m1 = m\<lparr>m_buffer := Some b1, m_header := header_seen h\<rparr>"
  note hdr = Base_Parse_header [OF assms(2) wf assms(4) [simplified], folded b1_def, unfolded Let_def, folded m1_def]
  have p1: "parsing (header_bytes h @ body) (header_seen h) (m_derived m) b1 m1"
    using assms(1,4) hdr(2,4) by (simp add: parsing_def m1_def wf_message_def)
  obtain r2 m2 b2 where e: "ReadExtras m1 = Inr (r2, m2)"
      "parsing (header_bytes h @ body) (header_seen h) (m_derived m) b2 m2"
    by (rule ReadExtras_outcome [OF p1]) (use assms(3) in \<open>auto simp: b1_def advance_def ResetRead_def\<close>)
  obtain r3 m3 b3 where k: "ReadKey m2 = Inr (r3, m3)"
      "parsing (header_bytes h @ body) (header_seen h) (m_derived m) b3 m3"
    by (rule ReadKey_outcome [OF e(2)]) simp
  have "ReadValue ok m3 = Inl BadAlloc"
    using k(2) big pos assms(5,6) by (cases "m_derived m")
      (auto simp: parsing_simps ReadValue_def Let_def the_buffer_def read_value_eq new_array_def value_size_def)
  then show ?thesis
    using e(1) k(1) by (simp add: Parse_eq hdr(1))
qed

theorem short_total_throws_witness:
  "Parse (\<lambda>_. True) (SetRequest_buf (Some (buffer_with 64 (header_bytes (MessageHeader_new\<lparr>ExtrasLen := 8\<rparr>))))) =
     Inl BadAlloc"
  using short_total_throws [of "SetRequest_buf (Some (buffer_with 64 (header_bytes (MessageHeader_new\<lparr>ExtrasLen := 8\<rparr>))))"
      "buffer_with 64 (header_bytes (MessageHeader_new\<lparr>ExtrasLen := 8\<rparr>))" "MessageHeader_new\<lparr>ExtrasLen := 8\<rparr>" "[]"
      "\<lambda>_. True"]
    buffer_with_small [of "header_bytes (MessageHeader_new\<lparr>ExtrasLen := 8\<rparr>)"]
  by (simp add: SetRequest_buf_def BaseMessage_buf_def wf_message_def MessageHeader_new_def)

text \<open>
  C21. The frame a build makes. Take a message that has not been built before, its header counting no
  body yet (or any get request, which starts from a new header), with a well-formed value, a well-formed buffer of at
  least 32 bytes, a key the 16-bit length can count, and a heap that serves what \<open>Build\<close> allocates. Then \<open>Build\<close> succeeds,
  changes neither key, value nor flags, announces exactly the body's length, and what is sent is the
  frame: header, extras, key, value, nothing more. (The lemmas below show what becomes of a second build and of longer keys.)
\<close>

theorem build_frame:
  assumes "buildable ok m" "TotalBodyLen (start_header m) = 0" "length (m_key m) < 65536"
  shows "\<exists>m'. Build ok m = Inr (True, m') \<and> m_key m' = m_key m \<and> m_derived m' = m_derived m \<and>
     wire m' = frame_cells (m_header m') (m_derived m) (m_key m) \<and>
     unat (ExtrasLen (m_header m')) = extras_size (m_derived m) \<and>
     unat (KeyLen (m_header m')) = length (m_key m) \<and>
     unat (TotalBodyLen (m_header m')) = extras_size (m_derived m) + length (m_key m) + length (value_cells (m_derived m))"
  by (rule Build_eq [OF assms(1)])
    (use assms(2,3) sent_lengths [of m] in \<open>simp add: body_length_def frame_cells_def length_extras_cells\<close>)

theorem build_frame_witness:
  "\<exists>m'. Build (\<lambda>_. True) (SetKey [65, 66] (GetRequest_buf (Some (fresh 64)))) = Inr (True, m') \<and>
     wire m' = map Some (header_bytes (m_header m') @ [65, 66]) \<and> unat (TotalBodyLen (m_header m')) = 2"
  using build_frame [of "\<lambda>_. True" "SetKey [65, 66] (GetRequest_buf (Some (fresh 64)))"]
  by (auto simp: buildable_def SetKey_def GetRequest_buf_def BaseMessage_buf_def wf_message_def wf_fresh
      heap_serves_all heap_maxreq_def value_cells_def start_header_def MessageHeader_new_def frame_cells_def)

text \<open>
  Building again counts again. \<open>Build\<close> adds the body's length to \<open>TotalBodyLen\<close>, and only a get
  request starts from a new header: in the other classes the second build of a message announces
  the body twice.
\<close>

theorem build_accumulates_total:
  assumes "buildable ok m"
  shows "\<exists>m'. Build ok m = Inr (True, m') \<and>
     TotalBodyLen (m_header m') =
       (if m_derived m = GetRequest then 0 else TotalBodyLen (m_header m)) + of_nat (body_length m)"
  by (rule Build_eq [OF assms])
    (auto simp: sent_header_def start_header_def MessageHeader_new_def split: derived.split)

theorem build_accumulates_total_witness:
  "\<exists>m'. Build (\<lambda>_. True) (SetHeader (MessageHeader_new\<lparr>TotalBodyLen := 2\<rparr>)
        (SetKey [65, 66] (SetResponse_buf (Some (fresh 64))))) = Inr (True, m') \<and>
     TotalBodyLen (m_header m') = 4"
  using build_accumulates_total [of "\<lambda>_. True" "SetHeader (MessageHeader_new\<lparr>TotalBodyLen := 2\<rparr>)
      (SetKey [65, 66] (SetResponse_buf (Some (fresh 64))))"]
  by (simp add: buildable_def SetKey_def SetHeader_def SetResponse_buf_def BaseMessage_buf_def wf_message_def wf_fresh
      heap_serves_all heap_maxreq_def value_cells_def body_length_def)

text \<open>
  Long keys. A key of 65536 bytes or more is counted modulo 65536 in \<open>KeyLen\<close> and in
  \<open>TotalBodyLen\<close>, while all of it is written: what is sent is the frame cut short, by as many bytes
  as were not counted.
\<close>

theorem long_key_truncated:
  assumes "buildable ok m" "TotalBodyLen (start_header m) = 0" "65536 \<le> length (m_key m)"
  shows "\<exists>m'. Build ok m = Inr (True, m') \<and>
     unat (KeyLen (m_header m')) = length (m_key m) mod 65536 \<and>
     (\<exists>lost. frame_cells (m_header m') (m_derived m) (m_key m) = wire m' @ lost \<and>
        length lost = length (m_key m) - length (m_key m) mod 65536)"
proof -
  obtain m' where m': "Build ok m = Inr (True, m')" "m_header m' = sent_header m"
      "wire m' = take (24 + body_length m) (frame_cells (sent_header m) (m_derived m) (m_key m))"
    by (rule Build_eq [OF assms(1)]) (use assms(2) in auto)
  let ?f = "frame_cells (sent_header m) (m_derived m) (m_key m)"
  have "?f = wire m' @ drop (24 + body_length m) ?f"
    unfolding m'(3) append_take_drop_id ..
  moreover have "length (drop (24 + body_length m) ?f) = length (m_key m) - length (m_key m) mod 65536"
    by (simp add: frame_cells_def body_length_def length_extras_cells)
  moreover have "unat (KeyLen (sent_header m)) = length (m_key m) mod 65536"
    by (simp add: sent_header_def unat_of_nat take_bit_eq_mod)
  ultimately show ?thesis
    unfolding m'(2) [symmetric] using m'(1) by (intro exI [of _ m']) blast
qed

theorem long_key_truncated_witness:
  "\<exists>m'. Build (\<lambda>_. True) (SetKey (replicate 65537 65) (GetRequest_buf (Some (fresh 64)))) = Inr (True, m') \<and>
     unat (KeyLen (m_header m')) = 1"
  using long_key_truncated [of "\<lambda>_. True" "SetKey (replicate 65537 65) (GetRequest_buf (Some (fresh 64)))"]
  by (auto simp: buildable_def SetKey_def GetRequest_buf_def BaseMessage_buf_def wf_message_def wf_fresh
      heap_serves_all heap_maxreq_def value_cells_def start_header_def MessageHeader_new_def)

text \<open>
  C2. Build and parse. Take a message the protocol allows (the key below 65536 bytes, and not empty in a
  request; the value below \<open>2 ^ 31\<close> bytes, and not empty in a set request) that has a well-formed buffer
  of at least 32 bytes and has not been built before, and heaps that serve the allocations of both sides. Built, and received whole,
  it is accepted by a new message of the same class, with the same key, flags, expiration and value, and
  with the header that was sent, but for the \<open>CAS\<close>: that comes back sign-extended from bit 31, the same
  only if bit 31 is clear or the upper half all ones.
\<close>

theorem build_parse_round_trip:
  assumes "buildable ok m" "protocol_ok m" "TotalBodyLen (start_header m) = 0"
    "length (value_cells (m_derived m)) < 2 ^ 31" "heap_serves (length (value_cells (m_derived m))) ok'"
  shows "\<exists>sent. Build ok m = Inr (True, sent) \<and>
     (\<forall>rb. wf_buffer rb \<and> written rb = wire sent \<longrightarrow>
        (\<exists>m'. Parse ok' (BaseMessage_buf (Some rb) (blank (m_derived m))) = Inr (True, m') \<and>
           m_header m' = (m_header sent)\<lparr>CAS := sext31 (CAS (m_header sent))\<rparr> \<and> m_key m' = m_key m \<and>
           same_class (m_derived m) (m_derived m') \<and>
           extras_cells (m_derived m') = extras_cells (m_derived m) \<and>
           value_cells (m_derived m') = value_cells (m_derived m)))"
proof -
  have k: "length (m_key m) < 65536" using assms(2) by (simp add: protocol_ok_def)
  obtain m1 where m1: "Build ok m = Inr (True, m1)" "m_header m1 = sent_header m"
      "wire m1 = take (24 + body_length m) (frame_cells (sent_header m) (m_derived m) (m_key m))"
    by (rule Build_eq [OF assms(1)]) (use assms(3) in auto)
  have w: "wire m1 = frame_cells (sent_header m) (m_derived m) (m_key m)"
    using k unfolding m1(3) by (simp add: frame_cells_def body_length_def length_extras_cells)
  have n: "value_size (sent_header m) = of_nat (length (value_cells (m_derived m)))"
    by (rule sent_value_size [OF k assms(3)])
  have "length (value_cells (m_derived m)) < 2 ^ 32" using assms(4) by simp
  note rcv = received_blank [OF n this]
  have "\<exists>m'. Parse ok' (BaseMessage_buf (Some rb) (blank (m_derived m))) = Inr (True, m') \<and>
      m_header m' = header_seen (m_header m1) \<and> m_key m' = m_key m \<and>
      same_class (m_derived m) (m_derived m') \<and>
      extras_cells (m_derived m') = extras_cells (m_derived m) \<and>
      value_cells (m_derived m') = value_cells (m_derived m)"
    if "wf_buffer rb" "written rb = wire m1" for rb
    by (rule Parse_frame [OF assms that [unfolded w]]) (auto simp: rcv m1(2))
  with m1(1) show ?thesis unfolding header_seen_def by blast
qed

theorem build_parse_round_trip_witness:
  "\<exists>sent m'. Build (\<lambda>_. True) (BaseMessage_buf (Some (fresh 64)) (SetRequest (buffer_with 64 [1, 2]) (Some 7) (Some 9))
        \<lparr>m_key := [65]\<rparr>) = Inr (True, sent) \<and>
     (\<exists>rb. Parse (\<lambda>_. True) (SetRequest_buf (Some rb)) = Inr (True, m') \<and>
        GetKey m' = [65] \<and> value_cells (m_derived m') = [Some 1, Some 2])"
proof -
  let ?m = "BaseMessage_buf (Some (fresh 64)) (SetRequest (buffer_with 64 [1, 2]) (Some 7) (Some 9))\<lparr>m_key := [65]\<rparr>"
  have v: "value_cells (m_derived ?m) = [Some 1, Some 2]"
    using buffer_with_small [of "[1, 2]"] by (simp add: BaseMessage_buf_def value_cells_def)
  have "buildable (\<lambda>_. True) ?m"
    using buffer_with_small [of "[1, 2]"]
    by (simp add: buildable_def BaseMessage_buf_def wf_message_def wf_fresh heap_serves_all heap_maxreq_def value_cells_def)
  moreover have "protocol_ok ?m" "TotalBodyLen (start_header ?m) = 0"
    using v by (auto simp: protocol_ok_def BaseMessage_buf_def start_header_def MessageHeader_new_def)
  moreover have "length (value_cells (m_derived ?m)) < 2 ^ 31"
      "heap_serves (length (value_cells (m_derived ?m))) (\<lambda>_. True)"
    unfolding v by (simp_all add: heap_serves_all)
  ultimately obtain sent where s: "Build (\<lambda>_. True) ?m = Inr (True, sent)"
    and r: "\<And>rb. wf_buffer rb \<Longrightarrow> written rb = wire sent \<Longrightarrow>
        (\<exists>m'. Parse (\<lambda>_. True) (BaseMessage_buf (Some rb) (blank (m_derived ?m))) = Inr (True, m') \<and>
           m_key m' = m_key ?m \<and> value_cells (m_derived m') = value_cells (m_derived ?m))"
    using build_parse_round_trip [of "\<lambda>_. True" ?m "\<lambda>_. True"] by blast
  obtain rb where "wf_buffer rb" "written rb = wire sent"
    using sent_buffer [OF \<open>buildable (\<lambda>_. True) ?m\<close> s] \<open>TotalBodyLen (start_header ?m) = 0\<close> by blast
  with r [of rb] s v show ?thesis
    by (auto simp: SetRequest_buf_def GetKey_def BaseMessage_buf_def)
qed

end
