(* ===== verification/Threading.thy ===== *)
theory Threading
  imports Prelude
begin

text \<open>
  \<open>Thread\<close>, as its owner sees it: the flag that asks the thread to end, and whether the
  \<open>std::thread\<close> behind it is joinable. \<open>join\<close> is taken to return, which
  is when the thread has ended; under which conditions the threads of this program end is shown with them, in
  \<open>Server\<close>, \<open>Socket\<close> and \<open>ThreadTests\<close>.
\<close>

record Thread =
  shouldTerminate :: bool
  joinable :: bool

definition Thread_new :: Thread where
  "Thread_new = \<lparr>shouldTerminate = False, joinable = False\<rparr>"

definition Thread_Stop :: "bool \<Rightarrow> Thread \<Rightarrow> Thread" where
  "Thread_Stop shouldJoin t =
     (let t = t\<lparr>shouldTerminate := True\<rparr>
      in if shouldJoin \<and> joinable t then t\<lparr>joinable := False\<rparr> else t)"

definition Thread_Start :: "Thread \<Rightarrow> Thread" where
  "Thread_Start t = Thread_Stop True t\<lparr>shouldTerminate := False, joinable := True\<rparr>"

text \<open>The destructor: the thread is told to end and joined.\<close>

definition Thread_delete :: "Thread \<Rightarrow> Thread" where
  "Thread_delete t = Thread_Stop True t"

definition ShouldTerminate :: "Thread \<Rightarrow> bool" where
  "ShouldTerminate t = shouldTerminate t"

definition IsRunning :: "Thread \<Rightarrow> bool" where
  "IsRunning t = joinable t"

definition ThreadEntry :: "('r \<Rightarrow> 'w \<Rightarrow> 'w) \<Rightarrow> 'r option \<Rightarrow> 'w \<Rightarrow> 'w" where
  "ThreadEntry run runner w = (case runner of None \<Rightarrow> w | Some r \<Rightarrow> run r w)"

lemma Thread_simps [simp]:
  "shouldTerminate (Thread_Stop j t)" "joinable (Thread_Stop j t) \<longleftrightarrow> joinable t \<and> \<not> j"
  "\<not> shouldTerminate (Thread_Start t)" "joinable (Thread_Start t)"
  by (auto simp: Thread_Stop_def Thread_Start_def Let_def)

end
