(* ===== verification/Socket.thy ===== *)
theory Socket
  imports Messages Threading
begin

text \<open>
  \<open>MemcacheSocket\<close>. Winsock is a parameter, the record \<open>winsock\<close> of functions on the state \<open>'w\<close> of
  the world outside; what the code relies on of it are the predicates \<open>recv_ok\<close> (never more bytes
  than asked for), \<open>recv_progress\<close> and \<open>stream_ok\<close>. The owner of a socket is a parameter too: the
  record \<open>ISocketHandler\<close> of its callbacks, functions on its state \<open>'h\<close>.

  A loop that may not end is a value of an option type: \<open>None\<close> is no return.
\<close>

section \<open>What the code calls\<close>

type_synonym SOCKET = nat

record 'w winsock =
  ws_socket :: "'w \<Rightarrow> SOCKET option \<times> 'w"
  ws_bind :: "SOCKET \<Rightarrow> u16 \<Rightarrow> 'w \<Rightarrow> bool \<times> 'w"
  ws_listen :: "SOCKET \<Rightarrow> 'w \<Rightarrow> bool \<times> 'w"
  ws_connect :: "SOCKET \<Rightarrow> string \<Rightarrow> u16 \<Rightarrow> 'w \<Rightarrow> bool \<times> 'w"
  ws_accept :: "SOCKET \<Rightarrow> 'w \<Rightarrow> SOCKET option \<times> 'w"
  ws_select :: "SOCKET \<Rightarrow> 'w \<Rightarrow> int \<times> 'w"
  ws_peek :: "SOCKET \<Rightarrow> size_t \<Rightarrow> 'w \<Rightarrow> int \<times> 'w"
  ws_recv :: "SOCKET option \<Rightarrow> size_t \<Rightarrow> 'w \<Rightarrow> u8 list option \<times> 'w"
  ws_send :: "SOCKET option \<Rightarrow> cell list \<Rightarrow> 'w \<Rightarrow> size_t option \<times> 'w"
  ws_close :: "SOCKET \<Rightarrow> 'w \<Rightarrow> 'w"
  ws_rcvtimeo :: "SOCKET \<Rightarrow> u32 \<Rightarrow> 'w \<Rightarrow> 'w"
  asked_to_stop :: "'w \<Rightarrow> bool"

text \<open>
  \<open>None\<close> is \<open>INVALID_SOCKET\<close> as a socket and \<open>SOCKET_ERROR\<close> as a result. \<open>asked_to_stop\<close> is what the
  thread's own flag reads at a time: other threads set it.
\<close>

record MemcacheSocket =
  socketHandle :: "SOCKET option"
  selectThread :: Thread
  isListening :: bool
  sessionID :: u32
  hasHandler :: bool
  readBuffer :: DataBuffer
  currentMsg :: "BaseMessage option"

record ('h, 'w) ISocketHandler =
  OnAcceptConn :: "MemcacheSocket \<Rightarrow> 'h \<Rightarrow> 'w \<Rightarrow> ('h \<times> 'w) run"
  OnReceivedMessage :: "BaseMessage \<Rightarrow> 'h \<Rightarrow> (BaseMessage option \<times> 'h) run"
  OnSocketClosed :: "u32 \<Rightarrow> 'h \<Rightarrow> 'h run"

section \<open>Making sockets\<close>

text \<open>The counter is a static variable that starts at 0.\<close>

definition GetNextSessionID :: "u32 \<Rightarrow> u32 \<times> u32" where
  "GetNextSessionID n = (n + 1, n + 1)"

definition socket_object :: "heap \<Rightarrow> SOCKET option \<Rightarrow> bool \<Rightarrow> u32 \<Rightarrow> (MemcacheSocket \<times> u32) res" where
  "socket_object ok s handler n =
     (let (ident, n) = GetNextSessionID n in
      bindE (DataBuffer_len ok kMBPHeaderSize) (\<lambda>b.
      Inr (\<lparr>socketHandle = s, selectThread = Thread_new, isListening = False, sessionID = ident,
        hasHandler = handler, readBuffer = b, currentMsg = None\<rparr>, n)))"

definition MemcacheSocket_new :: "heap \<Rightarrow> u32 \<Rightarrow> (MemcacheSocket \<times> u32) res" where
  "MemcacheSocket_new ok n = socket_object ok None False n"

definition MemcacheSocket_handler :: "heap \<Rightarrow> u32 \<Rightarrow> (MemcacheSocket \<times> u32) res" where
  "MemcacheSocket_handler ok n = socket_object ok None True n"

definition MemcacheSocket_connected :: "heap \<Rightarrow> SOCKET \<Rightarrow> u32 \<Rightarrow> (MemcacheSocket \<times> u32) res" where
  "MemcacheSocket_connected ok s n =
     bindE (socket_object ok (Some s) True n) (\<lambda>(sock, n).
     Inr (sock\<lparr>selectThread := Thread_Start (selectThread sock)\<rparr>, n))"

definition IsConnected :: "MemcacheSocket \<Rightarrow> bool" where
  "IsConnected s \<longleftrightarrow> socketHandle s \<noteq> None"

definition SetSockOpts :: "'w winsock \<Rightarrow> MemcacheSocket \<Rightarrow> 'w \<Rightarrow> 'w" where
  "SetSockOpts ws s w = (case socketHandle s of None \<Rightarrow> w | Some h \<Rightarrow> ws_rcvtimeo ws h 1000 w)"

definition Close :: "'w winsock \<Rightarrow> MemcacheSocket \<Rightarrow> 'w \<Rightarrow> MemcacheSocket \<times> 'w" where
  "Close ws s w =
     (let s = s\<lparr>selectThread := Thread_Stop False (selectThread s)\<rparr>;
          (s, w) = (case socketHandle s of
              None \<Rightarrow> (s, w)
            | Some h \<Rightarrow> (s\<lparr>socketHandle := None\<rparr>, ws_close ws h w));
          s = s\<lparr>selectThread := Thread_Stop True (selectThread s)\<rparr>
      in (s\<lparr>isListening := False\<rparr>, w))"

text \<open>The destructor.\<close>

definition MemcacheSocket_delete :: "'w winsock \<Rightarrow> MemcacheSocket \<Rightarrow> 'w \<Rightarrow> 'w" where
  "MemcacheSocket_delete ws s w = snd (Close ws s w)"

definition GetSessionID :: "MemcacheSocket \<Rightarrow> u32" where
  "GetSessionID s = sessionID s"

definition Listen :: "'w winsock \<Rightarrow> u16 \<Rightarrow> bool \<Rightarrow> MemcacheSocket \<Rightarrow> 'w \<Rightarrow> bool \<times> MemcacheSocket \<times> 'w" where
  "Listen ws port handler s w =
     (let (s, w) = Close ws s w; (h, w) = ws_socket ws w; s = s\<lparr>socketHandle := h\<rparr> in
      case h of
        None \<Rightarrow> (False, s, w)
      | Some h \<Rightarrow>
          let (r, w) = ws_bind ws h port w in
          if \<not> r then (False, Close ws s w)
          else
            let (r, w) = ws_listen ws h w in
            if \<not> r then (False, Close ws s w)
            else
              (True, s\<lparr>hasHandler := handler, isListening := True, selectThread := Thread_Start (selectThread s)\<rparr>, w))"

definition Connect ::
  "'w winsock \<Rightarrow> string \<Rightarrow> u16 \<Rightarrow> bool \<Rightarrow> MemcacheSocket \<Rightarrow> 'w \<Rightarrow> bool \<times> MemcacheSocket \<times> 'w" where
  "Connect ws address port useAsyncRead s w =
     (let (s, w) = Close ws s w; (h, w) = ws_socket ws w; s = s\<lparr>socketHandle := h\<rparr> in
      case h of
        None \<Rightarrow> (False, s, w)
      | Some h \<Rightarrow>
          let (r, w) = ws_connect ws h address port w in
          if \<not> r then (False, Close ws s w)
          else if useAsyncRead then (True, s\<lparr>selectThread := Thread_Start (selectThread s)\<rparr>, w)
          else (True, s, SetSockOpts ws s w))"

section \<open>Sending\<close>

definition send_buffer :: "'w winsock \<Rightarrow> MemcacheSocket \<Rightarrow> DataBuffer \<Rightarrow> 'w \<Rightarrow> (size_t option \<times> 'w) res" where
  "send_buffer ws s b w =
     bindE (mem_load (data b) 0 (GetBytesWritten b)) (\<lambda>cs. Inr (ws_send ws (socketHandle s) cs w))"

definition SendBuiltMessage :: "'w winsock \<Rightarrow> MemcacheSocket \<Rightarrow> BaseMessage \<Rightarrow> 'w \<Rightarrow> (bool \<times> 'w) res" where
  "SendBuiltMessage ws s m w =
     (case m_buffer m of
        None \<Rightarrow> Inr (False, w)
      | Some b \<Rightarrow>
          bindE (send_buffer ws s b w) (\<lambda>(sent, w).
          Inr (case sent of None \<Rightarrow> False | Some n \<Rightarrow> n = GetBytesWritten b, w)))"

section \<open>Receiving\<close>

text \<open>
  \<open>recv\<close> to the write pointer, then \<open>MoveWriteForward\<close> by what was received; \<open>None\<close> is
  \<open>SOCKET_ERROR\<close>.
\<close>

definition recv_into ::
  "'w winsock \<Rightarrow> SOCKET option \<Rightarrow> size_t \<Rightarrow> DataBuffer \<Rightarrow> 'w \<Rightarrow> (DataBuffer option \<times> 'w) res" where
  "recv_into ws s n b w =
     (case ws_recv ws s n w of
        (None, w) \<Rightarrow> Inr (None, w)
      | (Some bs, w) \<Rightarrow>
          bindE (case GetWritePtr b of
                   None \<Rightarrow> if bs = [] then Inr (data b) else Inl BadAccess
                 | Some p \<Rightarrow> mem_store (data b) p (map Some bs)) (\<lambda>d.
          Inr (Some (snd (MoveWriteForward (of_nat (length bs)) (b\<lparr>data := d\<rparr>))), w)))"

text \<open>The two loops of \<open>ReadMessage\<close>: receive until \<open>target\<close> bytes are in the buffer, or an error.\<close>

partial_function (option) fill ::
  "'w winsock \<Rightarrow> SOCKET option \<Rightarrow> size_t \<Rightarrow> DataBuffer \<Rightarrow> 'w \<Rightarrow> (bool \<times> DataBuffer \<times> 'w) run" where
  "fill ws s target b w =
     (if GetBytesWritten b < target
      then
        (case recv_into ws s (target - GetBytesWritten b) b w of
           Inl f \<Rightarrow> Some (Inl f)
         | Inr r \<Rightarrow>
             (case fst r of
                None \<Rightarrow> Some (Inr (False, b, snd r))
              | Some b' \<Rightarrow> fill ws s target b' (snd r)))
      else Some (Inr (True, b, w)))"

text \<open>
  The message object for a received header. For a magic number or an opcode it does not know, the
  code leaves \<open>_currentMsg\<close> as it was; the old message shares the read buffer.
\<close>

definition select_message :: "MessageHeader \<Rightarrow> DataBuffer \<Rightarrow> BaseMessage option \<Rightarrow> BaseMessage option" where
  "select_message header b current =
     (let old = map_option (\<lambda>m. m\<lparr>m_buffer := Some b\<rparr>) current in
      if Magic header = kMagicReq
      then
        if Opcode header = kOpGet then Some (GetRequest_buf (Some b))
        else if Opcode header = kOpSet then Some (SetRequest_buf (Some b))
        else old
      else if Magic header = kMagicRes
      then
        if Opcode header = kOpGet then Some (GetResponse_buf (Some b))
        else if Opcode header = kOpSet then Some (SetResponse_buf (Some b))
        else old
      else old)"

definition answer ::
  "heap \<Rightarrow> 'w winsock \<Rightarrow> MemcacheSocket \<Rightarrow> BaseMessage option \<Rightarrow> 'w \<Rightarrow> 'w res" where
  "answer ok ws s reply w =
     (case reply of
        None \<Rightarrow> Inr w
      | Some m \<Rightarrow>
          bindE (Build ok m) (\<lambda>(r, m).
          if r
          then (case m_buffer m of
                  None \<Rightarrow> Inr w
                | Some b \<Rightarrow> bindE (send_buffer ws s b w) (\<lambda>(_, w). Inr w))
          else Inr w))"

definition deliver ::
  "heap \<Rightarrow> 'w winsock \<Rightarrow> ('h, 'w) ISocketHandler \<Rightarrow> MemcacheSocket \<Rightarrow> 'h \<Rightarrow> 'w \<Rightarrow> (MemcacheSocket \<times> 'h \<times> 'w) run" where
  "deliver ok ws H s h w =
     (case currentMsg s of
        None \<Rightarrow> Some (Inr (s, h, w))
      | Some m \<Rightarrow>
          andThen (Some (Parse ok m)) (\<lambda>(r, m).
          let s = s\<lparr>currentMsg := Some m, readBuffer := (case m_buffer m of None \<Rightarrow> readBuffer s | Some b \<Rightarrow> b)\<rparr> in
          if r
          then
            if hasHandler s
            then
              andThen (OnReceivedMessage H m h) (\<lambda>(reply, h).
              andThen (Some (answer ok ws s reply w)) (\<lambda>w.
              Some (Inr (s, h, w))))
            else Some (Inl BadAccess)
          else Some (Inr (s, h, w))))"

definition make_room :: "heap \<Rightarrow> size_t \<Rightarrow> DataBuffer \<Rightarrow> DataBuffer res" where
  "make_room ok reqSize b =
     (if bufferSize b < reqSize then bindE (Realloc ok reqSize b) (\<lambda>(_, b). Inr b) else Inr b)"

definition ReadMessage ::
  "heap \<Rightarrow> 'w winsock \<Rightarrow> ('h, 'w) ISocketHandler \<Rightarrow> MemcacheSocket \<Rightarrow> 'h \<Rightarrow> 'w \<Rightarrow>
     (MemcacheSocket \<times> 'h \<times> 'w) run" where
  "ReadMessage ok ws H s h w =
     andThen (fill ws (socketHandle s) kMBPHeaderSize (Reset (readBuffer s)) w) (\<lambda>(full, b, w).
     if full
     then
       andThen (Some (ParseFromBuffer b MessageHeader_new)) (\<lambda>((_, header), b).
       let reqSize = TotalBodyLen header + kMBPHeaderSize in
       andThen (Some (make_room ok reqSize b)) (\<lambda>b.
       andThen (fill ws (socketHandle s) reqSize b w) (\<lambda>(_, b, w).
       deliver ok ws H (s\<lparr>readBuffer := b, currentMsg := select_message header b (currentMsg s)\<rparr>) h w)))
     else Some (Inr (s\<lparr>readBuffer := b\<rparr>, h, w)))"

text \<open>
  The thread of a socket. A listening socket makes a socket object of each accepted connection and
  hands it to the handler; a connected one reads messages until the peer has closed. \<open>Run_body\<close> is
  one pass through the loop; its flag says whether the loop goes on (no \<open>break\<close>).
\<close>

definition Run_body ::
  "heap \<Rightarrow> 'w winsock \<Rightarrow> ('h, 'w) ISocketHandler \<Rightarrow> SOCKET \<Rightarrow> MemcacheSocket \<Rightarrow> 'h \<Rightarrow> u32 \<Rightarrow> 'w \<Rightarrow>
     (bool \<times> MemcacheSocket \<times> 'h \<times> u32 \<times> 'w) run" where
  "Run_body ok ws H sock s h n w =
     (let (res, w) = ws_select ws sock w in
      if res > 0
      then
        if asked_to_stop ws w then Some (Inr (False, s, h, n, w))
        else if isListening s
        then
          (let (c, w) = ws_accept ws sock w in
           case c of
             None \<Rightarrow> Some (Inr (True, s, h, n, w))
           | Some c \<Rightarrow>
               andThen (Some (MemcacheSocket_connected ok c n)) (\<lambda>(new, n).
               if hasHandler s
               then andThen (OnAcceptConn H new h w) (\<lambda>(h, w). Some (Inr (True, s, h, n, w)))
               else Some (Inl BadAccess)))
        else
          (let (canRead, w) = ws_peek ws sock kMBPHeaderSize w in
           if canRead \<ge> 24
           then andThen (ReadMessage ok ws H s h w) (\<lambda>(s, h, w). Some (Inr (True, s, h, n, w)))
           else if hasHandler s
           then andThen (OnSocketClosed H (sessionID s) h) (\<lambda>h. Some (Inr (False, s, h, n, w)))
           else Some (Inl BadAccess))
      else if res = - 1 then Some (Inr (False, s, h, n, w))
      else Some (Inr (True, s, h, n, w)))"

partial_function (option) Run_loop ::
  "heap \<Rightarrow> 'w winsock \<Rightarrow> ('h, 'w) ISocketHandler \<Rightarrow> MemcacheSocket \<Rightarrow> 'h \<Rightarrow> u32 \<Rightarrow> 'w \<Rightarrow>
     (MemcacheSocket \<times> 'h \<times> u32 \<times> 'w) run" where
  "Run_loop ok ws H s h n w =
     (case socketHandle s of
        None \<Rightarrow> Some (Inr (s, h, n, w))
      | Some sock \<Rightarrow>
          if asked_to_stop ws w then Some (Inr (s, h, n, w))
          else
            (case Run_body ok ws H sock s h n w of
               None \<Rightarrow> None
             | Some (Inl f) \<Rightarrow> Some (Inl f)
             | Some (Inr r) \<Rightarrow>
                 if fst r then Run_loop ok ws H (fst (snd r)) (fst (snd (snd r))) (fst (snd (snd (snd r)))) (snd (snd (snd (snd r))))
                 else Some (Inr (snd r))))"

definition Run ::
  "heap \<Rightarrow> 'w winsock \<Rightarrow> ('h, 'w) ISocketHandler \<Rightarrow> MemcacheSocket \<Rightarrow> 'h \<Rightarrow> u32 \<Rightarrow> 'w \<Rightarrow>
     (MemcacheSocket \<times> 'h \<times> u32 \<times> 'w) run" where
  "Run ok ws H s h n w = Run_loop ok ws H s h n (SetSockOpts ws s w)"

section \<open>What the code relies on\<close>

definition recv_ok :: "'w winsock \<Rightarrow> bool" where
  "recv_ok ws \<longleftrightarrow> (\<forall>s n w bs w'. ws_recv ws s n w = (Some bs, w') \<longrightarrow> length bs \<le> unat n)"

text \<open>Every receive gets something or fails; \<open>recv\<close> returns 0 only when the peer has closed.\<close>

definition recv_progress :: "'w winsock \<Rightarrow> SOCKET option \<Rightarrow> bool" where
  "recv_progress ws s \<longleftrightarrow> (\<forall>n w bs w'. 0 < n \<longrightarrow> ws_recv ws s n w = (Some bs, w') \<longrightarrow> bs \<noteq> [])"

section \<open>Filling the buffer\<close>

lemma append_is_store:
  assumes "wf_buffer b" "length bs \<le> room b" "bs \<noteq> []"
  shows "GetWritePtr b = Some (writeOffset b)"
    "mem_store (data b) (writeOffset b) bs = Inr (data (append_cells bs b))"
    "snd (MoveWriteForward (of_nat (length bs)) (b\<lparr>data := data (append_cells bs b)\<rparr>)) = append_cells bs b"
proof -
  have pos: "0 < room b" using assms by (cases "room b") auto
  obtain cs where cs: "data b = Some cs"
    using valid_if_room [OF assms(1) pos] by (auto simp: IsValid_def)
  have fit: "unat (writeOffset b) + length bs \<le> length cs"
    using assms(2) pos wf_data [OF assms(1) cs] by (simp add: room_def)
  show "GetWritePtr b = Some (writeOffset b)"
    using pos by (simp add: GetWritePtr_def word_less_nat_alt unat_left_for_write)
  show "mem_store (data b) (writeOffset b) bs = Inr (data (append_cells bs b))"
    using fit by (simp add: cs mem_store_Some append_cells_def written_def cells_def)
  have "writeOffset (append_cells bs b) \<le> bufferSize b"
    using wf_append [OF assms(1,2)] by (simp add: wf_buffer_def)
  then show "snd (MoveWriteForward (of_nat (length bs)) (b\<lparr>data := data (append_cells bs b)\<rparr>)) = append_cells bs b"
    by (simp add: MoveWriteForward_def Let_def append_cells_def min_absorb1)
qed

lemma recv_into_eq:
  assumes "recv_ok ws" "wf_buffer b" "unat n \<le> room b"
  shows "recv_into ws s n b w =
     (case ws_recv ws s n w of
        (None, w') \<Rightarrow> Inr (None, w')
      | (Some bs, w') \<Rightarrow> Inr (Some (append_cells (map Some bs) b), w'))"
proof (cases "ws_recv ws s n w")
  case (Pair r w')
  show ?thesis
  proof (cases r)
    case (Some bs)
    then have len: "length (map Some bs) \<le> room b"
      using assms Pair unfolding recv_ok_def by fastforce
    show ?thesis
    proof (cases "bs = []")
      case True
      have "writeOffset b \<le> bufferSize b" using assms(2) by (simp add: wf_buffer_def)
      with True show ?thesis
        using Pair Some assms(2)
        by (cases "GetWritePtr b") (simp_all add: recv_into_def MoveWriteForward_def Let_def min_absorb1 mem_store_def)
    next
      case False
      with append_is_store [OF assms(2) len] Pair Some show ?thesis
        by (simp add: recv_into_def)
    qed
  qed (use Pair in \<open>simp add: recv_into_def\<close>)
qed

definition filling :: "u8 list \<Rightarrow> DataBuffer \<Rightarrow> bool" where
  "filling bs b \<longleftrightarrow> wf_buffer b \<and> written b = map Some bs"

lemma filling_length: "filling bs b \<Longrightarrow> unat (GetBytesWritten b) = length bs"
  using length_written [of b] by (simp add: filling_def GetBytesWritten_def)

lemma filling_append:
  "filling bs b \<Longrightarrow> length cs \<le> room b \<Longrightarrow> filling (bs @ cs) (append_cells (map Some cs) b)"
  by (simp add: filling_def wf_append written_append)

lemma fill_request:
  assumes "filling bs b" "target \<le> bufferSize b" "GetBytesWritten b < target"
  shows "unat (target - GetBytesWritten b) = unat target - length bs" "unat (target - GetBytesWritten b) \<le> room b"
proof -
  have le: "GetBytesWritten b \<le> target" using assms(3) by simp
  show *: "unat (target - GetBytesWritten b) = unat target - length bs"
    using filling_length [OF assms(1)] by (simp add: unat_sub [OF le])
  have "unat (writeOffset b) = length bs"
    using filling_length [OF assms(1)] by (simp add: GetBytesWritten_def)
  then show "unat (target - GetBytesWritten b) \<le> room b"
    using assms(2) unfolding * by (simp add: room_def word_le_nat_alt)
qed

lemma fill_step:
  assumes "recv_ok ws" "filling bs b" "target \<le> bufferSize b"
  shows "fill ws s target b w =
     (if GetBytesWritten b < target
      then
        (case ws_recv ws s (target - GetBytesWritten b) w of
           (None, w') \<Rightarrow> Some (Inr (False, b, w'))
         | (Some cs, w') \<Rightarrow> fill ws s target (append_cells (map Some cs) b) w')
      else Some (Inr (True, b, w)))"
proof (cases "GetBytesWritten b < target")
  case True
  have "wf_buffer b" using assms(2) by (simp add: filling_def)
  from recv_into_eq [OF assms(1) this fill_request(2) [OF assms(2,3) True]] True show ?thesis
    by (simp add: fill.simps [of ws s target b w] split: prod.split option.split)
qed (simp add: fill.simps [of ws s target b w])

text \<open>What was received stays inside the space asked for.\<close>

lemma received_fits:
  assumes "recv_ok ws" "filling bs b" "target \<le> bufferSize b" "GetBytesWritten b < target"
    "ws_recv ws s (target - GetBytesWritten b) w = (Some cs, w')"
  shows "length cs \<le> unat target - length bs" "length cs \<le> room b" "filling (bs @ cs) (append_cells (map Some cs) b)"
proof -
  show "length cs \<le> unat target - length bs" "length cs \<le> room b"
    using assms(1,5) fill_request [OF assms(2,3,4)] unfolding recv_ok_def by fastforce+
  then show "filling (bs @ cs) (append_cells (map Some cs) b)"
    by (intro filling_append assms(2))
qed

definition filled_to :: "size_t \<Rightarrow> u8 list \<Rightarrow> DataBuffer \<Rightarrow> bool \<times> DataBuffer \<times> 'w \<Rightarrow> bool" where
  "filled_to target bs b = (\<lambda>(full, b', w').
     \<exists>cs. filling (bs @ cs) b' \<and> bufferSize b' = bufferSize b \<and> readOffset b' = readOffset b \<and>
       length (bs @ cs) \<le> max (length bs) (unat target) \<and> (full \<longrightarrow> unat target \<le> length (bs @ cs)))"

lemma filled_to_more:
  assumes "filled_to target (bs @ cs) (append_cells (map Some cs) b) r" "length cs \<le> unat target - length bs"
    "length bs < unat target"
  shows "filled_to target bs b r"
proof -
  obtain full b' w' where r: "r = (full, b', w')" by (cases r)
  from assms obtain ds where ds: "filling ((bs @ cs) @ ds) b'" "bufferSize b' = bufferSize b" "readOffset b' = readOffset b"
      "length ((bs @ cs) @ ds) \<le> max (length (bs @ cs)) (unat target)" "full \<longrightarrow> unat target \<le> length ((bs @ cs) @ ds)"
    by (auto simp: filled_to_def r)
  then have "length (bs @ (cs @ ds)) \<le> max (length bs) (unat target)"
    using assms(2,3) by simp
  with ds show ?thesis
    by (auto simp: filled_to_def r intro!: exI [of _ "cs @ ds"])
qed

lemma fill_outcome:
  assumes "fill ws s target b w = Some r" "recv_ok ws" "filling bs b" "target \<le> bufferSize b"
  shows "yields (\<lambda>_. False) (filled_to target bs b) r"
  using assms
proof (induction ws s target b w r arbitrary: bs rule: fill.raw_induct [rotated, consumes 1, case_names step])
  case (step fill' ws s target b w r)
  show ?case
  proof (cases "GetBytesWritten b < target")
    case True
    have wf: "wf_buffer b" using step.prems(2) by (simp add: filling_def)
    obtain x w' where x: "ws_recv ws s (target - GetBytesWritten b) w = (x, w')" by fastforce
    note eq = recv_into_eq [OF step.prems(1) wf fill_request(2) [OF step.prems(2,3) True], of s w, unfolded x]
    have lt: "length bs < unat target"
      using True filling_length [OF step.prems(2)] by (simp add: word_less_nat_alt)
    show ?thesis
    proof (cases x)
      case None
      then have "r = Inr (False, b, w')" using step.hyps eq True by simp
      then show ?thesis using step.prems(2) by (auto simp: filled_to_def intro!: exI [of _ "[]"])
    next
      case (Some cs)
      note got = received_fits [OF step.prems True x [unfolded Some]]
      have "fill' ws s target (append_cells (map Some cs) b) w' = Some r"
        using step.hyps eq True Some by simp
      from step.IH [OF this step.prems(1) got(3)] step.prems(3)
      have "yields (\<lambda>_. False) (filled_to target (bs @ cs) (append_cells (map Some cs) b)) r" by simp
      then show ?thesis
        by (rule yields_mono) (auto intro: filled_to_more got(1) lt)
    qed
  next
    case False
    then have "r = Inr (True, b, w)" using step.hyps by simp
    moreover have "unat target \<le> length bs"
      using False filling_length [OF step.prems(2)] by (simp add: not_less word_le_nat_alt)
    ultimately show ?thesis using step.prems(2) by (auto simp: filled_to_def intro!: exI [of _ "[]"])
  qed
qed

text \<open>The loop ends if every receive gets something or fails: each round has fewer bytes to ask for.\<close>

lemma fill_returns:
  assumes "recv_ok ws" "recv_progress ws s" "filling bs b" "target \<le> bufferSize b"
  shows "\<exists>r. fill ws s target b w = Some r"
  using assms(3,4)
proof (induction "unat target - length bs" arbitrary: bs b w rule: less_induct)
  case less
  show ?case
  proof (cases "GetBytesWritten b < target")
    case True
    obtain x w' where x: "ws_recv ws s (target - GetBytesWritten b) w = (x, w')" by fastforce
    have lt: "length bs < unat target"
      using True filling_length [OF less.prems(1)] by (simp add: word_less_nat_alt)
    show ?thesis
    proof (cases x)
      case None
      then show ?thesis by (simp add: fill_step [OF assms(1) less.prems] x)
    next
      case (Some cs)
      have "0 < target - GetBytesWritten b"
        using fill_request(1) [OF less.prems True] lt by (simp add: word_less_nat_alt)
      then have "cs \<noteq> []"
        using assms(2) x Some unfolding recv_progress_def by blast
      then have "unat target - length (bs @ cs) < unat target - length bs"
        using lt by (cases cs) auto
      from less.hyps [OF this received_fits(3) [OF assms(1) less.prems True x [unfolded Some]]] less.prems(2)
      show ?thesis
        by (simp add: fill_step [OF assms(1) less.prems] x Some True)
    qed
  qed (simp add: fill_step [OF assms(1) less.prems])
qed

text \<open>A peer that has closed: \<open>recv\<close> returns 0 from now on. Then the loop never ends.\<close>

lemma fill_stuck:
  assumes "fill ws s target b w = Some r" "recv_ok ws" "filling bs b" "target \<le> bufferSize b"
    "GetBytesWritten b < target" "closed w" "\<And>n w. closed w \<Longrightarrow> \<exists>w'. ws_recv ws s n w = (Some [], w') \<and> closed w'"
  shows False
  using assms
proof (induction ws s target b w r rule: fill.raw_induct [rotated, consumes 1, case_names step])
  case (step fill' ws s target b w r)
  have wf: "wf_buffer b" using step.prems(2) by (simp add: filling_def)
  obtain w' where x: "ws_recv ws s (target - GetBytesWritten b) w = (Some [], w')" "closed w'"
    using step.prems(5,6) by blast
  have "fill' ws s target b w' = Some r"
    using step.hyps step.prems(4) wf x
      recv_into_eq [OF step.prems(1) wf fill_request(2) [OF step.prems(2,3,4)], of s w]
    by simp
  then show False
    by (rule step.IH [OF _ step.prems(1,2,3,4) x(2) step.prems(6)])
qed

text \<open>
  A connection as a stream: \<open>stream w\<close> are the bytes the peer has sent and the program has not
  received. A receive gets some of them, from the front, and at least one if there are any.
\<close>

definition stream_ok :: "'w winsock \<Rightarrow> SOCKET option \<Rightarrow> ('w \<Rightarrow> u8 list) \<Rightarrow> bool" where
  "stream_ok ws s stream \<longleftrightarrow>
     (\<forall>n w. 0 < n \<longrightarrow> stream w \<noteq> [] \<longrightarrow>
        (\<exists>k w'. 0 < k \<and> k \<le> unat n \<and> k \<le> length (stream w) \<and>
           ws_recv ws s n w = (Some (take k (stream w)), w') \<and> stream w' = drop k (stream w)))"

lemma fill_stream:
  assumes "recv_ok ws" "stream_ok ws s stream" "filling bs b" "target \<le> bufferSize b"
    "length bs \<le> unat target" "unat target - length bs \<le> length (stream w)"
  shows "\<exists>b' w'. fill ws s target b w = Some (Inr (True, b', w')) \<and>
     filling (bs @ take (unat target - length bs) (stream w)) b' \<and> bufferSize b' = bufferSize b \<and>
     readOffset b' = readOffset b \<and> stream w' = drop (unat target - length bs) (stream w)"
  using assms(3-6)
proof (induction "unat target - length bs" arbitrary: bs b w rule: less_induct)
  case less
  show ?case
  proof (cases "GetBytesWritten b < target")
    case True
    have lt: "length bs < unat target"
      using True filling_length [OF less.prems(1)] by (simp add: word_less_nat_alt)
    note req = fill_request(1) [OF less.prems(1,2) True]
    have "0 < target - GetBytesWritten b" "stream w \<noteq> []"
      using req lt less.prems(4) by (auto simp: word_less_nat_alt)
    then obtain k w' where k: "0 < k" "k \<le> unat target - length bs" "k \<le> length (stream w)"
        "ws_recv ws s (target - GetBytesWritten b) w = (Some (take k (stream w)), w')" "stream w' = drop k (stream w)"
      using assms(2) unfolding stream_ok_def req [symmetric] by blast
    let ?bs = "bs @ take k (stream w)" and ?b = "append_cells (map Some (take k (stream w))) b"
    note got = received_fits [OF assms(1) less.prems(1,2) True k(4)]
    have "\<exists>b' w''. fill ws s target ?b w' = Some (Inr (True, b', w'')) \<and>
        filling (?bs @ take (unat target - length ?bs) (stream w')) b' \<and> bufferSize b' = bufferSize ?b \<and>
        readOffset b' = readOffset ?b \<and> stream w'' = drop (unat target - length ?bs) (stream w')"
      by (rule less.hyps) (use k lt got(3) less.prems in auto)
    moreover have "?bs @ take (unat target - length ?bs) (stream w') = bs @ take (unat target - length bs) (stream w)"
      using k by (simp add: take_add [of k "unat target - length bs - k", simplified] flip: take_add)
    moreover have "drop (unat target - length ?bs) (stream w') = drop (unat target - length bs) (stream w)"
      using k by simp
    ultimately show ?thesis
      by (simp add: fill_step [OF assms(1) less.prems(1,2)] True k(4))
  next
    case False
    then have "length bs = unat target"
      using filling_length [OF less.prems(1)] less.prems(3) by (simp add: not_less word_le_nat_alt)
    then show ?thesis using False less.prems by (simp add: fill_step [OF assms(1) less.prems(1,2)])
  qed
qed

section \<open>Reading a message\<close>

definition wf_socket :: "MemcacheSocket \<Rightarrow> bool" where
  "wf_socket s \<longleftrightarrow> wf_buffer (readBuffer s) \<and> 24 \<le> unat (bufferSize (readBuffer s)) \<and>
     (\<forall>m. currentMsg s = Some m \<longrightarrow> wf_message m)"

text \<open>The class a message must have for the casts of the handlers: they go by the header.\<close>

definition class_matches :: "MessageHeader \<Rightarrow> derived \<Rightarrow> bool" where
  "class_matches h d \<longleftrightarrow>
     (Magic h = kMagicReq \<and> Opcode h = kOpGet \<longrightarrow> same_class GetRequest d) \<and>
     (Magic h = kMagicReq \<and> Opcode h = kOpSet \<longrightarrow> same_class (SetRequest DataBuffer_new (Some 0) None) d) \<and>
     (Magic h = kMagicRes \<and> Opcode h = kOpGet \<longrightarrow> same_class (GetResponse DataBuffer_new (Some 0)) d) \<and>
     (Magic h = kMagicRes \<and> Opcode h = kOpSet \<longrightarrow> same_class SetResponse d)"

definition dispatched :: "BaseMessage \<Rightarrow> bool" where
  "dispatched m \<longleftrightarrow> class_matches (m_header m) (m_derived m)"

lemma class_matches_same: "class_matches h d \<Longrightarrow> same_class d d' \<Longrightarrow> class_matches h d'"
  unfolding class_matches_def using same_class_trans by blast

lemma class_matches_seen [simp]: "class_matches (header_seen h) d = class_matches h d"
  by (simp add: class_matches_def)

lemma select_message_some:
  assumes "select_message h b cur = Some m" "wf_buffer b" "\<And>c. cur = Some c \<Longrightarrow> wf_message c"
  shows "m_buffer m = Some b \<and> wf_message m \<and> class_matches h (m_derived m)"
proof -
  have ne: "kMagicReq \<noteq> kMagicRes" "kOpGet \<noteq> kOpSet" by (simp_all add: protocol_constants)
  consider "m = GetRequest_buf (Some b)" "Magic h = kMagicReq" "Opcode h = kOpGet"
    | "m = SetRequest_buf (Some b)" "Magic h = kMagicReq" "Opcode h = kOpSet"
    | "m = GetResponse_buf (Some b)" "Magic h = kMagicRes" "Opcode h = kOpGet"
    | "m = SetResponse_buf (Some b)" "Magic h = kMagicRes" "Opcode h = kOpSet"
    | c where "cur = Some c" "m = c\<lparr>m_buffer := Some b\<rparr>"
      "\<not> (Magic h = kMagicReq \<and> Opcode h \<in> {kOpGet, kOpSet})" "\<not> (Magic h = kMagicRes \<and> Opcode h \<in> {kOpGet, kOpSet})"
    using assms(1) ne by (auto simp: select_message_def Let_def split: if_splits)
  then show ?thesis
    using assms(2) ne
    by cases (auto simp: GetRequest_buf_def SetRequest_buf_def GetResponse_buf_def SetResponse_buf_def
        wf_message_def class_matches_def dest: assms(3))
qed

lemma read_header:
  assumes "filling bs b" "24 \<le> length bs" "readOffset b = 0"
  obtains h body where "bs = header_bytes h @ body"
    "ParseFromBuffer b h0 = Inr ((24, header_seen h), advance 24 b)" "filling bs (advance 24 b)"
proof -
  obtain h where h: "header_bytes h = take 24 bs"
    using header_bytes_surj [of "take 24 bs"] assms(2) by auto
  have bs: "bs = header_bytes h @ drop 24 bs"
    unfolding h by simp
  have wf: "wf_buffer b" using assms(1) by (simp add: filling_def)
  have un: "unread b = map Some (header_bytes h) @ map Some (drop 24 bs)"
    using assms(1,3) bs by (simp add: filling_def unread_def flip: map_append)
  show thesis
    using that [OF bs ParseFromBuffer_eq [OF wf un]] assms(1) un wf_advance [OF wf, of 24] by (simp add: filling_def)
qed

lemma filling_start: "wf_buffer b \<Longrightarrow> filling [] (Reset b)"
  using wf_reset(1) [of b] by (simp add: filling_def written_def Reset_def)

lemma Reset_simps [simp]: "bufferSize (Reset b) = bufferSize b" "readOffset (Reset b) = 0"
  by (simp_all add: Reset_def)

text \<open>Room for the rest of the message; \<open>Realloc\<close> keeps what was received.\<close>

lemma make_room_yields:
  assumes "filling bs b" "length bs \<le> unat (bufferSize b)"
  shows "yields (\<lambda>e. e = BadAlloc) (\<lambda>b'. filling bs b' \<and> n \<le> bufferSize b' \<and> bufferSize b \<le> bufferSize b')
     (make_room ok n b)"
proof (cases "bufferSize b < n")
  case True
  have wf: "wf_buffer b" "written b = map Some bs" using assms(1) by (simp_all add: filling_def)
  have "length bs \<le> unat n" using True assms(2) by (simp add: word_less_nat_alt)
  with True wf show ?thesis
    by (auto simp: make_room_def Realloc_eq filling_def wf_resized written_resized new_array_def bindE_def split: if_splits)
qed (use assms in \<open>auto simp: make_room_def\<close>)

lemma load_written: "wf_buffer b \<Longrightarrow> mem_load (data b) 0 (GetBytesWritten b) = Inr (written b)"
proof (cases "data b")
  case None
  moreover assume "wf_buffer b"
  ultimately have "GetBytesWritten b = 0" "written b = []"
    using wf_null [of b] wf_le(1) [of b] by (simp_all add: GetBytesWritten_def written_def cells_def)
  then show ?thesis by (simp add: mem_load_def None)
next
  case (Some cs)
  moreover assume "wf_buffer b"
  ultimately show ?thesis
    using wf_data [OF _ Some] wf_offsets [of b] by (simp add: mem_load_Some GetBytesWritten_def written_def cells_def)
qed

lemma send_buffer_ok:
  "wf_buffer b \<Longrightarrow> send_buffer ws s b w = Inr (ws_send ws (socketHandle s) (written b) w)"
  by (simp add: send_buffer_def load_written)

lemma answer_yields:
  assumes "\<And>m. reply = Some m \<Longrightarrow> wf_message m"
  shows "yields (\<lambda>e. e = BadAlloc) (\<lambda>_. True) (answer ok ws s reply w)"
proof (cases reply)
  case (Some m)
  note built = Build_yields [where E = "\<lambda>e. e = BadAlloc" and ok = ok, OF assms [OF Some] refl]
  show ?thesis
    unfolding answer_def Some option.case
    by (rule yields_bindE [OF built])
      (auto simp: wf_message_def send_buffer_ok split: option.split prod.split)
qed (simp add: answer_def)

text \<open>
  The contract between a socket and its owner: a handler gets well-formed messages whose class fits
  their header, and owes an answer that is well formed, keeping its own invariant; it may fail only
  for want of memory.
\<close>

lemma socket_connected_yields:
  "yields (\<lambda>e. e = BadAlloc) (\<lambda>(s, _). wf_socket s \<and> hasHandler s) (MemcacheSocket_connected ok c n)"
  by (auto simp: MemcacheSocket_connected_def socket_object_def GetNextSessionID_def DataBuffer_len_def Alloc_eq
      new_array_def wf_socket_def wf_fresh kMBPHeaderSize_def)

locale socket_handler =
  fixes H :: "('h, 'w) ISocketHandler" and hinv :: "'h \<Rightarrow> bool"
  assumes on_message: "hinv h \<Longrightarrow> wf_message m \<Longrightarrow> dispatched m \<Longrightarrow>
      returns (\<lambda>e. e = BadAlloc) (\<lambda>(reply, h'). hinv h' \<and> (\<forall>r. reply = Some r \<longrightarrow> wf_message r)) (OnReceivedMessage H m h)"
    and on_accept: "hinv h \<Longrightarrow> wf_socket s \<Longrightarrow> returns (\<lambda>e. e = BadAlloc) (\<lambda>(h', _). hinv h') (OnAcceptConn H s h w)"
    and on_closed: "hinv h \<Longrightarrow> returns (\<lambda>e. e = BadAlloc) hinv (OnSocketClosed H n h)"
begin

abbreviation socket_result :: "MemcacheSocket \<times> 'h \<times> 'w \<Rightarrow> bool" where
  "socket_result \<equiv> \<lambda>(s', h', w'). wf_socket s' \<and> hasHandler s' \<and> hinv h'"

lemma deliver_returns:
  assumes "wf_socket s" "hasHandler s" "hinv h" "currentMsg s = select_message (header_seen hdr) (readBuffer s) cur"
    "\<And>c. cur = Some c \<Longrightarrow> wf_message c" "written (readBuffer s) = map Some (header_bytes hdr @ body)"
  shows "returns (\<lambda>e. e = BadAlloc) socket_result (deliver ok ws H s h w)"
proof (cases "currentMsg s")
  case None
  then show ?thesis using assms by (simp add: deliver_def)
next
  case (Some m)
  have wf: "wf_buffer (readBuffer s)"
    using assms(1) by (simp_all add: wf_socket_def)
  have m: "m_buffer m = Some (readBuffer s)" "wf_message m" "class_matches hdr (m_derived m)"
    using select_message_some [OF assms(4) [unfolded Some, symmetric] wf assms(5)] by simp_all
  show ?thesis
    unfolding deliver_def Some option.case
  proof (rule yields_andThen [OF Parse_parsing [OF m(1,2) assms(6), of ok]], clarify)
    fix r m' b'
    assume p: "parsing (header_bytes hdr @ body) (header_seen hdr) (m_derived m) b' m'"
    let ?s = "s\<lparr>currentMsg := Some m', readBuffer := b'\<rparr>"
    have b': "m_buffer m' = Some b'" "wf_message m'"
      using p by (simp_all add: parsing_def wf_message_def)
    have "length (written b') \<le> unat (bufferSize b')"
      using p length_written [of b'] wf_offsets [of b'] by (simp add: parsing_def)
    then have s: "wf_socket ?s"
      using p b' by (simp add: parsing_def wf_socket_def)
    have "dispatched m'"
      using p class_matches_same [OF m(3)] by (simp add: parsing_def dispatched_def)
    note handled = on_message [OF assms(3) b'(2) this]
    have "returns (\<lambda>e. e = BadAlloc) socket_result
        (andThen (OnReceivedMessage H m' h) (\<lambda>(reply, h).
         andThen (Some (answer ok ws ?s reply w)) (\<lambda>w. Some (Inr (?s, h, w)))))"
      by (rule returns_andThen [OF handled], clarify, rule yields_andThen [OF answer_yields])
        (use s assms(2) in auto)
    then show "returns (\<lambda>e. e = BadAlloc) socket_result
       (let s = s\<lparr>currentMsg := Some m', readBuffer := (case m_buffer m' of None \<Rightarrow> readBuffer s | Some b \<Rightarrow> b)\<rparr> in
          if r
          then if hasHandler s
            then andThen (OnReceivedMessage H m' h) (\<lambda>(reply, h).
              andThen (Some (answer ok ws s reply w)) (\<lambda>w. Some (Inr (s, h, w))))
            else Some (Inl BadAccess)
          else Some (Inr (s, h, w)))"
      using s assms(2,3) b'(1) by (simp add: Let_def)
  qed
qed

lemma ReadMessage_yields:
  assumes "recv_ok ws" "wf_socket s" "hasHandler s" "hinv h" "ReadMessage ok ws H s h w = Some r"
  shows "yields (\<lambda>e. e = BadAlloc) socket_result r"
proof -
  have wf: "wf_buffer (readBuffer s)" "24 \<le> unat (bufferSize (readBuffer s))"
      "\<And>c. currentMsg s = Some c \<Longrightarrow> wf_message c"
    using assms(2) by (simp_all add: wf_socket_def)
  have k: "kMBPHeaderSize \<le> bufferSize (Reset (readBuffer s))" "unat kMBPHeaderSize = 24"
    using wf(2) by (simp_all add: kMBPHeaderSize_def word_le_nat_alt)
  obtain r1 where r1: "fill ws (socketHandle s) kMBPHeaderSize (Reset (readBuffer s)) w = Some r1"
    using assms(5) by (cases "fill ws (socketHandle s) kMBPHeaderSize (Reset (readBuffer s)) w")
      (simp_all add: ReadMessage_def)
  from fill_outcome [OF r1 assms(1) filling_start [OF wf(1)] k(1)]
  obtain full b1 w1 bs where b1: "r1 = Inr (full, b1, w1)" "filling bs b1" "bufferSize b1 = bufferSize (readBuffer s)"
      "readOffset b1 = 0" "length bs \<le> 24" "full \<longrightarrow> 24 \<le> length bs"
    by (cases r1) (auto simp: filled_to_def k(2))
  show ?thesis
  proof (cases full)
    case False
    have "r = Inr (s\<lparr>readBuffer := b1\<rparr>, h, w1)"
      using assms(5) r1 b1(1) False by (simp add: ReadMessage_def)
    then show ?thesis using assms(2,3,4) b1 by (simp add: wf_socket_def filling_def)
  next
    case True
    then have len: "24 \<le> length bs" using b1(6) by simp
    obtain hdr body where hdr: "bs = header_bytes hdr @ body"
        "ParseFromBuffer b1 MessageHeader_new = Inr ((24, header_seen hdr), advance 24 b1)" "filling bs (advance 24 b1)"
      by (rule read_header [OF b1(2) len b1(4)])
    define n where "n = TotalBodyLen hdr + kMBPHeaderSize"
    define room_made where "room_made = make_room ok n (advance 24 b1)"
    have "length bs \<le> unat (bufferSize (advance 24 b1))" using b1 wf(2) by simp
    note made = make_room_yields [OF hdr(3) this, of n ok, folded room_made_def]
    have r: "andThen (Some room_made) (\<lambda>b. andThen (fill ws (socketHandle s) n b w1) (\<lambda>(_, b, w).
        deliver ok ws H (s\<lparr>readBuffer := b, currentMsg := select_message (header_seen hdr) b (currentMsg s)\<rparr>) h w)) = Some r"
      using assms(5) r1 b1(1) True hdr(2) by (simp add: ReadMessage_def Let_def n_def room_made_def)
    show ?thesis
    proof (cases room_made)
      case (Inl e)
      then show ?thesis using made r by auto
    next
      case (Inr b2)
      with made have b2: "filling bs b2" "n \<le> bufferSize b2" "bufferSize (readBuffer s) \<le> bufferSize b2"
        using b1(3) by simp_all
      obtain r2 where r2: "fill ws (socketHandle s) n b2 w1 = Some r2"
        using r Inr by (cases "fill ws (socketHandle s) n b2 w1") simp_all
      from fill_outcome [OF r2 assms(1) b2(1,2)]
      obtain full' b3 w3 cs where b3: "r2 = Inr (full', b3, w3)" "filling (bs @ cs) b3" "bufferSize b3 = bufferSize b2"
        by (cases r2) (auto simp: filled_to_def)
      let ?s = "s\<lparr>readBuffer := b3, currentMsg := select_message (header_seen hdr) b3 (currentMsg s)\<rparr>"
      have "deliver ok ws H ?s h w3 = Some r"
        using r Inr r2 b3(1) by simp
      moreover have "wf_socket ?s"
        using b2(3) b3 wf(2) select_message_some [of "header_seen hdr" b3 "currentMsg s", OF _ _ wf(3)]
        by (auto simp: wf_socket_def filling_def word_le_nat_alt)
      ultimately show ?thesis
        using deliver_returns [of ?s h hdr "currentMsg s" "body @ cs" ok ws w3] assms(3,4) wf(3) b3(2) hdr(1)
        by (simp add: filling_def)
    qed
  qed
qed

abbreviation run_result :: "bool \<times> MemcacheSocket \<times> 'h \<times> u32 \<times> 'w \<Rightarrow> bool" where
  "run_result \<equiv> \<lambda>(_, s', h', _, _). wf_socket s' \<and> hasHandler s' \<and> hinv h'"

lemma Run_body_yields:
  assumes "Run_body ok ws H sock s h n w = Some r" "recv_ok ws" "wf_socket s" "hasHandler s" "hinv h"
  shows "yields (\<lambda>e. e = BadAlloc) run_result r"
proof -
  obtain res w1 where sel: "ws_select ws sock w = (res, w1)" by fastforce
  obtain c w2 where acc: "ws_accept ws sock w1 = (c, w2)" by fastforce
  obtain pk w3 where pk: "ws_peek ws sock kMBPHeaderSize w1 = (pk, w3)" by fastforce
  have accept: "returns (\<lambda>e. e = BadAlloc) run_result
      (andThen (Some (MemcacheSocket_connected ok c n)) (\<lambda>(new, n).
         andThen (OnAcceptConn H new h w) (\<lambda>(h, w). Some (Inr (True, s, h, n, w)))))" for c w
    by (rule yields_andThen [OF socket_connected_yields], clarify, rule returns_andThen [OF on_accept [OF assms(5)]])
      (use assms(3,4) in auto)
  have closed: "returns (\<lambda>e. e = BadAlloc) run_result
      (andThen (OnSocketClosed H (sessionID s) h) (\<lambda>h. Some (Inr (False, s, h, n, w))))" for w
    by (rule returns_andThen [OF on_closed [OF assms(5)]]) (use assms(3,4) in auto)
  have read: "yields (\<lambda>e. e = BadAlloc) run_result x"
    if "andThen (ReadMessage ok ws H s h w) (\<lambda>(s, h, w). Some (Inr (True, s, h, n, w))) = Some x" for w x
  proof (cases "ReadMessage ok ws H s h w")
    case (Some y)
    from ReadMessage_yields [OF assms(2-5) Some] that Some show ?thesis
      by (cases y) auto
  qed (use that in simp)
  show ?thesis
  proof (cases "res > 0 \<and> \<not> asked_to_stop ws w1")
    case True
    show ?thesis
    proof (cases "isListening s")
      case True': True
      show ?thesis
      proof (cases c)
        case None
        then show ?thesis using assms True True' sel acc by (auto simp: Run_body_def)
      next
        case (Some c')
        then show ?thesis
          using accept [of c' w2] assms(1,4) True True' sel acc by (simp add: Run_body_def)
      qed
    next
      case False
      show ?thesis
      proof (cases "pk \<ge> 24")
        case True': True
        then show ?thesis using read [of w3 r] assms(1) True False sel pk by (simp add: Run_body_def)
      next
        case False': False
        then show ?thesis using closed [of w3] assms(1,4) True False sel pk by (simp add: Run_body_def)
      qed
    qed
  qed (use assms sel in \<open>auto simp: Run_body_def split: if_splits\<close>)
qed

lemma Run_loop_yields:
  assumes "Run_loop ok ws G s h n w = Some r" "G = H" "recv_ok ws" "wf_socket s" "hasHandler s" "hinv h"
  shows "yields (\<lambda>e. e = BadAlloc) (\<lambda>(s', h', _). wf_socket s' \<and> hinv h') r"
  using assms
proof (induction ok ws G s h n w r rule: Run_loop.raw_induct [rotated, consumes 1, case_names step])
  case (step run ok ws G s h n w r)
  show ?case
  proof (cases "socketHandle s = None \<or> asked_to_stop ws w")
    case True
    then show ?thesis using step.hyps step.prems by (cases "socketHandle s") auto
  next
    case False
    then obtain sock where sock: "socketHandle s = Some sock" by auto
    show ?thesis
    proof (cases "Run_body ok ws G sock s h n w")
      case None
      then show ?thesis using step.hyps False sock by simp
    next
      case (Some y)
      note body = Run_body_yields [OF Some [unfolded step.prems(1)] step.prems(2-5)]
      show ?thesis
      proof (cases y)
        case (Inl f)
        then show ?thesis using step.hyps False sock Some body by auto
      next
        case (Inr z)
        obtain go s1 h1 n1 w1 where z: "z = (go, s1, h1, n1, w1)" by (cases z) auto
        have wf: "wf_socket s1" "hasHandler s1" "hinv h1" using body Inr z by simp_all
        show ?thesis
        proof (cases go)
          case True
          then have "run ok ws G s1 h1 n1 w1 = Some r"
            using step.hyps False sock Some Inr z by simp
          from step.IH [OF this step.prems(1,2) wf] show ?thesis .
        next
          case stop: False
          then have "r = Inr (s1, h1, n1, w1)"
            using step.hyps False sock Some Inr z by simp
          then show ?thesis using wf by simp
        qed
      qed
    qed
  qed
qed

lemma Run_yields:
  assumes "Run ok ws H s h n w = Some r" "recv_ok ws" "wf_socket s" "hasHandler s" "hinv h"
  shows "yields (\<lambda>e. e = BadAlloc) (\<lambda>(s', h', _). wf_socket s' \<and> hinv h') r"
  by (rule Run_loop_yields [OF assms(1) [unfolded Run_def] refl assms(2-5)])

end

subsection \<open>Return\<close>

lemma kMBP_target: "wf_socket s \<Longrightarrow> kMBPHeaderSize \<le> bufferSize (Reset (readBuffer s))" "unat kMBPHeaderSize = 24"
  by (simp_all add: wf_socket_def kMBPHeaderSize_def word_le_nat_alt)

lemma deliver_some: "(\<And>m h. OnReceivedMessage H m h \<noteq> None) \<Longrightarrow> \<exists>r. deliver ok ws H s h w = Some r"
  by (auto simp: deliver_def andThen_def Let_def split: option.split sum.split prod.split)
    (metis option.distinct(1))+

lemma ReadMessage_returns:
  assumes "recv_ok ws" "recv_progress ws (socketHandle s)" "wf_socket s" "\<And>m h. OnReceivedMessage H m h \<noteq> None"
  shows "\<exists>r. ReadMessage ok ws H s h w = Some r"
proof -
  have wf: "wf_buffer (readBuffer s)" "24 \<le> unat (bufferSize (readBuffer s))"
    using assms(3) by (simp_all add: wf_socket_def)
  obtain r1 where r1: "fill ws (socketHandle s) kMBPHeaderSize (Reset (readBuffer s)) w = Some r1"
    using fill_returns [OF assms(1,2) filling_start [OF wf(1)] kMBP_target(1) [OF assms(3)]] by blast
  from fill_outcome [OF r1 assms(1) filling_start [OF wf(1)] kMBP_target(1) [OF assms(3)]]
  obtain full b1 w1 bs where b1: "r1 = Inr (full, b1, w1)" "filling bs b1" "bufferSize b1 = bufferSize (readBuffer s)"
      "readOffset b1 = 0" "length bs \<le> 24" "full \<longrightarrow> 24 \<le> length bs"
    by (cases r1) (auto simp: filled_to_def kMBP_target(2))
  show ?thesis
  proof (cases full)
    case True
    then have len: "24 \<le> length bs" using b1(6) by simp
    obtain hdr body where hdr: "bs = header_bytes hdr @ body"
        "ParseFromBuffer b1 MessageHeader_new = Inr ((24, header_seen hdr), advance 24 b1)" "filling bs (advance 24 b1)"
      by (rule read_header [OF b1(2) len b1(4)])
    have "length bs \<le> unat (bufferSize (advance 24 b1))" using b1 wf(2) by simp
    note made = make_room_yields [OF hdr(3) this, of "TotalBodyLen hdr + kMBPHeaderSize" ok]
    show ?thesis
    proof (cases "make_room ok (TotalBodyLen hdr + kMBPHeaderSize) (advance 24 b1)")
      case (Inl e)
      then show ?thesis using r1 b1(1) True hdr(2) by (simp add: ReadMessage_def Let_def)
    next
      case (Inr b2)
      with made have b2: "filling bs b2" "TotalBodyLen hdr + kMBPHeaderSize \<le> bufferSize b2" by simp_all
      obtain r2 where r2: "fill ws (socketHandle s) (TotalBodyLen hdr + kMBPHeaderSize) b2 w1 = Some r2"
        using fill_returns [OF assms(1,2) b2] by blast
      from fill_outcome [OF r2 assms(1) b2] obtain f b3 w3 where "r2 = Inr (f, b3, w3)"
        by (cases r2) auto
      then show ?thesis using r1 r2 b1(1) True hdr(2) Inr deliver_some [OF assms(4)]
        by (simp add: ReadMessage_def Let_def)
    qed
  qed (use r1 b1(1) in \<open>simp add: ReadMessage_def\<close>)
qed

subsection \<open>A whole message\<close>

lemma ReadMessage_stream:
  assumes "recv_ok ws" "stream_ok ws (socketHandle s) stream" "wf_socket s"
    "stream w = header_bytes hdr @ body @ rest" "length body = unat (TotalBodyLen hdr)"
    "24 + length body \<le> unat heap_maxreq" "ok (TotalBodyLen hdr + kMBPHeaderSize)"
  obtains b w' where "stream w' = rest" "filling (header_bytes hdr @ body) b" "24 \<le> unat (bufferSize b)"
    "ReadMessage ok ws H s h w = deliver ok ws H
       (s\<lparr>readBuffer := b, currentMsg := select_message (header_seen hdr) b (currentMsg s)\<rparr>) h w'"
proof -
  have wf: "wf_buffer (readBuffer s)" "24 \<le> unat (bufferSize (readBuffer s))"
    using assms(3) by (simp_all add: wf_socket_def)
  have t: "unat kMBPHeaderSize = 24" by (rule kMBP_target)
  obtain b1 w1 where b1: "fill ws (socketHandle s) kMBPHeaderSize (Reset (readBuffer s)) w = Some (Inr (True, b1, w1))"
      "filling (header_bytes hdr) b1" "bufferSize b1 = bufferSize (readBuffer s)" "readOffset b1 = 0" "stream w1 = body @ rest"
    using fill_stream [OF assms(1,2) filling_start [OF wf(1)] kMBP_target(1) [OF assms(3)], of w] assms(4)
    by (auto simp: t)
  have un: "unread b1 = map Some (header_bytes hdr) @ []"
    using b1(2,4) by (simp add: filling_def unread_def)
  have wf1: "wf_buffer b1" using b1(2) by (simp add: filling_def)
  have p: "ParseFromBuffer b1 MessageHeader_new = Inr ((24, header_seen hdr), advance 24 b1)"
    by (rule ParseFromBuffer_eq [OF wf1 un])
  have f1: "filling (header_bytes hdr) (advance 24 b1)"
    using b1(2) un wf_advance [OF wf1, of 24] by (simp add: filling_def)
  define n where "n = TotalBodyLen hdr + kMBPHeaderSize"
  have n: "unat n = 24 + length body"
    using assms(5,6) by (simp add: n_def unat_word_ariths t heap_maxreq_def)
  have le: "n \<le> heap_maxreq" using n assms(6) by (simp add: word_le_nat_alt)
  obtain b2 where b2: "make_room ok n (advance 24 b1) = Inr b2"
  proof (cases "bufferSize b1 < n")
    case True
    then show ?thesis
      using that assms(7) le wf_advance [OF wf1, of 24] un
      by (simp add: make_room_def Realloc_eq new_array_def flip: n_def)
  qed (use that in \<open>simp add: make_room_def\<close>)
  then have f2: "filling (header_bytes hdr) b2" "n \<le> bufferSize b2" "bufferSize b1 \<le> bufferSize b2"
    using make_room_yields [OF f1, of n ok] b1(3) wf(2) by simp_all
  obtain b3 w3 where b3: "fill ws (socketHandle s) n b2 w1 = Some (Inr (True, b3, w3))"
      "filling (header_bytes hdr @ body) b3" "bufferSize b3 = bufferSize b2" "stream w3 = rest"
    using fill_stream [OF assms(1,2) f2(1,2), of w1] n b1(5) by auto
  show thesis
    using that [OF b3(4,2)] b1(1,3) p b2 b3(1,3) f2(3) wf(2)
    by (simp add: ReadMessage_def Let_def n_def word_le_nat_alt)
qed

section \<open>Fixtures\<close>

text \<open>
  A connection for examples: the bytes still to come, which \<open>recv\<close> gives out at most five at a time,
  failing when there are none, and what has been sent.
\<close>

type_synonym pipe = "u8 list \<times> cell list list"

definition pipe_winsock :: "pipe winsock" where
  "pipe_winsock =
     \<lparr>ws_socket = (\<lambda>w. (Some 1, w)), ws_bind = (\<lambda>_ _ w. (True, w)), ws_listen = (\<lambda>_ w. (True, w)),
      ws_connect = (\<lambda>_ _ _ w. (True, w)), ws_accept = (\<lambda>_ w. (None, w)),
      ws_select = (\<lambda>_ w. (if fst w = [] then - 1 else 1, w)),
      ws_peek = (\<lambda>_ n w. (int (min (length (fst w)) (unat n)), w)),
      ws_recv = (\<lambda>_ n (inc, sent). if inc = [] then (None, (inc, sent))
         else (Some (take (min 5 (unat n)) inc), (drop (min 5 (unat n)) inc, sent))),
      ws_send = (\<lambda>_ cs (inc, sent). (Some (of_nat (length cs)), (inc, sent @ [cs]))),
      ws_close = (\<lambda>_ w. w), ws_rcvtimeo = (\<lambda>_ _ w. w), asked_to_stop = (\<lambda>_. False)\<rparr>"

definition closed_winsock :: "pipe winsock" where
  "closed_winsock = pipe_winsock\<lparr>ws_recv := \<lambda>_ _ w. (Some [], w)\<rparr>"

lemma pipe_ok: "recv_ok pipe_winsock" "recv_progress pipe_winsock s" "stream_ok pipe_winsock s fst"
proof -
  show "recv_ok pipe_winsock" "recv_progress pipe_winsock s"
    by (auto simp: recv_ok_def recv_progress_def pipe_winsock_def word_less_nat_alt split: if_splits)
  show "stream_ok pipe_winsock s fst"
    unfolding stream_ok_def
  proof (intro allI impI)
    fix n :: size_t and w :: pipe
    assume "0 < n" "fst w \<noteq> []"
    moreover from this have "0 < unat n" "0 < length (fst w)" by (simp_all add: word_less_nat_alt)
    ultimately show "\<exists>k w'. 0 < k \<and> k \<le> unat n \<and> k \<le> length (fst w) \<and>
        ws_recv pipe_winsock s n w = (Some (take k (fst w)), w') \<and> fst w' = drop k (fst w)"
      by (intro exI [of _ "min (length (fst w)) (min 5 (unat n))"]
          exI [of _ "(drop (min 5 (unat n)) (fst w), snd w)"])
        (cases w, auto simp: pipe_winsock_def min_def)
  qed
qed

text \<open>A connected socket with an empty read buffer, and an owner that never answers.\<close>

definition plain_socket :: MemcacheSocket where
  "plain_socket = \<lparr>socketHandle = Some 1, selectThread = Thread_new, isListening = False, sessionID = 1,
     hasHandler = True, readBuffer = fresh 24, currentMsg = None\<rparr>"

definition silent :: "(unit, pipe) ISocketHandler" where
  "silent = \<lparr>OnAcceptConn = (\<lambda>_ h w. Some (Inr (h, w))), OnReceivedMessage = (\<lambda>_ h. Some (Inr (None, h))),
     OnSocketClosed = (\<lambda>_ h. Some (Inr h))\<rparr>"

lemma wf_plain_socket: "wf_socket plain_socket"
  by (simp add: wf_socket_def plain_socket_def wf_fresh heap_maxreq_def)

lemma plain_socket_handle [simp]: "socketHandle plain_socket = Some 1"
  by (simp add: plain_socket_def)

lemma selected_class:
  "select_message (header_seen hdr) b cur =
     (if Magic hdr = 0x80 \<and> Opcode hdr = 0 then Some (BaseMessage_buf (Some b) GetRequest)
      else if Magic hdr = 0x80 \<and> Opcode hdr = 1 then Some (BaseMessage_buf (Some b) (SetRequest DataBuffer_new (Some 0) None))
      else if Magic hdr = 0x81 \<and> Opcode hdr = 0 then Some (BaseMessage_buf (Some b) (GetResponse DataBuffer_new (Some 0)))
      else if Magic hdr = 0x81 \<and> Opcode hdr = 1 then Some (BaseMessage_buf (Some b) SetResponse)
      else map_option (\<lambda>m. m\<lparr>m_buffer := Some b\<rparr>) cur)"
  by (simp add: select_message_def protocol_constants header_seen_def GetRequest_buf_def SetRequest_buf_def
    GetResponse_buf_def SetResponse_buf_def Let_def)

lemma delivered:
  assumes "currentMsg s = Some m" "Parse ok m = Inr (parsed, m1)"
  shows "\<not> parsed \<longrightarrow> (\<exists>s'. deliver ok ws H s h w = Some (Inr (s', h, w)))"
    "\<forall>h'. parsed \<and> hasHandler s \<and> OnReceivedMessage H m1 h = Some (Inr (None, h')) \<longrightarrow>
       (\<exists>s'. deliver ok ws H s h w = Some (Inr (s', h', w)))"
  using assms by (auto simp: deliver_def answer_def Let_def)

section \<open>Properties\<close>

text \<open>
  C17. \<open>ReadMessage\<close> returns. If every \<open>recv\<close> gets at least one byte or fails, and the handler returns,
  the receive loops end and \<open>ReadMessage\<close> returns, whatever bytes come.
\<close>

theorem read_message_returns:
  assumes "recv_ok ws" "recv_progress ws (socketHandle s)" "wf_socket s" "\<And>m h. OnReceivedMessage H m h \<noteq> None"
  shows "\<exists>r. ReadMessage ok ws H s h w = Some r"
  by (rule ReadMessage_returns [OF assms])

theorem read_message_returns_witness:
  "\<exists>r. ReadMessage (\<lambda>_. True) pipe_winsock silent plain_socket () ([1, 2, 3], []) = Some r"
  using read_message_returns [of pipe_winsock plain_socket silent "\<lambda>_. True" "()" "([1, 2, 3], [])"] pipe_ok wf_plain_socket
  by (simp add: silent_def)

text \<open>
  C18. A closed peer. Once the peer has closed the connection \<open>recv\<close> returns 0 for ever; the code takes
  that for progress: \<open>ReadMessage\<close> then never returns.
\<close>

theorem read_message_stuck:
  assumes "recv_ok ws" "wf_socket s" "closed w"
    "\<And>n w. closed w \<Longrightarrow> \<exists>w'. ws_recv ws (socketHandle s) n w = (Some [], w') \<and> closed w'"
  shows "ReadMessage ok ws H s h w = None"
proof -
  have wf: "wf_buffer (readBuffer s)" using assms(2) by (simp add: wf_socket_def)
  have "GetBytesWritten (Reset (readBuffer s)) < kMBPHeaderSize"
    by (simp add: GetBytesWritten_def Reset_def kMBPHeaderSize_def)
  from fill_stuck [OF _ assms(1) filling_start [OF wf] kMBP_target(1) [OF assms(2)] this assms(3,4)]
  have "fill ws (socketHandle s) kMBPHeaderSize (Reset (readBuffer s)) w = None"
    by (cases "fill ws (socketHandle s) kMBPHeaderSize (Reset (readBuffer s)) w") auto
  then show ?thesis by (simp add: ReadMessage_def)
qed

theorem read_message_stuck_witness:
  "ReadMessage (\<lambda>_. True) closed_winsock silent plain_socket () ([], []) = None"
  by (rule read_message_stuck [where closed = "\<lambda>_. True"])
    (simp_all add: recv_ok_def closed_winsock_def wf_plain_socket)

text \<open>
  C4. A message is put together again. However the network cuts the stream, \<open>ReadMessage\<close> takes
  exactly the announced bytes of the next message from it and delivers a message over just those
  bytes. The magic byte and the opcode give its class: 0x80 the request and 0x81 the response, 0 to get
  and 1 to set; for any other pair the message object before it, if there is one, is used again with the
  new buffer. If \<open>Parse\<close> refuses the message, the handler does not see it; if it accepts, and
  the socket has a handler that answers nothing, the handler has been called with the parsed message.
\<close>

theorem read_message_reassembles:
  assumes "recv_ok ws" "stream_ok ws (socketHandle s) stream" "wf_socket s"
    "stream w = header_bytes hdr @ body @ rest" "length body = unat (TotalBodyLen hdr)"
    "24 + length body \<le> unat heap_maxreq" "ok (TotalBodyLen hdr + kMBPHeaderSize)"
  shows "\<exists>b w' m. stream w' = rest \<and> written b = map Some (header_bytes hdr @ body) \<and>
     ReadMessage ok ws H s h w = deliver ok ws H (s\<lparr>readBuffer := b, currentMsg := m\<rparr>) h w' \<and>
     (if Magic hdr = 0x80 \<and> Opcode hdr = 0 then m = Some (BaseMessage_buf (Some b) GetRequest)
      else if Magic hdr = 0x80 \<and> Opcode hdr = 1 then m = Some (BaseMessage_buf (Some b) (SetRequest DataBuffer_new (Some 0) None))
      else if Magic hdr = 0x81 \<and> Opcode hdr = 0 then m = Some (BaseMessage_buf (Some b) (GetResponse DataBuffer_new (Some 0)))
      else if Magic hdr = 0x81 \<and> Opcode hdr = 1 then m = Some (BaseMessage_buf (Some b) SetResponse)
      else m = map_option (\<lambda>m. m\<lparr>m_buffer := Some b\<rparr>) (currentMsg s)) \<and>
     (\<forall>m0 parsed m1. m = Some m0 \<and> Parse ok m0 = Inr (parsed, m1) \<longrightarrow>
        (\<not> parsed \<longrightarrow> (\<exists>s'. ReadMessage ok ws H s h w = Some (Inr (s', h, w')))) \<and>
        (\<forall>h'. parsed \<and> hasHandler s \<and> OnReceivedMessage H m1 h = Some (Inr (None, h')) \<longrightarrow>
           (\<exists>s'. ReadMessage ok ws H s h w = Some (Inr (s', h', w')))))"
proof -
  obtain b w' where r: "stream w' = rest" "filling (header_bytes hdr @ body) b"
    "ReadMessage ok ws H s h w = deliver ok ws H
       (s\<lparr>readBuffer := b, currentMsg := select_message (header_seen hdr) b (currentMsg s)\<rparr>) h w'"
    by (rule ReadMessage_stream [where ok = ok and stream = stream, OF assms])
  let ?m = "select_message (header_seen hdr) b (currentMsg s)"
  have "(\<not> parsed \<longrightarrow> (\<exists>s'. ReadMessage ok ws H s h w = Some (Inr (s', h, w')))) \<and>
      (\<forall>h'. parsed \<and> hasHandler s \<and> OnReceivedMessage H m1 h = Some (Inr (None, h')) \<longrightarrow>
         (\<exists>s'. ReadMessage ok ws H s h w = Some (Inr (s', h', w'))))" if "?m = Some m0" "Parse ok m0 = Inr (parsed, m1)" for m0 parsed m1
    using delivered [of "s\<lparr>readBuffer := b, currentMsg := ?m\<rparr>", OF _ that(2), where ws = ws and H = H and h = h and w = w'] that(1) by (auto simp: r(3))
  then show ?thesis
    using r by (intro exI [of _ b] exI [of _ w'] exI [of _ ?m]) (simp add: filling_def selected_class)
qed

theorem read_message_reassembles_witness:
  "\<exists>b w'. fst w' = [99] \<and> written b = map Some (header_bytes (MessageHeader_new\<lparr>Magic := 0x80, KeyLen := 2, TotalBodyLen := 2\<rparr>) @ [65, 66]) \<and>
     ReadMessage (\<lambda>_. True) pipe_winsock silent plain_socket ()
       (header_bytes (MessageHeader_new\<lparr>Magic := 0x80, KeyLen := 2, TotalBodyLen := 2\<rparr>) @ [65, 66] @ [99], []) =
     deliver (\<lambda>_. True) pipe_winsock silent
       (plain_socket\<lparr>readBuffer := b, currentMsg := Some (GetRequest_buf (Some b))\<rparr>) () w'"
proof -
  let ?h = "MessageHeader_new\<lparr>Magic := 0x80, KeyLen := 2, TotalBodyLen := 2\<rparr>"
  have w: "fst (header_bytes ?h @ [65, 66] @ [99], [] :: cell list list) = header_bytes ?h @ [65, 66] @ [99]" by simp
  have l: "length [65 :: u8, 66] = unat (TotalBodyLen ?h)" "24 + length [65 :: u8, 66] \<le> unat heap_maxreq" by (simp_all add: heap_maxreq_def)
  have c: "Magic ?h = 0x80 \<and> Opcode ?h = 0" by (simp add: MessageHeader_new_def)
  then show ?thesis
    using read_message_reassembles [where ok = "\<lambda>_. True" and H = silent and h = "()", OF pipe_ok(1) pipe_ok(3) wf_plain_socket w l TrueI]
    unfolding if_P [OF c] GetRequest_buf_def by (elim exE conjE, hypsubst) (intro exI conjI)
qed

end
