(* ===== verification/Sync.thy ===== *)
theory Sync
  imports Prelude
begin

text \<open>
  \<open>Event\<close>, \<open>Mutex\<close>, \<open>LockHelper\<close> and \<open>ReadWriteLock\<close>.

  \<^item> The Win32 event functions are a parameter, the record \<open>event_api\<close>; what the lock relies on of
    them is \<open>events_ok\<close>, their documented behaviour. A blocking call on an object that would
    block is \<open>None\<close>.
  \<^item> \<open>std::recursive_mutex\<close> is its owner and how often it has locked.
  \<^item> The four methods of \<open>ReadWriteLock\<close> are given twice: as functions on the lock, what a call
    does if nothing comes between, and step by step (\<open>rw_exec\<close>), where any number of threads
    interleave between two accesses to the shared state (\<open>rw_step\<close>).
\<close>

section \<open>Events\<close>

record 'e event_api =
  CreateEvent :: "bool \<Rightarrow> bool \<Rightarrow> 'e"
  SetEvent :: "'e \<Rightarrow> 'e"
  ResetEvent :: "'e \<Rightarrow> 'e"
  WaitInfinite :: "'e \<Rightarrow> 'e option"
  WaitTimeout :: "u32 \<Rightarrow> 'e \<Rightarrow> 'e"

text \<open>\<open>class Event\<close> is its handle.\<close>

definition Event_new :: "'e event_api \<Rightarrow> bool \<Rightarrow> bool \<Rightarrow> 'e" where
  "Event_new api manualReset initialState = CreateEvent api manualReset initialState"

definition Event_Reset :: "'e event_api \<Rightarrow> 'e \<Rightarrow> 'e" where
  "Event_Reset api e = ResetEvent api e"

definition Event_Set :: "'e event_api \<Rightarrow> 'e \<Rightarrow> 'e" where
  "Event_Set api e = SetEvent api e"

definition Event_Wait :: "'e event_api \<Rightarrow> 'e \<Rightarrow> 'e option" where
  "Event_Wait api e = WaitInfinite api e"

definition Event_TimedWait :: "'e event_api \<Rightarrow> u32 \<Rightarrow> 'e \<Rightarrow> 'e" where
  "Event_TimedWait api waitMS e = WaitTimeout api waitMS e"

text \<open>
  The documented behaviour: an event is signalled or not and is reset by hand or by the wait that
  it ends; a wait blocks exactly on an event that is not signalled.
\<close>

definition events_ok :: "'e event_api \<Rightarrow> ('e \<Rightarrow> bool) \<Rightarrow> ('e \<Rightarrow> bool) \<Rightarrow> bool" where
  "events_ok api signalled manual \<longleftrightarrow>
     (\<forall>m i. signalled (CreateEvent api m i) = i \<and> manual (CreateEvent api m i) = m) \<and>
     (\<forall>e. signalled (SetEvent api e) \<and> manual (SetEvent api e) = manual e) \<and>
     (\<forall>e. \<not> signalled (ResetEvent api e) \<and> manual (ResetEvent api e) = manual e) \<and>
     (\<forall>e. WaitInfinite api e = None \<longleftrightarrow> \<not> signalled e) \<and>
     (\<forall>e e'. WaitInfinite api e = Some e' \<longrightarrow> signalled e' = manual e \<and> manual e' = manual e)"

lemma events_okD:
  assumes "events_ok api signalled manual"
  shows "signalled (Event_new api m i) \<longleftrightarrow> i" "manual (Event_new api m i) \<longleftrightarrow> m"
    "signalled (Event_Set api e)" "manual (Event_Set api e) \<longleftrightarrow> manual e"
    "\<not> signalled (Event_Reset api e)" "manual (Event_Reset api e) \<longleftrightarrow> manual e"
    "Event_Wait api e = None \<longleftrightarrow> \<not> signalled e"
  using assms unfolding events_ok_def Event_new_def Event_Set_def Event_Reset_def Event_Wait_def
  by simp_all

lemma events_ok_wait:
  assumes "events_ok api signalled manual" "Event_Wait api e = Some e'"
  shows "signalled e" "signalled e' \<longleftrightarrow> manual e" "manual e' \<longleftrightarrow> manual e"
proof -
  show "signalled e" using events_okD(7) [OF assms(1), of e] assms(2) by simp
  show "signalled e' \<longleftrightarrow> manual e" "manual e' \<longleftrightarrow> manual e"
    using assms unfolding events_ok_def Event_Wait_def by blast+
qed

text \<open>An instance: an event is the pair of its kind and its state.\<close>

definition flag_events :: "(bool \<times> bool) event_api" where
  "flag_events =
     \<lparr>CreateEvent = (\<lambda>m i. (m, i)),
      SetEvent = (\<lambda>(m, _). (m, True)),
      ResetEvent = (\<lambda>(m, _). (m, False)),
      WaitInfinite = (\<lambda>(m, s). if s then Some (m, m) else None),
      WaitTimeout = (\<lambda>_ (m, s). (m, m \<and> s))\<rparr>"

lemma flag_events_ok: "events_ok flag_events snd fst"
  by (auto simp: events_ok_def flag_events_def)

section \<open>Mutexes\<close>

type_synonym tid = nat

record Mutex =
  owner :: "tid option"
  depth :: nat

definition Mutex_new :: Mutex where
  "Mutex_new = \<lparr>owner = None, depth = 0\<rparr>"

definition Mutex_Lock :: "tid \<Rightarrow> Mutex \<Rightarrow> Mutex option" where
  "Mutex_Lock t m =
     (case owner m of
        None \<Rightarrow> Some \<lparr>owner = Some t, depth = 1\<rparr>
      | Some u \<Rightarrow> if u = t then Some (m\<lparr>depth := depth m + 1\<rparr>) else None)"

definition Mutex_Unlock :: "tid \<Rightarrow> Mutex \<Rightarrow> Mutex" where
  "Mutex_Unlock t m =
     (if depth m \<le> 1 then \<lparr>owner = None, depth = 0\<rparr> else m\<lparr>depth := depth m - 1\<rparr>)"

definition wf_mutex :: "Mutex \<Rightarrow> bool" where
  "wf_mutex m \<longleftrightarrow> (owner m = None \<longleftrightarrow> depth m = 0)"

text \<open>\<open>held t m\<close>: how often the thread has the mutex locked.\<close>

definition held :: "tid \<Rightarrow> Mutex \<Rightarrow> nat" where
  "held t m = (if owner m = Some t then depth m else 0)"

lemma Mutex_Lock_Some:
  assumes "Mutex_Lock t m = Some m'" "wf_mutex m"
  shows "wf_mutex m'" "owner m' = Some t" "held t m' = Suc (held t m)" "u \<noteq> t \<Longrightarrow> held u m = 0 \<and> held u m' = 0"
    "Mutex_Unlock t m' = m"
  using assms by (cases m; auto simp: Mutex_Lock_def wf_mutex_def held_def Mutex_Unlock_def split: option.splits if_splits)+

lemma Mutex_Unlock_held:
  assumes "wf_mutex m" "0 < held t m"
  shows "wf_mutex (Mutex_Unlock t m)" "held t (Mutex_Unlock t m) = held t m - 1"
    "u \<noteq> t \<Longrightarrow> held u m = 0 \<and> held u (Mutex_Unlock t m) = 0"
  using assms by (auto simp: Mutex_Unlock_def wf_mutex_def held_def split: if_splits)

lemma Mutex_blocks: "wf_mutex m \<Longrightarrow> Mutex_Lock t m = None \<longleftrightarrow> (\<exists>u. u \<noteq> t \<and> 0 < held u m)"
  by (auto simp: Mutex_Lock_def wf_mutex_def held_def split: option.splits)

text \<open>
  \<open>LockHelper\<close>: lock, run the scope, unlock. The mutex is a member of a larger state \<open>'s\<close>, which
  \<open>get\<close> and \<open>put\<close> read and update; the scope may use that state, other mutexes in it included.
\<close>

definition LockHelper ::
  "('s \<Rightarrow> 'm) \<Rightarrow> ('m \<Rightarrow> 's \<Rightarrow> 's) \<Rightarrow> (tid \<Rightarrow> 'm \<Rightarrow> 'm option) \<Rightarrow> (tid \<Rightarrow> 'm \<Rightarrow> 'm) \<Rightarrow> tid \<Rightarrow>
     ('s \<Rightarrow> ('a \<times> 's) run) \<Rightarrow> 's \<Rightarrow> ('a \<times> 's) run" where
  "LockHelper get put lock unlock t scope s =
     (case lock t (get s) of
        None \<Rightarrow> None
      | Some m \<Rightarrow> andThen (scope (put m s)) (\<lambda>(x, s). Some (Inr (x, put (unlock t (get s)) s))))"

text \<open>
  The contract of \<open>IMutex\<close> as a scoped lock relies on it: a free mutex can be locked, and unlocking
  then leaves it free.
\<close>

locale imutex =
  fixes lock :: "tid \<Rightarrow> 'm \<Rightarrow> 'm option"
    and unlock :: "tid \<Rightarrow> 'm \<Rightarrow> 'm"
    and free :: "'m \<Rightarrow> bool"
  assumes lock_free: "free m \<Longrightarrow> \<exists>m'. lock t m = Some m'"
    and unlock_free: "free m \<Longrightarrow> lock t m = Some m' \<Longrightarrow> free (unlock t m')"
begin

lemma scope_returns:
  assumes "free (get s)"
    and "\<And>m'. lock t (get s) = Some m' \<Longrightarrow>
      returns E (\<lambda>(x, s'). get s' = m' \<and> (\<forall>m. free m \<longrightarrow> P (x, put m s'))) (scope (put m' s))"
  shows "returns E P (LockHelper get put lock unlock t scope s)"
proof -
  obtain m' where m': "lock t (get s) = Some m'" using lock_free [OF assms(1)] by blast
  show ?thesis
    unfolding LockHelper_def m' option.case
    by (rule returns_andThen [OF assms(2) [OF m']]) (use unlock_free [OF assms(1) m'] in auto)
qed

text \<open>The calls outside a scope, in pairs.\<close>

lemma lock_unlock:
  assumes "free m"
  obtains m' where "lock t m = Some m'" "free (unlock t m')"
  using lock_free [OF assms] unlock_free [OF assms] by blast

end

definition mutex_free :: "Mutex \<Rightarrow> bool" where
  "mutex_free m \<longleftrightarrow> m = Mutex_new"

interpretation mutex: imutex Mutex_Lock Mutex_Unlock mutex_free
  by unfold_locales (auto simp: mutex_free_def Mutex_new_def Mutex_Lock_def Mutex_Unlock_def)

section \<open>The reader-writer lock\<close>

record 'e ReadWriteLock =
  readCount :: u32
  writeCount :: u32
  writeMutex :: Mutex
  readEvent :: 'e
  writeEvent :: 'e

definition ReadWriteLock_new :: "'e event_api \<Rightarrow> 'e ReadWriteLock" where
  "ReadWriteLock_new api =
     \<lparr>readCount = 0, writeCount = 0, writeMutex = Mutex_new,
      readEvent = Event_new api True True, writeEvent = Event_new api True True\<rparr>"

subsection \<open>The methods\<close>

definition LockRead :: "'e event_api \<Rightarrow> tid \<Rightarrow> 'e ReadWriteLock \<Rightarrow> 'e ReadWriteLock option" where
  "LockRead api t l =
     (case Event_Wait api (writeEvent l) of
        None \<Rightarrow> None
      | Some e \<Rightarrow>
          let l = l\<lparr>writeEvent := e\<rparr>; old = readCount l; l = l\<lparr>readCount := old + 1\<rparr>
          in Some (if old = 0 then l\<lparr>readEvent := Event_Reset api (readEvent l)\<rparr> else l))"

definition UnlockRead :: "'e event_api \<Rightarrow> tid \<Rightarrow> 'e ReadWriteLock \<Rightarrow> 'e ReadWriteLock" where
  "UnlockRead api t l =
     (let l = l\<lparr>readCount := readCount l - 1\<rparr>
      in if readCount l = 0 then l\<lparr>readEvent := Event_Set api (readEvent l)\<rparr> else l)"

definition LockWrite :: "'e event_api \<Rightarrow> tid \<Rightarrow> 'e ReadWriteLock \<Rightarrow> 'e ReadWriteLock option" where
  "LockWrite api t l =
     (case Mutex_Lock t (writeMutex l) of
        None \<Rightarrow> None
      | Some m \<Rightarrow>
          let l = l\<lparr>writeMutex := m\<rparr>; l = l\<lparr>writeEvent := Event_Reset api (writeEvent l)\<rparr>;
              old = writeCount l; l = l\<lparr>writeCount := old + 1\<rparr>
          in if old = 0
             then (case Event_Wait api (readEvent l) of
                     None \<Rightarrow> None
                   | Some e \<Rightarrow> Some (l\<lparr>readEvent := e\<rparr>))
             else Some l)"

definition UnlockWrite :: "'e event_api \<Rightarrow> tid \<Rightarrow> 'e ReadWriteLock \<Rightarrow> 'e ReadWriteLock" where
  "UnlockWrite api t l =
     (let l = l\<lparr>writeCount := writeCount l - 1\<rparr>;
          l = (if writeCount l = 0 then l\<lparr>writeEvent := Event_Set api (writeEvent l)\<rparr> else l)
      in l\<lparr>writeMutex := Mutex_Unlock t (writeMutex l)\<rparr>)"

subsection \<open>Step by step\<close>

text \<open>
  A thread is between calls (\<open>Running\<close>) or before one of the accesses of the method it is in; it
  remembers how many read and write locks it holds: a lock counts from the return of the call that
  takes it to the call that gives it back. One step performs one access: a wait, an atomic increment
  or decrement with the branch on its result, setting or resetting an event, the mutex.
\<close>

datatype rw_pc =
    Running
  | LR_wait | LR_count | LR_reset
  | UR_count | UR_set
  | LW_mutex | LW_reset | LW_count | LW_wait
  | UW_count | UW_set | UW_unlock

datatype rw_op = OpLockRead | OpUnlockRead | OpLockWrite | OpUnlockWrite

record rw_thread =
  pc :: rw_pc
  reads :: nat
  writes :: nat

definition idle :: rw_thread where
  "idle = \<lparr>pc = Running, reads = 0, writes = 0\<rparr>"

fun rw_call :: "rw_op \<Rightarrow> rw_thread \<Rightarrow> rw_thread option" where
  "rw_call OpLockRead th = (if pc th = Running then Some (th\<lparr>pc := LR_wait\<rparr>) else None)"
| "rw_call OpUnlockRead th =
     (if pc th = Running \<and> reads th > 0 then Some (th\<lparr>pc := UR_count, reads := reads th - 1\<rparr>) else None)"
| "rw_call OpLockWrite th = (if pc th = Running then Some (th\<lparr>pc := LW_mutex\<rparr>) else None)"
| "rw_call OpUnlockWrite th =
     (if pc th = Running \<and> writes th > 0 then Some (th\<lparr>pc := UW_count, writes := writes th - 1\<rparr>) else None)"

definition got_read :: "rw_thread \<Rightarrow> rw_thread" where
  "got_read th = th\<lparr>pc := Running, reads := reads th + 1\<rparr>"

definition got_write :: "rw_thread \<Rightarrow> rw_thread" where
  "got_write th = th\<lparr>pc := Running, writes := writes th + 1\<rparr>"

definition rw_exec ::
  "'e event_api \<Rightarrow> tid \<Rightarrow> rw_thread \<Rightarrow> 'e ReadWriteLock \<Rightarrow> (rw_thread \<times> 'e ReadWriteLock) option" where
  "rw_exec api t th l =
     (case pc th of
        Running \<Rightarrow> None
      | LR_wait \<Rightarrow>
          map_option (\<lambda>e. (th\<lparr>pc := LR_count\<rparr>, l\<lparr>writeEvent := e\<rparr>)) (Event_Wait api (writeEvent l))
      | LR_count \<Rightarrow>
          Some (if readCount l = 0 then th\<lparr>pc := LR_reset\<rparr> else got_read th, l\<lparr>readCount := readCount l + 1\<rparr>)
      | LR_reset \<Rightarrow> Some (got_read th, l\<lparr>readEvent := Event_Reset api (readEvent l)\<rparr>)
      | UR_count \<Rightarrow>
          Some (th\<lparr>pc := if readCount l - 1 = 0 then UR_set else Running\<rparr>, l\<lparr>readCount := readCount l - 1\<rparr>)
      | UR_set \<Rightarrow> Some (th\<lparr>pc := Running\<rparr>, l\<lparr>readEvent := Event_Set api (readEvent l)\<rparr>)
      | LW_mutex \<Rightarrow>
          map_option (\<lambda>m. (th\<lparr>pc := LW_reset\<rparr>, l\<lparr>writeMutex := m\<rparr>)) (Mutex_Lock t (writeMutex l))
      | LW_reset \<Rightarrow> Some (th\<lparr>pc := LW_count\<rparr>, l\<lparr>writeEvent := Event_Reset api (writeEvent l)\<rparr>)
      | LW_count \<Rightarrow>
          Some (if writeCount l = 0 then th\<lparr>pc := LW_wait\<rparr> else got_write th, l\<lparr>writeCount := writeCount l + 1\<rparr>)
      | LW_wait \<Rightarrow>
          map_option (\<lambda>e. (got_write th, l\<lparr>readEvent := e\<rparr>)) (Event_Wait api (readEvent l))
      | UW_count \<Rightarrow>
          Some (th\<lparr>pc := if writeCount l - 1 = 0 then UW_set else UW_unlock\<rparr>, l\<lparr>writeCount := writeCount l - 1\<rparr>)
      | UW_set \<Rightarrow> Some (th\<lparr>pc := UW_unlock\<rparr>, l\<lparr>writeEvent := Event_Set api (writeEvent l)\<rparr>)
      | UW_unlock \<Rightarrow> Some (th\<lparr>pc := Running\<rparr>, l\<lparr>writeMutex := Mutex_Unlock t (writeMutex l)\<rparr>))"

text \<open>The threads \<open>0 .. n - 1\<close> in any interleaving.\<close>

type_synonym 'e rw_state = "'e ReadWriteLock \<times> (tid \<Rightarrow> rw_thread)"

inductive rw_step :: "'e event_api \<Rightarrow> nat \<Rightarrow> 'e rw_state \<Rightarrow> 'e rw_state \<Rightarrow> bool"
  for api :: "'e event_api" and n :: nat where
  call: "t < n \<Longrightarrow> rw_call op (ths t) = Some th \<Longrightarrow> rw_step api n (l, ths) (l, ths(t := th))"
| exec: "t < n \<Longrightarrow> rw_exec api t (ths t) l = Some (th, l') \<Longrightarrow> rw_step api n (l, ths) (l', ths(t := th))"

inductive_cases rw_stepE: "rw_step api n s s'"
inductive_simps rw_step_iff: "rw_step api n (l, ths) s'"

definition rw_start :: "'e event_api \<Rightarrow> 'e rw_state" where
  "rw_start api = (ReadWriteLock_new api, \<lambda>_. idle)"

definition rw_reachable :: "'e event_api \<Rightarrow> nat \<Rightarrow> 'e rw_state \<Rightarrow> bool" where
  "rw_reachable api n s \<longleftrightarrow> (rw_step api n)\<^sup>*\<^sup>* (rw_start api) s"

lemma rw_reachable_start: "rw_reachable api n (rw_start api)"
  by (simp add: rw_reachable_def)

lemma rw_reachable_step: "rw_reachable api n s \<Longrightarrow> rw_step api n s s' \<Longrightarrow> rw_reachable api n s'"
  unfolding rw_reachable_def by (rule rtranclp.rtrancl_into_rtrancl)

lemma rw_reachable_induct:
  assumes "rw_reachable api n s" "P (rw_start api)" "\<And>s s'. P s \<Longrightarrow> rw_step api n s s' \<Longrightarrow> P s'"
  shows "P s"
  using assms(1) unfolding rw_reachable_def
  by (induction rule: rtranclp_induct) (use assms(2,3) in auto)

text \<open>A schedule: which thread calls what, and which thread moves on.\<close>

datatype move = Call tid rw_op | Step tid

fun play :: "'e event_api \<Rightarrow> nat \<Rightarrow> move list \<Rightarrow> 'e rw_state \<Rightarrow> 'e rw_state option" where
  "play api n [] s = Some s"
| "play api n (Call t op # ms) (l, ths) =
     (if t < n
      then (case rw_call op (ths t) of None \<Rightarrow> None | Some th \<Rightarrow> play api n ms (l, ths(t := th)))
      else None)"
| "play api n (Step t # ms) (l, ths) =
     (if t < n
      then (case rw_exec api t (ths t) l of None \<Rightarrow> None | Some (th, l') \<Rightarrow> play api n ms (l', ths(t := th)))
      else None)"

lemma play_reachable: "rw_reachable api n s \<Longrightarrow> play api n ms s = Some s' \<Longrightarrow> rw_reachable api n s'"
proof (induction api n ms s rule: play.induct)
  case (2 api n t op ms l ths)
  then show ?case
    by (auto split: if_splits option.splits dest: rw_reachable_step [OF _ rw_step.call])
next
  case (3 api n t ms l ths)
  then show ?case
    by (auto split: if_splits option.splits prod.splits dest: rw_reachable_step [OF _ rw_step.exec])
qed simp

subsection \<open>Writers exclude writers\<close>

text \<open>How often a thread is inside the mutex of the lock, and how often it counts as a reader.\<close>

fun in_mutex :: "rw_pc \<Rightarrow> nat" where
  "in_mutex LW_reset = 1" | "in_mutex LW_count = 1" | "in_mutex LW_wait = 1"
| "in_mutex UW_count = 1" | "in_mutex UW_set = 1" | "in_mutex UW_unlock = 1"
| "in_mutex _ = 0"

fun counted :: "rw_pc \<Rightarrow> nat" where
  "counted LR_reset = 1" | "counted UR_count = 1" | "counted _ = 0"

definition write_depth :: "rw_thread \<Rightarrow> nat" where
  "write_depth th = writes th + in_mutex (pc th)"

definition read_depth :: "rw_thread \<Rightarrow> nat" where
  "read_depth th = reads th + counted (pc th)"

lemmas depth_defs = write_depth_def read_depth_def got_read_def got_write_def

lemma rw_call_depth:
  "rw_call op th = Some th' \<Longrightarrow> write_depth th' = write_depth th \<and> read_depth th' = read_depth th"
  by (cases op) (auto simp: depth_defs split: if_splits)

definition mutex_inv :: "'e rw_state \<Rightarrow> bool" where
  "mutex_inv s \<longleftrightarrow> wf_mutex (writeMutex (fst s)) \<and> (\<forall>t. held t (writeMutex (fst s)) = write_depth (snd s t))"

lemma mutex_inv_start: "mutex_inv (rw_start api)"
  by (simp add: mutex_inv_def rw_start_def ReadWriteLock_new_def Mutex_new_def wf_mutex_def held_def
      depth_defs idle_def)

lemma rw_exec_mutex:
  assumes "rw_exec api t th l = Some (th', l')"
  shows "writeMutex l' = writeMutex l \<and> write_depth th' = write_depth th \<or>
     Mutex_Lock t (writeMutex l) = Some (writeMutex l') \<and> write_depth th' = Suc (write_depth th) \<or>
     writeMutex l' = Mutex_Unlock t (writeMutex l) \<and> Suc (write_depth th') = write_depth th"
proof (cases "pc th")
  case LW_mutex
  then show ?thesis using assms by (auto simp: rw_exec_def depth_defs)
next
  case UW_unlock
  then show ?thesis using assms by (auto simp: rw_exec_def depth_defs)
qed (use assms in \<open>auto simp: rw_exec_def depth_defs split: if_splits\<close>)

lemma mutex_inv_step:
  assumes "mutex_inv s" "rw_step api n s s'"
  shows "mutex_inv s'"
  using assms(2,1)
proof (cases rule: rw_step.cases)
  case (call t op ths th l)
  then show ?thesis using assms(1) by (auto simp: mutex_inv_def dest: rw_call_depth)
next
  case (exec t ths l th l')
  let ?m = "writeMutex l" and ?m' = "writeMutex l'"
  have inv: "wf_mutex ?m" "\<And>u. held u ?m = write_depth (ths u)"
    using assms(1) exec by (simp_all add: mutex_inv_def)
  from rw_exec_mutex [OF exec(4)] have "wf_mutex ?m' \<and> held t ?m' = write_depth th \<and>
      (\<forall>u. u \<noteq> t \<longrightarrow> held u ?m' = held u ?m)"
  proof (elim disjE conjE)
    assume "?m' = ?m" "write_depth th = write_depth (ths t)"
    then show ?thesis using inv by simp
  next
    assume "Mutex_Lock t ?m = Some ?m'" "write_depth th = Suc (write_depth (ths t))"
    then show ?thesis using inv Mutex_Lock_Some [of t ?m ?m'] by auto
  next
    assume "?m' = Mutex_Unlock t ?m" "Suc (write_depth th) = write_depth (ths t)"
    moreover from this inv have "0 < held t ?m" by (metis zero_less_Suc)
    ultimately show ?thesis
      using inv Mutex_Unlock_held [of ?m t] by (metis diff_Suc_1)
  qed
  then show ?thesis using exec inv by (simp add: mutex_inv_def)
qed

lemma reachable_mutex_inv: "rw_reachable api n s \<Longrightarrow> mutex_inv s"
  by (erule rw_reachable_induct) (auto intro: mutex_inv_start mutex_inv_step)

lemma held_exclusive: "0 < held t m \<Longrightarrow> 0 < held u m \<Longrightarrow> t = u"
  by (auto simp: held_def split: if_splits)

subsection \<open>Readers are counted\<close>

definition count_inv :: "nat \<Rightarrow> 'e rw_state \<Rightarrow> bool" where
  "count_inv n s \<longleftrightarrow> readCount (fst s) = of_nat (\<Sum>t<n. read_depth (snd s t))"

lemma rw_exec_count:
  assumes "rw_exec api t th l = Some (th', l')"
  shows "readCount l' + of_nat (read_depth th) = readCount l + of_nat (read_depth th')"
  using assms by (cases "pc th") (auto simp: rw_exec_def depth_defs split: if_splits)

lemma sum_update:
  fixes f :: "'a \<Rightarrow> nat" and t :: nat
  assumes "t < n"
  shows "(\<Sum>u<n. f ((ths(t := th)) u)) + f (ths t) = (\<Sum>u<n. f (ths u)) + f th"
proof -
  have "(\<Sum>u\<in>{..<n} - {t}. f ((ths(t := th)) u)) = (\<Sum>u\<in>{..<n} - {t}. f (ths u))"
    by (intro sum.cong) auto
  then show ?thesis
    using assms sum.remove [OF finite_lessThan, of t n "\<lambda>u. f ((ths(t := th)) u)"]
      sum.remove [OF finite_lessThan, of t n "\<lambda>u. f (ths u)"]
    by simp
qed

lemma count_inv_step:
  assumes "count_inv n s" "rw_step api n s s'"
  shows "count_inv n s'"
  using assms(2,1)
proof (cases rule: rw_step.cases)
  case (call t op ths th l)
  then show ?thesis
    using assms(1) rw_call_depth [OF call(4)] sum_update [OF call(3), of read_depth ths th]
    by (simp add: count_inv_def)
next
  case (exec t ths l th l')
  let ?S = "\<Sum>u<n. read_depth (ths u)" and ?S' = "\<Sum>u<n. read_depth ((ths(t := th)) u)"
  have "of_nat (?S' + read_depth (ths t)) = (of_nat (?S + read_depth th) :: u32)"
    using sum_update [OF exec(3), of read_depth ths th] by simp
  then have "of_nat ?S' + of_nat (read_depth (ths t)) = readCount l + of_nat (read_depth th)"
    using assms(1) exec by (simp only: count_inv_def fst_conv snd_conv of_nat_add)
  with rw_exec_count [OF exec(4)] have "readCount l' = of_nat ?S'"
    by (metis add_right_cancel)
  then show ?thesis using exec by (simp add: count_inv_def)
qed

lemma count_inv_start: "count_inv n (rw_start api)"
  by (simp add: count_inv_def rw_start_def ReadWriteLock_new_def depth_defs idle_def)

lemma reachable_count_inv: "rw_reachable api n s \<Longrightarrow> count_inv n s"
  by (erule rw_reachable_induct) (auto intro: count_inv_step count_inv_start)

subsection \<open>Calls that are not interrupted\<close>

text \<open>The steps of one call, up to its return; four accesses are the most a method makes.\<close>

fun finish ::
  "nat \<Rightarrow> 'e event_api \<Rightarrow> tid \<Rightarrow> rw_thread \<Rightarrow> 'e ReadWriteLock \<Rightarrow> (rw_thread \<times> 'e ReadWriteLock) option" where
  "finish 0 api t th l = None"
| "finish (Suc k) api t th l =
     (case rw_exec api t th l of
        None \<Rightarrow> None
      | Some (th', l') \<Rightarrow> if pc th' = Running then Some (th', l') else finish k api t th' l')"

datatype hold = Free | Reads | Writes

inductive serial_step ::
  "'e event_api \<Rightarrow> nat \<Rightarrow> 'e ReadWriteLock \<times> (tid \<Rightarrow> hold) \<Rightarrow> 'e ReadWriteLock \<times> (tid \<Rightarrow> hold) \<Rightarrow> bool"
  for api :: "'e event_api" and n :: nat where
  lock_read: "t < n \<Longrightarrow> h t = Free \<Longrightarrow> LockRead api t l = Some l' \<Longrightarrow> serial_step api n (l, h) (l', h(t := Reads))"
| unlock_read: "t < n \<Longrightarrow> h t = Reads \<Longrightarrow> serial_step api n (l, h) (UnlockRead api t l, h(t := Free))"
| lock_write: "t < n \<Longrightarrow> h t = Free \<Longrightarrow> LockWrite api t l = Some l' \<Longrightarrow> serial_step api n (l, h) (l', h(t := Writes))"
| unlock_write: "t < n \<Longrightarrow> h t = Writes \<Longrightarrow> serial_step api n (l, h) (UnlockWrite api t l, h(t := Free))"

definition serial_reachable :: "'e event_api \<Rightarrow> nat \<Rightarrow> 'e ReadWriteLock \<times> (tid \<Rightarrow> hold) \<Rightarrow> bool" where
  "serial_reachable api n s \<longleftrightarrow> (serial_step api n)\<^sup>*\<^sup>* (ReadWriteLock_new api, \<lambda>_. Free) s"

definition is_read :: "hold \<Rightarrow> nat" where "is_read h = (if h = Reads then 1 else 0)"
definition is_write :: "hold \<Rightarrow> nat" where "is_write h = (if h = Writes then 1 else 0)"

lemma is_hold_simps [simp]:
  "is_read Free = 0" "is_read Reads = 1" "is_read Writes = 0"
  "is_write Free = 0" "is_write Reads = 0" "is_write Writes = 1"
  by (simp_all add: is_read_def is_write_def)

text \<open>
  The lock as its specification has it: \<open>r\<close> readers or one writer. Each method, not interrupted,
  does on the lock what it is meant to do on the two numbers.
\<close>

definition lock_view :: "('e \<Rightarrow> bool) \<Rightarrow> ('e \<Rightarrow> bool) \<Rightarrow> nat \<Rightarrow> nat \<Rightarrow> 'e ReadWriteLock \<Rightarrow> bool" where
  "lock_view sig man r w l \<longleftrightarrow>
     readCount l = of_nat r \<and> writeCount l = of_nat w \<and>
     man (readEvent l) \<and> man (writeEvent l) \<and>
     (sig (readEvent l) \<longleftrightarrow> r = 0) \<and> (sig (writeEvent l) \<longleftrightarrow> w = 0) \<and>
     (r = 0 \<or> w = 0) \<and> w \<le> 1"

lemma of_nat_0_iff: "k < 2 ^ 32 \<Longrightarrow> (of_nat k :: u32) = 0 \<longleftrightarrow> k = 0"
  by (auto simp: unat_of_nat take_bit_eq_mod word_unat_eq_iff)

lemma lock_view_start: "events_ok api sig man \<Longrightarrow> lock_view sig man 0 0 (ReadWriteLock_new api)"
  by (simp add: lock_view_def ReadWriteLock_new_def events_okD(1,2))

lemma LockRead_view:
  assumes "events_ok api sig man" "lock_view sig man r w l" "r < 2 ^ 32" "LockRead api t l = Some l'"
  shows "w = 0 \<and> lock_view sig man (Suc r) 0 l' \<and> writeMutex l' = writeMutex l"
proof -
  obtain e where e: "Event_Wait api (writeEvent l) = Some e"
    using assms(4) by (auto simp: LockRead_def split: option.splits)
  then show ?thesis
    using assms(2,4) of_nat_0_iff [OF assms(3)] events_okD(5,6) [OF assms(1)] events_ok_wait [OF assms(1) e]
    by (auto simp: lock_view_def LockRead_def Let_def split: if_splits)
qed

lemma UnlockRead_view:
  assumes "events_ok api sig man" "lock_view sig man (Suc r) w l" "r < 2 ^ 32"
  shows "lock_view sig man r 0 (UnlockRead api t l) \<and> writeMutex (UnlockRead api t l) = writeMutex l"
proof -
  have "readCount l - 1 = of_nat r" using assms(2) by (simp add: lock_view_def)
  then show ?thesis
    using assms(2) of_nat_0_iff [OF assms(3)] events_okD(3,4) [OF assms(1)]
    by (auto simp: lock_view_def UnlockRead_def Let_def)
qed

lemma LockWrite_view:
  assumes "events_ok api sig man" "lock_view sig man r 0 l" "LockWrite api t l = Some l'"
  shows "r = 0 \<and> lock_view sig man 0 1 l' \<and> Mutex_Lock t (writeMutex l) = Some (writeMutex l')"
proof -
  obtain m where m: "Mutex_Lock t (writeMutex l) = Some m"
    using assms(3) by (auto simp: LockWrite_def split: option.splits)
  have "writeCount l = 0" using assms(2) by (simp add: lock_view_def)
  then obtain e where e: "Event_Wait api (readEvent l) = Some e" and
      l': "l' = l\<lparr>writeMutex := m, writeEvent := Event_Reset api (writeEvent l), writeCount := 1, readEvent := e\<rparr>"
    using assms(3) m by (auto simp: LockWrite_def Let_def split: option.splits)
  show ?thesis
    using assms(2) m events_okD(5,6) [OF assms(1)] events_ok_wait [OF assms(1) e]
    by (auto simp: lock_view_def l')
qed

lemma UnlockWrite_view:
  assumes "events_ok api sig man" "lock_view sig man r 1 l"
  shows "r = 0 \<and> lock_view sig man 0 0 (UnlockWrite api t l) \<and>
     writeMutex (UnlockWrite api t l) = Mutex_Unlock t (writeMutex l)"
  using assms(2) events_okD(3,4) [OF assms(1)] by (auto simp: lock_view_def UnlockWrite_def Let_def)

text \<open>
  \<open>ReadLock\<close> and \<open>WriteLock\<close>, the two \<open>IMutex\<close> objects of the lock, both keep the contract: the
  lock is free when nobody reads, writes or holds its mutex.
\<close>

definition rw_free :: "'e event_api \<Rightarrow> 'e ReadWriteLock \<Rightarrow> bool" where
  "rw_free api l \<longleftrightarrow> mutex_free (writeMutex l) \<and>
     (\<exists>sig man. events_ok api sig man \<and> lock_view sig man 0 0 l)"

lemma rw_free_new: "events_ok api sig man \<Longrightarrow> rw_free api (ReadWriteLock_new api)"
  using lock_view_start [of api sig man] unfolding rw_free_def mutex_free_def by (auto simp: ReadWriteLock_new_def)

lemma LockRead_free:
  assumes "events_ok api sig man" "lock_view sig man r 0 l"
  shows "\<exists>l'. LockRead api t l = Some l'"
proof -
  have "Event_Wait api (writeEvent l) \<noteq> None"
    using assms events_okD(7) [OF assms(1)] by (simp add: lock_view_def)
  then show ?thesis by (auto simp: LockRead_def Let_def)
qed

lemma LockWrite_free:
  assumes "events_ok api sig man" "lock_view sig man 0 0 l" "mutex_free (writeMutex l)"
  shows "\<exists>l'. LockWrite api t l = Some l'"
proof -
  have "Event_Wait api (readEvent l) \<noteq> None"
    using assms events_okD(7) [OF assms(1)] by (simp add: lock_view_def)
  then show ?thesis
    using assms(2,3) by (auto simp: LockWrite_def Let_def mutex_free_def Mutex_new_def Mutex_Lock_def lock_view_def)
qed

interpretation read_lock: imutex "LockRead api" "UnlockRead api" "rw_free api" for api :: "'e event_api"
proof unfold_locales
  fix l l' :: "'e ReadWriteLock" and t
  assume "rw_free api l"
  then obtain sig man where v: "events_ok api sig man" "lock_view sig man 0 0 l" "mutex_free (writeMutex l)"
    by (auto simp: rw_free_def)
  show "\<exists>l'. LockRead api t l = Some l'" by (rule LockRead_free [OF v(1,2)])
  assume "LockRead api t l = Some l'"
  from LockRead_view [OF v(1,2) _ this] have "lock_view sig man (Suc 0) 0 l'" "writeMutex l' = writeMutex l" by simp_all
  with UnlockRead_view [OF v(1), of 0 0 l' t] v show "rw_free api (UnlockRead api t l')"
    by (auto simp: rw_free_def)
qed

interpretation write_lock: imutex "LockWrite api" "UnlockWrite api" "rw_free api" for api :: "'e event_api"
proof unfold_locales
  fix l l' :: "'e ReadWriteLock" and t
  assume "rw_free api l"
  then obtain sig man where v: "events_ok api sig man" "lock_view sig man 0 0 l" "mutex_free (writeMutex l)"
    by (auto simp: rw_free_def)
  show "\<exists>l'. LockWrite api t l = Some l'" by (rule LockWrite_free [OF v])
  assume "LockWrite api t l = Some l'"
  from LockWrite_view [OF v(1,2) this] have "lock_view sig man 0 1 l'" "Mutex_Lock t (writeMutex l) = Some (writeMutex l')"
    by simp_all
  with UnlockWrite_view [OF v(1), of 0 l' t] mutex.unlock_free [OF v(3)] v(1) show "rw_free api (UnlockWrite api t l')"
    by (auto simp: rw_free_def)
qed

definition count_of :: "hold \<Rightarrow> nat \<Rightarrow> (tid \<Rightarrow> hold) \<Rightarrow> nat" where
  "count_of k n h = (\<Sum>t<n. if h t = k then 1 else 0)"

lemma count_of_update:
  "t < n \<Longrightarrow> count_of k n (h(t := x)) + (if h t = k then 1 else 0) = count_of k n h + (if x = k then 1 else 0)"
  using sum_update [of t n "\<lambda>y. if y = k then 1 else 0" h x] by (simp add: count_of_def)

lemma count_of_le: "count_of k n h \<le> n"
  unfolding count_of_def by (rule order_trans [OF sum_mono [of _ _ "\<lambda>_. 1"]]) auto

lemma count_of_pos: "t < n \<Longrightarrow> h t = k \<Longrightarrow> 0 < count_of k n h"
  using count_of_update [of t n k h Free] count_of_update [of t n k h Reads] by (cases k) auto

definition serial_inv ::
  "('e \<Rightarrow> bool) \<Rightarrow> ('e \<Rightarrow> bool) \<Rightarrow> nat \<Rightarrow> 'e ReadWriteLock \<times> (tid \<Rightarrow> hold) \<Rightarrow> bool" where
  "serial_inv sig man n s \<longleftrightarrow>
     lock_view sig man (count_of Reads n (snd s)) (count_of Writes n (snd s)) (fst s) \<and>
     wf_mutex (writeMutex (fst s)) \<and>
     (\<forall>t. held t (writeMutex (fst s)) = (if snd s t = Writes then 1 else 0)) \<and>
     (\<forall>t \<ge> n. snd s t = Free)"

lemma serial_inv_start: "events_ok api sig man \<Longrightarrow> serial_inv sig man n (ReadWriteLock_new api, \<lambda>_. Free)"
  by (simp add: serial_inv_def count_of_def lock_view_start)
    (simp add: ReadWriteLock_new_def Mutex_new_def wf_mutex_def held_def)

lemma serial_inv_step:
  assumes ev: "events_ok api sig man" and n: "n < 2 ^ 32" and inv: "serial_inv sig man n s"
    and step: "serial_step api n s s'"
  shows "serial_inv sig man n s'"
  using step
proof cases
  case (lock_read t h l l')
  from inv lock_read have i: "lock_view sig man (count_of Reads n h) (count_of Writes n h) l" and
    m: "wf_mutex (writeMutex l)" "\<forall>t. held t (writeMutex l) = (if h t = Writes then 1 else 0)" "\<forall>t \<ge> n. h t = Free"
    by (simp_all add: serial_inv_def)
  have "count_of Reads n h < 2 ^ 32" using count_of_le [of Reads n h] n by simp
  note v = LockRead_view [OF ev i this lock_read(5)]
  show ?thesis
    using v m lock_read count_of_update [OF lock_read(3), of Reads h Reads] count_of_update [OF lock_read(3), of Writes h Reads]
    by (simp add: serial_inv_def)
next
  case (unlock_read t h l)
  from inv unlock_read have i: "lock_view sig man (count_of Reads n h) (count_of Writes n h) l" and
    m: "wf_mutex (writeMutex l)" "\<forall>t. held t (writeMutex l) = (if h t = Writes then 1 else 0)" "\<forall>t \<ge> n. h t = Free"
    by (simp_all add: serial_inv_def)
  have c: "count_of Reads n h = Suc (count_of Reads n (h(t := Free)))"
    "count_of Writes n (h(t := Free)) = count_of Writes n h"
    using count_of_update [OF unlock_read(3), of Reads h Free] count_of_update [OF unlock_read(3), of Writes h Free]
      unlock_read(4) by simp_all
  have "count_of Reads n (h(t := Free)) < 2 ^ 32" using count_of_le [of Reads n "h(t := Free)"] n by simp
  note v = UnlockRead_view [OF ev i [unfolded c(1)] this]
  have "count_of Writes n h = 0" using i c(1) by (auto simp: lock_view_def)
  then show ?thesis
    using v [of t] m unlock_read c by (simp add: serial_inv_def)
next
  case (lock_write t h l l')
  from inv lock_write have i: "lock_view sig man (count_of Reads n h) (count_of Writes n h) l" and
    m: "wf_mutex (writeMutex l)" "\<forall>t. held t (writeMutex l) = (if h t = Writes then 1 else 0)" "\<forall>t \<ge> n. h t = Free"
    by (simp_all add: serial_inv_def)
  obtain mu where mu: "Mutex_Lock t (writeMutex l) = Some mu"
    using lock_write(5) by (auto simp: LockWrite_def split: option.splits)
  note locked = Mutex_Lock_Some [OF mu m(1)]
  have free: "h u \<noteq> Writes" for u
    using locked(4) [of u] m(2) lock_write(4) by (cases "u = t") (auto split: if_splits)
  then have w0: "count_of Writes n h = 0" by (simp add: count_of_def)
  note v = LockWrite_view [OF ev i [unfolded w0] lock_write(5)]
  then have mm: "writeMutex l' = mu" using mu by simp
  have "held u mu = (if (h(t := Writes)) u = Writes then 1 else 0)" for u
    using locked(3) locked(4) [of u] m(2) free [of u] lock_write(4) by (cases "u = t") auto
  then show ?thesis
    using v mm locked(1) m(3) lock_write(2,3,4) w0 count_of_update [OF lock_write(3), of Reads h Writes]
      count_of_update [OF lock_write(3), of Writes h Writes]
    by (simp add: serial_inv_def)
next
  case (unlock_write t h l)
  from inv unlock_write have i: "lock_view sig man (count_of Reads n h) (count_of Writes n h) l" and
    m: "wf_mutex (writeMutex l)" "\<forall>t. held t (writeMutex l) = (if h t = Writes then 1 else 0)" "\<forall>t \<ge> n. h t = Free"
    by (simp_all add: serial_inv_def)
  have w1: "count_of Writes n h = 1"
    using count_of_pos [of t n h Writes] unlock_write(3,4) i by (auto simp: lock_view_def)
  note v = UnlockWrite_view [OF ev i [unfolded w1], of t]
  have own: "0 < held t (writeMutex l)" using m(2) unlock_write(4) by simp
  note unlocked = Mutex_Unlock_held [OF m(1) own]
  have "held u (Mutex_Unlock t (writeMutex l)) = (if (h(t := Free)) u = Writes then 1 else 0)" for u
    using unlocked(2) unlocked(3) [of u] m(2) [rule_format, of u] unlock_write(4) by (cases "u = t") auto
  then show ?thesis
    using v unlocked(1) m(3) unlock_write(2,3,4) w1 count_of_update [OF unlock_write(3), of Reads h Free]
      count_of_update [OF unlock_write(3), of Writes h Free]
    by (simp add: serial_inv_def)
qed

lemma serial_reachable_inv:
  assumes "events_ok api sig man" "n < 2 ^ 32" "serial_reachable api n s"
  shows "serial_inv sig man n s"
  using assms(3) unfolding serial_reachable_def
  by (induction rule: rtranclp_induct) (auto intro: serial_inv_start serial_inv_step [OF assms(1,2)] assms(1))

lemma count_of_0: "count_of k n h = 0 \<longleftrightarrow> (\<forall>t<n. h t \<noteq> k)"
  by (auto simp: count_of_def)

lemma serial_writer_alone:
  assumes "serial_inv sig man n (l, h)" "h t = Writes" "h u \<noteq> Free"
  shows "t = u"
proof (rule ccontr)
  assume ne: "t \<noteq> u"
  have t: "t < n" "u < n" using assms by (cases "t < n"; cases "u < n"; force simp: serial_inv_def)+
  have "held t (writeMutex l) = 1" "h u = Writes \<longrightarrow> held u (writeMutex l) = 1"
    using assms(1,2) by (auto simp: serial_inv_def)
  then have "h u \<noteq> Writes" using held_exclusive [of t "writeMutex l" u] ne by auto
  then have "h u = Reads" using assms(3) by (cases "h u") auto
  then show False
    using assms(1) count_of_pos [of t n h Writes] count_of_pos [of u n h Reads] t assms(2)
    by (auto simp: serial_inv_def lock_view_def)
qed

lemma serial_LockRead:
  assumes "events_ok api sig man" "n < 2 ^ 32" "serial_inv sig man n (l, h)"
  shows "(\<exists>l'. LockRead api t l = Some l') \<longleftrightarrow> (\<forall>u. h u \<noteq> Writes)"
proof -
  have v: "lock_view sig man (count_of Reads n h) (count_of Writes n h) l" and f: "\<forall>u \<ge> n. h u = Free"
    using assms(3) by (simp_all add: serial_inv_def)
  have "count_of Reads n h < 2 ^ 32" using count_of_le [of Reads n h] assms(2) by simp
  note r = LockRead_view [OF assms(1) v this]
  have "(\<forall>u. h u \<noteq> Writes) \<longleftrightarrow> count_of Writes n h = 0"
    using f by (auto simp: count_of_0) (metis hold.distinct(3) not_le)
  then show ?thesis using r LockRead_free [OF assms(1), of _ l t] v by auto
qed

lemma serial_LockWrite:
  assumes "events_ok api sig man" "serial_inv sig man n (l, h)" "h t = Free"
  shows "(\<exists>l'. LockWrite api t l = Some l') \<longleftrightarrow> (\<forall>u. h u = Free)"
proof -
  have v: "lock_view sig man (count_of Reads n h) (count_of Writes n h) l" "wf_mutex (writeMutex l)"
      "\<forall>u. held u (writeMutex l) = (if h u = Writes then 1 else 0)" and f: "\<forall>u \<ge> n. h u = Free"
    using assms(2) by (simp_all add: serial_inv_def)
  show ?thesis
  proof
    assume "\<exists>l'. LockWrite api t l = Some l'"
    then obtain l' where l': "LockWrite api t l = Some l'" ..
    then have "Mutex_Lock t (writeMutex l) \<noteq> None" by (auto simp: LockWrite_def split: option.splits)
    then have nw: "h u \<noteq> Writes" for u
      using Mutex_blocks [OF v(2), of t] v(3) assms(3) by (cases "u = t") (auto split: if_splits)
    then have "count_of Writes n h = 0" by (simp add: count_of_0)
    then have "count_of Reads n h = 0" using LockWrite_view [OF assms(1) _ l'] v(1) by auto
    then show "\<forall>u. h u = Free" using f nw by (metis count_of_0 hold.exhaust not_le)
  next
    assume free: "\<forall>u. h u = Free"
    then have "owner (writeMutex l) = None \<and> depth (writeMutex l) = 0"
      using v(2,3) by (cases "owner (writeMutex l)") (auto simp: held_def wf_mutex_def split: if_splits)
    then have "mutex_free (writeMutex l)" by (simp add: mutex_free_def Mutex_new_def)
    moreover have "lock_view sig man 0 0 l" using v(1) free by (simp add: count_of_def)
    ultimately show "\<exists>l'. LockWrite api t l = Some l'" by (intro LockWrite_free [OF assms(1)])
  qed
qed

text \<open>
  The methods as functions and the steps of their accesses agree: stepping a thread through a call, with
  no other thread in between, ends after at most four accesses in the state the method computes, or
  blocks where the method blocks.
\<close>

lemma rw_call_finishes:
  assumes "rw_call op th = Some th'"
  shows "finish 4 api t th' l =
     (case op of
        OpLockRead \<Rightarrow> map_option (Pair (got_read th)) (LockRead api t l)
      | OpUnlockRead \<Rightarrow> Some (th\<lparr>reads := reads th - 1\<rparr>, UnlockRead api t l)
      | OpLockWrite \<Rightarrow> map_option (Pair (got_write th)) (LockWrite api t l)
      | OpUnlockWrite \<Rightarrow> Some (th\<lparr>writes := writes th - 1\<rparr>, UnlockWrite api t l))"
proof -
  have four: "(4::nat) = Suc (Suc (Suc (Suc 0)))" by simp
  show ?thesis
  proof (cases op)
    case OpLockRead
    then have "th' = th\<lparr>pc := LR_wait\<rparr>"
      using assms by (simp split: if_splits)
    with OpLockRead show ?thesis
      by (cases "Event_Wait api (writeEvent l)"; cases "readCount l = 0")
        (simp_all add: four rw_exec_def LockRead_def Let_def got_read_def)
  next
    case OpUnlockRead
    then have "th' = th\<lparr>pc := UR_count, reads := reads th - 1\<rparr>" "pc th = Running"
      using assms by (simp_all split: if_splits)
    with OpUnlockRead show ?thesis
      by (cases "readCount l - 1 = 0"; cases th) (simp_all add: four rw_exec_def UnlockRead_def Let_def)
  next
    case OpLockWrite
    then have "th' = th\<lparr>pc := LW_mutex\<rparr>"
      using assms by (simp split: if_splits)
    with OpLockWrite show ?thesis
      by (cases "Mutex_Lock t (writeMutex l)"; cases "writeCount l = 0"; cases "Event_Wait api (readEvent l)")
        (simp_all add: four rw_exec_def LockWrite_def Let_def got_write_def)
  next
    case OpUnlockWrite
    then have "th' = th\<lparr>pc := UW_count, writes := writes th - 1\<rparr>" "pc th = Running"
      using assms by (simp_all split: if_splits)
    with OpUnlockWrite show ?thesis
      by (cases "writeCount l - 1 = 0"; cases th) (simp_all add: four rw_exec_def UnlockWrite_def Let_def)
  qed
qed

section \<open>Properties\<close>

text \<open>
  C5. Writers exclude writers. In any interleaving of any number of threads, at most one thread holds
  the write lock at a time, whatever the events do.
\<close>

theorem rw_write_exclusion:
  assumes "rw_reachable api n (l, ths)" "0 < writes (ths t)" "0 < writes (ths u)"
  shows "t = u"
proof -
  have "mutex_inv (l, ths)" by (rule reachable_mutex_inv [OF assms(1)])
  then have "0 < held t (writeMutex l)" "0 < held u (writeMutex l)"
    using assms(2,3) by (simp_all add: mutex_inv_def write_depth_def)
  then show ?thesis by (rule held_exclusive)
qed

definition writer_schedule :: "tid \<Rightarrow> move list" where
  "writer_schedule t = [Call t OpLockWrite, Step t, Step t, Step t, Step t]"

theorem rw_write_exclusion_witness:
  "\<exists>l ths. rw_reachable flag_events 2 (l, ths) \<and> writes (ths 1) = 1 \<and> (\<forall>u. 0 < writes (ths u) \<longrightarrow> 1 = u)"
proof -
  obtain l ths where p: "play flag_events 2 (writer_schedule 1) (rw_start flag_events) = Some (l, ths)" "writes (ths 1) = 1"
    by (simp add: writer_schedule_def rw_start_def idle_def rw_exec_def ReadWriteLock_new_def flag_events_def
        Event_new_def Event_Wait_def Event_Reset_def Mutex_new_def Mutex_Lock_def got_write_def)
  have "rw_reachable flag_events 2 (l, ths)"
    by (rule play_reachable [OF rw_reachable_start p(1)])
  then show ?thesis
    using rw_write_exclusion [of flag_events 2 l ths 1] p(2) by auto
qed

text \<open>
  Readers are counted. In any interleaving \<open>_readCount\<close> is, modulo \<open>2 ^ 32\<close>, the number of read
  locks held, plus the calls that have counted themselves in but not returned, or not yet out.
\<close>

theorem rw_read_count:
  assumes "rw_reachable api n (l, ths)"
  shows "readCount l = of_nat (\<Sum>t<n. read_depth (ths t))"
  using reachable_count_inv [OF assms] by (simp add: count_inv_def)

theorem rw_read_count_witness:
  "readCount (ReadWriteLock_new flag_events) = of_nat (\<Sum>t<(3::nat). read_depth idle)"
  using rw_read_count [of flag_events 3 "ReadWriteLock_new flag_events" "\<lambda>_. idle"] rw_reachable_start [of flag_events 3]
  by (simp add: rw_start_def)

text \<open>
  C7. The lock as it is meant: many readers or one writer. As long as no call is interrupted by
  another, fewer than \<open>2 ^ 32\<close> threads use the lock, and a thread locks only when it holds nothing
  (so nobody enters twice), \<open>LockRead\<close> returns exactly if nobody holds the lock for writing, however
  many hold it for reading, \<open>LockWrite\<close> returns exactly if nobody holds it at all, and a thread that
  holds it for writing is the only one that holds anything.
\<close>

theorem serial_exclusion:
  assumes "events_ok api sig man" "n < 2 ^ 32" "serial_reachable api n (l, h)" "h t = Free"
  shows "((\<exists>l'. LockRead api t l = Some l') \<longleftrightarrow> (\<forall>u. h u \<noteq> Writes)) \<and>
     ((\<exists>l'. LockWrite api t l = Some l') \<longleftrightarrow> (\<forall>u. h u = Free)) \<and>
     (\<forall>u v. h u = Writes \<and> h v \<noteq> Free \<longrightarrow> u = v)"
proof -
  note inv = serial_reachable_inv [OF assms(1-3)]
  show ?thesis
    using serial_LockRead [OF assms(1,2) inv] serial_LockWrite [OF assms(1) inv assms(4)] serial_writer_alone [OF inv] by blast
qed

theorem serial_exclusion_witness:
  "\<exists>l h. serial_reachable flag_events 3 (l, h) \<and> h 0 = Reads \<and> h 1 = Reads \<and>
     (\<exists>l'. LockRead flag_events 2 l = Some l') \<and> LockWrite flag_events 2 l = None"
proof -
  let ?l = "ReadWriteLock_new flag_events" and ?h = "(\<lambda>_. Free)(0 := Reads)"
  obtain l where l: "LockRead flag_events 0 ?l = Some l" "writeEvent l = (True, True)"
    by (simp add: LockRead_def Event_Wait_def ReadWriteLock_new_def flag_events_def Event_new_def Event_Reset_def Let_def)
  then obtain l' where l': "LockRead flag_events 1 l = Some l'"
    by (simp add: LockRead_def Event_Wait_def flag_events_def Let_def)
  have s: "serial_step flag_events 3 (?l, \<lambda>_. Free) (l, ?h)" by (rule lock_read) (simp_all add: l)
  have s': "serial_step flag_events 3 (l, ?h) (l', ?h(1 := Reads))" by (rule lock_read) (use l' in simp_all)
  have r: "serial_reachable flag_events 3 (l', ?h(1 := Reads))"
    using rtranclp.rtrancl_into_rtrancl [OF r_into_rtranclp [of "serial_step flag_events 3", OF s] s']
    by (simp add: serial_reachable_def)
  let ?g = "?h(1 := Reads) :: tid \<Rightarrow> hold"
  have g: "?g 2 = Free" "?g 0 = Reads" "?g 1 = Reads" "\<forall>u. ?g u \<noteq> Writes" by simp_all
  have "(3 :: nat) < 2 ^ 32" by simp
  note e = serial_exclusion [OF flag_events_ok this r g(1)]
  have "\<exists>m. LockRead flag_events 2 l' = Some m" by (rule iffD2 [OF conjunct1 [OF e] g(4)])
  moreover have "\<not> (\<forall>u. ?g u = Free)" using g(2) by (metis hold.distinct(1))
  then have "\<not> (\<exists>m. LockWrite flag_events 2 l' = Some m)" using conjunct1 [OF conjunct2 [OF e]] by blast
  then have "LockWrite flag_events 2 l' = None" by (cases "LockWrite flag_events 2 l'") simp_all
  ultimately show ?thesis using r g(2,3) by blast
qed

text \<open>
  C23. A reader beside a writer. \<open>LockRead\<close> passes the wait on \<open>_writeEvent\<close> before it counts itself
  in. A writer that takes the lock between the two finds no reader to wait for: both calls return,
  and one thread reads while another writes.
\<close>

theorem rw_reader_beside_writer:
  assumes "events_ok api sig man"
  shows "\<exists>l ths. rw_reachable api 2 (l, ths) \<and> pc (ths 0) = Running \<and> reads (ths 0) = 1 \<and>
     pc (ths 1) = Running \<and> writes (ths 1) = 1"
proof -
  have s: "sig (Event_new api True True)" using events_okD(1) [OF assms] by simp
  obtain e where e: "Event_Wait api (Event_new api True True) = Some e"
    using s events_okD(7) [OF assms, of "Event_new api True True"] by auto
  let ?ms = "[Call 0 OpLockRead, Step 0] @ writer_schedule 1 @ [Step 0, Step 0]"
  obtain l ths where "play api 2 ?ms (rw_start api) = Some (l, ths)" "pc (ths 0) = Running" "reads (ths 0) = 1"
      "pc (ths 1) = Running" "writes (ths 1) = 1"
    by (simp add: writer_schedule_def rw_start_def idle_def rw_exec_def ReadWriteLock_new_def e Mutex_new_def
        Mutex_Lock_def got_write_def got_read_def)
  then show ?thesis using play_reachable [OF rw_reachable_start] by blast
qed

theorem rw_reader_beside_writer_witness:
  "\<exists>l ths. rw_reachable flag_events 2 (l, ths) \<and> reads (ths 0) = 1 \<and> writes (ths 1) = 1"
  using rw_reader_beside_writer [OF flag_events_ok] by blast

text \<open>
  C22. A late signal. \<open>UnlockRead\<close> sets \<open>_readEvent\<close> after it has counted itself out. A reader that
  enters between the two is overtaken by the signal: it holds the lock, all earlier calls have
  returned, and still a writer that comes now does not wait for it.
\<close>

theorem rw_late_signal:
  assumes "events_ok api sig man"
  shows "\<exists>l ths. rw_reachable api 3 (l, ths) \<and> (\<forall>t. pc (ths t) = Running) \<and> reads (ths 1) = 1 \<and>
     (\<exists>l' ths'. play api 3 (writer_schedule 2) (l, ths) = Some (l', ths') \<and>
        pc (ths' 2) = Running \<and> writes (ths' 2) = 1 \<and> reads (ths' 1) = 1)"
proof -
  have s: "sig (Event_new api True True)" "man (Event_new api True True)" using events_okD(1,2) [OF assms] by simp_all
  obtain e where e: "Event_Wait api (Event_new api True True) = Some e"
    using s events_okD(7) [OF assms, of "Event_new api True True"] by auto
  have "sig e" using events_ok_wait [OF assms e] s by simp
  then obtain e' where e': "Event_Wait api e = Some e'"
    using events_okD(7) [OF assms, of e] by auto
  obtain f where f: "Event_Wait api (Event_Set api (Event_Reset api (Event_Reset api (Event_new api True True)))) = Some f"
    using events_okD(3,7) [OF assms] by (metis not_None_eq)
  let ?ms = "[Call 0 OpLockRead, Step 0, Step 0, Step 0, Call 0 OpUnlockRead, Step 0,
      Call 1 OpLockRead, Step 1, Step 1, Step 1, Step 0]"
  obtain l ths where p: "play api 3 ?ms (rw_start api) = Some (l, ths)" "\<forall>t. pc (ths t) = Running" "reads (ths 1) = 1"
      "writes (ths 2) = 0" "writeCount l = 0" "writeMutex l = Mutex_new"
      "readEvent l = Event_Set api (Event_Reset api (Event_Reset api (Event_new api True True)))"
    by (simp add: rw_start_def idle_def rw_exec_def ReadWriteLock_new_def e e' got_read_def)
  then have "\<exists>l' ths'. play api 3 (writer_schedule 2) (l, ths) = Some (l', ths') \<and>
        pc (ths' 2) = Running \<and> writes (ths' 2) = 1 \<and> reads (ths' 1) = 1"
    by (simp add: writer_schedule_def rw_exec_def Mutex_Lock_def Mutex_new_def got_write_def f)
  with p show ?thesis using play_reachable [OF rw_reachable_start p(1)] by blast
qed

theorem rw_late_signal_witness:
  "\<exists>l ths l' ths'. rw_reachable flag_events 3 (l, ths) \<and> (\<forall>t. pc (ths t) = Running) \<and> reads (ths 1) = 1 \<and>
     play flag_events 3 (writer_schedule 2) (l, ths) = Some (l', ths') \<and> writes (ths' 2) = 1 \<and> reads (ths' 1) = 1"
  using rw_late_signal [OF flag_events_ok] by blast

end
