(* ===== verification/StdMap.thy ===== *)
theory StdMap
  imports Prelude "HOL-Library.List_Lexorder"
begin

text \<open>
  \<open>std::map\<close>, as the server uses it for the cache (keys are strings, compared byte by byte, which is
  the lexicographic order of \<open>List_Lexorder\<close>) and for the sockets (keys are session ids). A map is the
  list of its entries in the order an iterator visits them, that is by key.

  The locale \<open>ordered_map\<close> is the contract the clients rely on: what a lookup returns after each
  operation, and that a traversal visits every entry once, in order of the keys.
\<close>

section \<open>The operations\<close>

fun map_find :: "'k::linorder \<Rightarrow> ('k \<times> 'v) list \<Rightarrow> 'v option" where
  "map_find k [] = None"
| "map_find k ((k', v) # m) = (if k = k' then Some v else if k < k' then None else map_find k m)"

text \<open>\<open>m[k] = v\<close>: an existing entry is overwritten.\<close>

fun map_assign :: "'k::linorder \<Rightarrow> 'v \<Rightarrow> ('k \<times> 'v) list \<Rightarrow> ('k \<times> 'v) list" where
  "map_assign k v [] = [(k, v)]"
| "map_assign k v ((k', v') # m) =
     (if k = k' then (k, v) # m else if k < k' then (k, v) # (k', v') # m else (k', v') # map_assign k v m)"

fun map_erase :: "'k::linorder \<Rightarrow> ('k \<times> 'v) list \<Rightarrow> ('k \<times> 'v) list" where
  "map_erase k [] = []"
| "map_erase k ((k', v) # m) = (if k = k' then m else if k < k' then (k', v) # m else (k', v) # map_erase k m)"

definition map_clear :: "('k::linorder \<times> 'v) list \<Rightarrow> ('k \<times> 'v) list" where
  "map_clear m = []"

definition wf_map :: "('k::linorder \<times> 'v) list \<Rightarrow> bool" where
  "wf_map m \<longleftrightarrow> sorted_wrt (<) (map fst m)"

section \<open>The contract\<close>

locale ordered_map =
  fixes empty :: 'm
    and find :: "'k::linorder \<Rightarrow> 'm \<Rightarrow> 'v option"
    and assign :: "'k \<Rightarrow> 'v \<Rightarrow> 'm \<Rightarrow> 'm"
    and erase :: "'k \<Rightarrow> 'm \<Rightarrow> 'm"
    and entries :: "'m \<Rightarrow> ('k \<times> 'v) list"
    and invar :: "'m \<Rightarrow> bool"
  assumes invar_empty: "invar empty"
    and invar_assign: "invar m \<Longrightarrow> invar (assign k v m)"
    and invar_erase: "invar m \<Longrightarrow> invar (erase k m)"
    and find_empty: "find k empty = None"
    and find_assign: "invar m \<Longrightarrow> find j (assign k v m) = (if j = k then Some v else find j m)"
    and find_erase: "invar m \<Longrightarrow> find j (erase k m) = (if j = k then None else find j m)"
    and entries_sorted: "invar m \<Longrightarrow> sorted_wrt (<) (map fst (entries m))"
    and find_entries: "invar m \<Longrightarrow> find k m = map_of (entries m) k"
begin

text \<open>The map as a function, for the specifications of its clients.\<close>

definition lookup :: "'m \<Rightarrow> 'k \<Rightarrow> 'v option" where
  "lookup m = (\<lambda>k. find k m)"

lemma lookup_empty: "lookup empty = Map.empty"
  by (rule ext) (simp add: lookup_def find_empty)

lemma lookup_assign: "invar m \<Longrightarrow> lookup (assign k v m) = (lookup m)(k \<mapsto> v)"
  by (rule ext) (simp add: lookup_def find_assign)

lemma lookup_erase: "invar m \<Longrightarrow> lookup (erase k m) = (lookup m)(k := None)"
  by (rule ext) (simp add: lookup_def find_erase)

lemma entry_iff: "invar m \<Longrightarrow> (k, v) \<in> set (entries m) \<longleftrightarrow> find k m = Some v"
  using entries_sorted [of m] by (simp add: find_entries strict_sorted_iff)

lemma assign_assign: "invar m \<Longrightarrow> lookup (assign k v (assign k w m)) = lookup (assign k v m)"
  by (simp add: lookup_assign invar_assign)

lemma assign_commute: "invar m \<Longrightarrow> j \<noteq> k \<Longrightarrow> lookup (assign k v (assign j w m)) = lookup (assign j w (assign k v m))"
  by (simp add: lookup_assign invar_assign fun_upd_twist)

lemma erase_assign: "invar m \<Longrightarrow> find k m = None \<Longrightarrow> lookup (erase k (assign k v m)) = lookup m"
  by (rule ext) (simp add: lookup_erase lookup_assign invar_assign, simp add: lookup_def)

end

section \<open>The sorted list keeps it\<close>

lemma wf_map_Cons: "wf_map ((k, v) # m) \<longleftrightarrow> (\<forall>k' \<in> fst ` set m. k < k') \<and> wf_map m"
  by (auto simp: wf_map_def)

lemma keys_assign: "fst ` set (map_assign k v m) = insert k (fst ` set m)"
  by (induction k v m rule: map_assign.induct) auto

lemma keys_erase: "fst ` set (map_erase k m) \<subseteq> fst ` set m"
  by (induction k m rule: map_erase.induct) auto

lemma wf_map_assign: "wf_map m \<Longrightarrow> wf_map (map_assign k v m)"
  by (induction k v m rule: map_assign.induct) (auto simp: wf_map_Cons keys_assign)

lemma wf_map_erase: "wf_map m \<Longrightarrow> wf_map (map_erase k m)"
proof (induction k m rule: map_erase.induct)
  case (2 k k' v m)
  have "\<forall>j \<in> fst ` set (map_erase k m). k' < j" if "\<forall>j \<in> fst ` set m. k' < j"
    using that keys_erase [of k m] by blast
  with 2 show ?case by (auto simp: wf_map_Cons)
qed simp

lemma map_find_key: "map_find k m = Some v \<Longrightarrow> (k, v) \<in> set m"
  by (induction k m rule: map_find.induct) (auto split: if_splits)

lemma map_find_assign: "wf_map m \<Longrightarrow> map_find j (map_assign k v m) = (if j = k then Some v else map_find j m)"
  by (induction k v m rule: map_assign.induct) (auto simp: wf_map_Cons)

lemma map_find_below: "wf_map m \<Longrightarrow> \<forall>k' \<in> fst ` set m. k < k' \<Longrightarrow> map_find k m = None"
  by (cases m) auto

lemma map_find_erase: "wf_map m \<Longrightarrow> map_find j (map_erase k m) = (if j = k then None else map_find j m)"
proof (induction k m rule: map_erase.induct)
  case (2 k k' v m)
  have "map_find j m = None" if "j \<le> k'"
    using 2(2) that by (intro map_find_below) (auto simp: wf_map_Cons)
  with 2 show ?case
    by (cases "j = k") (auto simp: wf_map_Cons)
qed simp

lemma map_find_map_of: "wf_map m \<Longrightarrow> map_find k m = map_of m k"
proof (induction k m rule: map_find.induct)
  case (2 k k' v m)
  then have "k < k' \<Longrightarrow> map_of m k = None"
    by (auto simp: wf_map_Cons map_of_eq_None_iff)
  with 2 show ?case by (auto simp: wf_map_Cons)
qed simp

interpretation std_map: ordered_map "[]" map_find map_assign map_erase id wf_map
  by unfold_locales
    (simp_all add: wf_map_assign wf_map_erase map_find_assign map_find_erase map_find_map_of [symmetric],
      simp_all add: wf_map_def)

end
