(* ===== verification/Server.thy ===== *)
theory Server
  imports Socket Sync StdMap
begin

text \<open>
  \<open>MemcacheServer\<close>: the cache, the table of sockets and the list of closed ones, with the locks that
  guard them. Each method takes its locks as the code does, so a call that would wait for a lock for
  ever is \<open>None\<close>; the thread that calls is the argument \<open>t\<close>. A pointer to a socket is the socket;
  destroying the object it points to closes it.

  Specification: the cache is a function from keys to entries, a set request is an update of it and
  a get request a lookup (\<open>cache\<close>, \<open>serve\<close>).
\<close>

section \<open>State\<close>

record DataEntry =
  Flags :: "u32 ind"
  EntryBuffer :: "DataBuffer option"

record 'e MemcacheServer =
  dataMap :: "(u8 list \<times> DataEntry) list"
  dataMapLock :: "'e ReadWriteLock"
  socketMap :: "(u32 \<times> MemcacheSocket option) list"
  sockMapMutex :: Mutex
  socketDisposal :: "MemcacheSocket option list"
  sockListMutex :: Mutex
  listenSock :: MemcacheSocket
  mgmtThread :: Thread
  threadEvent :: 'e

definition MemcacheServer_new :: "heap \<Rightarrow> 'e event_api \<Rightarrow> u32 \<Rightarrow> ('e MemcacheServer \<times> u32) res" where
  "MemcacheServer_new ok api n =
     bindE (MemcacheSocket_new ok n) (\<lambda>(sock, n).
     Inr (\<lparr>dataMap = [], dataMapLock = ReadWriteLock_new api, socketMap = [], sockMapMutex = Mutex_new,
       socketDisposal = [], sockListMutex = Mutex_new, listenSock = sock, mgmtThread = Thread_new,
       threadEvent = Event_new api False False\<rparr>, n))"

text \<open>The scopes of the four locks.\<close>

definition with_read_lock ::
  "'e event_api \<Rightarrow> tid \<Rightarrow> ('e MemcacheServer \<Rightarrow> ('a \<times> 'e MemcacheServer) run) \<Rightarrow> 'e MemcacheServer \<Rightarrow>
     ('a \<times> 'e MemcacheServer) run" where
  "with_read_lock api =
     LockHelper dataMapLock (\<lambda>l s. s\<lparr>dataMapLock := l\<rparr>) (LockRead api) (UnlockRead api)"

definition with_write_lock ::
  "'e event_api \<Rightarrow> tid \<Rightarrow> ('e MemcacheServer \<Rightarrow> ('a \<times> 'e MemcacheServer) run) \<Rightarrow> 'e MemcacheServer \<Rightarrow>
     ('a \<times> 'e MemcacheServer) run" where
  "with_write_lock api =
     LockHelper dataMapLock (\<lambda>l s. s\<lparr>dataMapLock := l\<rparr>) (LockWrite api) (UnlockWrite api)"

definition with_map_mutex ::
  "tid \<Rightarrow> ('e MemcacheServer \<Rightarrow> ('a \<times> 'e MemcacheServer) run) \<Rightarrow> 'e MemcacheServer \<Rightarrow>
     ('a \<times> 'e MemcacheServer) run" where
  "with_map_mutex = LockHelper sockMapMutex (\<lambda>m s. s\<lparr>sockMapMutex := m\<rparr>) Mutex_Lock Mutex_Unlock"

definition with_list_mutex ::
  "tid \<Rightarrow> ('e MemcacheServer \<Rightarrow> ('a \<times> 'e MemcacheServer) run) \<Rightarrow> 'e MemcacheServer \<Rightarrow>
     ('a \<times> 'e MemcacheServer) run" where
  "with_list_mutex = LockHelper sockListMutex (\<lambda>m s. s\<lparr>sockListMutex := m\<rparr>) Mutex_Lock Mutex_Unlock"

section \<open>Requests\<close>

text \<open>\<open>static_cast\<close> to a class the object is not of is undefined.\<close>

definition cast_to :: "derived \<Rightarrow> BaseMessage \<Rightarrow> BaseMessage res" where
  "cast_to d m = (if same_class d (m_derived m) then Inr m else Inl BadCast)"

definition on_get :: "heap \<Rightarrow> BaseMessage \<Rightarrow> 'e MemcacheServer \<Rightarrow> (BaseMessage \<times> 'e MemcacheServer) run" where
  "on_get ok message s =
     andThen (Some (cast_to GetRequest message)) (\<lambda>theReq.
     andThen (Some (GetResponse_new ok)) (\<lambda>theRes.
     case map_find (GetKey theReq) (dataMap s) of
       Some entry \<Rightarrow>
         (case EntryBuffer entry of
            Some b \<Rightarrow>
              andThen (Some (SetFlags (Flags entry) theRes)) (\<lambda>theRes.
              andThen (Some (SetValue ok b theRes)) (\<lambda>theRes.
              Some (Inr (SetStatus kResNoError theRes, s))))
          | None \<Rightarrow> Some (Inr (SetStatus kResNotStored theRes, s)))
     | None \<Rightarrow> Some (Inr (SetStatus kResKeyNotFound theRes, s))))"

definition on_set ::
  "heap \<Rightarrow> 'e event_api \<Rightarrow> tid \<Rightarrow> BaseMessage \<Rightarrow> 'e MemcacheServer \<Rightarrow> (BaseMessage \<times> 'e MemcacheServer) run" where
  "on_set ok api t message s =
     andThen (Some (cast_to (SetRequest DataBuffer_new (Some 0) None) message)) (\<lambda>theReq.
     andThen (Some (SetResponse_new ok)) (\<lambda>theRes.
     andThen (Some (GetFlags theReq)) (\<lambda>flags.
     andThen (Some (GetValue theReq)) (\<lambda>v.
     andThen (Some (operator_assign ok False v DataBuffer_new)) (\<lambda>b.
     let entry = \<lparr>Flags = flags, EntryBuffer = Some b\<rparr> in
     case LockWrite api t (dataMapLock s) of
       None \<Rightarrow> None
     | Some l \<Rightarrow>
         let s = s\<lparr>dataMapLock := l\<rparr>;
             s = s\<lparr>dataMap := map_assign (GetKey theReq) entry (dataMap s)\<rparr>;
             s = s\<lparr>dataMapLock := UnlockWrite api t (dataMapLock s)\<rparr>
         in Some (Inr (SetStatus kResNoError theRes, s)))))))"

definition srv_OnReceivedMessage ::
  "heap \<Rightarrow> 'e event_api \<Rightarrow> tid \<Rightarrow> BaseMessage \<Rightarrow> 'e MemcacheServer \<Rightarrow>
     (BaseMessage option \<times> 'e MemcacheServer) run" where
  "srv_OnReceivedMessage ok api t message s =
     (let header = GetHeader message in
      if Magic header = kMagicReq
      then
        if Opcode header = kOpGet
        then andThen (with_read_lock api t (on_get ok message) s) (\<lambda>(r, s). Some (Inr (Some r, s)))
        else if Opcode header = kOpSet
        then andThen (on_set ok api t message s) (\<lambda>(r, s). Some (Inr (Some r, s)))
        else Some (Inr (None, s))
      else Some (Inr (None, s)))"

section \<open>Sockets\<close>

text \<open>\<open>shared_ptr::reset\<close> of the last pointer to a socket runs its destructor, which closes it.\<close>

definition destroy_socket :: "'w winsock \<Rightarrow> MemcacheSocket option \<Rightarrow> 'w \<Rightarrow> 'w" where
  "destroy_socket ws p w = (case p of None \<Rightarrow> w | Some sock \<Rightarrow> MemcacheSocket_delete ws sock w)"

definition srv_OnAcceptConn ::
  "'w winsock \<Rightarrow> tid \<Rightarrow> MemcacheSocket \<Rightarrow> 'e MemcacheServer \<Rightarrow> 'w \<Rightarrow> ('e MemcacheServer \<times> 'w) run" where
  "srv_OnAcceptConn ws t sock s w =
     andThen (with_map_mutex t (\<lambda>s.
       let old = (case map_find (GetSessionID sock) (socketMap s) of None \<Rightarrow> None | Some p \<Rightarrow> p)
       in Some (Inr (destroy_socket ws old w, s\<lparr>socketMap := map_assign (GetSessionID sock) (Some sock) (socketMap s)\<rparr>))) s)
     (\<lambda>(w, s). Some (Inr (s, w)))"

definition srv_OnSocketClosed ::
  "'e event_api \<Rightarrow> tid \<Rightarrow> u32 \<Rightarrow> 'e MemcacheServer \<Rightarrow> 'e MemcacheServer run" where
  "srv_OnSocketClosed api t ident s =
     andThen (with_map_mutex t (\<lambda>s.
       case map_find ident (socketMap s) of
         None \<Rightarrow> Some (Inr ((), s))
       | Some p \<Rightarrow>
           andThen (with_list_mutex t (\<lambda>s. Some (Inr ((), s\<lparr>socketDisposal := socketDisposal s @ [p]\<rparr>))) s) (\<lambda>(_, s).
           let s = s\<lparr>threadEvent := Event_Set api (threadEvent s)\<rparr>
           in Some (Inr ((), s\<lparr>socketMap := map_erase ident (socketMap s)\<rparr>)))) s)
     (\<lambda>(_, s). Some (Inr s))"

definition ProcessClosedSockets ::
  "'w winsock \<Rightarrow> tid \<Rightarrow> 'e MemcacheServer \<Rightarrow> 'w \<Rightarrow> ('w \<times> 'e MemcacheServer) run" where
  "ProcessClosedSockets ws t s w =
     with_list_mutex t (\<lambda>s. Some (Inr (fold (destroy_socket ws) (socketDisposal s) w, s\<lparr>socketDisposal := []\<rparr>))) s"

text \<open>The loop of \<open>CloseAllSockets\<close>, over the entries in order; each is erased as it is passed.\<close>

fun close_entries ::
  "'w winsock \<Rightarrow> tid \<Rightarrow> (u32 \<times> MemcacheSocket option) list \<Rightarrow> 'e MemcacheServer \<Rightarrow> 'w \<Rightarrow>
     ('w \<times> 'e MemcacheServer) run" where
  "close_entries ws t [] s w = Some (Inr (w, s))"
| "close_entries ws t ((ident, p) # es) s w =
     (case p of
        None \<Rightarrow> close_entries ws t es (s\<lparr>socketMap := map_erase ident (socketMap s)\<rparr>) w
      | Some sock \<Rightarrow>
          (let (sock, w) = Close ws sock w in
           andThen (with_list_mutex t (\<lambda>s. Some (Inr ((), s\<lparr>socketDisposal := socketDisposal s @ [Some sock]\<rparr>))) s)
             (\<lambda>(_, s). close_entries ws t es (s\<lparr>socketMap := map_erase ident (socketMap s)\<rparr>) w)))"

definition CloseAllSockets ::
  "'w winsock \<Rightarrow> tid \<Rightarrow> 'e MemcacheServer \<Rightarrow> 'w \<Rightarrow> ('w \<times> 'e MemcacheServer) run" where
  "CloseAllSockets ws t s w = with_map_mutex t (\<lambda>s. close_entries ws t (socketMap s) s w) s"

section \<open>Start, shutdown, the cache as a whole\<close>

definition ClearDataCache :: "'e event_api \<Rightarrow> tid \<Rightarrow> 'e MemcacheServer \<Rightarrow> (unit \<times> 'e MemcacheServer) run" where
  "ClearDataCache api t s =
     with_write_lock api t (\<lambda>s. Some (Inr ((), s\<lparr>dataMap := map_clear (dataMap s)\<rparr>))) s"

text \<open>What is printed: the number of entries, then key, flags and size of each.\<close>

definition PrintDataCache ::
  "'e event_api \<Rightarrow> tid \<Rightarrow> 'e MemcacheServer \<Rightarrow> ((nat \<times> (u8 list \<times> u32 ind \<times> size_t option) list) \<times> 'e MemcacheServer) run" where
  "PrintDataCache api t s =
     with_read_lock api t (\<lambda>s. Some (Inr ((length (dataMap s),
       map (\<lambda>(k, e). (k, Flags e, map_option GetBytesWritten (EntryBuffer e))) (dataMap s)), s))) s"

definition Shutdown ::
  "'e event_api \<Rightarrow> 'w winsock \<Rightarrow> tid \<Rightarrow> 'e MemcacheServer \<Rightarrow> 'w \<Rightarrow> ('w \<times> 'e MemcacheServer) run" where
  "Shutdown api ws t s w =
     (let (sock, w) = Close ws (listenSock s) w; s = s\<lparr>listenSock := sock\<rparr> in
      andThen (CloseAllSockets ws t s w) (\<lambda>(w, s).
      andThen (ProcessClosedSockets ws t s w) (\<lambda>(w, s).
      andThen (ClearDataCache api t s) (\<lambda>(_, s).
      let s = s\<lparr>mgmtThread := Thread_Stop False (mgmtThread s)\<rparr>;
          s = s\<lparr>threadEvent := Event_Set api (threadEvent s)\<rparr>;
          s = s\<lparr>mgmtThread := Thread_Stop True (mgmtThread s)\<rparr>
      in Some (Inr (w, s))))))"

definition Start ::
  "'e event_api \<Rightarrow> 'w winsock \<Rightarrow> tid \<Rightarrow> u16 \<Rightarrow> 'e MemcacheServer \<Rightarrow> 'w \<Rightarrow> (bool \<times> 'w \<times> 'e MemcacheServer) run" where
  "Start api ws t listenPort s w =
     (let s = s\<lparr>mgmtThread := Thread_Start (mgmtThread s)\<rparr> in
      if listenPort > 0
      then
        (let (r, sock, w) = Listen ws listenPort True (listenSock s) w; s = s\<lparr>listenSock := sock\<rparr> in
         if r then Some (Inr (True, w, s))
         else andThen (Shutdown api ws t s w) (\<lambda>(w, s). Some (Inr (False, w, s))))
      else Some (Inr (True, w, s)))"

text \<open>The destructor.\<close>

definition MemcacheServer_delete ::
  "'e event_api \<Rightarrow> 'w winsock \<Rightarrow> tid \<Rightarrow> 'e MemcacheServer \<Rightarrow> 'w \<Rightarrow> ('w \<times> 'e MemcacheServer) run" where
  "MemcacheServer_delete api ws t s w = Shutdown api ws t s w"

text \<open>
  The management thread. \<open>others\<close> is what the other threads do to the server and to the world while
  the thread waits for its event. \<open>srv_Run_body\<close> is one pass of the loop; its flag says whether the
  loop goes on (no \<open>break\<close>).
\<close>

definition srv_Run_body ::
  "'e event_api \<Rightarrow> 'w winsock \<Rightarrow> tid \<Rightarrow> ('e MemcacheServer \<times> 'w \<Rightarrow> 'e MemcacheServer \<times> 'w) \<Rightarrow> 'e MemcacheServer \<Rightarrow> 'w \<Rightarrow>
     (bool \<times> 'w \<times> 'e MemcacheServer) run" where
  "srv_Run_body api ws t others s w =
     (let (s, w) = others (s\<lparr>threadEvent := Event_TimedWait api 100 (threadEvent s)\<rparr>, w) in
      if asked_to_stop ws w then Some (Inr (False, w, s))
      else andThen (ProcessClosedSockets ws t s w) (\<lambda>(w, s). Some (Inr (True, w, s))))"

partial_function (option) srv_Run ::
  "'e event_api \<Rightarrow> 'w winsock \<Rightarrow> tid \<Rightarrow> ('e MemcacheServer \<times> 'w \<Rightarrow> 'e MemcacheServer \<times> 'w) \<Rightarrow> 'e MemcacheServer \<Rightarrow> 'w \<Rightarrow>
     ('w \<times> 'e MemcacheServer) run" where
  "srv_Run api ws t others s w =
     (if asked_to_stop ws w then Some (Inr (w, s))
      else
        (case srv_Run_body api ws t others s w of
           None \<Rightarrow> None
         | Some (Inl f) \<Rightarrow> Some (Inl f)
         | Some (Inr r) \<Rightarrow>
             if fst r then srv_Run api ws t others (snd (snd r)) (fst (snd r)) else Some (Inr (snd r))))"

definition server_handler :: "heap \<Rightarrow> 'e event_api \<Rightarrow> 'w winsock \<Rightarrow> tid \<Rightarrow> ('e MemcacheServer, 'w) ISocketHandler" where
  "server_handler ok api ws t =
     \<lparr>OnAcceptConn = srv_OnAcceptConn ws t, OnReceivedMessage = srv_OnReceivedMessage ok api t,
      OnSocketClosed = srv_OnSocketClosed api t\<rparr>"

section \<open>Scopes of the locks\<close>

lemma read_scope:
  assumes "rw_free api (dataMapLock s)"
    "\<And>l. returns E (\<lambda>(x, s'). dataMapLock s' = l \<and> (\<forall>m. rw_free api m \<longrightarrow> P (x, s'\<lparr>dataMapLock := m\<rparr>)))
       (scope (s\<lparr>dataMapLock := l\<rparr>))"
  shows "returns E P (with_read_lock api t scope s)"
  unfolding with_read_lock_def by (rule read_lock.scope_returns, rule assms(1), rule assms(2))

lemma write_scope:
  assumes "rw_free api (dataMapLock s)"
    "\<And>l. returns E (\<lambda>(x, s'). dataMapLock s' = l \<and> (\<forall>m. rw_free api m \<longrightarrow> P (x, s'\<lparr>dataMapLock := m\<rparr>)))
       (scope (s\<lparr>dataMapLock := l\<rparr>))"
  shows "returns E P (with_write_lock api t scope s)"
  unfolding with_write_lock_def by (rule write_lock.scope_returns, rule assms(1), rule assms(2))

lemma map_scope:
  assumes "mutex_free (sockMapMutex s)"
    "\<And>l. returns E (\<lambda>(x, s'). sockMapMutex s' = l \<and> (\<forall>m. mutex_free m \<longrightarrow> P (x, s'\<lparr>sockMapMutex := m\<rparr>)))
       (scope (s\<lparr>sockMapMutex := l\<rparr>))"
  shows "returns E P (with_map_mutex t scope s)"
  unfolding with_map_mutex_def by (rule mutex.scope_returns, rule assms(1), rule assms(2))

lemma list_scope:
  assumes "mutex_free (sockListMutex s)"
    "\<And>l. returns E (\<lambda>(x, s'). sockListMutex s' = l \<and> (\<forall>m. mutex_free m \<longrightarrow> P (x, s'\<lparr>sockListMutex := m\<rparr>)))
       (scope (s\<lparr>sockListMutex := l\<rparr>))"
  shows "returns E P (with_list_mutex t scope s)"
  unfolding with_list_mutex_def by (rule mutex.scope_returns, rule assms(1), rule assms(2))

section \<open>The invariant\<close>

text \<open>Between calls all locks are free, both maps are well formed and so are the cached buffers.\<close>

definition entries_ok :: "'e MemcacheServer \<Rightarrow> bool" where
  "entries_ok s \<longleftrightarrow> wf_map (dataMap s) \<and>
     (\<forall>k e b. map_find k (dataMap s) = Some e \<longrightarrow> EntryBuffer e = Some b \<longrightarrow> wf_buffer b)"

definition srv_inv :: "'e event_api \<Rightarrow> 'e MemcacheServer \<Rightarrow> bool" where
  "srv_inv api s \<longleftrightarrow> rw_free api (dataMapLock s) \<and> mutex_free (sockMapMutex s) \<and> mutex_free (sockListMutex s) \<and>
     entries_ok s \<and> wf_map (socketMap s)"

lemma entries_ok_simps [simp]:
  "entries_ok (s\<lparr>dataMapLock := l\<rparr>) = entries_ok s" "entries_ok (s\<lparr>sockMapMutex := m\<rparr>) = entries_ok s"
  "entries_ok (s\<lparr>sockListMutex := m\<rparr>) = entries_ok s" "entries_ok (s\<lparr>socketMap := sm\<rparr>) = entries_ok s"
  "entries_ok (s\<lparr>socketDisposal := sd\<rparr>) = entries_ok s" "entries_ok (s\<lparr>threadEvent := ev\<rparr>) = entries_ok s"
  by (simp_all add: entries_ok_def)

text \<open>The cache as its users see it.\<close>

definition cache :: "'e MemcacheServer \<Rightarrow> u8 list \<Rightarrow> DataEntry option" where
  "cache s = std_map.lookup (dataMap s)"

lemma cache_find: "cache s k = map_find k (dataMap s)"
  by (simp add: cache_def std_map.lookup_def)

lemma entries_ok_assign:
  assumes "entries_ok s" "\<And>b. EntryBuffer e = Some b \<Longrightarrow> wf_buffer b"
  shows "entries_ok (s\<lparr>dataMap := map_assign k e (dataMap s)\<rparr>)"
  using assms std_map.invar_assign [of "dataMap s" k e] std_map.find_assign [of "dataMap s" _ k e]
  by (auto simp: entries_ok_def split: if_splits)

section \<open>The specification of a request\<close>

text \<open>What is stored for a value: the buffer itself, but for an empty one.\<close>

definition stored :: "DataBuffer \<Rightarrow> DataBuffer" where
  "stored v = (if bufferSize v = 0 then DataBuffer_new else v)"

definition new_reply :: "u16 \<Rightarrow> derived \<Rightarrow> BaseMessage" where
  "new_reply status d =
     \<lparr>m_buffer = Some (fresh 2048), m_header = MessageHeader_new\<lparr>Status := status\<rparr>, m_key = [], m_derived = d\<rparr>"

definition get_answer :: "DataEntry option \<Rightarrow> BaseMessage" where
  "get_answer e =
     (case e of
        None \<Rightarrow> new_reply kResKeyNotFound (GetResponse DataBuffer_new (Some 0))
      | Some e \<Rightarrow>
          (case EntryBuffer e of
             None \<Rightarrow> new_reply kResNotStored (GetResponse DataBuffer_new (Some 0))
           | Some b \<Rightarrow> new_reply kResNoError (GetResponse (stored b) (Flags e))))"

definition set_answer :: BaseMessage where
  "set_answer = new_reply kResNoError SetResponse"

datatype request = Get "u8 list" | Set "u8 list" "u32 ind" DataBuffer

fun serve :: "request \<Rightarrow> (u8 list \<Rightarrow> DataEntry option) \<Rightarrow> BaseMessage \<times> (u8 list \<Rightarrow> DataEntry option)" where
  "serve (Get k) c = (get_answer (c k), c)"
| "serve (Set k f v) c = (set_answer, c(k \<mapsto> \<lparr>Flags = f, EntryBuffer = Some (stored v)\<rparr>))"

text \<open>The request a message is.\<close>

fun request_of :: "derived \<Rightarrow> u8 list \<Rightarrow> request option" where
  "request_of GetRequest k = Some (Get k)"
| "request_of (SetRequest v f e) k = Some (Set k f v)"
| "request_of _ k = None"

definition is_request :: "BaseMessage \<Rightarrow> request \<Rightarrow> bool" where
  "is_request m r \<longleftrightarrow> Magic (m_header m) = kMagicReq \<and> Opcode (m_header m) \<in> {kOpGet, kOpSet} \<and>
     dispatched m \<and> request_of (m_derived m) (m_key m) = Some r"

lemma wf_stored: "wf_buffer v \<Longrightarrow> wf_buffer (stored v)"
  by (simp add: stored_def)

lemma wf_answers:
  "wf_message set_answer" "(\<And>b. e = Some d \<Longrightarrow> EntryBuffer d = Some b \<Longrightarrow> wf_buffer b) \<Longrightarrow> e = Some d \<Longrightarrow> wf_message (get_answer e)"
  "wf_message (get_answer None)"
  by (auto simp: set_answer_def get_answer_def new_reply_def wf_message_def wf_fresh heap_maxreq_def wf_stored
      split: option.split)

lemma Response_new_yields:
  "yields (\<lambda>e. e = BadAlloc) (\<lambda>m. m = new_reply 0 (GetResponse DataBuffer_new (Some 0))) (GetResponse_new ok)"
  "yields (\<lambda>e. e = BadAlloc) (\<lambda>m. m = new_reply 0 SetResponse) (SetResponse_new ok)"
  by (auto simp: GetResponse_new_def SetResponse_new_def BaseMessage_new_def DataBuffer_len_def Alloc_eq new_array_def
      new_reply_def MessageHeader_new_def)

lemma assign_yields:
  "wf_buffer v \<Longrightarrow> yields (\<lambda>e. e = BadAlloc) (\<lambda>b. b = stored v) (operator_assign ok False v DataBuffer_new)"
  by (auto simp: operator_assign_def copy_from_eq stored_def new_array_def)

lemma on_get_returns:
  assumes "entries_ok s" "m_derived m = GetRequest"
  shows "returns (\<lambda>e. e = BadAlloc) (\<lambda>(r, s'). r = get_answer (cache s (m_key m)) \<and> s' = s) (on_get ok m s)"
proof -
  have c: "cast_to GetRequest m = Inr m" using assms(2) by (simp add: cast_to_def)
  note answers = cache_find get_answer_def new_reply_def SetStatus_def SetFlags_def SetValue_def GetKey_def
  have "returns (\<lambda>e. e = BadAlloc) (\<lambda>(r, s'). r = get_answer (cache s (m_key m)) \<and> s' = s)
     (case map_find (GetKey m) (dataMap s) of
        Some entry \<Rightarrow>
          (case EntryBuffer entry of
             Some b \<Rightarrow>
               andThen (Some (SetFlags (Flags entry) r)) (\<lambda>r.
               andThen (Some (SetValue ok b r)) (\<lambda>r. Some (Inr (SetStatus kResNoError r, s))))
           | None \<Rightarrow> Some (Inr (SetStatus kResNotStored r, s)))
      | None \<Rightarrow> Some (Inr (SetStatus kResKeyNotFound r, s)))"
    if r: "r = new_reply 0 (GetResponse DataBuffer_new (Some 0))" for r
  proof (cases "map_find (m_key m) (dataMap s)")
    case None
    then show ?thesis by (simp add: r answers)
  next
    case (Some e)
    show ?thesis
    proof (cases "EntryBuffer e")
      case None
      with Some show ?thesis by (simp add: r answers)
    next
      case b: (Some b)
      have "wf_buffer b" using assms(1) Some b by (auto simp: entries_ok_def)
      from assign_yields [OF this, of ok] Some b show ?thesis
        by (cases "operator_assign ok False b DataBuffer_new") (simp_all add: r answers)
    qed
  qed
  then show ?thesis
    unfolding on_get_def c andThen_simps by (rule yields_andThen [OF Response_new_yields(1)])
qed

lemma on_set_returns:
  assumes "rw_free api (dataMapLock s)" "entries_ok s" "m_derived m = SetRequest v f e" "wf_buffer v"
  shows "returns (\<lambda>e. e = BadAlloc)
     (\<lambda>(r, s'). r = set_answer \<and> rw_free api (dataMapLock s') \<and>
        s' = s\<lparr>dataMap := map_assign (m_key m) \<lparr>Flags = f, EntryBuffer = Some (stored v)\<rparr> (dataMap s),
          dataMapLock := dataMapLock s'\<rparr>)
     (on_set ok api t m s)"
proof -
  have c: "cast_to (SetRequest DataBuffer_new (Some 0) None) m = Inr m" "GetFlags m = Inr f" "GetValue m = Inr v"
    using assms(3) by (simp_all add: cast_to_def GetFlags_def GetValue_def)
  obtain l where l: "LockWrite api t (dataMapLock s) = Some l" "rw_free api (UnlockWrite api t l)"
    by (rule write_lock.lock_unlock [OF assms(1)])
  note sets = yields_andThen [OF Response_new_yields(2)] yields_andThen [OF assign_yields [OF assms(4)]]
  show ?thesis
    unfolding on_set_def c andThen_simps
    by (rule sets(1), rule sets(2))
      (use l in \<open>simp add: Let_def GetKey_def set_answer_def new_reply_def SetStatus_def\<close>)
qed

text \<open>A request is served as the specification says, and the invariant is kept.\<close>

definition same_sockets :: "'e MemcacheServer \<Rightarrow> 'e MemcacheServer \<Rightarrow> bool" where
  "same_sockets s s' \<longleftrightarrow> socketMap s' = socketMap s \<and> socketDisposal s' = socketDisposal s \<and>
     listenSock s' = listenSock s \<and> mgmtThread s' = mgmtThread s \<and> threadEvent s' = threadEvent s"

lemma serve_request:
  assumes "srv_inv api s" "is_request m r" "wf_message m"
  shows "returns (\<lambda>e. e = BadAlloc)
     (\<lambda>(reply, s'). (reply, cache s') = apfst Some (serve r (cache s)) \<and> srv_inv api s' \<and> same_sockets s s')
     (srv_OnReceivedMessage ok api t m s)"
proof -
  have ne: "kOpGet \<noteq> kOpSet" by (simp add: protocol_constants)
  have inv: "rw_free api (dataMapLock s)" "entries_ok s" using assms(1) by (simp_all add: srv_inv_def)
  consider "m_derived m = GetRequest" "Opcode (m_header m) = kOpGet" "r = Get (m_key m)"
    | v f e where "m_derived m = SetRequest v f e" "Opcode (m_header m) = kOpSet" "r = Set (m_key m) f v"
    using assms(2) ne
    by (cases "m_derived m") (auto simp: is_request_def dispatched_def class_matches_def)
  then show ?thesis
  proof cases
    case 1
    have "returns (\<lambda>e. e = BadAlloc) (\<lambda>(x, s'). x = get_answer (cache s (m_key m)) \<and> cache s' = cache s \<and>
        srv_inv api s' \<and> same_sockets s s') (with_read_lock api t (on_get ok m) s)"
    proof (rule read_scope [OF inv(1)])
      fix l
      have "entries_ok (s\<lparr>dataMapLock := l\<rparr>)" using inv(2) by simp
      from on_get_returns [OF this 1(1), of ok] show "returns (\<lambda>e. e = BadAlloc) (\<lambda>(x, s'). dataMapLock s' = l \<and>
          (\<forall>m'. rw_free api m' \<longrightarrow> (case (x, s'\<lparr>dataMapLock := m'\<rparr>) of (x, s') \<Rightarrow>
            x = get_answer (cache s (m_key m)) \<and> cache s' = cache s \<and> srv_inv api s' \<and> same_sockets s s')))
          (on_get ok m (s\<lparr>dataMapLock := l\<rparr>))"
        by (rule returns_mono) (use assms(1) in \<open>auto simp: cache_def srv_inv_def same_sockets_def\<close>)
    qed
    then have "returns (\<lambda>e. e = BadAlloc)
        (\<lambda>(reply, s'). (reply, cache s') = apfst Some (serve r (cache s)) \<and> srv_inv api s' \<and> same_sockets s s')
        (andThen (with_read_lock api t (on_get ok m) s) (\<lambda>(r, s). Some (Inr (Some r, s))))"
      by (rule returns_andThen) (auto simp: 1(3))
    with 1 assms(2) show ?thesis
      by (simp add: srv_OnReceivedMessage_def Let_def GetHeader_def is_request_def)
  next
    case 2
    have "wf_buffer v" using assms(3) 2(1) by (simp add: wf_message_def)
    from on_set_returns [OF inv 2(1) this, of ok t] have "returns (\<lambda>e. e = BadAlloc)
        (\<lambda>(reply, s'). (reply, cache s') = apfst Some (serve r (cache s)) \<and> srv_inv api s' \<and> same_sockets s s')
        (andThen (on_set ok api t m s) (\<lambda>(r, s). Some (Inr (Some r, s))))"
    proof (rule returns_andThen, clarify)
      fix x s'
      let ?e = "\<lparr>Flags = f, EntryBuffer = Some (stored v)\<rparr>"
      assume s': "rw_free api (dataMapLock s')" "s' = s\<lparr>dataMap := map_assign (m_key m) ?e (dataMap s), dataMapLock := dataMapLock s'\<rparr>"
      have "entries_ok (s\<lparr>dataMap := map_assign (m_key m) ?e (dataMap s)\<rparr>)"
        by (rule entries_ok_assign [OF inv(2)]) (use \<open>wf_buffer v\<close> in \<open>simp add: wf_stored\<close>)
      then have "entries_ok s'" by (subst s'(2)) (simp add: entries_ok_def)
      moreover have "cache s' = (cache s)(m_key m \<mapsto> ?e)"
        by (subst s'(2)) (use inv(2) in \<open>simp add: cache_def std_map.lookup_assign entries_ok_def\<close>)
      moreover have "mutex_free (sockMapMutex s')" "mutex_free (sockListMutex s')" "wf_map (socketMap s')" "same_sockets s s'"
        using assms(1) by (subst s'(2), simp add: srv_inv_def same_sockets_def)+
      ultimately show "returns (\<lambda>e. e = BadAlloc)
          (\<lambda>(reply, s'). (reply, cache s') = apfst Some (serve r (cache s)) \<and> srv_inv api s' \<and> same_sockets s s')
          (Some (Inr (Some set_answer, s')))"
        using s'(1) 2(3) by (simp add: srv_inv_def)
    qed
    with 2 assms(2) ne show ?thesis
      by (simp add: srv_OnReceivedMessage_def Let_def GetHeader_def is_request_def)
  qed
qed

section \<open>The server keeps the contract of a socket's owner\<close>

lemma request_class:
  assumes "dispatched m" "Magic (m_header m) = kMagicReq" "Opcode (m_header m) \<in> {kOpGet, kOpSet}"
  obtains r where "is_request m r"
  using assms
  by (cases "m_derived m") (auto simp: is_request_def dispatched_def class_matches_def)

lemma serve_wf: "srv_inv api s \<Longrightarrow> wf_message (fst (serve r (cache s)))"
proof (cases r)
  case (Get k)
  assume "srv_inv api s"
  then show ?thesis
    using Get wf_answers(2) [of "cache s k"] wf_answers(3)
    by (cases "cache s k") (auto simp: srv_inv_def entries_ok_def cache_find)
qed (simp add: wf_answers(1))

lemma srv_message:
  assumes "srv_inv api s" "wf_message m" "dispatched m"
  shows "returns (\<lambda>e. e = BadAlloc)
     (\<lambda>(reply, s'). srv_inv api s' \<and> (\<forall>r. reply = Some r \<longrightarrow> wf_message r)) (srv_OnReceivedMessage ok api t m s)"
proof (cases "Magic (m_header m) = kMagicReq \<and> Opcode (m_header m) \<in> {kOpGet, kOpSet}")
  case True
  then obtain r where "is_request m r" using request_class [OF assms(3)] by blast
  from serve_request [OF assms(1) this assms(2)] show ?thesis
    by (rule returns_mono) (use serve_wf [OF assms(1), of r] in \<open>auto simp: apfst_def map_prod_def split: prod.splits\<close>)
next
  case False
  then show ?thesis
    using assms(1) by (auto simp: srv_OnReceivedMessage_def Let_def GetHeader_def)
qed

lemma srv_accept:
  assumes "srv_inv api s"
  shows "returns (\<lambda>e. e = BadAlloc)
     (\<lambda>(s', _). srv_inv api s' \<and> std_map.lookup (socketMap s') = (std_map.lookup (socketMap s))(sessionID sock \<mapsto> Some sock))
     (srv_OnAcceptConn ws t sock s w)"
  unfolding srv_OnAcceptConn_def
proof (rule returns_andThen [where P = "\<lambda>(_, s'). srv_inv api s' \<and>
    std_map.lookup (socketMap s') = (std_map.lookup (socketMap s))(sessionID sock \<mapsto> Some sock)"], rule map_scope)
  show "mutex_free (sockMapMutex s)" using assms by (simp add: srv_inv_def)
qed (use assms in \<open>auto simp: srv_inv_def Let_def wf_map_assign std_map.lookup_assign GetSessionID_def\<close>)

lemma srv_closed:
  assumes "srv_inv api s"
  shows "returns (\<lambda>e. e = BadAlloc)
     (\<lambda>s'. srv_inv api s' \<and> std_map.lookup (socketMap s') = (std_map.lookup (socketMap s))(ident := None) \<and>
        socketDisposal s' = socketDisposal s @ (case map_find ident (socketMap s) of None \<Rightarrow> [] | Some p \<Rightarrow> [p]))
     (srv_OnSocketClosed api t ident s)"
  unfolding srv_OnSocketClosed_def
proof (rule returns_andThen [where P = "\<lambda>(_, s'). srv_inv api s' \<and>
    std_map.lookup (socketMap s') = (std_map.lookup (socketMap s))(ident := None) \<and>
    socketDisposal s' = socketDisposal s @ (case map_find ident (socketMap s) of None \<Rightarrow> [] | Some p \<Rightarrow> [p])"],
    rule map_scope)
  show "mutex_free (sockMapMutex s)" using assms by (simp add: srv_inv_def)
next
  fix l
  have wf: "wf_map (socketMap s)" and free: "mutex_free (sockListMutex (s\<lparr>sockMapMutex := l\<rparr>))"
    using assms by (simp_all add: srv_inv_def)
  let ?P = "\<lambda>x s'. sockMapMutex s' = l \<and> (\<forall>m. mutex_free m \<longrightarrow> (case (x, s'\<lparr>sockMapMutex := m\<rparr>) of (_, s') \<Rightarrow> srv_inv api s' \<and>
      std_map.lookup (socketMap s') = (std_map.lookup (socketMap s))(ident := None) \<and>
      socketDisposal s' = socketDisposal s @ (case map_find ident (socketMap s) of None \<Rightarrow> [] | Some p \<Rightarrow> [p])))"
  show "returns (\<lambda>e. e = BadAlloc) (\<lambda>(x, s'). ?P x s')
      (case map_find ident (socketMap (s\<lparr>sockMapMutex := l\<rparr>)) of
         None \<Rightarrow> Some (Inr ((), s\<lparr>sockMapMutex := l\<rparr>))
       | Some p \<Rightarrow>
           andThen (with_list_mutex t (\<lambda>s. Some (Inr ((), s\<lparr>socketDisposal := socketDisposal s @ [p]\<rparr>)))
             (s\<lparr>sockMapMutex := l\<rparr>)) (\<lambda>(_, s).
           let s = s\<lparr>threadEvent := Event_Set api (threadEvent s)\<rparr>
           in Some (Inr ((), s\<lparr>socketMap := map_erase ident (socketMap s)\<rparr>))))"
  proof (cases "map_find ident (socketMap s)")
    case None
    moreover from this have "std_map.lookup (socketMap s) ident = None" by (simp add: std_map.lookup_def)
    ultimately show ?thesis using assms by (simp add: srv_inv_def fun_upd_idem)
  next
    case (Some p)
    have "returns (\<lambda>e. e = BadAlloc)
        (\<lambda>(_, s'). mutex_free (sockListMutex s') \<and>
          s' = s\<lparr>sockMapMutex := l, socketDisposal := socketDisposal s @ [p], sockListMutex := sockListMutex s'\<rparr>)
        (with_list_mutex t (\<lambda>s. Some (Inr ((), s\<lparr>socketDisposal := socketDisposal s @ [p]\<rparr>))) (s\<lparr>sockMapMutex := l\<rparr>))"
      by (rule list_scope [OF free]) simp
    then have "returns (\<lambda>e. e = BadAlloc) (\<lambda>(x, s'). ?P x s')
      (andThen (with_list_mutex t (\<lambda>s. Some (Inr ((), s\<lparr>socketDisposal := socketDisposal s @ [p]\<rparr>))) (s\<lparr>sockMapMutex := l\<rparr>))
         (\<lambda>(_, s). let s = s\<lparr>threadEvent := Event_Set api (threadEvent s)\<rparr>
           in Some (Inr ((), s\<lparr>socketMap := map_erase ident (socketMap s)\<rparr>))))"
    proof (rule returns_andThen)
      fix x :: "unit \<times> 'a MemcacheServer"
      assume x: "case x of (_, s') \<Rightarrow> mutex_free (sockListMutex s') \<and>
        s' = s\<lparr>sockMapMutex := l, socketDisposal := socketDisposal s @ [p], sockListMutex := sockListMutex s'\<rparr>"
      obtain u s' where xs: "x = (u, s')" by (cases x)
      have s': "mutex_free (sockListMutex s')"
        "s' = s\<lparr>sockMapMutex := l, socketDisposal := socketDisposal s @ [p], sockListMutex := sockListMutex s'\<rparr>"
        using x unfolding xs by simp_all
      have "sockMapMutex s' = l" "socketMap s' = socketMap s" "socketDisposal s' = socketDisposal s @ [p]"
        "dataMapLock s' = dataMapLock s" "entries_ok s' = entries_ok s"
        by (subst s'(2), simp)+
      then show "returns (\<lambda>e. e = BadAlloc) (\<lambda>(x, s'). ?P x s')
          (case x of (_, s) \<Rightarrow> let s = s\<lparr>threadEvent := Event_Set api (threadEvent s)\<rparr>
           in Some (Inr ((), s\<lparr>socketMap := map_erase ident (socketMap s)\<rparr>)))"
        using assms wf s'(1) Some unfolding xs by (simp add: Let_def srv_inv_def wf_map_erase std_map.lookup_erase)
    qed
    then show ?thesis using Some by simp
  qed
qed (clarsimp split: prod.splits)

interpretation server: socket_handler "server_handler ok api ws t" "srv_inv api"
  for ok :: heap and api :: "'e event_api" and ws :: "'w winsock" and t :: tid
proof unfold_locales
  fix s :: "'e MemcacheServer" and m :: BaseMessage and sock :: MemcacheSocket and n :: u32 and w :: 'w
  assume inv: "srv_inv api s"
  show "returns (\<lambda>e. e = BadAlloc) (\<lambda>(reply, s'). srv_inv api s' \<and> (\<forall>r. reply = Some r \<longrightarrow> wf_message r))
      (OnReceivedMessage (server_handler ok api ws t) m s)" if "wf_message m" "dispatched m"
    using srv_message [OF inv that] by (simp add: server_handler_def)
  show "returns (\<lambda>e. e = BadAlloc) (\<lambda>(s', _). srv_inv api s') (OnAcceptConn (server_handler ok api ws t) sock s w)"
    unfolding server_handler_def ISocketHandler.simps by (rule returns_mono [OF srv_accept [OF inv]]) auto
  show "returns (\<lambda>e. e = BadAlloc) (srv_inv api) (OnSocketClosed (server_handler ok api ws t) n s)"
    unfolding server_handler_def ISocketHandler.simps by (rule returns_mono [OF srv_closed [OF inv]]) auto
qed

section \<open>Messages in sequence\<close>

text \<open>The calls of the message handler for the messages that come one after the other.\<close>

fun srv_messages ::
  "heap \<Rightarrow> 'e event_api \<Rightarrow> tid \<Rightarrow> BaseMessage list \<Rightarrow> 'e MemcacheServer \<Rightarrow>
     (BaseMessage option list \<times> 'e MemcacheServer) run" where
  "srv_messages ok api t [] s = Some (Inr ([], s))"
| "srv_messages ok api t (m # ms) s =
     andThen (srv_OnReceivedMessage ok api t m s) (\<lambda>(r, s).
     andThen (srv_messages ok api t ms s) (\<lambda>(rs, s). Some (Inr (r # rs, s))))"

text \<open>
  Specification: an entry is what the last set request of its key stored, if any did; a get request
  reads it.
\<close>

fun last_set :: "u8 list \<Rightarrow> request list \<Rightarrow> DataEntry option" where
  "last_set k [] = None"
| "last_set k (Get _ # rs) = last_set k rs"
| "last_set k (Set j f v # rs) =
     (case last_set k rs of
        Some e \<Rightarrow> Some e
      | None \<Rightarrow> if j = k then Some \<lparr>Flags = f, EntryBuffer = Some (stored v)\<rparr> else None)"

definition cache_after :: "request list \<Rightarrow> (u8 list \<Rightarrow> DataEntry option) \<Rightarrow> u8 list \<Rightarrow> DataEntry option" where
  "cache_after rs c = (\<lambda>k. case last_set k rs of Some e \<Rightarrow> Some e | None \<Rightarrow> c k)"

definition reply_to :: "request \<Rightarrow> (u8 list \<Rightarrow> DataEntry option) \<Rightarrow> BaseMessage" where
  "reply_to r c = fst (serve r c)"

lemma cache_after_simps [simp]:
  "cache_after [] c = c" "cache_after (r # rs) c = cache_after rs (snd (serve r c))"
  by (cases r; auto simp: cache_after_def fun_eq_iff split: option.split)+

lemma srv_messages_serve:
  assumes "srv_inv api s" "list_all2 is_request ms rs" "list_all wf_message ms"
  shows "returns (\<lambda>e. e = BadAlloc)
     (\<lambda>(replies, s'). length replies = length rs \<and>
        (\<forall>i < length rs. replies ! i = Some (reply_to (rs ! i) (cache_after (take i rs) (cache s)))) \<and>
        cache s' = cache_after rs (cache s) \<and> srv_inv api s' \<and> same_sockets s s')
     (srv_messages ok api t ms s)"
  using assms
proof (induction ms arbitrary: rs s)
  case Nil
  then show ?case by (simp add: same_sockets_def)
next
  case (Cons m ms)
  obtain r rs' where rs: "rs = r # rs'" "is_request m r" "list_all2 is_request ms rs'"
    using Cons.prems(2) by (auto simp: list_all2_Cons1)
  have wf: "wf_message m" "list_all wf_message ms" using Cons.prems(3) by simp_all
  show ?case
    unfolding srv_messages.simps
  proof (rule returns_andThen [OF serve_request [OF Cons.prems(1) rs(2) wf(1), of ok t]])
    fix x
    assume x: "case x of (reply, s') \<Rightarrow>
      (reply, cache s') = apfst Some (serve r (cache s)) \<and> srv_inv api s' \<and> same_sockets s s'"
    obtain reply s' where xs: "x = (reply, s')" by (cases x)
    have s': "reply = Some (reply_to r (cache s))" "cache s' = snd (serve r (cache s))" "srv_inv api s'" "same_sockets s s'"
      using x by (cases "serve r (cache s)"; simp add: xs reply_to_def)+
    have "returns (\<lambda>e. e = BadAlloc)
       (\<lambda>(replies, s''). length replies = length rs \<and>
          (\<forall>i < length rs. replies ! i = Some (reply_to (rs ! i) (cache_after (take i rs) (cache s)))) \<and>
          cache s'' = cache_after rs (cache s) \<and> srv_inv api s'' \<and> same_sockets s s'')
       (andThen (srv_messages ok api t ms s') (\<lambda>(rs, s). Some (Inr (reply # rs, s))))"
      by (rule returns_andThen [OF Cons.IH [OF s'(3) rs(3) wf(2)]])
        (use s' in \<open>auto simp: rs(1) nth_Cons same_sockets_def split: nat.split\<close>)
    then show "returns (\<lambda>e. e = BadAlloc)
       (\<lambda>(replies, s'). length replies = length rs \<and>
          (\<forall>i < length rs. replies ! i = Some (reply_to (rs ! i) (cache_after (take i rs) (cache s)))) \<and>
          cache s' = cache_after rs (cache s) \<and> srv_inv api s' \<and> same_sockets s s')
       (case x of (r, s) \<Rightarrow> andThen (srv_messages ok api t ms s) (\<lambda>(rs, s). Some (Inr (r # rs, s))))"
      by (simp add: xs)
  qed
qed

section \<open>Closing\<close>

text \<open>The handle of a socket that is still open, and the closing of some handles in order.\<close>

definition open_handle :: "MemcacheSocket option \<Rightarrow> SOCKET list" where
  "open_handle p = (case p of None \<Rightarrow> [] | Some sock \<Rightarrow> (case socketHandle sock of None \<Rightarrow> [] | Some h \<Rightarrow> [h]))"

definition open_handles :: "MemcacheSocket option list \<Rightarrow> SOCKET list" where
  "open_handles ps = concat (map open_handle ps)"

definition close_handles :: "'w winsock \<Rightarrow> SOCKET list \<Rightarrow> 'w \<Rightarrow> 'w" where
  "close_handles ws hs = fold (ws_close ws) hs"

lemma open_handles_simps [simp]:
  "open_handles [] = []" "open_handles (p # ps) = open_handle p @ open_handles ps"
  "open_handles (ps @ qs) = open_handles ps @ open_handles qs"
  by (simp_all add: open_handles_def)

lemma close_handles_simps [simp]:
  "close_handles ws [] w = w" "close_handles ws (hs @ gs) w = close_handles ws gs (close_handles ws hs w)"
  by (simp_all add: close_handles_def)

definition closed_socket :: "MemcacheSocket \<Rightarrow> MemcacheSocket" where
  "closed_socket s = s\<lparr>selectThread := Thread_Stop True (Thread_Stop False (selectThread s)), socketHandle := None,
     isListening := False\<rparr>"

lemma Close_eq: "Close ws s w = (closed_socket s, close_handles ws (open_handle (Some s)) w)"
  by (simp add: Close_def closed_socket_def Let_def open_handle_def close_handles_def split: option.split)

lemma closed_socket_simps [simp]:
  "open_handle (Some (closed_socket s)) = []" "open_handle None = []" "\<not> joinable (selectThread (closed_socket s))"
  "\<not> IsConnected (closed_socket s)" "\<not> isListening (closed_socket s)" "sessionID (closed_socket s) = sessionID s"
  by (simp_all add: closed_socket_def open_handle_def IsConnected_def)

lemma destroy_socket_eq: "destroy_socket ws p w = close_handles ws (open_handle p) w"
  by (simp add: destroy_socket_def MemcacheSocket_delete_def Close_eq split: option.split)

lemma destroy_all_eq: "fold (destroy_socket ws) ps w = close_handles ws (open_handles ps) w"
  by (induction ps arbitrary: w) (simp_all add: destroy_socket_eq)

text \<open>What the two closing methods do. Sockets closed by the first are destroyed by the second.\<close>

definition closed_all :: "MemcacheSocket option list \<Rightarrow> MemcacheSocket option list" where
  "closed_all ps = map (map_option closed_socket) (filter (\<lambda>p. p \<noteq> None) ps)"

lemma open_handles_closed_all [simp]: "open_handles (closed_all ps) = []"
  by (induction ps) (auto simp: closed_all_def)

lemma close_entries_returns:
  assumes "mutex_free (sockListMutex s)" "socketMap s = es"
  shows "returns (\<lambda>e. e = BadAlloc)
     (\<lambda>(w', s'). w' = close_handles ws (open_handles (map snd es)) w \<and> mutex_free (sockListMutex s') \<and>
        s' = s\<lparr>socketMap := [], socketDisposal := socketDisposal s @ closed_all (map snd es),
          sockListMutex := sockListMutex s'\<rparr>)
     (close_entries ws t es s w)"
  using assms
proof (induction es arbitrary: s w)
  case Nil
  then show ?case by (simp add: closed_all_def)
next
  case (Cons e es)
  obtain ident p where e: "e = (ident, p)" by (cases e)
  show ?case
  proof (cases p)
    case None
    have "returns (\<lambda>e. e = BadAlloc)
       (\<lambda>(w', s'). w' = close_handles ws (open_handles (map snd es)) w \<and> mutex_free (sockListMutex s') \<and>
          s' = (s\<lparr>socketMap := es\<rparr>)\<lparr>socketMap := [], socketDisposal := socketDisposal (s\<lparr>socketMap := es\<rparr>) @ closed_all (map snd es),
            sockListMutex := sockListMutex s'\<rparr>) (close_entries ws t es (s\<lparr>socketMap := es\<rparr>) w)"
      by (rule Cons.IH) (use Cons.prems in simp_all)
    then show ?thesis
      by (simp add: e None Cons.prems(2) closed_all_def)
  next
    case (Some sock)
    let ?push = "\<lambda>s. Some (Inr ((), s\<lparr>socketDisposal := socketDisposal s @ [Some (closed_socket sock)]\<rparr>))"
    let ?w = "close_handles ws (open_handle (Some sock)) w"
    have push: "returns (\<lambda>e. e = BadAlloc) (\<lambda>(_, s'). mutex_free (sockListMutex s') \<and>
        s' = s\<lparr>socketDisposal := socketDisposal s @ [Some (closed_socket sock)], sockListMutex := sockListMutex s'\<rparr>)
        (with_list_mutex t ?push s)"
      by (rule list_scope [OF Cons.prems(1)]) simp
    have "returns (\<lambda>e. e = BadAlloc)
       (\<lambda>(w', s'). w' = close_handles ws (open_handles (map snd (e # es))) w \<and> mutex_free (sockListMutex s') \<and>
          s' = s\<lparr>socketMap := [], socketDisposal := socketDisposal s @ closed_all (map snd (e # es)),
            sockListMutex := sockListMutex s'\<rparr>)
       (andThen (with_list_mutex t ?push s)
         (\<lambda>(_, s). close_entries ws t es (s\<lparr>socketMap := map_erase ident (socketMap s)\<rparr>) ?w))"
    proof (rule returns_andThen [OF push])
      fix x :: "unit \<times> 'a MemcacheServer"
      assume x: "case x of (_, s') \<Rightarrow> mutex_free (sockListMutex s') \<and>
        s' = s\<lparr>socketDisposal := socketDisposal s @ [Some (closed_socket sock)], sockListMutex := sockListMutex s'\<rparr>"
      obtain u s' where xs: "x = (u, s')" by (cases x)
      have free: "mutex_free (sockListMutex s')" and
        s': "s' = s\<lparr>socketDisposal := socketDisposal s @ [Some (closed_socket sock)], sockListMutex := sockListMutex s'\<rparr>"
        using x by (simp_all add: xs)
      let ?s = "s'\<lparr>socketMap := es\<rparr>"
      have parts: "socketMap s' = e # es" "socketDisposal s' = socketDisposal s @ [Some (closed_socket sock)]"
        using Cons.prems(2) by (subst s', simp)+
      have upd: "?s\<lparr>socketMap := [], socketDisposal := d, sockListMutex := m\<rparr> =
          s\<lparr>socketMap := [], socketDisposal := d, sockListMutex := m\<rparr>" for d m
        by (subst s') simp
      have "returns (\<lambda>e. e = BadAlloc)
         (\<lambda>(w', s''). w' = close_handles ws (open_handles (map snd es)) ?w \<and> mutex_free (sockListMutex s'') \<and>
            s'' = ?s\<lparr>socketMap := [], socketDisposal := socketDisposal ?s @ closed_all (map snd es),
              sockListMutex := sockListMutex s''\<rparr>) (close_entries ws t es ?s ?w)"
        by (rule Cons.IH) (use free in simp_all)
      then show "returns (\<lambda>e. e = BadAlloc)
         (\<lambda>(w', s'). w' = close_handles ws (open_handles (map snd (e # es))) w \<and> mutex_free (sockListMutex s') \<and>
            s' = s\<lparr>socketMap := [], socketDisposal := socketDisposal s @ closed_all (map snd (e # es)),
              sockListMutex := sockListMutex s'\<rparr>)
         (case x of (_, s) \<Rightarrow> close_entries ws t es (s\<lparr>socketMap := map_erase ident (socketMap s)\<rparr>) ?w)"
        unfolding upd by (simp add: xs parts e Some closed_all_def)
    qed
    then show ?thesis by (simp add: e Some Close_eq)
  qed
qed

lemma CloseAllSockets_returns:
  assumes "srv_inv api s"
  shows "returns (\<lambda>e. e = BadAlloc)
     (\<lambda>(w', s'). w' = close_handles ws (open_handles (map snd (socketMap s))) w \<and> srv_inv api s' \<and>
        cache s' = cache s \<and> socketMap s' = [] \<and> listenSock s' = listenSock s \<and> mgmtThread s' = mgmtThread s \<and>
        socketDisposal s' = socketDisposal s @ closed_all (map snd (socketMap s)))
     (CloseAllSockets ws t s w)"
  unfolding CloseAllSockets_def
proof (rule map_scope)
  show "mutex_free (sockMapMutex s)" using assms by (simp add: srv_inv_def)
next
  fix l
  let ?s = "s\<lparr>sockMapMutex := l\<rparr>"
  have "returns (\<lambda>e. e = BadAlloc)
     (\<lambda>(w', s'). w' = close_handles ws (open_handles (map snd (socketMap ?s))) w \<and> mutex_free (sockListMutex s') \<and>
        s' = ?s\<lparr>socketMap := [], socketDisposal := socketDisposal ?s @ closed_all (map snd (socketMap ?s)),
          sockListMutex := sockListMutex s'\<rparr>)
     (close_entries ws t (socketMap ?s) ?s w)"
    by (rule close_entries_returns) (use assms in \<open>simp_all add: srv_inv_def\<close>)
  then show "returns (\<lambda>e. e = BadAlloc)
     (\<lambda>(w', s'). sockMapMutex s' = l \<and> (\<forall>m. mutex_free m \<longrightarrow>
        (case (w', s'\<lparr>sockMapMutex := m\<rparr>) of (w', s') \<Rightarrow>
        w' = close_handles ws (open_handles (map snd (socketMap s))) w \<and> srv_inv api s' \<and>
        cache s' = cache s \<and> socketMap s' = [] \<and> listenSock s' = listenSock s \<and> mgmtThread s' = mgmtThread s \<and>
        socketDisposal s' = socketDisposal s @ closed_all (map snd (socketMap s)))))
     (close_entries ws t (socketMap ?s) ?s w)"
  proof (rule returns_mono)
    fix x :: "'b \<times> 'a MemcacheServer"
    assume x: "case x of (w', s') \<Rightarrow> w' = close_handles ws (open_handles (map snd (socketMap ?s))) w \<and> mutex_free (sockListMutex s') \<and>
        s' = ?s\<lparr>socketMap := [], socketDisposal := socketDisposal ?s @ closed_all (map snd (socketMap ?s)),
          sockListMutex := sockListMutex s'\<rparr>"
    obtain w' s' where xs: "x = (w', s')" by (cases x)
    have s': "s' = ?s\<lparr>socketMap := [], socketDisposal := socketDisposal s @ closed_all (map snd (socketMap s)),
          sockListMutex := sockListMutex s'\<rparr>" and rest: "w' = close_handles ws (open_handles (map snd (socketMap s))) w" "mutex_free (sockListMutex s')"
      using x by (simp_all add: xs)
    have "sockMapMutex s' = l" "dataMapLock s' = dataMapLock s" "entries_ok s' = entries_ok s" "cache s' = cache s"
      "socketMap s' = []" "listenSock s' = listenSock s" "mgmtThread s' = mgmtThread s"
      "socketDisposal s' = socketDisposal s @ closed_all (map snd (socketMap s))"
      by (subst s', simp add: cache_def)+
    with rest assms show "case x of (w', s') \<Rightarrow> sockMapMutex s' = l \<and> (\<forall>m. mutex_free m \<longrightarrow>
        (case (w', s'\<lparr>sockMapMutex := m\<rparr>) of (w', s') \<Rightarrow>
        w' = close_handles ws (open_handles (map snd (socketMap s))) w \<and> srv_inv api s' \<and>
        cache s' = cache s \<and> socketMap s' = [] \<and> listenSock s' = listenSock s \<and> mgmtThread s' = mgmtThread s \<and>
        socketDisposal s' = socketDisposal s @ closed_all (map snd (socketMap s))))"
      by (simp add: xs srv_inv_def cache_def wf_map_def)
  qed
qed

lemma ProcessClosedSockets_returns:
  assumes "srv_inv api s"
  shows "returns (\<lambda>e. e = BadAlloc)
     (\<lambda>(w', s'). w' = close_handles ws (open_handles (socketDisposal s)) w \<and> srv_inv api s' \<and>
        cache s' = cache s \<and> socketDisposal s' = [] \<and> socketMap s' = socketMap s \<and>
        listenSock s' = listenSock s \<and> mgmtThread s' = mgmtThread s)
     (ProcessClosedSockets ws t s w)"
  unfolding ProcessClosedSockets_def
  by (rule list_scope) (use assms in \<open>auto simp: srv_inv_def destroy_all_eq cache_def\<close>)

lemma ClearDataCache_returns:
  assumes "srv_inv api s"
  shows "returns (\<lambda>e. e = BadAlloc)
     (\<lambda>(_, s'). srv_inv api s' \<and> cache s' = Map.empty \<and> dataMap s' = [] \<and> same_sockets s s')
     (ClearDataCache api t s)"
  unfolding ClearDataCache_def
  by (rule write_scope)
    (use assms in \<open>auto simp: srv_inv_def entries_ok_def map_clear_def same_sockets_def cache_def std_map.lookup_empty wf_map_def\<close>)

text \<open>What is left when the server has been shut down.\<close>

definition shut_down :: "'e event_api \<Rightarrow> 'e MemcacheServer \<Rightarrow> bool" where
  "shut_down api s \<longleftrightarrow> srv_inv api s \<and> dataMap s = [] \<and> socketMap s = [] \<and> socketDisposal s = [] \<and>
     \<not> IsConnected (listenSock s) \<and> \<not> IsRunning (selectThread (listenSock s)) \<and> \<not> IsRunning (mgmtThread s)"

definition server_handles :: "'e MemcacheServer \<Rightarrow> SOCKET list" where
  "server_handles s = open_handle (Some (listenSock s)) @ open_handles (map snd (socketMap s)) @ open_handles (socketDisposal s)"

lemma srv_inv_frame [simp]:
  "srv_inv api (s\<lparr>listenSock := ls\<rparr>) = srv_inv api s" "srv_inv api (s\<lparr>mgmtThread := mt\<rparr>) = srv_inv api s"
  "srv_inv api (s\<lparr>threadEvent := ev\<rparr>) = srv_inv api s"
  by (simp_all add: srv_inv_def entries_ok_def)

lemma cache_frame [simp]:
  "cache (s\<lparr>listenSock := ls\<rparr>) = cache s" "cache (s\<lparr>mgmtThread := mt\<rparr>) = cache s" "cache (s\<lparr>threadEvent := ev\<rparr>) = cache s"
  by (simp_all add: cache_def)

lemma server_made:
  "events_ok api sig man \<Longrightarrow> yields (\<lambda>e. e = BadAlloc) (\<lambda>(s, _). srv_inv api s \<and> cache s = Map.empty) (MemcacheServer_new ok api n)"
  by (auto simp: MemcacheServer_new_def MemcacheSocket_new_def socket_object_def GetNextSessionID_def DataBuffer_len_def
      Alloc_eq new_array_def srv_inv_def rw_free_new mutex_free_def entries_ok_def wf_map_def cache_def std_map.lookup_empty)

lemma Shutdown_returns:
  assumes "srv_inv api s"
  shows "returns (\<lambda>e. e = BadAlloc) (\<lambda>(w', s'). w' = close_handles ws (server_handles s) w \<and> shut_down api s')
     (Shutdown api ws t s w)"
proof -
  let ?s = "s\<lparr>listenSock := closed_socket (listenSock s)\<rparr>" and ?w = "close_handles ws (open_handle (Some (listenSock s))) w"
  have "srv_inv api ?s" using assms by simp
  from CloseAllSockets_returns [OF this] show ?thesis
    unfolding Shutdown_def Close_eq Let_def prod.case
  proof (rule returns_andThen)
    fix x
    assume x: "case x of (w', s') \<Rightarrow> w' = close_handles ws (open_handles (map snd (socketMap ?s))) ?w \<and> srv_inv api s' \<and>
        cache s' = cache ?s \<and> socketMap s' = [] \<and> listenSock s' = listenSock ?s \<and> mgmtThread s' = mgmtThread ?s \<and>
        socketDisposal s' = socketDisposal ?s @ closed_all (map snd (socketMap ?s))"
    obtain w1 s1 where xs: "x = (w1, s1)" by (cases x)
    have s1: "srv_inv api s1" "socketMap s1 = []" "listenSock s1 = closed_socket (listenSock s)"
      "close_handles ws (open_handles (socketDisposal s1)) w1 = close_handles ws (server_handles s) w"
      using x by (simp_all add: xs server_handles_def)
    show "returns (\<lambda>e. e = BadAlloc) (\<lambda>(w', s'). w' = close_handles ws (server_handles s) w \<and> shut_down api s')
        (case x of (w, s) \<Rightarrow> andThen (ProcessClosedSockets ws t s w) (\<lambda>(w, s).
           andThen (ClearDataCache api t s) (\<lambda>(_, s).
           Some (Inr (w, s\<lparr>mgmtThread := Thread_Stop False (mgmtThread s), threadEvent := Event_Set api (threadEvent (s\<lparr>mgmtThread := Thread_Stop False (mgmtThread s)\<rparr>)),
             mgmtThread := Thread_Stop True (mgmtThread (s\<lparr>mgmtThread := Thread_Stop False (mgmtThread s), threadEvent := Event_Set api (threadEvent (s\<lparr>mgmtThread := Thread_Stop False (mgmtThread s)\<rparr>))\<rparr>))\<rparr>)))))"
      unfolding xs prod.case
    proof (rule returns_andThen [OF ProcessClosedSockets_returns [OF s1(1)]])
      fix y
      assume y: "case y of (w', s') \<Rightarrow> w' = close_handles ws (open_handles (socketDisposal s1)) w1 \<and> srv_inv api s' \<and>
        cache s' = cache s1 \<and> socketDisposal s' = [] \<and> socketMap s' = socketMap s1 \<and> listenSock s' = listenSock s1 \<and> mgmtThread s' = mgmtThread s1"
      obtain w2 s2 where ys: "y = (w2, s2)" by (cases y)
      have s2: "srv_inv api s2" "w2 = close_handles ws (server_handles s) w" "socketMap s2 = []" "socketDisposal s2 = []"
        "listenSock s2 = closed_socket (listenSock s)"
        using y s1 by (simp_all add: ys)
      show "returns (\<lambda>e. e = BadAlloc) (\<lambda>(w', s'). w' = close_handles ws (server_handles s) w \<and> shut_down api s')
        (case y of (w, s) \<Rightarrow> andThen (ClearDataCache api t s) (\<lambda>(_, s).
           Some (Inr (w, s\<lparr>mgmtThread := Thread_Stop False (mgmtThread s), threadEvent := Event_Set api (threadEvent (s\<lparr>mgmtThread := Thread_Stop False (mgmtThread s)\<rparr>)),
             mgmtThread := Thread_Stop True (mgmtThread (s\<lparr>mgmtThread := Thread_Stop False (mgmtThread s), threadEvent := Event_Set api (threadEvent (s\<lparr>mgmtThread := Thread_Stop False (mgmtThread s)\<rparr>))\<rparr>))\<rparr>))))"
        unfolding ys prod.case
        by (rule returns_andThen [OF ClearDataCache_returns [OF s2(1)]])
          (use s2 in \<open>auto simp: shut_down_def same_sockets_def IsRunning_def\<close>)
    qed
  qed
qed

lemma Listen_outcome:
  "case Listen ws port h s w of (r, s', w') \<Rightarrow>
     (r \<longrightarrow> IsConnected s' \<and> isListening s' \<and> IsRunning (selectThread s') \<and> hasHandler s' = h) \<and>
     (\<not> r \<longrightarrow> \<not> IsConnected s' \<and> \<not> isListening s' \<and> \<not> IsRunning (selectThread s'))"
  by (auto simp: Listen_def Close_eq Let_def IsConnected_def IsRunning_def closed_socket_def split: prod.splits option.splits)

text \<open>What a successful start leaves alone, and what it brings up.\<close>

definition started :: "'e event_api \<Rightarrow> u16 \<Rightarrow> 'e MemcacheServer \<Rightarrow> 'e MemcacheServer \<Rightarrow> bool" where
  "started api port s s' \<longleftrightarrow> srv_inv api s' \<and> cache s' = cache s \<and> socketMap s' = socketMap s \<and> IsRunning (mgmtThread s') \<and>
     (0 < port \<longrightarrow> IsConnected (listenSock s') \<and> isListening (listenSock s') \<and> IsRunning (selectThread (listenSock s')))"

text \<open>Whether a socket can be had, bound to the port and listened on.\<close>

definition can_listen :: "'w winsock \<Rightarrow> u16 \<Rightarrow> 'w \<Rightarrow> bool" where
  "can_listen ws port w \<longleftrightarrow>
     (case ws_socket ws w of
        (None, _) \<Rightarrow> False
      | (Some h, w) \<Rightarrow> (case ws_bind ws h port w of (bound, w) \<Rightarrow> bound \<and> fst (ws_listen ws h w)))"

lemma Listen_succeeds:
  "fst (Listen ws port h s w) \<longleftrightarrow> can_listen ws port (close_handles ws (open_handle (Some s)) w)"
  by (simp add: Listen_def can_listen_def Close_eq Let_def split: prod.splits option.splits)

lemma Start_returns:
  assumes "srv_inv api s"
  shows "returns (\<lambda>e. e = BadAlloc)
     (\<lambda>(r, _, s'). (r \<longleftrightarrow> port = 0 \<or> can_listen ws port (close_handles ws (open_handle (Some (listenSock s))) w)) \<and>
        (if r then started api port s s' else shut_down api s')) (Start api ws t port s w)"
proof (cases "0 < port")
  case False
  then show ?thesis using assms by (simp add: Start_def Let_def started_def IsRunning_def word_gt_0)
next
  case True
  obtain r sock w' where l: "Listen ws port True (listenSock s) w = (r, sock, w')" by (rule prod_cases3)
  have r: "r \<longleftrightarrow> port = 0 \<or> can_listen ws port (close_handles ws (open_handle (Some (listenSock s))) w)"
    using Listen_succeeds [of ws port True "listenSock s" w] True by (simp add: l word_gt_0)
  let ?s = "s\<lparr>mgmtThread := Thread_Start (mgmtThread s), listenSock := sock\<rparr>"
  have inv: "srv_inv api ?s" using assms by simp
  show ?thesis unfolding r [symmetric]
  proof (cases r)
    case True
    with Listen_outcome [where ws = ws and port = port and h = True and s = "listenSock s" and w = w] \<open>0 < port\<close> assms
    show "returns (\<lambda>e. e = BadAlloc) (\<lambda>(r', _, s'). r' = r \<and> (if r' then started api port s s' else shut_down api s')) (Start api ws t port s w)"
      by (simp add: Start_def Let_def l started_def IsRunning_def)
  next
    case False
    have "returns (\<lambda>e. e = BadAlloc) (\<lambda>(r', _, s'). r' = r \<and> (if r' then started api port s s' else shut_down api s'))
       (andThen (Shutdown api ws t ?s w') (\<lambda>(w, s). Some (Inr (False, w, s))))"
      by (rule returns_andThen [OF Shutdown_returns [OF inv]]) (use False in auto)
    with False True
    show "returns (\<lambda>e. e = BadAlloc) (\<lambda>(r', _, s'). r' = r \<and> (if r' then started api port s s' else shut_down api s')) (Start api ws t port s w)"
      by (simp add: Start_def Let_def l)
  qed
qed

lemma Start_ends:
  assumes "srv_inv api s"
  shows "returns (\<lambda>e. e = BadAlloc)
     (\<lambda>(r, _, s'). if r then started api port s s' else 0 < port \<and> shut_down api s') (Start api ws t port s w)"
  by (rule returns_mono [OF Start_returns [OF assms]]) (auto simp: word_gt_0 split: if_splits)

section \<open>The management thread\<close>

lemma srv_Run_body_returns:
  assumes "\<And>s w. srv_inv api s \<Longrightarrow> srv_inv api (fst (others (s, w)))" "srv_inv api s"
  shows "returns (\<lambda>e. e = BadAlloc)
     (\<lambda>(go, w', s'). srv_inv api s' \<and>
        (\<exists>s1 w1. others (s\<lparr>threadEvent := Event_TimedWait api 100 (threadEvent s)\<rparr>, w) = (s1, w1) \<and>
           go = (\<not> asked_to_stop ws w1) \<and>
           (if go then w' = close_handles ws (open_handles (socketDisposal s1)) w1 \<and> socketDisposal s' = [] \<and> cache s' = cache s1
            else w' = w1 \<and> s' = s1)))
     (srv_Run_body api ws t others s w)"
proof -
  obtain s1 w1 where o: "others (s\<lparr>threadEvent := Event_TimedWait api 100 (threadEvent s)\<rparr>, w) = (s1, w1)" by (rule prod.exhaust)
  have inv: "srv_inv api s1"
    using assms(1) [of "s\<lparr>threadEvent := Event_TimedWait api 100 (threadEvent s)\<rparr>" w] assms(2) by (simp add: o)
  show ?thesis
  proof (cases "asked_to_stop ws w1")
    case True
    with inv show ?thesis by (simp add: srv_Run_body_def o)
  next
    case False
    have "returns (\<lambda>e. e = BadAlloc)
     (\<lambda>(go, w', s'). srv_inv api s' \<and> (\<exists>s2 w2. (s1, w1) = (s2, w2) \<and> go = (\<not> asked_to_stop ws w2) \<and>
           (if go then w' = close_handles ws (open_handles (socketDisposal s2)) w2 \<and> socketDisposal s' = [] \<and> cache s' = cache s2
            else w' = w2 \<and> s' = s2)))
     (andThen (ProcessClosedSockets ws t s1 w1) (\<lambda>(w, s). Some (Inr (True, w, s))))"
      by (rule returns_andThen [OF ProcessClosedSockets_returns [OF inv]]) (use False in auto)
    with False show ?thesis by (simp add: srv_Run_body_def o)
  qed
qed

lemma close_handles_left: "(\<And>h w. left (ws_close ws h w) = left w) \<Longrightarrow> left (close_handles ws hs w) = (left w :: nat)"
  by (induction hs arbitrary: w) (simp_all add: close_handles_def)

lemma srv_Run_ends:
  assumes "\<And>s w. srv_inv api s \<Longrightarrow> srv_inv api (fst (others (s, w)))"
    "\<And>s w. \<not> asked_to_stop ws (snd (others (s, w))) \<Longrightarrow> left (snd (others (s, w))) < (left w :: nat)"
    "\<And>h w. left (ws_close ws h w) = left w" "srv_inv api s"
  shows "returns (\<lambda>e. e = BadAlloc) (\<lambda>(w', s'). asked_to_stop ws w' \<and> srv_inv api s') (srv_Run api ws t others s w)"
  using assms(4)
proof (induction "left w" arbitrary: s w rule: less_induct)
  case less
  show ?case
  proof (cases "asked_to_stop ws w")
    case True
    with less.prems show ?thesis by (simp add: srv_Run.simps [of api ws t others s w])
  next
    case False
    note unf = srv_Run.simps [of api ws t others s w]
    from srv_Run_body_returns [where ws = ws and t = t and w = w and others = others, OF assms(1) less.prems]
    obtain r where r: "srv_Run_body api ws t others s w = Some r" and y: "yields (\<lambda>e. e = BadAlloc)
       (\<lambda>(go, w', s'). srv_inv api s' \<and>
        (\<exists>s1 w1. others (s\<lparr>threadEvent := Event_TimedWait api 100 (threadEvent s)\<rparr>, w) = (s1, w1) \<and>
           go = (\<not> asked_to_stop ws w1) \<and>
           (if go then w' = close_handles ws (open_handles (socketDisposal s1)) w1 \<and> socketDisposal s' = [] \<and> cache s' = cache s1
            else w' = w1 \<and> s' = s1))) r"
      by (auto simp: returns_def)
    show ?thesis
    proof (cases r)
      case (Inl f)
      with y False r show ?thesis by (simp add: unf)
    next
      case (Inr p)
      obtain go w' s' where p: "p = (go, w', s')" by (rule prod_cases3)
      obtain s1 w1 where o: "others (s\<lparr>threadEvent := Event_TimedWait api 100 (threadEvent s)\<rparr>, w) = (s1, w1)"
        "go = (\<not> asked_to_stop ws w1)" "srv_inv api s'"
        "if go then w' = close_handles ws (open_handles (socketDisposal s1)) w1 else w' = w1 \<and> s' = s1"
        using y by (auto simp: Inr p split: if_splits)
      show ?thesis
      proof (cases go)
        case True
        have "left w1 < left w" using assms(2) [of "s\<lparr>threadEvent := Event_TimedWait api 100 (threadEvent s)\<rparr>" w] o(1,2) True by simp
        then have "left w' < left w" using o(4) True close_handles_left [where left = left, OF assms(3)] by simp
        from less.hyps [OF this o(3)] False r True show ?thesis by (simp add: unf Inr p)
      next
        case nogo: False
        with o False r show ?thesis by (simp add: unf Inr p)
      qed
    qed
  qed
qed

section \<open>What is printed\<close>

lemma PrintDataCache_returns:
  assumes "srv_inv api s"
  shows "returns (\<lambda>e. e = BadAlloc)
     (\<lambda>((n, lines), s'). n = length lines \<and> sorted_wrt (<) (map fst lines) \<and>
        (\<forall>k f size. (k, f, size) \<in> set lines \<longleftrightarrow>
           (\<exists>e. cache s k = Some e \<and> f = Flags e \<and> size = map_option GetBytesWritten (EntryBuffer e))) \<and>
        srv_inv api s' \<and> cache s' = cache s)
     (PrintDataCache api t s)"
  unfolding PrintDataCache_def
proof (rule read_scope)
  show "rw_free api (dataMapLock s)" using assms by (simp add: srv_inv_def)
  have wf: "wf_map (dataMap s)" using assms by (simp add: srv_inv_def entries_ok_def)
  let ?line = "\<lambda>(k, e). (k, Flags e, map_option GetBytesWritten (EntryBuffer e))"
  have "map (fst \<circ> ?line) (dataMap s) = map fst (dataMap s)" by (simp add: split_beta)
  then have sorted: "sorted_wrt (<) (map fst (map ?line (dataMap s)))" using wf by (simp only: map_map wf_map_def)
  have "(k, e) \<in> set (dataMap s) \<longleftrightarrow> cache s k = Some e" for k e
    using std_map.entry_iff [OF wf] by (simp add: cache_find)
  then have lines: "(k, f, size) \<in> set (map ?line (dataMap s)) \<longleftrightarrow>
      (\<exists>e. cache s k = Some e \<and> f = Flags e \<and> size = map_option GetBytesWritten (EntryBuffer e))" for k f size
    by force
  show "returns (\<lambda>e. e = BadAlloc)
     (\<lambda>(x, s'). dataMapLock s' = l \<and> (\<forall>m. rw_free api m \<longrightarrow> ((\<lambda>((n, lines), s').
        n = length lines \<and> sorted_wrt (<) (map fst lines) \<and>
        (\<forall>k f size. (k, f, size) \<in> set lines \<longleftrightarrow>
           (\<exists>e. cache s k = Some e \<and> f = Flags e \<and> size = map_option GetBytesWritten (EntryBuffer e))) \<and>
        srv_inv api s' \<and> cache s' = cache s) (x, s'\<lparr>dataMapLock := m\<rparr>))))
     (Some (Inr ((length (dataMap (s\<lparr>dataMapLock := l\<rparr>)),
       map (\<lambda>(k, e). (k, Flags e, map_option GetBytesWritten (EntryBuffer e))) (dataMap (s\<lparr>dataMapLock := l\<rparr>))), s\<lparr>dataMapLock := l\<rparr>)))" for l
    using assms sorted lines by (simp add: srv_inv_def cache_def)
qed

section \<open>Fixtures\<close>

definition empty_server :: "(bool \<times> bool) MemcacheServer" where
  "empty_server = \<lparr>dataMap = [], dataMapLock = ReadWriteLock_new flag_events, socketMap = [], sockMapMutex = Mutex_new,
     socketDisposal = [], sockListMutex = Mutex_new, listenSock = plain_socket\<lparr>socketHandle := None\<rparr>, mgmtThread = Thread_new,
     threadEvent = Event_new flag_events False False\<rparr>"

lemma empty_server_inv: "srv_inv flag_events empty_server"
  by (simp add: srv_inv_def empty_server_def rw_free_new [OF flag_events_ok] mutex_free_def entries_ok_def wf_map_def)

lemma empty_server_cache: "cache empty_server = Map.empty" "open_handles (map snd (socketMap empty_server)) = []"
  "server_handles empty_server = []"
  by (simp_all add: cache_def empty_server_def std_map.lookup_empty server_handles_def open_handle_def)

definition set_message :: "u8 list \<Rightarrow> u32 \<Rightarrow> u8 list \<Rightarrow> BaseMessage" where
  "set_message k f v = \<lparr>m_buffer = None, m_header = MessageHeader_new\<lparr>Magic := kMagicReq, Opcode := kOpSet\<rparr>, m_key = k,
     m_derived = SetRequest (buffer_with 64 v) (Some f) (Some 0)\<rparr>"

definition get_message :: "u8 list \<Rightarrow> BaseMessage" where
  "get_message k = \<lparr>m_buffer = None, m_header = MessageHeader_new\<lparr>Magic := kMagicReq, Opcode := kOpGet\<rparr>, m_key = k,
     m_derived = GetRequest\<rparr>"

lemma example_requests:
  "is_request (set_message k f v) (Set k (Some f) (buffer_with 64 v))" "is_request (get_message k) (Get k)"
  by (simp_all add: is_request_def set_message_def get_message_def dispatched_def class_matches_def protocol_constants)

section \<open>Properties\<close>

text \<open>
  C1. Requests are served as the cache's specification says. Over any sequence of set and get
  requests the server answers each in turn: a set request with success, a get request with what the
  last set request of its key stored (a copy, but for an empty value, which is stored as an empty
  buffer), or what the cache held before if there was none, or that there is no such key. The cache
  ends as these sets leave it, every lock is free again, and the only abnormal end is a failed
  allocation.
\<close>

theorem requests_served:
  assumes "srv_inv api s" "list_all2 is_request ms rs" "list_all wf_message ms"
  shows "returns (\<lambda>e. e = BadAlloc)
     (\<lambda>(replies, s'). length replies = length rs \<and>
        (\<forall>i < length rs. replies ! i = Some (reply_to (rs ! i) (cache_after (take i rs) (cache s)))) \<and>
        cache s' = cache_after rs (cache s) \<and> srv_inv api s' \<and> same_sockets s s')
     (srv_messages ok api t ms s)"
  by (rule srv_messages_serve [OF assms])

theorem requests_served_witness:
  "returns (\<lambda>e. e = BadAlloc)
     (\<lambda>(replies, s'). length replies = 2 \<and>
        cache s' = [[75] \<mapsto> \<lparr>Flags = Some 7, EntryBuffer = Some (buffer_with 64 [1, 2])\<rparr>] \<and>
        replies ! 1 = Some (get_answer (Some \<lparr>Flags = Some 7, EntryBuffer = Some (buffer_with 64 [1, 2])\<rparr>)))
     (srv_messages (\<lambda>_. True) flag_events 1 [set_message [75] 7 [1, 2], get_message [75]] empty_server)"
proof -
  let ?v = "buffer_with 64 [1, 2]"
  have v: "wf_buffer ?v" "bufferSize ?v = 64"
    using buffer_with_small [of "[1, 2]"] by simp_all
  have "cache_after [Set [75] (Some 7) ?v, Get [75]] Map.empty = [[75] \<mapsto> \<lparr>Flags = Some 7, EntryBuffer = Some ?v\<rparr>]"
    by (simp add: stored_def v)
  moreover have "returns (\<lambda>e. e = BadAlloc)
     (\<lambda>(replies, s'). length replies = length [Set [75] (Some 7) ?v, Get [75]] \<and>
        (\<forall>i < length [Set [75] (Some 7) ?v, Get [75]]. replies ! i =
           Some (reply_to ([Set [75] (Some 7) ?v, Get [75]] ! i) (cache_after (take i [Set [75] (Some 7) ?v, Get [75]]) (cache empty_server)))) \<and>
        cache s' = cache_after [Set [75] (Some 7) ?v, Get [75]] (cache empty_server) \<and> srv_inv flag_events s' \<and> same_sockets empty_server s')
     (srv_messages (\<lambda>_. True) flag_events 1 [set_message [75] 7 [1, 2], get_message [75]] empty_server)"
    by (rule requests_served [OF empty_server_inv]) (use v in \<open>simp_all add: example_requests\<close>, simp add: wf_message_def set_message_def get_message_def)
  ultimately show ?thesis
    by (elim returns_mono) (auto simp: empty_server_cache reply_to_def stored_def v All_less_Suc)
qed

text \<open>
  C6. What a peer can do to the server. Whatever bytes arrive on a socket of the server and in
  whatever pieces: if its thread's loop returns at all, then by \<open>return\<close>, with the server's invariant
  and that of the socket intact, or by a failed allocation, never by an access outside an array or a wrong
  cast. That it returns is not said: a peer that closes its connection can keep it from doing so.
\<close>

theorem server_socket_safe:
  assumes "Run ok ws (server_handler ok api ws t) s h n w = Some r" "recv_ok ws" "wf_socket s" "hasHandler s" "srv_inv api h"
  shows "yields (\<lambda>e. e = BadAlloc) (\<lambda>(s', h', _). wf_socket s' \<and> srv_inv api h') r"
  by (rule server.Run_yields [OF assms])

theorem server_socket_safe_witness:
  "\<exists>r. Run (\<lambda>_. True) pipe_winsock (server_handler (\<lambda>_. True) flag_events pipe_winsock 1) plain_socket empty_server 0 ([], []) = Some r \<and>
     yields (\<lambda>e. e = BadAlloc) (\<lambda>(s', h', _). wf_socket s' \<and> srv_inv flag_events h') r"
proof -
  have "Run (\<lambda>_. True) pipe_winsock (server_handler (\<lambda>_. True) flag_events pipe_winsock 1) plain_socket empty_server 0 ([], []) =
      Some (Inr (plain_socket, empty_server, 0, ([], [])))"
    by (simp add: Run_def Run_loop.simps Run_body_def SetSockOpts_def pipe_winsock_def plain_socket_def)
  with server_socket_safe [OF this pipe_ok(1) wf_plain_socket _ empty_server_inv] show ?thesis
    by (simp add: plain_socket_def)
qed

text \<open>
  The table of sockets. A connection that is accepted is entered under its session id, and a
  socket that reports its end is taken out of the table and put last on the list of sockets to
  dispose of; nobody else's entry changes, and a session that is not in the table changes nothing.
\<close>

theorem session_table:
  assumes "srv_inv api s"
  shows "returns (\<lambda>e. e = BadAlloc)
     (\<lambda>(s', _). srv_inv api s' \<and> std_map.lookup (socketMap s') = (std_map.lookup (socketMap s))(sessionID sock \<mapsto> Some sock))
     (srv_OnAcceptConn ws t sock s w) \<and>
   returns (\<lambda>e. e = BadAlloc)
     (\<lambda>s'. srv_inv api s' \<and> std_map.lookup (socketMap s') = (std_map.lookup (socketMap s))(ident := None) \<and>
        socketDisposal s' = socketDisposal s @ (case map_find ident (socketMap s) of None \<Rightarrow> [] | Some p \<Rightarrow> [p]))
     (srv_OnSocketClosed api t ident s)"
  by (rule conjI, rule srv_accept [OF assms], rule srv_closed [OF assms])

theorem session_table_witness:
  "returns (\<lambda>e. e = BadAlloc)
     (\<lambda>(s', _). srv_inv flag_events s' \<and> std_map.lookup (socketMap s') = [1 \<mapsto> Some plain_socket])
     (srv_OnAcceptConn pipe_winsock 1 plain_socket empty_server ([], []))"
  using session_table [OF empty_server_inv, where sock = plain_socket and ws = pipe_winsock and t = 1 and w = "([], [])"]
  by (simp add: empty_server_def plain_socket_def std_map.lookup_empty)

text \<open>
  C14. Shutting down, alone. In a run of \<open>Shutdown\<close> with which no other thread interferes, all the threads that
  it joins having ended by themselves, it returns with every open connection closed exactly once: the
  listening socket, then the sockets of the table in the order of their ids, then those that were
  waiting for disposal. Cache, table and list are empty, all locks free, and neither the management
  thread nor the listening one is left. (With connections that close meanwhile it may hang; that is the subject of
  \<open>Lifetime\<close>.)
\<close>

theorem server_shutdown:
  assumes "srv_inv api s"
  shows "returns (\<lambda>e. e = BadAlloc) (\<lambda>(w', s'). w' = close_handles ws (server_handles s) w \<and> shut_down api s')
     (Shutdown api ws t s w)"
  by (rule Shutdown_returns [OF assms])

theorem server_shutdown_witness:
  "returns (\<lambda>e. e = BadAlloc)
     (\<lambda>(w', s'). w' = [3, 5] \<and> shut_down flag_events s')
     (Shutdown flag_events (\<lparr>ws_socket = \<lambda>w. (None, w), ws_bind = \<lambda>_ _ w. (False, w), ws_listen = \<lambda>_ w. (False, w),
        ws_connect = \<lambda>_ _ _ w. (False, w), ws_accept = \<lambda>_ w. (None, w), ws_select = \<lambda>_ w. (0, w), ws_peek = \<lambda>_ _ w. (0, w),
        ws_recv = \<lambda>_ _ w. (None, w), ws_send = \<lambda>_ _ w. (None, w), ws_close = \<lambda>h w. w @ [h], ws_rcvtimeo = \<lambda>_ _ w. w,
        asked_to_stop = \<lambda>_. False\<rparr>) 1
        (empty_server\<lparr>socketMap := [(4, Some (plain_socket\<lparr>socketHandle := Some 3\<rparr>)), (9, Some (plain_socket\<lparr>socketHandle := Some 5\<rparr>))]\<rparr>) [])"
proof -
  let ?s = "empty_server\<lparr>socketMap := [(4, Some (plain_socket\<lparr>socketHandle := Some 3\<rparr>)), (9, Some (plain_socket\<lparr>socketHandle := Some 5\<rparr>))]\<rparr>"
  have "srv_inv flag_events ?s" using empty_server_inv by (simp add: srv_inv_def wf_map_def)
  from server_shutdown [OF this] show ?thesis
    by (rule returns_mono) (auto simp: server_handles_def empty_server_def open_handle_def close_handles_def)
qed

text \<open>
  C15. Starting. \<open>Start\<close> returns, and it says yes exactly if the port is 0 or a socket can be had, bound
  to the port and listened on, after the handle that the server listened on before has been closed.
  Then the server is up: the management thread runs, with a port other than 0 the socket listens and
  its thread runs, and the connections and the cache are as they were. When it says no, everything has been
  shut down again. (Nothing interferes while it runs, and the heap may refuse the objects it allocates.)
\<close>

theorem server_start:
  assumes "srv_inv api s"
  shows "returns (\<lambda>e. e = BadAlloc)
     (\<lambda>(r, _, s'). (r \<longleftrightarrow> port = 0 \<or> can_listen ws port (close_handles ws (open_handle (Some (listenSock s))) w)) \<and>
        (if r then started api port s s' else shut_down api s')) (Start api ws t port s w)"
  by (rule Start_returns [OF assms])

theorem server_start_witness:
  "returns (\<lambda>e. e = BadAlloc) (\<lambda>(r, _, s'). r \<and> started flag_events 30000 empty_server s')
     (Start flag_events pipe_winsock 1 30000 empty_server ([], [])) \<and>
   returns (\<lambda>e. e = BadAlloc) (\<lambda>(r, _, s'). \<not> r \<and> shut_down flag_events s')
     (Start flag_events (pipe_winsock\<lparr>ws_bind := \<lambda>_ _ w. (False, w)\<rparr>) 1 30000 empty_server ([], []))"
  by (intro conjI; rule returns_mono [OF server_start [OF empty_server_inv]])
    (auto simp: can_listen_def pipe_winsock_def split: if_splits)

text \<open>
  C16. The management thread ends. If the other threads keep the invariant and the thread is asked to
  stop after finitely many waits, its loop returns, having been asked to stop, with the invariant
  intact: no pass blocks or faults.
\<close>

theorem management_thread_ends:
  assumes "\<And>s w. srv_inv api s \<Longrightarrow> srv_inv api (fst (others (s, w)))"
    "\<And>s w. \<not> asked_to_stop ws (snd (others (s, w))) \<Longrightarrow> left (snd (others (s, w))) < (left w :: nat)"
    "\<And>h w. left (ws_close ws h w) = left w" "srv_inv api s"
  shows "returns (\<lambda>e. e = BadAlloc) (\<lambda>(w', s'). asked_to_stop ws w' \<and> srv_inv api s') (srv_Run api ws t others s w)"
  by (rule srv_Run_ends [where left = left, OF assms])

theorem management_thread_ends_witness:
  "returns (\<lambda>e. e = BadAlloc) (\<lambda>(w', s'). length (fst w') = 0 \<and> srv_inv flag_events s')
     (srv_Run flag_events (pipe_winsock\<lparr>asked_to_stop := \<lambda>w. fst w = []\<rparr>) 1
        (\<lambda>(s, w). (s, (tl (fst w), snd w))) empty_server ([1, 2, 3], []))"
proof -
  let ?ws = "pipe_winsock\<lparr>asked_to_stop := \<lambda>w. fst w = []\<rparr>" and ?o = "\<lambda>(s, w). (s, (tl (fst w), snd w))"
  have "returns (\<lambda>e. e = BadAlloc) (\<lambda>(w', s'). asked_to_stop ?ws w' \<and> srv_inv flag_events s')
      (srv_Run flag_events ?ws 1 ?o empty_server ([1, 2, 3], []))"
    by (rule management_thread_ends [where left = "\<lambda>w. length (fst w)"])
      (use empty_server_inv in \<open>auto simp: pipe_winsock_def neq_Nil_conv tl_Nil\<close>)
  then show ?thesis by (rule returns_mono) auto
qed

text \<open>
  Printing the cache. \<open>PrintDataCache\<close> lists every entry of the cache exactly once, in ascending
  order of the keys, with its flags and the number of bytes of its value, after the number of lines;
  the cache is not changed.
\<close>

theorem print_cache:
  assumes "srv_inv api s"
  shows "returns (\<lambda>e. e = BadAlloc)
     (\<lambda>((n, lines), s'). n = length lines \<and> sorted_wrt (<) (map fst lines) \<and>
        (\<forall>k f size. (k, f, size) \<in> set lines \<longleftrightarrow>
           (\<exists>e. cache s k = Some e \<and> f = Flags e \<and> size = map_option GetBytesWritten (EntryBuffer e))) \<and>
        srv_inv api s' \<and> cache s' = cache s)
     (PrintDataCache api t s)"
  by (rule PrintDataCache_returns [OF assms])

theorem print_cache_witness:
  "returns (\<lambda>e. e = BadAlloc) (\<lambda>((n, lines), s'). n = 0 \<and> lines = []) (PrintDataCache flag_events 1 empty_server)"
proof -
  have "lines = []" if "\<forall>k f size. (k, f, size) \<notin> set lines" for lines :: "(u8 list \<times> u32 ind \<times> size_t option) list"
    using that by (cases lines) auto
  then show ?thesis
    by (intro returns_mono [OF print_cache [OF empty_server_inv]]) (auto simp: empty_server_cache)
qed

end
