(* ===== verification/Client.thy ===== *)
theory Client
  imports Socket
begin

text \<open>
  \<open>MemcacheClient\<close>: the socket it owns, if any, and the last response the socket has delivered.
  Both requests run the same course: build, send, read one message, look at what was delivered. The
  socket calls back into the client while it reads; the callbacks touch \<open>_readMsg\<close> only, which is
  the state of the handler.
\<close>

section \<open>State and callbacks\<close>

record MemcacheClient =
  clientSocket :: "MemcacheSocket option"
  readMsg :: "BaseMessage option"

definition MemcacheClient_new :: MemcacheClient where
  "MemcacheClient_new = \<lparr>clientSocket = None, readMsg = None\<rparr>"

text \<open>
  \<open>*ourRes = *theRes\<close>, the assignment the compiler makes: member by member, the buffer shared, the
  value by \<open>DataBuffer::operator=\<close>.
\<close>

definition assign_response :: "heap \<Rightarrow> BaseMessage \<Rightarrow> BaseMessage \<Rightarrow> BaseMessage res" where
  "assign_response ok theRes ourRes =
     (case (m_derived theRes, m_derived ourRes) of
        (GetResponse v f, GetResponse v0 _) \<Rightarrow>
          bindE (operator_assign ok False v v0) (\<lambda>v. Inr (theRes\<lparr>m_derived := GetResponse v f\<rparr>))
      | (SetResponse, SetResponse) \<Rightarrow> Inr theRes
      | _ \<Rightarrow> Inl BadCast)"

definition cl_OnAcceptConn :: "MemcacheSocket \<Rightarrow> BaseMessage option \<Rightarrow> 'w \<Rightarrow> (BaseMessage option \<times> 'w) run" where
  "cl_OnAcceptConn sock rm w = Some (Inr (rm, w))"

definition cl_OnReceivedMessage ::
  "heap \<Rightarrow> BaseMessage \<Rightarrow> BaseMessage option \<Rightarrow> (BaseMessage option \<times> BaseMessage option) run" where
  "cl_OnReceivedMessage ok message rm =
     (let header = GetHeader message in
      if Magic header = kMagicRes
      then
        if Opcode header = kOpGet
        then Some (bindE (GetResponse_new ok) (\<lambda>ourRes.
             bindE (assign_response ok message ourRes) (\<lambda>ourRes. Inr (None, Some ourRes))))
        else if Opcode header = kOpSet
        then Some (bindE (SetResponse_new ok) (\<lambda>ourRes.
             bindE (assign_response ok message ourRes) (\<lambda>ourRes. Inr (None, Some ourRes))))
        else Some (Inr (None, rm))
      else Some (Inr (None, rm)))"

definition cl_OnSocketClosed :: "u32 \<Rightarrow> BaseMessage option \<Rightarrow> BaseMessage option run" where
  "cl_OnSocketClosed ident rm = Some (Inr rm)"

definition client_handler :: "heap \<Rightarrow> (BaseMessage option, 'w) ISocketHandler" where
  "client_handler ok =
     \<lparr>OnAcceptConn = cl_OnAcceptConn, OnReceivedMessage = cl_OnReceivedMessage ok, OnSocketClosed = cl_OnSocketClosed\<rparr>"

section \<open>Connecting\<close>

definition Disconnect :: "'w winsock \<Rightarrow> MemcacheClient \<Rightarrow> 'w \<Rightarrow> MemcacheClient \<times> 'w" where
  "Disconnect ws c w =
     (let (c, w) =
        (case clientSocket c of
           None \<Rightarrow> (c, w)
         | Some sock \<Rightarrow> let (sock, w) = Close ws sock w in (c\<lparr>clientSocket := None\<rparr>, MemcacheSocket_delete ws sock w))
      in (c\<lparr>readMsg := None\<rparr>, w))"

definition MemcacheClient_delete :: "'w winsock \<Rightarrow> MemcacheClient \<Rightarrow> 'w \<Rightarrow> 'w" where
  "MemcacheClient_delete ws c w = snd (Disconnect ws c w)"

definition cl_Connect ::
  "heap \<Rightarrow> 'w winsock \<Rightarrow> string \<Rightarrow> u16 \<Rightarrow> MemcacheClient \<Rightarrow> u32 \<Rightarrow> 'w \<Rightarrow> (bool \<times> MemcacheClient \<times> u32 \<times> 'w) res" where
  "cl_Connect ok ws address port c n w =
     (let (c, w) = Disconnect ws c w in
      bindE (MemcacheSocket_handler ok n) (\<lambda>(sock, n).
      let (r, sock, w) = Connect ws address port False sock w; c = c\<lparr>clientSocket := Some sock\<rparr> in
      if \<not> r
      then (let (c, w) = Disconnect ws c w in Inr (False, c, n, w))
      else Inr (True, c, n, w)))"

section \<open>Requests\<close>

text \<open>
  Build, send and read: whether it came to the reading, and the socket, \<open>_readMsg\<close> and the world
  after it.
\<close>

definition transact ::
  "heap \<Rightarrow> 'w winsock \<Rightarrow> BaseMessage \<Rightarrow> MemcacheSocket \<Rightarrow> BaseMessage option \<Rightarrow> 'w \<Rightarrow>
     (bool \<times> MemcacheSocket \<times> BaseMessage option \<times> 'w) run" where
  "transact ok ws theReq sock rm w =
     andThen (Some (Build ok theReq)) (\<lambda>(r, theReq).
     if r
     then
       andThen (Some (SendBuiltMessage ws sock theReq w)) (\<lambda>(sent, w).
       if sent
       then andThen (ReadMessage ok ws (client_handler ok) sock rm w) (\<lambda>(sock, rm, w). Some (Inr (True, sock, rm, w)))
       else Some (Inr (False, sock, rm, w)))
     else Some (Inr (False, sock, rm, w)))"

text \<open>\<open>set_response\<close> is what \<open>Set\<close> does with the message it finds in \<open>_readMsg\<close>.\<close>

definition set_response ::
  "MemcacheClient \<Rightarrow> bool \<Rightarrow> BaseMessage option \<Rightarrow> 'w \<Rightarrow> (bool \<times> MemcacheClient \<times> 'w) run" where
  "set_response c r rm w =
     (if r
      then
        (case rm of
           None \<Rightarrow> Some (Inr (False, c, w))
         | Some theRes \<Rightarrow>
             if same_class SetResponse (m_derived theRes)
             then Some (Inr (GetStatus theRes = kResNoError, c\<lparr>readMsg := None\<rparr>, w))
             else Some (Inr (False, c, w)))
      else Some (Inr (False, c, w)))"

definition cl_Set ::
  "heap \<Rightarrow> 'w winsock \<Rightarrow> u8 list \<Rightarrow> u32 \<Rightarrow> DataBuffer \<Rightarrow> MemcacheClient \<Rightarrow> 'w \<Rightarrow> (bool \<times> MemcacheClient \<times> 'w) run" where
  "cl_Set ok ws key flags v c w =
     (case clientSocket c of
        None \<Rightarrow> Some (Inr (False, c, w))
      | Some sock \<Rightarrow>
          if IsConnected sock
          then
            andThen (Some (SetRequest_new ok)) (\<lambda>theReq.
            andThen (Some (SetFlags (Some flags) (SetKey key theReq))) (\<lambda>theReq.
            andThen (Some (SetValue ok v theReq)) (\<lambda>theReq.
            andThen (transact ok ws theReq sock (readMsg c) w) (\<lambda>(r, sock, rm, w).
            set_response (c\<lparr>clientSocket := Some sock, readMsg := rm\<rparr>) r rm w))))
          else Some (Inr (False, c, w)))"

text \<open>
  \<open>outValue\<close> and \<open>outFlags\<close> are passed in and out. \<open>got_response\<close> is what \<open>Get\<close> does with the message
  it finds in \<open>_readMsg\<close>.
\<close>

definition got_response ::
  "heap \<Rightarrow> DataBuffer \<Rightarrow> u32 ind \<Rightarrow> MemcacheClient \<Rightarrow> bool \<Rightarrow> BaseMessage option \<Rightarrow> 'w \<Rightarrow>
     (bool \<times> DataBuffer \<times> u32 ind \<times> MemcacheClient \<times> 'w) run" where
  "got_response ok outValue outFlags c r rm w =
     (if r
      then
        (case rm of
           None \<Rightarrow> Some (Inr (False, outValue, outFlags, c, w))
         | Some theRes \<Rightarrow>
             if same_class (GetResponse DataBuffer_new (Some 0)) (m_derived theRes)
             then
               if GetStatus theRes = kResNoError
               then
                 andThen (Some (GetValue theRes)) (\<lambda>v.
                 andThen (Some (operator_assign ok False v outValue)) (\<lambda>outValue.
                 andThen (Some (GetFlags theRes)) (\<lambda>outFlags.
                 Some (Inr (True, outValue, outFlags, c\<lparr>readMsg := None\<rparr>, w)))))
               else Some (Inr (False, outValue, outFlags, c\<lparr>readMsg := None\<rparr>, w))
             else Some (Inr (False, outValue, outFlags, c, w)))
      else Some (Inr (False, outValue, outFlags, c, w)))"

definition cl_Get ::
  "heap \<Rightarrow> 'w winsock \<Rightarrow> u8 list \<Rightarrow> DataBuffer \<Rightarrow> u32 ind \<Rightarrow> MemcacheClient \<Rightarrow> 'w \<Rightarrow>
     (bool \<times> DataBuffer \<times> u32 ind \<times> MemcacheClient \<times> 'w) run" where
  "cl_Get ok ws key outValue outFlags c w =
     (case clientSocket c of
        None \<Rightarrow> Some (Inr (False, outValue, outFlags, c, w))
      | Some sock \<Rightarrow>
          if IsConnected sock
          then
            andThen (Some (GetRequest_new ok)) (\<lambda>theReq.
            andThen (transact ok ws (SetKey key theReq) sock (readMsg c) w) (\<lambda>(r, sock, rm, w).
            got_response ok outValue outFlags (c\<lparr>clientSocket := Some sock, readMsg := rm\<rparr>) r rm w))
          else Some (Inr (False, outValue, outFlags, c, w)))"

section \<open>The client keeps the contract of a socket's owner\<close>

definition client_inv :: "BaseMessage option \<Rightarrow> bool" where
  "client_inv rm \<longleftrightarrow> (\<forall>m. rm = Some m \<longrightarrow> wf_message m)"

definition wf_client :: "MemcacheClient \<Rightarrow> bool" where
  "wf_client c \<longleftrightarrow> (\<forall>s. clientSocket c = Some s \<longrightarrow> wf_socket s \<and> hasHandler s) \<and> client_inv (readMsg c)"

lemma wf_client_new: "wf_client MemcacheClient_new"
  by (simp add: wf_client_def MemcacheClient_new_def client_inv_def)

text \<open>What a response becomes in \<open>_readMsg\<close>: an empty value is not copied, which leaves a new buffer.\<close>

fun kept_copy :: "BaseMessage \<Rightarrow> BaseMessage" where
  "kept_copy m =
     (case m_derived m of
        GetResponse v f \<Rightarrow> m\<lparr>m_derived := GetResponse (if bufferSize v = 0 then DataBuffer_new else v) f\<rparr>
      | _ \<Rightarrow> m)"

declare kept_copy.simps [simp del]

lemma wf_kept_copy: "wf_message m \<Longrightarrow> wf_message (kept_copy m)"
  by (auto simp: kept_copy.simps wf_message_def split: derived.split)

lemma copy_yields:
  assumes "wf_buffer v"
  shows "yields (\<lambda>e. e = BadAlloc) (\<lambda>b. b = (if bufferSize v = 0 then v0 else v)) (operator_assign ok False v v0)"
  using assms by (auto simp: operator_assign_def copy_from_eq new_array_def)

lemma new_responses:
  "yields (\<lambda>e. e = BadAlloc) (\<lambda>m. \<exists>v f. m_derived m = GetResponse v f \<and> v = DataBuffer_new) (GetResponse_new ok)"
  "yields (\<lambda>e. e = BadAlloc) (\<lambda>m. m_derived m = SetResponse) (SetResponse_new ok)"
  by (auto simp: GetResponse_new_def SetResponse_new_def BaseMessage_new_def DataBuffer_len_def Alloc_eq new_array_def)

lemma cl_message:
  assumes "dispatched m" "wf_message m"
  shows "returns (\<lambda>e. e = BadAlloc)
     (\<lambda>(reply, rm'). reply = None \<and>
        rm' = (if Magic (m_header m) = kMagicRes \<and> Opcode (m_header m) \<in> {kOpGet, kOpSet} then Some (kept_copy m) else rm))
     (cl_OnReceivedMessage ok m rm)"
proof -
  have ne: "kOpGet \<noteq> kOpSet" by (simp add: protocol_constants)
  consider v f where "Magic (m_header m) = kMagicRes" "Opcode (m_header m) = kOpGet" "m_derived m = GetResponse v f" "wf_buffer v"
    | "Magic (m_header m) = kMagicRes" "Opcode (m_header m) = kOpSet" "m_derived m = SetResponse"
    | "\<not> (Magic (m_header m) = kMagicRes \<and> Opcode (m_header m) \<in> {kOpGet, kOpSet})"
    using assms ne by (cases "m_derived m") (auto simp: dispatched_def class_matches_def wf_message_def)
  then show ?thesis
  proof cases
    case 1
    have "yields (\<lambda>e. e = BadAlloc) (\<lambda>our. our = kept_copy m) (assign_response ok m our0)"
      if "\<exists>v f. m_derived our0 = GetResponse v f \<and> v = DataBuffer_new" for our0
      using that copy_yields [OF 1(4), of DataBuffer_new ok] 1(3)
      by (cases "operator_assign ok False v DataBuffer_new") (auto simp: assign_response_def kept_copy.simps)
    then have "yields (\<lambda>e. e = BadAlloc) (\<lambda>(reply, rm'). reply = None \<and> rm' = Some (kept_copy m))
        (bindE (GetResponse_new ok) (\<lambda>our. bindE (assign_response ok m our) (\<lambda>our. Inr (None, Some our))))"
      by (intro yields_bindE [OF new_responses(1)] yields_bindE) auto
    with 1 show ?thesis by (simp add: cl_OnReceivedMessage_def GetHeader_def)
  next
    case 2
    have "yields (\<lambda>e. e = BadAlloc) (\<lambda>our. our = kept_copy m) (assign_response ok m our0)"
      if "m_derived our0 = SetResponse" for our0
      using that 2 by (simp add: assign_response_def kept_copy.simps)
    then have "yields (\<lambda>e. e = BadAlloc) (\<lambda>(reply, rm'). reply = None \<and> rm' = Some (kept_copy m))
        (bindE (SetResponse_new ok) (\<lambda>our. bindE (assign_response ok m our) (\<lambda>our. Inr (None, Some our))))"
      by (intro yields_bindE [OF new_responses(2)] yields_bindE) auto
    with 2 ne show ?thesis by (simp add: cl_OnReceivedMessage_def GetHeader_def)
  next
    case 3
    then show ?thesis by (auto simp: cl_OnReceivedMessage_def Let_def GetHeader_def)
  qed
qed

interpretation client: socket_handler "client_handler ok" client_inv for ok :: heap
proof unfold_locales
  fix rm :: "BaseMessage option" and m :: BaseMessage and n :: u32 and s :: MemcacheSocket and w :: 'w
  assume inv: "client_inv rm"
  show "returns (\<lambda>e. e = BadAlloc) (\<lambda>(reply, rm'). client_inv rm' \<and> (\<forall>r. reply = Some r \<longrightarrow> wf_message r))
      (OnReceivedMessage (client_handler ok) m rm)" if "wf_message m" "dispatched m"
    unfolding client_handler_def ISocketHandler.simps
    by (rule returns_mono [OF cl_message [OF that(2,1)]]) (use inv that wf_kept_copy in \<open>auto simp: client_inv_def split: if_splits\<close>)
  show "returns (\<lambda>e. e = BadAlloc) (\<lambda>(rm', _). client_inv rm') (OnAcceptConn (client_handler ok) s rm w)"
    "returns (\<lambda>e. e = BadAlloc) client_inv (OnSocketClosed (client_handler ok) n rm)"
    using inv by (simp_all add: client_handler_def cl_OnAcceptConn_def cl_OnSocketClosed_def)
qed

section \<open>Safety\<close>

lemma transact_safe:
  assumes "recv_ok ws" "wf_message m" "wf_socket sock" "hasHandler sock" "client_inv rm"
  shows "if_returns (\<lambda>e. e = BadAlloc)
     (\<lambda>(_, sock', rm', _). wf_socket sock' \<and> hasHandler sock' \<and> client_inv rm') (transact ok ws m sock rm w)"
proof -
  let ?P = "\<lambda>(_ :: bool, sock', rm', _ :: 'a). wf_socket sock' \<and> hasHandler sock' \<and> client_inv rm'"
  have read: "if_returns (\<lambda>e. e = BadAlloc) ?P
      (andThen (ReadMessage ok ws (client_handler ok) sock rm w) (\<lambda>(sock, rm, w). Some (Inr (True, sock, rm, w))))" for w
    by (rule if_returns_andThen [where P = "\<lambda>(s', h', w'). wf_socket s' \<and> hasHandler s' \<and> client_inv h'"])
      (use client.ReadMessage_yields [OF assms(1,3,4,5), of ok] in \<open>auto simp: if_returns_def\<close>)
  have "if_returns (\<lambda>e. e = BadAlloc) ?P (if r
     then andThen (Some (SendBuiltMessage ws sock m' w)) (\<lambda>(sent, w).
       if sent then andThen (ReadMessage ok ws (client_handler ok) sock rm w) (\<lambda>(sock, rm, w). Some (Inr (True, sock, rm, w)))
       else Some (Inr (False, sock, rm, w)))
     else Some (Inr (False, sock, rm, w)))" if "wf_message m'" for r m'
  proof -
    have "yields (\<lambda>e. e = BadAlloc) (\<lambda>_. True) (SendBuiltMessage ws sock m' w)"
      using that by (auto simp: SendBuiltMessage_def wf_message_def send_buffer_ok split: option.split prod.split)
    moreover have "if_returns (\<lambda>e. e = BadAlloc) ?P (case x of (sent, w) \<Rightarrow>
       if sent then andThen (ReadMessage ok ws (client_handler ok) sock rm w) (\<lambda>(sock, rm, w). Some (Inr (True, sock, rm, w)))
       else Some (Inr (False, sock, rm, w)))" for x
      using read [of "snd x"] assms by (cases x) simp
    ultimately have "if_returns (\<lambda>e. e = BadAlloc) ?P
      (andThen (Some (SendBuiltMessage ws sock m' w)) (\<lambda>(sent, w).
         if sent then andThen (ReadMessage ok ws (client_handler ok) sock rm w) (\<lambda>(sock, rm, w). Some (Inr (True, sock, rm, w)))
         else Some (Inr (False, sock, rm, w))))"
      by (rule if_yields_andThen)
    with assms show ?thesis by simp
  qed
  then show ?thesis
    unfolding transact_def
    by (intro if_yields_andThen [OF Build_yields [where E = "\<lambda>e. e = BadAlloc", OF assms(2) refl]]) auto
qed

lemma Request_new_yields:
  "yields (\<lambda>e. e = BadAlloc) (\<lambda>m. m_derived m = GetRequest \<and> wf_message m) (GetRequest_new ok)"
  "yields (\<lambda>e. e = BadAlloc) (\<lambda>m. m_derived m = SetRequest DataBuffer_new (Some 0) None \<and> wf_message m) (SetRequest_new ok)"
  by (auto simp: GetRequest_new_def SetRequest_new_def BaseMessage_new_def DataBuffer_len_def Alloc_eq new_array_def
      wf_message_def wf_fresh)

lemma cl_Set_safe:
  assumes "recv_ok ws" "wf_client c" "wf_buffer v"
  shows "if_returns (\<lambda>e. e = BadAlloc) (\<lambda>(_, c', _). wf_client c') (cl_Set ok ws k f v c w)"
proof (cases "clientSocket c")
  case None
  with assms show ?thesis by (simp add: cl_Set_def)
next
  case (Some sock)
  have sock: "wf_socket sock" "hasHandler sock" "client_inv (readMsg c)"
    using assms(2) Some by (simp_all add: wf_client_def)
  have ready: "yields (\<lambda>e. e = BadAlloc) (\<lambda>m. m_derived m = SetRequest DataBuffer_new (Some f) None \<and> wf_message m)
      (SetFlags (Some f) (SetKey k m))" if "m_derived m = SetRequest DataBuffer_new (Some 0) None \<and> wf_message m" for m
    using that by (simp add: SetFlags_def SetKey_def wf_message_def)
  have valued: "yields (\<lambda>e. e = BadAlloc) wf_message (SetValue ok v m)"
    if "m_derived m = SetRequest DataBuffer_new (Some f) None \<and> wf_message m" for m
    using that copy_yields [OF assms(3), of DataBuffer_new ok] assms(3)
    by (cases "operator_assign ok False v DataBuffer_new") (auto simp: SetValue_def wf_message_def)
  have after: "if_returns (\<lambda>e. e = BadAlloc) (\<lambda>(_, c', _). wf_client c')
      (case x of (r, sock, rm, w) \<Rightarrow> set_response (c\<lparr>clientSocket := Some sock, readMsg := rm\<rparr>) r rm w)"
    if "case x of (_, sock', rm', _) \<Rightarrow> wf_socket sock' \<and> hasHandler sock' \<and> client_inv rm'" for x :: "bool \<times> MemcacheSocket \<times> BaseMessage option \<times> 'a"
    using that by (cases x) (auto simp: set_response_def wf_client_def client_inv_def split: option.split)
  have "if_returns (\<lambda>e. e = BadAlloc) (\<lambda>(_, c', _). wf_client c')
     (andThen (Some (SetRequest_new ok)) (\<lambda>m. andThen (Some (SetFlags (Some f) (SetKey k m))) (\<lambda>m.
      andThen (Some (SetValue ok v m)) (\<lambda>m. andThen (transact ok ws m sock (readMsg c) w) (\<lambda>(r, sock, rm, w).
      set_response (c\<lparr>clientSocket := Some sock, readMsg := rm\<rparr>) r rm w)))))"
    by (rule if_yields_andThen [OF Request_new_yields(2)], rule if_yields_andThen [OF ready], assumption,
        rule if_yields_andThen [OF valued], assumption, rule if_returns_andThen [OF transact_safe [OF assms(1) _ sock]],
        assumption, rule after, assumption)
  with Some assms(2) show ?thesis by (simp add: cl_Set_def)
qed

lemma got_response_safe:
  assumes "wf_client c" "wf_buffer outValue" "client_inv rm"
  shows "if_returns (\<lambda>e. e = BadAlloc) (\<lambda>(_, v', _, c', _). wf_client c' \<and> wf_buffer v') (got_response ok outValue outFlags c r rm w)"
proof -
  have wf: "wf_client (c\<lparr>readMsg := None\<rparr>)" using assms(1) by (simp add: wf_client_def client_inv_def)
  have "if_returns (\<lambda>e. e = BadAlloc) (\<lambda>(_, v', _, c', _). wf_client c' \<and> wf_buffer v')
     (andThen (Some (operator_assign ok False v outValue)) (\<lambda>outValue. Some (Inr (True, outValue, f, c\<lparr>readMsg := None\<rparr>, w))))"
    if "rm = Some m" "m_derived m = GetResponse v f" for m v f
  proof -
    have "wf_buffer v" using that assms(3) by (auto simp: client_inv_def wf_message_def)
    from copy_yields [OF this] show ?thesis
      by (rule if_yields_andThen) (use wf assms(2) \<open>wf_buffer v\<close> in auto)
  qed
  then show ?thesis
    using assms(1,2) wf
    by (auto simp: got_response_def GetValue_def GetFlags_def split: option.split derived.split)
qed

lemma cl_Get_safe:
  assumes "recv_ok ws" "wf_client c" "wf_buffer outValue"
  shows "if_returns (\<lambda>e. e = BadAlloc) (\<lambda>(_, v', _, c', _). wf_client c' \<and> wf_buffer v') (cl_Get ok ws k outValue outFlags c w)"
proof (cases "clientSocket c")
  case None
  with assms show ?thesis by (simp add: cl_Get_def)
next
  case (Some sock)
  have sock: "wf_socket sock" "hasHandler sock" "client_inv (readMsg c)"
    using assms(2) Some by (simp_all add: wf_client_def)
  have after: "if_returns (\<lambda>e. e = BadAlloc) (\<lambda>(_, v', _, c', _). wf_client c' \<and> wf_buffer v')
      (case x of (r, sock, rm, w) \<Rightarrow> got_response ok outValue outFlags (c\<lparr>clientSocket := Some sock, readMsg := rm\<rparr>) r rm w)"
    if "case x of (_, sock', rm', _) \<Rightarrow> wf_socket sock' \<and> hasHandler sock' \<and> client_inv rm'" for x :: "bool \<times> MemcacheSocket \<times> BaseMessage option \<times> 'a"
  proof -
    obtain r s' rm' w' where x: "x = (r, s', rm', w')" by (rule prod_cases4)
    have "wf_client (c\<lparr>clientSocket := Some s', readMsg := rm'\<rparr>)" "client_inv rm'"
      using that by (simp_all add: x wf_client_def)
    from got_response_safe [OF this(1) assms(3) this(2)] show ?thesis by (simp add: x)
  qed
  have key: "wf_message (SetKey k m)" if "m_derived m = GetRequest \<and> wf_message m" for m
    using that by (simp add: SetKey_def wf_message_def)
  have "if_returns (\<lambda>e. e = BadAlloc) (\<lambda>(_, v', _, c', _). wf_client c' \<and> wf_buffer v')
     (andThen (Some (GetRequest_new ok)) (\<lambda>m. andThen (transact ok ws (SetKey k m) sock (readMsg c) w) (\<lambda>(r, sock, rm, w).
      got_response ok outValue outFlags (c\<lparr>clientSocket := Some sock, readMsg := rm\<rparr>) r rm w)))"
    by (rule if_yields_andThen [OF Request_new_yields(1)], rule if_returns_andThen [OF transact_safe [OF assms(1) key sock]],
        assumption, rule after, assumption)
  with Some assms show ?thesis by (simp add: cl_Get_def)
qed

section \<open>Calls return\<close>

lemma andThen_returns:
  "\<exists>r. x = Some r \<Longrightarrow> (\<And>y. x = Some (Inr y) \<Longrightarrow> \<exists>r. f y = Some r) \<Longrightarrow> \<exists>r. andThen x f = Some r"
  by (cases x) (auto simp: andThen_def split: sum.split)

lemma transact_returns:
  assumes "recv_ok ws" "\<And>h. recv_progress ws h" "wf_socket sock"
  shows "\<exists>r. transact ok ws m sock rm w = Some r"
proof -
  have "OnReceivedMessage (client_handler ok) m' rm' \<noteq> None" for m' rm'
    by (simp add: client_handler_def cl_OnReceivedMessage_def Let_def)
  then have read: "\<exists>r. ReadMessage ok ws (client_handler ok) sock rm w' = Some r" for w'
    by (intro ReadMessage_returns [OF assms])
  show ?thesis
    unfolding transact_def by (auto split: prod.split intro!: andThen_returns read)
qed

lemma set_response_returns: "\<exists>y. set_response c r rm w = Some y"
  by (auto simp: set_response_def split: option.split)

lemma got_response_returns: "\<exists>y. got_response ok v f c r rm w = Some y"
  by (auto simp: got_response_def split: option.split intro!: andThen_returns)

lemma cl_Set_returns:
  assumes "recv_ok ws" "\<And>h. recv_progress ws h" "wf_client c"
  shows "\<exists>r. cl_Set ok ws k f b c w = Some r"
  using assms
  by (auto simp: cl_Set_def wf_client_def split: option.split intro!: andThen_returns transact_returns set_response_returns)

lemma cl_Get_returns:
  assumes "recv_ok ws" "\<And>h. recv_progress ws h" "wf_client c"
  shows "\<exists>r. cl_Get ok ws k v f c w = Some r"
  using assms
  by (auto simp: cl_Get_def wf_client_def split: option.split intro!: andThen_returns transact_returns got_response_returns)

section \<open>Connecting\<close>

lemma Disconnect_eq:
  "Disconnect ws c w = (MemcacheClient_new, (case clientSocket c of None \<Rightarrow> w | Some s \<Rightarrow>
     (case socketHandle s of None \<Rightarrow> w | Some h \<Rightarrow> ws_close ws h w)))"
  by (cases c) (auto simp: Disconnect_def MemcacheSocket_delete_def Close_def MemcacheClient_new_def Let_def split: option.split prod.split)

lemma Connect_outcome:
  assumes "Connect ws a p False sock w = (r, sock', w')"
  shows "IsConnected sock' = r" "sock' = sock\<lparr>socketHandle := socketHandle sock', selectThread := selectThread sock', isListening := isListening sock'\<rparr>"
  using assms
  by (auto simp: Connect_def Close_def Let_def IsConnected_def split: prod.splits option.splits if_splits)

lemma cl_Connect_yields:
  "yields (\<lambda>e. e = BadAlloc)
     (\<lambda>(r, c', _). wf_client c' \<and> readMsg c' = None \<and> (r \<longleftrightarrow> clientSocket c' \<noteq> None) \<and>
        (\<forall>s. clientSocket c' = Some s \<longrightarrow> IsConnected s \<and> GetSessionID s = n + 1))
     (cl_Connect ok ws a p c n w)"
proof -
  have "yields (\<lambda>e. e = BadAlloc) (\<lambda>(s, n'). wf_socket s \<and> hasHandler s \<and> sessionID s = n + 1) (MemcacheSocket_handler ok n)"
    by (auto simp: MemcacheSocket_handler_def socket_object_def GetNextSessionID_def DataBuffer_len_def Alloc_eq
        new_array_def wf_socket_def wf_fresh kMBPHeaderSize_def)
  then show ?thesis
    unfolding cl_Connect_def Disconnect_eq Let_def prod.case
  proof (rule yields_bindE)
    fix x :: "MemcacheSocket \<times> u32"
    assume x: "case x of (s, n') \<Rightarrow> wf_socket s \<and> hasHandler s \<and> sessionID s = n + 1"
    obtain s n' where xs: "x = (s, n')" by (cases x)
    let ?w = "case clientSocket c of None \<Rightarrow> w | Some s \<Rightarrow> (case socketHandle s of None \<Rightarrow> w | Some h \<Rightarrow> ws_close ws h w)"
    obtain r s' w' where r: "Connect ws a p False s ?w = (r, s', w')" by (rule prod_cases3)
    note o = Connect_outcome [OF r]
    have "wf_socket s'" "hasHandler s'" "sessionID s' = n + 1"
      using x by (subst o(2), simp add: xs wf_socket_def)+
    with o(1) show "yields (\<lambda>e. e = BadAlloc)
       (\<lambda>(r, c', _). wf_client c' \<and> readMsg c' = None \<and> (r \<longleftrightarrow> clientSocket c' \<noteq> None) \<and>
          (\<forall>s. clientSocket c' = Some s \<longrightarrow> IsConnected s \<and> GetSessionID s = n + 1))
       (case x of (sock, n) \<Rightarrow>
          case Connect ws a p False sock ?w of (r, sock, w) \<Rightarrow>
          if \<not> r then Inr (False, MemcacheClient_new, n,
            (case clientSocket (MemcacheClient_new\<lparr>clientSocket := Some sock\<rparr>) of None \<Rightarrow> w | Some s \<Rightarrow> (case socketHandle s of None \<Rightarrow> w | Some h \<Rightarrow> ws_close ws h w)))
          else Inr (True, MemcacheClient_new\<lparr>clientSocket := Some sock\<rparr>, n, w))"
      by (simp add: xs r wf_client_def client_inv_def MemcacheClient_new_def GetSessionID_def)
  qed
qed

section \<open>Properties\<close>

text \<open>
  What a server can do to the client. Whatever comes back on the connection, and whatever is
  left over from earlier calls, if \<open>Set\<close> or \<open>Get\<close> returns then with a result or a failed
  allocation, never by an access outside an array or a wrong cast; the client and its socket, and
  the buffer passed to \<open>Get\<close>, are well formed again.
\<close>

theorem client_safe:
  assumes "recv_ok ws" "wf_client c" "wf_buffer v"
  shows "if_returns (\<lambda>e. e = BadAlloc) (\<lambda>(_, c', _). wf_client c') (cl_Set ok ws k f v c w) \<and>
   if_returns (\<lambda>e. e = BadAlloc) (\<lambda>(_, v', _, c', _). wf_client c' \<and> wf_buffer v') (cl_Get ok ws k v flags c w)"
  using cl_Set_safe [OF assms] cl_Get_safe [OF assms] ..

theorem client_safe_witness:
  "if_returns (\<lambda>e. e = BadAlloc) (\<lambda>(_, c', _). wf_client c')
     (cl_Set (\<lambda>_. True) pipe_winsock [75] 7 (fresh 64) \<lparr>clientSocket = Some plain_socket, readMsg = None\<rparr> ([1, 2, 3], []))"
proof -
  have c: "wf_client \<lparr>clientSocket = Some plain_socket, readMsg = None\<rparr>"
    using wf_plain_socket by (simp add: wf_client_def client_inv_def plain_socket_def)
  have "wf_buffer (fresh 64)" by (simp add: wf_fresh heap_maxreq_def)
  from client_safe [OF pipe_ok(1) c this] show ?thesis by blast
qed

text \<open>
  Connecting. \<open>Connect\<close> closes what the client had, and ends with a connected socket under a new
  session id when it says yes and with no socket at all when it says no; nothing of the earlier
  connection is left in the client.
\<close>

theorem connect_outcome:
  "yields (\<lambda>e. e = BadAlloc)
     (\<lambda>(r, c', _). wf_client c' \<and> readMsg c' = None \<and> (r \<longleftrightarrow> clientSocket c' \<noteq> None) \<and>
        (\<forall>s. clientSocket c' = Some s \<longrightarrow> IsConnected s \<and> GetSessionID s = n + 1))
     (cl_Connect ok ws a p c n w)"
  by (rule cl_Connect_yields)

theorem connect_outcome_witness:
  "yields (\<lambda>e. e = BadAlloc) (\<lambda>(r, c', _). r \<longleftrightarrow> clientSocket c' \<noteq> None)
     (cl_Connect (\<lambda>_. True) pipe_winsock ''127.0.0.1'' 30000 MemcacheClient_new 0 ([], []))"
  by (rule yields_mono [OF connect_outcome]) auto

end
