(* ===== verification/Exchange.thy ===== *)
theory Exchange
  imports Server Client
begin

text \<open>
  Client and server together. A message that one side has built and sent is read, parsed and
  delivered by the other as the same message; so a request of the client makes the server do what
  the specification of the cache says and send the answer, and the client returns that answer.
\<close>

section \<open>From one side to the other\<close>

text \<open>
  The bytes that arrive when cells are sent: those written, and some byte for a cell that never was.
\<close>

definition carries :: "cell list \<Rightarrow> u8 list \<Rightarrow> bool" where
  "carries cs bs \<longleftrightarrow> list_all2 (\<lambda>c b. \<forall>x. c = Some x \<longrightarrow> b = x) cs bs"

lemma carries_Some [simp]: "carries (map Some xs) bs \<longleftrightarrow> bs = xs"
  by (auto simp: carries_def list_all2_conv_all_nth intro: nth_equalityI)

lemma carries_length: "carries cs bs \<Longrightarrow> length bs = length cs"
  by (auto simp: carries_def dest: list_all2_lengthD)

lemma carries_append:
  "carries (cs @ ds) bs \<longleftrightarrow> (\<exists>xs ys. bs = xs @ ys \<and> carries cs xs \<and> carries ds ys)"
proof
  assume "carries (cs @ ds) bs"
  then show "\<exists>xs ys. bs = xs @ ys \<and> carries cs xs \<and> carries ds ys"
    unfolding carries_def list_all2_append1 by blast
next
  assume "\<exists>xs ys. bs = xs @ ys \<and> carries cs xs \<and> carries ds ys"
  then show "carries (cs @ ds) bs"
    unfolding carries_def by (auto intro: list_all2_appendI)
qed

text \<open>A message of a class the header names, as \<open>Build\<close> makes the header.\<close>

lemma select_sent:
  "select_message (header_seen (sent_header m)) b cur = Some (BaseMessage_buf (Some b) (blank (m_derived m)))"
  "class_matches (sent_header m) (m_derived m)"
  by (cases "m_derived m"; simp add: select_message_def sent_header_def start_header_def protocol_constants Let_def
      GetRequest_buf_def SetRequest_buf_def GetResponse_buf_def SetResponse_buf_def class_matches_def)+

text \<open>What the other side sees of a message: an indeterminate expiration time has become a number.\<close>

definition arrives_as :: "BaseMessage \<Rightarrow> BaseMessage \<Rightarrow> bool" where
  "arrives_as m m' \<longleftrightarrow> m_header m' = header_seen (sent_header m) \<and> m_key m' = m_key m \<and> wf_message m' \<and>
     m_derived m' = received (m_derived m) (value_size (sent_header m)) (value_cells (m_derived m)) (blank (m_derived m))"

lemma ReadMessage_delivers:
  assumes net: "recv_ok ws" "stream_ok ws (socketHandle s) stream" "wf_socket s" "hasHandler s"
    and m: "buildable ok0 m" "protocol_ok m" "TotalBodyLen (start_header m) = 0" "length (value_cells (m_derived m)) < 2 ^ 31"
    and bs: "map Some bs = frame_cells (sent_header m) (m_derived m) (m_key m)" "stream w = bs @ rest"
    and heap: "heap_serves (24 + body_length m) ok"
  obtains m' b' w' where "stream w' = rest" "arrives_as m m'" "dispatched m'"
    "wf_socket (s\<lparr>currentMsg := Some m', readBuffer := b'\<rparr>)"
    "ReadMessage ok ws H s h w = andThen (OnReceivedMessage H m' h) (\<lambda>(reply, h).
       andThen (Some (answer ok ws (s\<lparr>currentMsg := Some m', readBuffer := b'\<rparr>) reply w')) (\<lambda>w.
       Some (Inr (s\<lparr>currentMsg := Some m', readBuffer := b'\<rparr>, h, w))))"
proof -
  let ?h = "sent_header m" and ?d = "m_derived m"
  obtain xs body where bs': "bs = xs @ body" "map Some xs = map Some (header_bytes ?h)"
      "map Some body = extras_cells ?d @ map Some (m_key m) @ value_cells ?d"
    using map_eq_append_conv [THEN iffD1, OF bs(1) [unfolded frame_cells_def]] by (elim exE conjE) (rule that, assumption, erule sym, erule sym)
  have xs: "xs = header_bytes ?h" using bs'(2) by (simp add: inj_map_eq_map)
  have k: "length (m_key m) < 65536" using m(2) by (simp add: protocol_ok_def)
  have lb: "length body = body_length m"
    using arg_cong [OF bs'(3), of length] k by (simp add: body_length_def length_extras_cells)
  have t: "unat (TotalBodyLen ?h) = body_length m"
  proof -
    have "body_length m < 2 ^ 32"
      using heap unfolding heap_serves_def heap_maxreq_def by simp
    then show ?thesis using m(3) by (simp add: sent_header_def unat_of_nat take_bit_eq_mod)
  qed
  have size: "24 + length body \<le> unat heap_maxreq"
    using heap lb by (simp add: heap_serves_def)
  have ok: "ok (TotalBodyLen ?h + kMBPHeaderSize)"
  proof -
    have "unat (TotalBodyLen ?h + kMBPHeaderSize) \<le> 24 + body_length m"
      using t unat_plus_simple [of "TotalBodyLen ?h" kMBPHeaderSize] size lb
      by (simp add: unat_word_ariths kMBPHeaderSize_def heap_maxreq_def)
    with heap show ?thesis by (simp add: heap_serves_def)
  qed
  obtain b w' where b: "stream w' = rest" "filling (header_bytes ?h @ body) b" "24 \<le> unat (bufferSize b)"
    "ReadMessage ok ws H s h w = deliver ok ws H
       (s\<lparr>readBuffer := b, currentMsg := select_message (header_seen ?h) b (currentMsg s)\<rparr>) h w'"
    by (rule ReadMessage_stream [OF net(1-3), of w ?h body rest ok H h])
      (use bs(2) bs'(1) xs lb t size ok in simp_all)
  have wb: "wf_buffer b" "written b = frame_cells ?h ?d (m_key m)"
    using b(2) bs(1) bs'(1) xs by (simp_all add: filling_def)
  have serves: "heap_serves (length (value_cells ?d)) ok"
    by (rule heap_serves_mono [OF heap]) (simp add: body_length_def)
  obtain m' where m': "Parse ok (BaseMessage_buf (Some b) (blank ?d)) = Inr (True, m')"
    "m_header m' = header_seen ?h" "m_key m' = m_key m"
    "m_derived m' = received ?d (value_size ?h) (value_cells ?d) (blank ?d)"
    by (rule Parse_frame [OF m serves wb])
  have "wf_message (BaseMessage_buf (Some b) (blank ?d))"
    using wb(1) by (cases ?d) (simp_all add: wf_message_def)
  from Parse_parsing [OF _ this, of b ?h body ok] b(2) obtain b' where
    p: "parsing (header_bytes ?h @ body) (header_seen ?h) (blank ?d) b' m'"
    by (auto simp: filling_def m'(1))
  then have wf: "wf_message m'" "m_buffer m' = Some b'" "wf_buffer b'" "same_class (blank ?d) (m_derived m')"
    by (simp_all add: parsing_def wf_message_def)
  have "length (written b') \<le> unat (bufferSize b')"
    using length_written [OF wf(3)] wf_offsets [OF wf(3)] by simp
  then have sock: "wf_socket (s\<lparr>currentMsg := Some m', readBuffer := b'\<rparr>)"
    using wf p by (simp add: parsing_def wf_socket_def)
  have "same_class ?d (blank ?d)" by (cases ?d) simp_all
  then have "dispatched m'"
    unfolding dispatched_def m'(2) class_matches_seen
    by (rule class_matches_same [OF class_matches_same [OF select_sent(2)] wf(4)])
  moreover have "arrives_as m m'" using m'(2-4) wf(1) by (simp add: arrives_as_def)
  ultimately show thesis
    using that [OF b(1) _ _ sock] b(4) m'(1) wf(2) net(4)
    by (simp add: deliver_def select_sent Let_def)
qed

text \<open>A reply that can be built is sent as its frame.\<close>

lemma answer_sends:
  assumes "buildable ok m" "TotalBodyLen (start_header m) = 0" "length (m_key m) < 65536"
  shows "answer ok ws s (Some m) w =
     Inr (snd (ws_send ws (socketHandle s) (frame_cells (sent_header m) (m_derived m) (m_key m)) w))"
proof -
  obtain m1 where m1: "Build ok m = Inr (True, m1)" "wf_message m1"
      "wire m1 = take (24 + body_length m) (frame_cells (sent_header m) (m_derived m) (m_key m))"
    by (rule Build_eq [OF assms(1)]) (use assms(2) in auto)
  have w: "wire m1 = frame_cells (sent_header m) (m_derived m) (m_key m)"
    using assms(3) unfolding m1(3) by (simp add: frame_cells_def body_length_def length_extras_cells)
  obtain b where b: "m_buffer m1 = Some b" "wf_buffer b" "written b = wire m1"
    using sent_buffer [OF assms(1) m1(1) assms(2)] by blast
  show ?thesis
    using m1(1) b w by (simp add: answer_def send_buffer_ok split: prod.split)
qed

section \<open>The server's part\<close>

definition frame_of :: "BaseMessage \<Rightarrow> cell list" where
  "frame_of m = frame_cells (sent_header m) (m_derived m) (m_key m)"

text \<open>The request that a message becomes when it arrives.\<close>

fun asked :: "BaseMessage \<Rightarrow> request option" where
  "asked m =
     (case m_derived m of
        GetRequest \<Rightarrow> Some (Get (m_key m))
      | SetRequest v f e \<Rightarrow> Some (Set (m_key m) f (filled (of_nat (length (written v))) (written v)))
      | _ \<Rightarrow> None)"

declare asked.simps [simp del]

lemma arrives_request:
  assumes "arrives_as m m'" "dispatched m'" "asked m = Some r" "protocol_ok m" "TotalBodyLen (start_header m) = 0"
    "length (value_cells (m_derived m)) < 2 ^ 31"
  shows "is_request m' r"
proof -
  have k: "length (m_key m) < 65536" using assms(4) by (simp add: protocol_ok_def)
  note n = sent_value_size [OF k assms(5)]
  have ne: "of_nat (length (value_cells (m_derived m))) \<noteq> (0 :: size_t)" if "value_cells (m_derived m) \<noteq> []"
  proof
    assume "of_nat (length (value_cells (m_derived m))) = (0 :: size_t)"
    then have "unat (of_nat (length (value_cells (m_derived m))) :: size_t) = 0" by simp
    then show False using assms(6) that by (simp add: unat_of_nat take_bit_eq_mod)
  qed
  show ?thesis
  proof (cases "m_derived m")
    case GetRequest
    with assms show ?thesis
      by (auto simp: is_request_def asked.simps arrives_as_def sent_header_def start_header_def protocol_constants)
  next
    case (SetRequest v f e)
    then have "value_cells (m_derived m) \<noteq> []" using assms(4) by (simp add: protocol_ok_def)
    with SetRequest assms n ne show ?thesis
      by (auto simp: is_request_def asked.simps arrives_as_def sent_header_def start_header_def protocol_constants value_cells_def)
  qed (use assms(3) in \<open>simp_all add: asked.simps\<close>)
qed

text \<open>An answer of the cache has a new header and no key.\<close>

lemma reply_shape:
  "TotalBodyLen (start_header (reply_to r c)) = 0" "m_key (reply_to r c) = []"
  "m_buffer (reply_to r c) = Some (fresh 2048)"
  by (cases r; auto simp: reply_to_def get_answer_def set_answer_def new_reply_def start_header_def MessageHeader_new_def
      split: option.split)+

lemma server_answers:
  assumes net: "recv_ok ws" "stream_ok ws (socketHandle s) stream" "wf_socket s" "hasHandler s" "srv_inv api h"
    and m: "buildable ok0 m" "protocol_ok m" "TotalBodyLen (start_header m) = 0" "length (value_cells (m_derived m)) < 2 ^ 31"
    and bs: "map Some bs = frame_of m" "stream w = bs @ rest" and r: "asked m = Some r"
    and heap: "heap_serves (24 + body_length m) ok" "buildable ok (reply_to r (cache h))"
  shows "returns (\<lambda>e. e = BadAlloc)
     (\<lambda>(s', h', w''). wf_socket s' \<and> srv_inv api h' \<and> cache h' = snd (serve r (cache h)) \<and>
        (\<exists>w'. stream w' = rest \<and> w'' = snd (ws_send ws (socketHandle s) (frame_of (reply_to r (cache h))) w')))
     (ReadMessage ok ws (server_handler ok api ws t) s h w)"
proof -
  obtain m' b' w' where d: "stream w' = rest" "arrives_as m m'" "dispatched m'"
    "wf_socket (s\<lparr>currentMsg := Some m', readBuffer := b'\<rparr>)"
    "ReadMessage ok ws (server_handler ok api ws t) s h w = andThen (OnReceivedMessage (server_handler ok api ws t) m' h)
       (\<lambda>(reply, h). andThen (Some (answer ok ws (s\<lparr>currentMsg := Some m', readBuffer := b'\<rparr>) reply w')) (\<lambda>w.
       Some (Inr (s\<lparr>currentMsg := Some m', readBuffer := b'\<rparr>, h, w))))"
    by (rule ReadMessage_delivers [where H = "server_handler ok api ws t" and h = h, OF net(1-4) m bs(1) [unfolded frame_of_def] bs(2) heap(1)])
  have "is_request m' r" by (rule arrives_request [OF d(2,3) r m(2-4)])
  moreover have "wf_message m'" using d(2) by (simp add: arrives_as_def)
  ultimately have "returns (\<lambda>e. e = BadAlloc)
     (\<lambda>(reply, s'). (reply, cache s') = apfst Some (serve r (cache h)) \<and> srv_inv api s' \<and> same_sockets h s')
     (OnReceivedMessage (server_handler ok api ws t) m' h)"
    using serve_request [OF net(5), of m' r ok t] by (simp add: server_handler_def)
  then show ?thesis
    unfolding d(5)
  proof (rule returns_andThen)
    fix x
    assume x: "case x of (reply, s') \<Rightarrow> (reply, cache s') = apfst Some (serve r (cache h)) \<and> srv_inv api s' \<and> same_sockets h s'"
    obtain reply h' where xs: "x = (reply, h')" by (cases x)
    have h': "reply = Some (reply_to r (cache h))" "cache h' = snd (serve r (cache h))" "srv_inv api h'"
      using x by (cases "serve r (cache h)"; simp add: xs reply_to_def)+
    show "returns (\<lambda>e. e = BadAlloc)
     (\<lambda>(s', h', w''). wf_socket s' \<and> srv_inv api h' \<and> cache h' = snd (serve r (cache h)) \<and>
        (\<exists>w'. stream w' = rest \<and> w'' = snd (ws_send ws (socketHandle s) (frame_of (reply_to r (cache h))) w')))
     (case x of (reply, h) \<Rightarrow> andThen (Some (answer ok ws (s\<lparr>currentMsg := Some m', readBuffer := b'\<rparr>) reply w')) (\<lambda>w.
       Some (Inr (s\<lparr>currentMsg := Some m', readBuffer := b'\<rparr>, h, w))))"
      using h' d(1,4) answer_sends [where ws = ws, OF heap(2) reply_shape(1)]
      by (auto simp: xs reply_shape frame_of_def)
  qed
qed

section \<open>The client's part\<close>

lemma transact_sent:
  assumes "buildable ok m" "TotalBodyLen (start_header m) = 0" "length (m_key m) < 65536"
    "ws_send ws (socketHandle sock) (frame_of m) w = (Some (of_nat (length (frame_of m))), w1)"
  shows "transact ok ws m sock rm w =
     andThen (ReadMessage ok ws (client_handler ok) sock rm w1) (\<lambda>(sock, rm, w). Some (Inr (True, sock, rm, w)))"
proof -
  obtain m1 where m1: "Build ok m = Inr (True, m1)"
      "wire m1 = take (24 + body_length m) (frame_cells (sent_header m) (m_derived m) (m_key m))"
    by (rule Build_eq [OF assms(1)]) (use assms(2) in auto)
  have w: "wire m1 = frame_of m"
    using assms(3) unfolding m1(2) by (simp add: frame_of_def frame_cells_def body_length_def length_extras_cells)
  obtain b where b: "m_buffer m1 = Some b" "wf_buffer b" "written b = wire m1"
    using sent_buffer [OF assms(1) m1(1) assms(2)] by blast
  have "GetBytesWritten b = of_nat (length (frame_of m))"
    using length_written [OF b(2)] b(3) w by (simp add: GetBytesWritten_def)
  then show ?thesis
    using m1(1) b w assms(4) by (simp add: transact_def SendBuiltMessage_def send_buffer_ok)
qed

text \<open>What the client holds after it has read a response.\<close>

definition kept_response :: "BaseMessage \<Rightarrow> BaseMessage \<Rightarrow> bool" where
  "kept_response m kept \<longleftrightarrow> wf_message kept \<and> GetStatus kept = Status (m_header m) \<and>
     m_derived kept = received (m_derived m) (of_nat (length (value_cells (m_derived m)))) (value_cells (m_derived m)) (blank (m_derived m))"

lemma client_reads:
  assumes net: "recv_ok ws" "stream_ok ws (socketHandle s) stream" "wf_socket s" "hasHandler s"
    and m: "buildable ok0 m" "protocol_ok m" "TotalBodyLen (start_header m) = 0" "length (value_cells (m_derived m)) < 2 ^ 31"
      "\<not> same_class GetRequest (m_derived m)" "\<not> same_class (SetRequest DataBuffer_new (Some 0) None) (m_derived m)"
    and bs: "map Some bs = frame_of m" "stream w = bs @ rest"
    and heap: "heap_serves (24 + body_length m) ok"
  shows "returns (\<lambda>e. e = BadAlloc)
     (\<lambda>(s', rm', w'). wf_socket s' \<and> hasHandler s' \<and> stream w' = rest \<and> (\<exists>kept. rm' = Some kept \<and> kept_response m kept))
     (ReadMessage ok ws (client_handler ok) s rm w)"
proof -
  let ?n = "of_nat (length (value_cells (m_derived m))) :: size_t"
  obtain m' b' w' where d: "stream w' = rest" "arrives_as m m'" "dispatched m'"
    "wf_socket (s\<lparr>currentMsg := Some m', readBuffer := b'\<rparr>)"
    "ReadMessage ok ws (client_handler ok) s rm w = andThen (cl_OnReceivedMessage ok m' rm)
       (\<lambda>(reply, h). andThen (Some (answer ok ws (s\<lparr>currentMsg := Some m', readBuffer := b'\<rparr>) reply w')) (\<lambda>w.
       Some (Inr (s\<lparr>currentMsg := Some m', readBuffer := b'\<rparr>, h, w))))"
    by (rule ReadMessage_delivers [where H = "client_handler ok" and h = rm, OF net m(1-4) bs(1) [unfolded frame_of_def] bs(2) heap])
      (simp add: client_handler_def)
  have k: "length (m_key m) < 65536" using m(2) by (simp add: protocol_ok_def)
  have wf: "wf_message m'" using d(2) by (simp add: arrives_as_def)
  have hdr: "Magic (m_header m') = kMagicRes" "Opcode (m_header m') \<in> {kOpGet, kOpSet}"
    "Status (m_header m') = Status (m_header m)"
    using d(2) m(5,6) by (cases "m_derived m"; simp add: arrives_as_def sent_header_def start_header_def)+
  have "m_derived (kept_copy m') = m_derived m'"
    using d(2) m(5,6) sent_value_size [OF k m(3)]
    by (cases "m_derived m") (auto simp: kept_copy.simps arrives_as_def filled_def)
  then have kept: "kept_response m (kept_copy m')"
    using d(2) wf_kept_copy [OF wf] hdr(3) sent_value_size [OF k m(3)]
    by (auto simp: kept_response_def arrives_as_def GetStatus_def kept_copy.simps split: derived.split)
  have "returns (\<lambda>e. e = BadAlloc) (\<lambda>(reply, rm'). reply = None \<and> rm' = Some (kept_copy m'))
      (cl_OnReceivedMessage ok m' rm)"
    using cl_message [OF d(3) wf, of rm ok] hdr by simp
  then show ?thesis
    unfolding d(5) by (rule returns_andThen) (use d(1,4) kept net(4) in \<open>auto simp: answer_def\<close>)
qed

text \<open>The requests the client sends: new messages with a key.\<close>

definition request_message :: "u8 list \<Rightarrow> derived \<Rightarrow> BaseMessage" where
  "request_message k d = \<lparr>m_buffer = Some (fresh 2048), m_header = MessageHeader_new, m_key = k, m_derived = d\<rparr>"

lemma request_message_simps [simp]:
  "m_buffer (request_message k d) = Some (fresh 2048)" "m_header (request_message k d) = MessageHeader_new"
  "m_key (request_message k d) = k" "m_derived (request_message k d) = d"
  by (simp_all add: request_message_def)

lemma request_start [simp]: "TotalBodyLen (start_header (request_message k d)) = 0"
  by (simp add: start_header_def MessageHeader_new_def split: derived.split)

lemma request_buildable:
  assumes "heap_serves (2048 + length k + length (value_cells d)) ok" "wf_buffer (value_of d)"
  shows "buildable ok (request_message k d)"
  using assms by (simp add: buildable_def wf_message_def wf_fresh heap_maxreq_def)

lemma new_requests:
  assumes "ok 2048"
  shows "bindE (GetRequest_new ok) (\<lambda>m. Inr (SetKey k m)) = Inr (request_message k GetRequest)"
    "bindE (SetRequest_new ok) (\<lambda>m. Inr (SetKey k m)) = Inr (request_message k (SetRequest DataBuffer_new (Some 0) None))"
  using assms
  by (simp_all add: GetRequest_new_def SetRequest_new_def BaseMessage_new_def DataBuffer_len_def Alloc_eq new_array_def
      heap_maxreq_def SetKey_def request_message_def MessageHeader_new_def)

definition value_seen :: "DataBuffer \<Rightarrow> DataBuffer \<Rightarrow> DataBuffer \<Rightarrow> bool" where
  "value_seen v before after \<longleftrightarrow> wf_buffer after \<and> (if written v = [] then after = before else written after = written v)"

lemma client_get:
  assumes c: "wf_client c" "clientSocket c = Some sock" "IsConnected sock" "wf_buffer outValue" "length k < 65536"
    and net: "recv_ok ws" "stream_ok ws (socketHandle sock) stream"
      "ws_send ws (socketHandle sock) (frame_of (request_message k GetRequest)) w =
         (Some (of_nat (length (frame_of (request_message k GetRequest)))), w1)"
    and m: "m_derived m = GetResponse v f" "buildable ok0 m" "protocol_ok m" "TotalBodyLen (start_header m) = 0"
      "length (written v) < 2 ^ 31"
    and bs: "map Some bs = frame_of m" "stream w1 = bs @ rest"
    and heap: "heap_serves (2048 + length k + body_length m) ok"
  shows "returns (\<lambda>e. e = BadAlloc)
     (\<lambda>(r, v', f', c', w'). stream w' = rest \<and> wf_client c' \<and> readMsg c' = None \<and>
        (if Status (m_header m) = kResNoError then r \<and> f' = f \<and> value_seen v outValue v'
         else \<not> r \<and> v' = outValue \<and> f' = outFlags))
     (cl_Get ok ws k outValue outFlags c w)"
proof -
  have sock: "wf_socket sock" "hasHandler sock" using c(1,2) by (simp_all add: wf_client_def)
  have ok: "ok 2048" using heap by (simp add: heap_serves_def)
  obtain req where req: "GetRequest_new ok = Inr req" "SetKey k req = request_message k GetRequest"
    using new_requests(1) [where ok = ok and k = k, OF ok] by (cases "GetRequest_new ok") auto
  have built: "buildable ok (request_message k GetRequest)"
    by (rule request_buildable) (use heap in \<open>auto intro: heap_serves_mono simp: value_cells_def\<close>)
  have sent: "transact ok ws (request_message k GetRequest) sock (readMsg c) w =
      andThen (ReadMessage ok ws (client_handler ok) sock (readMsg c) w1) (\<lambda>(sock, rm, w). Some (Inr (True, sock, rm, w)))"
    by (rule transact_sent [OF built]) (use c(5) net(3) in simp_all)
  let ?n = "of_nat (length (written v)) :: size_t"
  have "\<not> same_class GetRequest (m_derived m)" "\<not> same_class (SetRequest DataBuffer_new (Some 0) None) (m_derived m)"
    "length (value_cells (m_derived m)) < 2 ^ 31" "heap_serves (24 + body_length m) ok"
    using m heap by (auto simp: value_cells_def intro: heap_serves_mono)
  then have read: "returns (\<lambda>e. e = BadAlloc)
     (\<lambda>(s', rm', w'). wf_socket s' \<and> hasHandler s' \<and> stream w' = rest \<and> (\<exists>kept. rm' = Some kept \<and> kept_response m kept))
     (ReadMessage ok ws (client_handler ok) sock (readMsg c) w1)"
    by (intro client_reads [OF net(1,2) sock m(2-4) _ _ _ bs])
  have n0: "?n = 0 \<longleftrightarrow> written v = []"
    using m(5) by (simp flip: unat_eq_0 add: unat_of_nat take_bit_eq_mod)
  let ?v = "if ?n = 0 then DataBuffer_new else filled ?n (written v)"
  have seen: "yields (\<lambda>e. e = BadAlloc) (value_seen v outValue) (operator_assign ok False ?v outValue)"
    if "wf_buffer ?v"
  proof (rule yields_mono [OF copy_yields [OF that, of outValue ok]])
    have "length (value_cells (GetResponse v f)) < 2 ^ 32" using m(5) by (simp add: value_cells_def)
    from received_blank(2) [OF _ this, of ?n] have "written ?v = written v"
      by (simp add: value_cells_def)
    moreover have "bufferSize ?v = 0 \<longleftrightarrow> ?n = 0"
      by (simp add: filled_def DataBuffer_new_def)
    ultimately show "value_seen v outValue b" if "b = (if bufferSize ?v = 0 then outValue else ?v)" for b
      using that n0 c(4) \<open>wf_buffer ?v\<close> by (auto simp: value_seen_def)
  qed simp
  have "returns (\<lambda>e. e = BadAlloc)
     (\<lambda>(r, s', rm', w'). r \<and> wf_socket s' \<and> hasHandler s' \<and> stream w' = rest \<and> (\<exists>kept. rm' = Some kept \<and> kept_response m kept))
     (transact ok ws (request_message k GetRequest) sock (readMsg c) w)"
    unfolding sent by (rule returns_andThen [OF read]) auto
  then have "returns (\<lambda>e. e = BadAlloc)
     (\<lambda>(r, v', f', c', w'). stream w' = rest \<and> wf_client c' \<and> readMsg c' = None \<and>
        (if Status (m_header m) = kResNoError then r \<and> f' = f \<and> value_seen v outValue v'
         else \<not> r \<and> v' = outValue \<and> f' = outFlags))
     (andThen (transact ok ws (request_message k GetRequest) sock (readMsg c) w) (\<lambda>(r, sock, rm, w).
        got_response ok outValue outFlags (c\<lparr>clientSocket := Some sock, readMsg := rm\<rparr>) r rm w))"
  proof (rule returns_andThen)
    fix x
    assume "case x of (r, s', rm', w') \<Rightarrow> r \<and> wf_socket s' \<and> hasHandler s' \<and> stream w' = rest \<and>
        (\<exists>kept. rm' = Some kept \<and> kept_response m kept)"
    then obtain s' kept w' where x: "x = (True, s', Some kept, w')" "wf_socket s'" "hasHandler s'" "stream w' = rest"
        "kept_response m kept"
      by (cases x) auto
    have kept: "m_derived kept = GetResponse ?v f" "GetStatus kept = Status (m_header m)" "wf_buffer ?v"
      using x(5) m(1) by (auto simp: kept_response_def value_cells_def wf_message_def split: if_splits)
    have wf: "wf_client (c\<lparr>clientSocket := Some s', readMsg := None\<rparr>)"
      using x(2,3) by (simp add: wf_client_def client_inv_def)
    show "returns (\<lambda>e. e = BadAlloc)
     (\<lambda>(r, v', f', c', w'). stream w' = rest \<and> wf_client c' \<and> readMsg c' = None \<and>
        (if Status (m_header m) = kResNoError then r \<and> f' = f \<and> value_seen v outValue v'
         else \<not> r \<and> v' = outValue \<and> f' = outFlags))
     (case x of (r, sock, rm, w) \<Rightarrow> got_response ok outValue outFlags (c\<lparr>clientSocket := Some sock, readMsg := rm\<rparr>) r rm w)"
    proof (cases "Status (m_header m) = kResNoError")
      case True
      have v: "GetValue kept = Inr ?v" "GetFlags kept = Inr f" "GetStatus kept = kResNoError"
        "same_class (GetResponse DataBuffer_new (Some 0)) (m_derived kept)"
        using kept True by (simp_all add: GetValue_def GetFlags_def)
      have "returns (\<lambda>e. e = BadAlloc)
         (\<lambda>(r, v', f', c', w'). stream w' = rest \<and> wf_client c' \<and> readMsg c' = None \<and> r \<and> f' = f \<and> value_seen v outValue v')
         (andThen (Some (operator_assign ok False ?v outValue)) (\<lambda>outValue.
           Some (Inr (True, outValue, f, c\<lparr>clientSocket := Some s', readMsg := None\<rparr>, w'))))"
        by (rule yields_andThen [OF seen [OF kept(3)]]) (use x(4) wf in simp)
      then show ?thesis
        using True v by (simp add: x(1) got_response_def)
    next
      case False
      then show ?thesis
        using kept x(4) wf by (simp add: x(1) got_response_def)
    qed
  qed
  then show ?thesis
    using c(2,3) req by (simp add: cl_Get_def)
qed

lemma client_set:
  assumes c: "wf_client c" "clientSocket c = Some sock" "IsConnected sock" "wf_buffer v" "bufferSize v \<noteq> 0" "length k < 65536"
    and net: "recv_ok ws" "stream_ok ws (socketHandle sock) stream"
      "ws_send ws (socketHandle sock) (frame_of (request_message k (SetRequest v (Some f) None))) w =
         (Some (of_nat (length (frame_of (request_message k (SetRequest v (Some f) None))))), w1)"
    and m: "m_derived m = SetResponse" "buildable ok0 m" "protocol_ok m" "TotalBodyLen (start_header m) = 0"
    and bs: "map Some bs = frame_of m" "stream w1 = bs @ rest"
    and heap: "heap_serves (2048 + length k + unat (bufferSize v) + body_length m) ok"
  shows "returns (\<lambda>e. e = BadAlloc)
     (\<lambda>(r, c', w'). stream w' = rest \<and> wf_client c' \<and> readMsg c' = None \<and> (r \<longleftrightarrow> Status (m_header m) = kResNoError))
     (cl_Set ok ws k f v c w)"
proof -
  let ?req = "request_message k (SetRequest v (Some f) None)"
  have sock: "wf_socket sock" "hasHandler sock" using c(1,2) by (simp_all add: wf_client_def)
  have ok: "ok 2048" "ok (bufferSize v)" "bufferSize v \<le> heap_maxreq"
    using heap by (simp_all add: heap_serves_def word_le_nat_alt)
  obtain req where req: "SetRequest_new ok = Inr req"
      "SetKey k req = request_message k (SetRequest DataBuffer_new (Some 0) None)"
    using new_requests(2) [where ok = ok and k = k, OF ok(1)] by (cases "SetRequest_new ok") auto
  have copy: "operator_assign ok False v b = Inr v" for b
    using c(4,5) ok(2,3) by (simp add: operator_assign_def copy_from_eq new_array_def)
  have fill: "andThen (Some (SetFlags (Some f) (SetKey k req))) (\<lambda>m. andThen (Some (SetValue ok v m)) g) = g ?req" for g
    unfolding req(2) by (simp add: SetFlags_def SetValue_def copy request_message_def)
  have "length (written v) \<le> unat (bufferSize v)"
    using wf_offsets [OF c(4)] by (simp add: length_written [OF c(4)])
  then have built: "buildable ok ?req"
    by (intro request_buildable) (use heap c(4) in \<open>auto intro: heap_serves_mono simp: value_cells_def\<close>)
  have sent: "transact ok ws ?req sock (readMsg c) w =
      andThen (ReadMessage ok ws (client_handler ok) sock (readMsg c) w1) (\<lambda>(sock, rm, w). Some (Inr (True, sock, rm, w)))"
    by (rule transact_sent [OF built]) (use c(6) net(3) in simp_all)
  have "\<not> same_class GetRequest (m_derived m)" "\<not> same_class (SetRequest DataBuffer_new (Some 0) None) (m_derived m)"
    "length (value_cells (m_derived m)) < 2 ^ 31" "heap_serves (24 + body_length m) ok"
    using m heap by (auto simp: value_cells_def intro: heap_serves_mono)
  then have read: "returns (\<lambda>e. e = BadAlloc)
     (\<lambda>(s', rm', w'). wf_socket s' \<and> hasHandler s' \<and> stream w' = rest \<and> (\<exists>kept. rm' = Some kept \<and> kept_response m kept))
     (ReadMessage ok ws (client_handler ok) sock (readMsg c) w1)"
    by (intro client_reads [OF net(1,2) sock m(2-4) _ _ _ bs])
  have "returns (\<lambda>e. e = BadAlloc)
     (\<lambda>(r, s', rm', w'). r \<and> wf_socket s' \<and> hasHandler s' \<and> stream w' = rest \<and> (\<exists>kept. rm' = Some kept \<and> kept_response m kept))
     (transact ok ws ?req sock (readMsg c) w)"
    unfolding sent by (rule returns_andThen [OF read]) auto
  then have "returns (\<lambda>e. e = BadAlloc)
     (\<lambda>(r, c', w'). stream w' = rest \<and> wf_client c' \<and> readMsg c' = None \<and> (r \<longleftrightarrow> Status (m_header m) = kResNoError))
     (andThen (transact ok ws ?req sock (readMsg c) w) (\<lambda>(r, sock, rm, w).
        set_response (c\<lparr>clientSocket := Some sock, readMsg := rm\<rparr>) r rm w))"
    by (rule returns_andThen)
      (use m(1) in \<open>auto simp: set_response_def kept_response_def wf_client_def client_inv_def\<close>)
  then show ?thesis
    using c(2,3) req(1) by (simp add: cl_Set_def fill)
qed

section \<open>End to end\<close>

text \<open>
  The connection as the client needs it for one request: the request's bytes go out whole, and the
  answer is the next thing to come in.
\<close>

definition answered :: "'w winsock \<Rightarrow> SOCKET option \<Rightarrow> ('w \<Rightarrow> u8 list) \<Rightarrow> BaseMessage \<Rightarrow> BaseMessage \<Rightarrow> 'w \<Rightarrow> bool" where
  "answered ws s stream request reply w \<longleftrightarrow>
     (\<exists>w1. ws_send ws s (frame_of request) w = (Some (of_nat (length (frame_of request))), w1) \<and>
        carries (frame_of reply) (stream w1))"

lemma determinate_frame:
  assumes "extras_cells (m_derived m) = map Some xs" "value_cells (m_derived m) = map Some vs"
  shows "frame_of m = map Some (header_bytes (sent_header m) @ xs @ m_key m @ vs)"
  using assms by (simp add: frame_of_def frame_cells_def)

lemma cells32_Some: "cells32 (Some x) = map Some (be32 x)"
  by (simp add: cells_of_def)

text \<open>A set request of the client reaches the server with some expiration time.\<close>

lemma carried_set:
  assumes "carries (frame_of (request_message k (SetRequest v (Some f) None))) bs" "written v = map Some vs"
  shows "\<exists>e. map Some bs = frame_of (request_message k (SetRequest v (Some f) (Some e)))"
proof -
  let ?m = "\<lambda>e. request_message k (SetRequest v (Some f) e)"
  have hdr: "sent_header (?m e) = sent_header (?m None)" for e
    by (simp add: sent_header_def start_header_def body_length_def value_cells_def)
  obtain es where es: "bs = header_bytes (sent_header (?m None)) @ be32 f @ es @ k @ vs" "length es = 4"
  proof -
    have "frame_of (?m None) = map Some (header_bytes (sent_header (?m None)) @ be32 f) @ replicate 4 None @ map Some (k @ vs)"
      by (simp add: frame_of_def frame_cells_def cells32_Some value_cells_def assms(2) cells_of_def)
    then obtain xs ys where xy: "bs = xs @ ys" "xs = header_bytes (sent_header (?m None)) @ be32 f"
        "carries (replicate 4 None @ map Some (k @ vs)) ys"
      using assms(1) by (simp only: carries_append carries_Some) blast
    then obtain es where "ys = es @ k @ vs" "carries (replicate 4 None) es"
      by (simp only: carries_append carries_Some) blast
    with xy show thesis using that [of es] carries_length [of "replicate 4 None" es] by simp
  qed
  obtain a b c d where "es = [a, b, c, d]" using es(2) by (auto simp: numeral_eq_Suc length_Suc_conv)
  then obtain e where "be32 e = es" using be32_surj by blast
  then have "map Some bs = frame_of (?m (Some e))"
    by (simp add: es(1) frame_of_def frame_cells_def cells32_Some value_cells_def assms(2) hdr [of "Some e"])
  then show ?thesis ..
qed

lemma reply_protocol_ok: "protocol_ok (reply_to r c)"
  by (cases r) (auto simp: protocol_ok_def reply_to_def get_answer_def set_answer_def new_reply_def split: option.split)

lemma get_reply_found:
  assumes "c k = Some e" "EntryBuffer e = Some b" "written b \<noteq> []" "wf_buffer b"
  shows "reply_to (Get k) c = new_reply kResNoError (GetResponse b (Flags e))" "m_derived (reply_to (Get k) c) = GetResponse b (Flags e)"
    "Status (m_header (reply_to (Get k) c)) = kResNoError" "body_length (reply_to (Get k) c) = 4 + length (written b)"
proof -
  have "bufferSize b \<noteq> 0"
    using assms(3,4) length_written [OF assms(4)] wf_offsets [OF assms(4)] by auto
  then show r: "reply_to (Get k) c = new_reply kResNoError (GetResponse b (Flags e))"
    using assms(1,2) by (simp add: reply_to_def get_answer_def stored_def)
  show "m_derived (reply_to (Get k) c) = GetResponse b (Flags e)" "Status (m_header (reply_to (Get k) c)) = kResNoError"
    "body_length (reply_to (Get k) c) = 4 + length (written b)"
    unfolding r by (simp_all add: new_reply_def body_length_def value_cells_def)
qed

lemma set_reply:
  "m_derived (reply_to (Set k f v) c) = SetResponse" "Status (m_header (reply_to (Set k f v) c)) = kResNoError"
  "body_length (reply_to (Set k f v) c) = 0"
  by (simp_all add: reply_to_def set_answer_def new_reply_def body_length_def value_cells_def)

lemma reply_buildable:
  assumes "heap_serves (2048 + length (value_cells (m_derived (reply_to r c)))) ok" "wf_buffer (value_of (m_derived (reply_to r c)))"
  shows "buildable ok (reply_to r c)"
  using assms reply_shape [of r c] by (simp add: buildable_def wf_message_def wf_fresh heap_maxreq_def)

lemma carried_frame:
  assumes "carries (frame_of m) bs" "extras_cells (m_derived m) = map Some xs" "value_cells (m_derived m) = map Some vs"
  shows "map Some bs = frame_of m"
  using assms(1) unfolding determinate_frame [OF assms(2,3)] carries_Some by simp

text \<open>The answer to a get of a key that the server has.\<close>

lemma get_reply:
  assumes server: "srv_inv api h" and entry: "cache h k = Some \<lparr>Flags = Some f, EntryBuffer = Some b\<rparr>" "written b = map Some vs" "vs \<noteq> []"
    and heap: "heap_serves (4096 + length k + length vs) ok"
  shows "m_derived (reply_to (Get k) (cache h)) = GetResponse b (Some f)" "Status (m_header (reply_to (Get k) (cache h))) = kResNoError"
    "body_length (reply_to (Get k) (cache h)) = 4 + length vs" "buildable ok (reply_to (Get k) (cache h))"
proof -
  let ?rep = "reply_to (Get k) (cache h)"
  have "wf_buffer b"
    using server entry(1) by (auto simp: srv_inv_def entries_ok_def cache_find)
  then show rep: "m_derived ?rep = GetResponse b (Some f)" "Status (m_header ?rep) = kResNoError" "body_length ?rep = 4 + length vs"
    using get_reply_found [of "cache h" k _ b] entry by simp_all
  show "buildable ok ?rep"
    by (rule reply_buildable) (use heap rep(1) entry(2) \<open>wf_buffer b\<close> in \<open>auto simp: value_cells_def elim: heap_serves_mono\<close>)
qed

text \<open>The two halves of the exchanges: what the server does with the request, and the client with the answer.\<close>

lemma get_served:
  assumes server: "recv_ok wsS" "stream_ok wsS (socketHandle ss) streamS" "wf_socket ss" "hasHandler ss" "srv_inv api h"
    and entry: "cache h k = Some \<lparr>Flags = Some f, EntryBuffer = Some b\<rparr>" "written b = map Some vs" "vs \<noteq> []"
    and key: "k \<noteq> []" "length k < 65536" and heap: "heap_serves (4096 + length k + length vs) ok"
    and sent: "carries (frame_of (request_message k GetRequest)) (streamS wS)"
  shows "returns (\<lambda>e. e = BadAlloc)
     (\<lambda>(_, h', wS'). srv_inv api h' \<and> cache h' = cache h \<and>
        (\<exists>w. streamS w = [] \<and> wS' = snd (ws_send wsS (socketHandle ss) (frame_of (reply_to (Get k) (cache h))) w)))
     (ReadMessage ok wsS (server_handler ok api wsS t) ss h wS)"
proof -
  let ?req = "request_message k GetRequest" and ?rep = "reply_to (Get k) (cache h)"
  note rep = get_reply [OF server(5) entry heap]
  have req_ok: "buildable ok ?req" "protocol_ok ?req"
    using heap key by (auto simp: value_cells_def protocol_ok_def intro!: request_buildable elim: heap_serves_mono)
  have "map Some (streamS wS) = frame_of ?req"
    by (rule carried_frame [OF sent, of "[]" "[]"]) (simp_all add: value_cells_def)
  moreover have "length (value_cells (m_derived ?req)) < 2 ^ 31" "asked ?req = Some (Get k)" "heap_serves (24 + body_length ?req) ok"
    using heap key by (auto simp: value_cells_def asked.simps body_length_def elim: heap_serves_mono)
  ultimately have "returns (\<lambda>e. e = BadAlloc)
     (\<lambda>(s', h', w''). wf_socket s' \<and> srv_inv api h' \<and> cache h' = snd (serve (Get k) (cache h)) \<and>
        (\<exists>w'. streamS w' = [] \<and> w'' = snd (ws_send wsS (socketHandle ss) (frame_of ?rep) w')))
     (ReadMessage ok wsS (server_handler ok api wsS t) ss h wS)"
    using server_answers [OF server req_ok request_start, where bs = "streamS wS" and w = wS and rest = "[]" and r = "Get k" and ok = ok and t = t]
      rep(4) by simp
  then show ?thesis
    by (rule returns_mono) auto
qed

lemma get_returned:
  assumes server: "srv_inv api h"
    and client: "recv_ok wsC" "stream_ok wsC (socketHandle sock) streamC" "wf_client c" "clientSocket c = Some sock"
      "IsConnected sock" "wf_buffer outValue"
    and entry: "cache h k = Some \<lparr>Flags = Some f, EntryBuffer = Some b\<rparr>" "written b = map Some vs" "vs \<noteq> []"
    and key: "length k < 65536" and heap: "heap_serves (4096 + length k + length vs) ok" "length vs < 2 ^ 31"
    and sent: "answered wsC (socketHandle sock) streamC (request_message k GetRequest) (reply_to (Get k) (cache h)) wC"
  shows "returns (\<lambda>e. e = BadAlloc)
     (\<lambda>(r, v', f', c', wC'). r \<and> written v' = map Some vs \<and> f' = Some f \<and> wf_client c' \<and> streamC wC' = [])
     (cl_Get ok wsC k outValue outFlags c wC)"
proof -
  let ?req = "request_message k GetRequest" and ?rep = "reply_to (Get k) (cache h)"
  note rep = get_reply [OF server entry heap(1)]
  obtain w1 where w1: "ws_send wsC (socketHandle sock) (frame_of ?req) wC = (Some (of_nat (length (frame_of ?req))), w1)"
      "carries (frame_of ?rep) (streamC w1)"
    using sent by (auto simp: answered_def)
  have "map Some (streamC w1) = frame_of ?rep"
    by (rule carried_frame [OF w1(2), of "be32 f" vs]) (simp_all add: rep(1) value_cells_def entry(2))
  moreover have "heap_serves (2048 + length k + body_length ?rep) ok"
    using heap(1) by (rule heap_serves_mono) (simp add: rep(3))
  ultimately have "returns (\<lambda>e. e = BadAlloc)
     (\<lambda>(r, v', f', c', w'). streamC w' = [] \<and> wf_client c' \<and> readMsg c' = None \<and>
        (if Status (m_header ?rep) = kResNoError then r \<and> f' = Some f \<and> value_seen b outValue v'
         else \<not> r \<and> v' = outValue \<and> f' = outFlags))
     (cl_Get ok wsC k outValue outFlags c wC)"
    using client_get [OF client(3,4,5,6) key client(1,2) w1(1) rep(1) rep(4) reply_protocol_ok reply_shape(1),
        where bs = "streamC w1" and rest = "[]" and ok = ok] entry(2) heap(2) by simp
  then show ?thesis
    by (rule returns_mono) (use rep(2) entry(2,3) in \<open>auto simp: value_seen_def\<close>)
qed

lemma set_reply_buildable:
  assumes "heap_serves (4096 + length k + n) ok"
  shows "buildable ok (reply_to (Set k f v) c)"
  by (rule reply_buildable) (use assms in \<open>auto simp: set_reply value_cells_def elim: heap_serves_mono\<close>)

lemma value_fits:
  assumes "wf_buffer v" "written v = map Some vs" "vs \<noteq> []"
  shows "length vs \<le> unat (bufferSize v)" "bufferSize v \<noteq> 0"
proof -
  show len: "length vs \<le> unat (bufferSize v)"
    using wf_offsets [OF assms(1)] length_written [OF assms(1)] assms(2) by simp
  then show "bufferSize v \<noteq> 0" using assms(3) by auto
qed

lemma set_served:
  assumes server: "recv_ok wsS" "stream_ok wsS (socketHandle ss) streamS" "wf_socket ss" "hasHandler ss" "srv_inv api h"
    and entry: "wf_buffer v" "written v = map Some vs" "vs \<noteq> []"
    and key: "k \<noteq> []" "length k < 65536" and heap: "heap_serves (4096 + length k + unat (bufferSize v)) ok" "length vs < 2 ^ 31"
    and sent: "carries (frame_of (request_message k (SetRequest v (Some f) None))) (streamS wS)"
  shows "returns (\<lambda>e. e = BadAlloc)
     (\<lambda>(_, h', wS'). srv_inv api h' \<and>
        (\<exists>b. written b = map Some vs \<and> cache h' = (cache h)(k \<mapsto> \<lparr>Flags = Some f, EntryBuffer = Some b\<rparr>)) \<and>
        (\<exists>w. streamS w = [] \<and> wS' = snd (ws_send wsS (socketHandle ss) (frame_of (reply_to (Set k (Some f) v) (cache h))) w)))
     (ReadMessage ok wsS (server_handler ok api wsS t) ss h wS)"
proof -
  let ?req = "\<lambda>e. request_message k (SetRequest v (Some f) e)" and ?rep = "reply_to (Set k (Some f) v) (cache h)"
  note len = value_fits(1) [OF entry]
  let ?n = "of_nat (length vs) :: size_t"
  have n: "unat ?n = length vs" using heap(2) by (simp add: unat_of_nat take_bit_eq_mod)
  then have n0: "?n \<noteq> 0" using entry(3) by auto
  obtain e where bs: "map Some (streamS wS) = frame_of (?req (Some e))"
    using carried_set [OF sent entry(2)] by blast
  have req_ok: "buildable ok (?req (Some e))" "protocol_ok (?req (Some e))"
    using heap(1) key entry len by (auto simp: value_cells_def protocol_ok_def intro!: request_buildable elim: heap_serves_mono)
  let ?r = "Set k (Some f) (filled ?n (map Some vs))"
  have rep: "reply_to ?r (cache h) = ?rep" by (simp add: reply_to_def)
  have "length (value_cells (m_derived (?req (Some e)))) < 2 ^ 31" "asked (?req (Some e)) = Some ?r"
      "heap_serves (24 + body_length (?req (Some e))) ok"
    using heap key entry(2) len by (auto simp: value_cells_def asked.simps body_length_def elim!: heap_serves_mono)
  then have "returns (\<lambda>e. e = BadAlloc)
     (\<lambda>(s', h', w''). wf_socket s' \<and> srv_inv api h' \<and> cache h' = snd (serve ?r (cache h)) \<and>
        (\<exists>w'. streamS w' = [] \<and> w'' = snd (ws_send wsS (socketHandle ss) (frame_of ?rep) w')))
     (ReadMessage ok wsS (server_handler ok api wsS t) ss h wS)"
    using server_answers [OF server req_ok request_start, where bs = "streamS wS" and w = wS and rest = "[]" and r = ?r and ok = ok and t = t]
      set_reply_buildable [OF heap(1)] bs unfolding rep by simp
  then show ?thesis
  proof (rule returns_mono)
    have "stored (filled ?n (map Some vs)) = filled ?n (map Some vs)" "written (filled ?n (map Some vs)) = map Some vs"
      using n n0 by (simp_all add: stored_def)
    then show "case x of (_, h', wS') \<Rightarrow> srv_inv api h' \<and>
        (\<exists>b. written b = map Some vs \<and> cache h' = (cache h)(k \<mapsto> \<lparr>Flags = Some f, EntryBuffer = Some b\<rparr>)) \<and>
        (\<exists>w. streamS w = [] \<and> wS' = snd (ws_send wsS (socketHandle ss) (frame_of ?rep) w))"
      if "case x of (s', h', w'') \<Rightarrow> wf_socket s' \<and> srv_inv api h' \<and> cache h' = snd (serve ?r (cache h)) \<and>
        (\<exists>w'. streamS w' = [] \<and> w'' = snd (ws_send wsS (socketHandle ss) (frame_of ?rep) w'))" for x
      using that by (cases x) (auto intro!: exI [of _ "filled ?n (map Some vs)"])
  qed
qed

lemma set_returned:
  assumes client: "recv_ok wsC" "stream_ok wsC (socketHandle sock) streamC" "wf_client c" "clientSocket c = Some sock"
      "IsConnected sock"
    and entry: "wf_buffer v" "written v = map Some vs" "vs \<noteq> []"
    and key: "length k < 65536" and heap: "heap_serves (4096 + length k + unat (bufferSize v)) ok"
    and sent: "answered wsC (socketHandle sock) streamC (request_message k (SetRequest v (Some f) None)) (reply_to (Set k (Some f) v) m) wC"
  shows "returns (\<lambda>e. e = BadAlloc) (\<lambda>(r, c', wC'). r \<and> wf_client c' \<and> streamC wC' = []) (cl_Set ok wsC k f v c wC)"
proof -
  let ?req = "\<lambda>e. request_message k (SetRequest v (Some f) e)" and ?rep = "reply_to (Set k (Some f) v) m"
  note v0 = value_fits(2) [OF entry] and rep_ok = set_reply_buildable [OF heap]
  obtain w1 where w1: "ws_send wsC (socketHandle sock) (frame_of (?req None)) wC = (Some (of_nat (length (frame_of (?req None)))), w1)"
      "carries (frame_of ?rep) (streamC w1)"
    using sent by (auto simp: answered_def)
  have "map Some (streamC w1) = frame_of ?rep"
    by (rule carried_frame [OF w1(2), of "[]" "[]"]) (simp_all add: set_reply value_cells_def)
  moreover have "heap_serves (2048 + length k + unat (bufferSize v) + body_length ?rep) ok"
    using heap by (rule heap_serves_mono) (simp add: set_reply)
  ultimately show ?thesis
    by (intro returns_mono [OF client_set [OF client(3,4,5) entry(1) v0 key client(1,2) w1(1) set_reply(1) rep_ok reply_protocol_ok
        reply_shape(1), where bs = "streamC w1" and rest = "[]" and ok = ok]]) (auto simp: set_reply)
qed

section \<open>Fixtures\<close>

text \<open>A network that puts a zero for an indeterminate byte; a server that holds one entry.\<close>

definition wire_bytes :: "cell list \<Rightarrow> u8 list" where
  "wire_bytes cs = map (\<lambda>c. case c of None \<Rightarrow> 0 | Some b \<Rightarrow> b) cs"

lemma carries_wire_bytes [simp]: "carries cs (wire_bytes cs)"
  by (simp add: carries_def wire_bytes_def list_all2_conv_all_nth)

lemma answered_pipe: "answered pipe_winsock (Some s) fst request reply (wire_bytes (frame_of reply), [])"
  by (simp add: answered_def pipe_winsock_def)

definition one_entry_server :: "(bool \<times> bool) MemcacheServer" where
  "one_entry_server = empty_server\<lparr>dataMap := [([75], \<lparr>Flags = Some 7, EntryBuffer = Some (buffer_with 64 [1, 2])\<rparr>)]\<rparr>"

lemma one_entry_server:
  "srv_inv flag_events one_entry_server"
  "cache one_entry_server [75] = Some \<lparr>Flags = Some 7, EntryBuffer = Some (buffer_with 64 [1, 2])\<rparr>"
  using empty_server_inv buffer_with_small [of "[1, 2]"]
  by (auto simp: one_entry_server_def srv_inv_def entries_ok_def wf_map_def cache_find)

definition plain_client :: MemcacheClient where
  "plain_client = \<lparr>clientSocket = Some plain_socket, readMsg = None\<rparr>"

lemma plain_client: "wf_client plain_client" "clientSocket plain_client = Some plain_socket" "IsConnected plain_socket"
  using wf_plain_socket by (simp_all add: plain_client_def wf_client_def client_inv_def plain_socket_def IsConnected_def)

section \<open>Properties\<close>

text \<open>
  C25. Get, end to end. A key, not empty and below 65536 bytes, is in the server's cache with flags and a
  value of 1 to 2147483647 bytes; both ends of the connection are open with nothing pending, what is sent goes
  out whole, and the heap serves allocations of the size of key and value. When the client asks for the key, the server that receives the request sends
  back the frame of one answer and keeps its cache; and the client to which that answer comes in next
  returns true with exactly these flags and this value, having consumed the answer. The only other
  end is a failed allocation. (An empty value is not assigned: the client would keep its old one.)
\<close>

theorem get_end_to_end:
  assumes server: "recv_ok wsS" "stream_ok wsS (socketHandle ss) streamS" "wf_socket ss" "hasHandler ss" "srv_inv api h"
    and client: "recv_ok wsC" "stream_ok wsC (socketHandle sock) streamC" "wf_client c" "clientSocket c = Some sock"
      "IsConnected sock" "wf_buffer outValue"
    and entry: "cache h k = Some \<lparr>Flags = Some f, EntryBuffer = Some b\<rparr>" "written b = map Some vs" "vs \<noteq> []"
    and key: "k \<noteq> []" "length k < 65536" and heap: "heap_serves (4096 + length k + length vs) ok" "length vs < 2 ^ 31"
    and sent: "carries (frame_of (request_message k GetRequest)) (streamS wS)"
      "answered wsC (socketHandle sock) streamC (request_message k GetRequest) (reply_to (Get k) (cache h)) wC"
  shows "returns (\<lambda>e. e = BadAlloc)
     (\<lambda>(_, h', wS'). srv_inv api h' \<and> cache h' = cache h \<and>
        (\<exists>w. streamS w = [] \<and> wS' = snd (ws_send wsS (socketHandle ss) (frame_of (reply_to (Get k) (cache h))) w)))
     (ReadMessage ok wsS (server_handler ok api wsS t) ss h wS) \<and>
   returns (\<lambda>e. e = BadAlloc)
     (\<lambda>(r, v', f', c', wC'). r \<and> written v' = map Some vs \<and> f' = Some f \<and> wf_client c' \<and> streamC wC' = [])
     (cl_Get ok wsC k outValue outFlags c wC)"
  by (intro conjI get_served [OF server entry key heap(1) sent(1)] get_returned [OF server(5) client entry key(2) heap sent(2)])

theorem get_end_to_end_witness:
  "returns (\<lambda>e. e = BadAlloc)
     (\<lambda>(r, v', f', _). r \<and> written v' = map Some [1, 2] \<and> f' = Some 7)
     (cl_Get (\<lambda>_. True) pipe_winsock [75] DataBuffer_new None plain_client
       (wire_bytes (frame_of (reply_to (Get [75]) (cache one_entry_server))), []))"
proof -
  have "heap_serves (4096 + length [75 :: u8] + length [1, 2 :: u8]) (\<lambda>_. True)" by (simp add: heap_serves_all)
  note e = get_end_to_end [OF pipe_ok(1) pipe_ok(3) wf_plain_socket _ one_entry_server(1) pipe_ok(1) pipe_ok(3) plain_client
      wf_new one_entry_server(2) buffer_with_small(2) _ _ _ this, where t = 1 and outFlags = None and wS = "(wire_bytes (frame_of (request_message [75] GetRequest)), [])"
      and wC = "(wire_bytes (frame_of (reply_to (Get [75]) (cache one_entry_server))), [])"]
  show ?thesis
    by (rule returns_mono [OF conjunct2 [OF e]]) (auto simp: answered_pipe plain_socket_def)
qed

text \<open>
  C26. Set, end to end. Both ends of the connection are open with nothing pending, what is sent goes out
  whole, and the heap serves allocations of the size of key and value. When the client sets a key, not
  empty and below 65536 bytes, to a value of 1 to 2147483647 bytes, the server that receives the request answers with success and its cache has the flags
  and exactly that value under the key, all else unchanged; the client to which the answer comes in next
  returns true. The only other end is a failed allocation. The expiration time of the request, which
  nobody sets, does not matter.
\<close>

theorem set_end_to_end:
  assumes server: "recv_ok wsS" "stream_ok wsS (socketHandle ss) streamS" "wf_socket ss" "hasHandler ss" "srv_inv api h"
    and client: "recv_ok wsC" "stream_ok wsC (socketHandle sock) streamC" "wf_client c" "clientSocket c = Some sock"
      "IsConnected sock"
    and entry: "wf_buffer v" "written v = map Some vs" "vs \<noteq> []"
    and key: "k \<noteq> []" "length k < 65536" and heap: "heap_serves (4096 + length k + unat (bufferSize v)) ok" "length vs < 2 ^ 31"
    and sent: "carries (frame_of (request_message k (SetRequest v (Some f) None))) (streamS wS)"
      "answered wsC (socketHandle sock) streamC (request_message k (SetRequest v (Some f) None)) (reply_to (Set k (Some f) v) (cache h)) wC"
  shows "returns (\<lambda>e. e = BadAlloc)
     (\<lambda>(_, h', wS'). srv_inv api h' \<and>
        (\<exists>b. written b = map Some vs \<and> cache h' = (cache h)(k \<mapsto> \<lparr>Flags = Some f, EntryBuffer = Some b\<rparr>)) \<and>
        (\<exists>w. streamS w = [] \<and> wS' = snd (ws_send wsS (socketHandle ss) (frame_of (reply_to (Set k (Some f) v) (cache h))) w)))
     (ReadMessage ok wsS (server_handler ok api wsS t) ss h wS) \<and>
   returns (\<lambda>e. e = BadAlloc) (\<lambda>(r, c', wC'). r \<and> wf_client c' \<and> streamC wC' = []) (cl_Set ok wsC k f v c wC)"
  by (intro conjI set_served [OF server entry key heap sent(1)] set_returned [OF client entry key(2) heap(1) sent(2)])

theorem set_end_to_end_witness:
  "returns (\<lambda>e. e = BadAlloc)
     (\<lambda>(_, h', _). \<exists>b. written b = map Some [1, 2] \<and> cache h' = [[75] \<mapsto> \<lparr>Flags = Some 7, EntryBuffer = Some b\<rparr>])
     (ReadMessage (\<lambda>_. True) pipe_winsock (server_handler (\<lambda>_. True) flag_events pipe_winsock 1) plain_socket empty_server
       (wire_bytes (frame_of (request_message [75] (SetRequest (buffer_with 64 [1, 2]) (Some 7) None))), []))"
proof -
  have v: "wf_buffer (buffer_with 64 [1, 2])" "written (buffer_with 64 [1, 2]) = map Some [1, 2]" "bufferSize (buffer_with 64 [1, 2]) = 64"
    using buffer_with_small [of "[1, 2]"] by simp_all
  then have "heap_serves (4096 + length [75 :: u8] + unat (bufferSize (buffer_with 64 [1, 2]))) (\<lambda>_. True)" by (simp add: heap_serves_all)
  note e = set_end_to_end [OF pipe_ok(1) pipe_ok(3) wf_plain_socket _ empty_server_inv pipe_ok(1) pipe_ok(3) plain_client
      v(1,2) _ _ _ this, where f = 7 and t = 1
      and wS = "(wire_bytes (frame_of (request_message [75] (SetRequest (buffer_with 64 [1, 2]) (Some 7) None))), [])"
      and wC = "(wire_bytes (frame_of (reply_to (Set [75] (Some 7) (buffer_with 64 [1, 2])) (cache empty_server))), [])"]
  show ?thesis
    by (rule returns_mono [OF conjunct1 [OF e]]) (auto simp: answered_pipe plain_socket_def empty_server_cache)
qed

text \<open>
  Answers are not matched to requests. \<open>Get\<close> returns what the next get response on the
  connection says, whatever key that response answers: when an answer comes after its request has
  timed out, it is taken for the answer to the next request.
\<close>

theorem get_takes_next_response:
  assumes "wf_client c" "clientSocket c = Some sock" "IsConnected sock" "wf_buffer outValue" "length k < 65536"
    "recv_ok ws" "stream_ok ws (socketHandle sock) stream"
    "ws_send ws (socketHandle sock) (frame_of (request_message k GetRequest)) w =
       (Some (of_nat (length (frame_of (request_message k GetRequest)))), wa)"
    "m_derived m = GetResponse v f" "buildable ok0 m" "protocol_ok m" "TotalBodyLen (start_header m) = 0" "length (written v) < 2 ^ 31"
    "map Some bs = frame_of m" "stream wa = bs @ rest" "heap_serves (2048 + length k + body_length m) ok"
  shows "returns (\<lambda>e. e = BadAlloc)
     (\<lambda>(r, v', f', c', w'). stream w' = rest \<and> wf_client c' \<and> readMsg c' = None \<and>
        (if Status (m_header m) = kResNoError then r \<and> f' = f \<and> value_seen v outValue v'
         else \<not> r \<and> v' = outValue \<and> f' = outFlags))
     (cl_Get ok ws k outValue outFlags c w)"
  by (rule client_get [OF assms])

theorem get_takes_next_response_witness:
  "returns (\<lambda>e. e = BadAlloc) (\<lambda>(r, v', f', _). r \<and> written v' = map Some [1, 2] \<and> f' = Some 7)
     (cl_Get (\<lambda>_. True) pipe_winsock [99] DataBuffer_new None plain_client
       (wire_bytes (frame_of (reply_to (Get [75]) (cache one_entry_server))), []))"
proof -
  let ?m = "reply_to (Get [75]) (cache one_entry_server)" and ?v = "buffer_with 64 [1, 2]"
  have v: "wf_buffer ?v" "written ?v = map Some [1, 2]" using buffer_with_small [of "[1, 2]"] by simp_all
  have m: "m_derived ?m = GetResponse ?v (Some 7)" "Status (m_header ?m) = kResNoError" "body_length ?m = 6"
    using get_reply_found [where c = "cache one_entry_server" and k = "[75]" and b = ?v, OF one_entry_server(2) _ _ v(1)] v(2) by simp_all
  have b: "buildable (\<lambda>_. True) ?m"
    by (rule reply_buildable) (simp_all add: m(1) v value_cells_def heap_serves_all)
  have bs: "map Some (wire_bytes (frame_of ?m)) = frame_of ?m"
    by (rule carried_frame [OF carries_wire_bytes, of _ "be32 7" "[1, 2]"]) (simp_all add: m(1) value_cells_def v(2))
  have send: "ws_send pipe_winsock s cs (inc, out) = (Some (of_nat (length cs)), (inc, out @ [cs]))" for s cs inc out
    by (simp add: pipe_winsock_def)
  have "returns (\<lambda>e. e = BadAlloc)
     (\<lambda>(r, v', f', c', w'). fst w' = [] \<and> wf_client c' \<and> readMsg c' = None \<and>
        (if Status (m_header ?m) = kResNoError then r \<and> f' = Some 7 \<and> value_seen ?v DataBuffer_new v'
         else \<not> r \<and> v' = DataBuffer_new \<and> f' = None))
     (cl_Get (\<lambda>_. True) pipe_winsock [99] DataBuffer_new None plain_client (wire_bytes (frame_of ?m), []))"
    by (rule get_takes_next_response [where wa = "(wire_bytes (frame_of ?m), [frame_of (request_message [99] GetRequest)])", OF plain_client wf_new _ pipe_ok(1) pipe_ok(3) _ m(1) b reply_protocol_ok reply_shape(1) _ bs])
      (simp_all add: send v(2) heap_serves_all m(3))
  then show ?thesis
    by (rule returns_mono) (auto simp: m(2) value_seen_def v(2))
qed

lemma read_fails:
  assumes "wf_socket s" "\<And>n. ws_recv ws (socketHandle s) n w = (None, w')"
  shows "\<exists>b. ReadMessage ok ws H s h w = Some (Inr (s\<lparr>readBuffer := b\<rparr>, h, w'))"
proof -
  have "fill ws (socketHandle s) kMBPHeaderSize (Reset (readBuffer s)) w = Some (Inr (False, Reset (readBuffer s), w'))"
    by (subst fill.simps) (simp add: recv_into_def assms(2) GetBytesWritten_def Reset_def kMBPHeaderSize_def)
  then show ?thesis by (auto simp: ReadMessage_def)
qed

text \<open>
  A stale answer. If an earlier call has left a successful get response in \<open>_readMsg\<close> (a \<open>Set\<close>
  that got one instead of its own answer does) and nothing can be read, \<open>Get\<close> returns true with the
  old response's flags and value.
\<close>

theorem stale_answer:
  assumes "wf_client c" "clientSocket c = Some sock" "IsConnected sock" "length k < 65536" "heap_serves (2048 + length k) ok"
    "ws_send ws (socketHandle sock) (frame_of (request_message k GetRequest)) w =
       (Some (of_nat (length (frame_of (request_message k GetRequest)))), wa)"
    "\<And>n. ws_recv ws (socketHandle sock) n wa = (None, wb)"
    "readMsg c = Some old" "m_derived old = GetResponse v f" "GetStatus old = kResNoError" "bufferSize v \<noteq> 0"
  shows "returns (\<lambda>e. e = BadAlloc) (\<lambda>(r, v', f', _). r \<and> v' = v \<and> f' = f) (cl_Get ok ws k outValue outFlags c w)"
proof -
  have sock: "wf_socket sock" and wf: "wf_buffer v" using assms(1,2,8,9) by (auto simp: wf_client_def client_inv_def wf_message_def)
  have "ok 2048" using assms(5) by (simp add: heap_serves_def)
  then obtain req where req: "GetRequest_new ok = Inr req" "SetKey k req = request_message k GetRequest"
    using new_requests(1) [where ok = ok and k = k] by (cases "GetRequest_new ok") auto
  have "buildable ok (request_message k GetRequest)"
    by (rule request_buildable) (use assms(5) in \<open>auto simp: value_cells_def\<close>)
  then have sent: "transact ok ws (request_message k GetRequest) sock (readMsg c) w =
      andThen (ReadMessage ok ws (client_handler ok) sock (readMsg c) wa) (\<lambda>(sock, rm, w). Some (Inr (True, sock, rm, w)))"
    by (rule transact_sent) (use assms(4,6) in simp_all)
  obtain b where b: "ReadMessage ok ws (client_handler ok) sock (readMsg c) wa = Some (Inr (sock\<lparr>readBuffer := b\<rparr>, readMsg c, wb))"
    using read_fails [where ok = ok and H = "client_handler ok" and h = "readMsg c", OF sock assms(7)] by blast
  show ?thesis
    using copy_yields [OF wf, of outValue ok] assms(2,3,8-11)
    by (cases "operator_assign ok False v outValue")
      (auto simp: cl_Get_def req sent [unfolded assms(8)] b [unfolded assms(8)] got_response_def GetValue_def GetFlags_def)
qed

theorem stale_answer_witness:
  "returns (\<lambda>e. e = BadAlloc) (\<lambda>(r, v', f', _). r \<and> v' = buffer_with 64 [1, 2] \<and> f' = Some 7)
     (cl_Get (\<lambda>_. True) pipe_winsock [99] DataBuffer_new None
       (plain_client\<lparr>readMsg := Some (GetResponse_buf None\<lparr>m_derived := GetResponse (buffer_with 64 [1, 2]) (Some 7)\<rparr>)\<rparr>) ([], []))"
proof -
  have v: "wf_buffer (buffer_with 64 [1, 2])" "bufferSize (buffer_with 64 [1, 2]) \<noteq> 0"
    using buffer_with_small [of "[1, 2]"] by simp_all
  show ?thesis
    by (rule stale_answer [where sock = plain_socket and wb = "([], [frame_of (request_message [99] GetRequest)])"
          and wa = "([], [frame_of (request_message [99] GetRequest)])"])
      (use v plain_client in \<open>auto simp: wf_client_def client_inv_def wf_message_def GetResponse_buf_def GetStatus_def MessageHeader_new_def
         protocol_constants kResNoError_def heap_serves_all pipe_winsock_def plain_client_def\<close>)
qed

end
