(* ===== verification/Lifetime.thy ===== *)
theory Lifetime
  imports Sync
begin

text \<open>
  Who destroys a socket of the server, and when: the threads of the connections, the management thread
  and the thread that shuts the server down, interleaved step by step. A step is a lock or unlock, a
  wait, a change of the socket map or of the disposal list, a pointer given up. Each connection is known
  by its session id, and its \<open>MemcacheSocket\<close> is shared by the pointers in the map and in the list: whoever
  gives up the last one runs the destructor, which closes the socket and joins its thread. The connections
  are those that have been accepted and entered in the map. Mutexes are
  those of \<open>Sync\<close>. The wait of the management thread ends after 100 ms at the latest, so that its event
  does not matter here; nor do the data cache and the listening socket, which is closed before.
\<close>

section \<open>State\<close>

text \<open>The threads and where they are.\<close>

datatype actor = MainThread | Manager | Connection nat

text \<open>\<open>MemcacheSocket::Run\<close>, and \<open>OnSocketClosed\<close> that it calls; \<open>C_self_join\<close> is a join of its own thread.\<close>

datatype conn_pc =
    C_loop | C_select | C_check | C_peek
  | C_lock | C_find | C_lock_list | C_push | C_unlock_list | C_erase | C_self_join | C_unlock
  | C_end

text \<open>\<open>ProcessClosedSockets\<close>, run by the manager or by the shutdown.\<close>

datatype process_pc = P_lock | P_reset | P_join nat | P_unlock | P_end

datatype manager_pc = G_loop | G_wait | G_check | G_process process_pc | G_end

datatype main_pc =
    M_running
  | M_lock | M_next | M_close nat | M_join nat | M_lock_list nat | M_push nat | M_unlock_list nat | M_erase nat | M_unlock
  | M_process process_pc
  | M_stop | M_join_manager | M_end

record life =
  mapMutex :: Mutex
  listMutex :: Mutex
  inMap :: "nat list"
  inList :: "nat list"
  invalid :: "nat \<Rightarrow> bool"
  toldToEnd :: "nat \<Rightarrow> bool"
  wasJoined :: "nat \<Rightarrow> bool"
  destroyed :: "nat list"
  managerTold :: bool
  main :: main_pc
  manager :: manager_pc
  conn :: "nat \<Rightarrow> conn_pc"
  crashed :: bool

fun tid_of :: "actor \<Rightarrow> tid" where
  "tid_of MainThread = 0"
| "tid_of Manager = 1"
| "tid_of (Connection k) = k + 2"

section \<open>Steps\<close>

text \<open>\<open>MemcacheSocket::Close\<close> up to the join: the thread is told to end, the handle is closed.\<close>

definition begin_close :: "nat \<Rightarrow> life \<Rightarrow> life" where
  "begin_close k s = s\<lparr>toldToEnd := (toldToEnd s)(k := True), invalid := (invalid s)(k := True)\<rparr>"

text \<open>\<open>join\<close> of a connection's thread, if it is joinable; \<open>None\<close> while the thread runs.\<close>

definition join_conn :: "nat \<Rightarrow> life \<Rightarrow> life option" where
  "join_conn k s =
     (if wasJoined s k then Some s
      else if conn s k = C_end then Some (s\<lparr>wasJoined := (wasJoined s)(k := True)\<rparr>)
      else None)"

definition lock_map :: "actor \<Rightarrow> life \<Rightarrow> life option" where
  "lock_map a s = map_option (\<lambda>m. s\<lparr>mapMutex := m\<rparr>) (Mutex_Lock (tid_of a) (mapMutex s))"

definition unlock_map :: "actor \<Rightarrow> life \<Rightarrow> life" where
  "unlock_map a s = s\<lparr>mapMutex := Mutex_Unlock (tid_of a) (mapMutex s)\<rparr>"

definition lock_list :: "actor \<Rightarrow> life \<Rightarrow> life option" where
  "lock_list a s = map_option (\<lambda>m. s\<lparr>listMutex := m\<rparr>) (Mutex_Lock (tid_of a) (listMutex s))"

definition unlock_list :: "actor \<Rightarrow> life \<Rightarrow> life" where
  "unlock_list a s = s\<lparr>listMutex := Mutex_Unlock (tid_of a) (listMutex s)\<rparr>"

text \<open>What \<open>select\<close> and the peek find.\<close>

datatype input = Timeout | Ready | Failed | Incoming | NoData

fun conn_step :: "nat \<Rightarrow> input \<Rightarrow> life \<Rightarrow> life option" where
  "conn_step k i s =
     (let go = (\<lambda>p s. s\<lparr>conn := (conn s)(k := p)\<rparr>) in
      case conn s k of
        C_loop \<Rightarrow> Some (go (if toldToEnd s k \<or> invalid s k then C_end else C_select) s)
      | C_select \<Rightarrow>
          (case i of
             Timeout \<Rightarrow> Some (go C_loop s)
           | Ready \<Rightarrow> if invalid s k then None else Some (go C_check s)
           | Failed \<Rightarrow> Some (go C_end s)
           | _ \<Rightarrow> None)
      | C_check \<Rightarrow> Some (go (if toldToEnd s k then C_end else C_peek) s)
      | C_peek \<Rightarrow>
          (case i of
             Incoming \<Rightarrow> if invalid s k then None else Some (go C_loop s)
           | NoData \<Rightarrow> Some (go C_lock s)
           | _ \<Rightarrow> None)
      | C_lock \<Rightarrow> map_option (go C_find) (lock_map (Connection k) s)
      | C_find \<Rightarrow> Some (go (if k \<in> set (inMap s) then C_lock_list else C_unlock) s)
      | C_lock_list \<Rightarrow> map_option (go C_push) (lock_list (Connection k) s)
      | C_push \<Rightarrow> Some (go C_unlock_list (s\<lparr>inList := inList s @ [k]\<rparr>))
      | C_unlock_list \<Rightarrow> Some (go C_erase (unlock_list (Connection k) s))
      | C_erase \<Rightarrow>
          let s = s\<lparr>inMap := remove1 k (inMap s)\<rparr>
          in if k \<in> set (inList s) then Some (go C_unlock s)
             else Some (go C_self_join (begin_close k s))
      | C_self_join \<Rightarrow> Some (s\<lparr>crashed := True\<rparr>)
      | C_unlock \<Rightarrow> Some (go C_end (unlock_map (Connection k) s))
      | C_end \<Rightarrow> None)"

text \<open>
  One step of \<open>ProcessClosedSockets\<close>, for the actor that runs it. The pointers are given up one after
  the other; a socket that is in the map still lives on.
\<close>

fun process_step :: "actor \<Rightarrow> process_pc \<Rightarrow> life \<Rightarrow> (process_pc \<times> life) option" where
  "process_step a P_lock s = map_option (\<lambda>s. (P_reset, s)) (lock_list a s)"
| "process_step a P_reset s =
     (case inList s of
        [] \<Rightarrow> Some (P_unlock, s)
      | k # ks \<Rightarrow>
          let s = s\<lparr>inList := ks\<rparr>
          in if k \<in> set (inMap s) then Some (P_reset, s) else Some (P_join k, begin_close k s))"
| "process_step a (P_join k) s = map_option (\<lambda>s. (P_reset, s\<lparr>destroyed := destroyed s @ [k]\<rparr>)) (join_conn k s)"
| "process_step a P_unlock s = Some (P_end, unlock_list a s)"
| "process_step a P_end s = None"

fun manager_step :: "life \<Rightarrow> life option" where
  "manager_step s =
     (case manager s of
        G_loop \<Rightarrow> Some (s\<lparr>manager := if managerTold s then G_end else G_wait\<rparr>)
      | G_wait \<Rightarrow> Some (s\<lparr>manager := G_check\<rparr>)
      | G_check \<Rightarrow> Some (s\<lparr>manager := if managerTold s then G_end else G_process P_lock\<rparr>)
      | G_process P_end \<Rightarrow> Some (s\<lparr>manager := G_loop\<rparr>)
      | G_process p \<Rightarrow> map_option (\<lambda>(p, s). s\<lparr>manager := G_process p\<rparr>) (process_step Manager p s)
      | G_end \<Rightarrow> None)"

text \<open>
  \<open>Shutdown\<close> after the listening socket has been closed: \<open>CloseAllSockets\<close>, \<open>ProcessClosedSockets\<close>, the end
  of the manager. If the pointer that \<open>erase\<close> drops is the last one, the destructor runs, on a socket
  whose thread has been joined.
\<close>

fun shutdown_step :: "life \<Rightarrow> life option" where
  "shutdown_step s =
     (let go = (\<lambda>p s. s\<lparr>main := p\<rparr>) in
      case main s of
        M_running \<Rightarrow> Some (go M_lock s)
      | M_lock \<Rightarrow> map_option (go M_next) (lock_map MainThread s)
      | M_next \<Rightarrow> Some (go (case inMap s of [] \<Rightarrow> M_unlock | k # _ \<Rightarrow> M_close k) s)
      | M_close k \<Rightarrow> Some (go (M_join k) (begin_close k s))
      | M_join k \<Rightarrow> map_option (go (M_lock_list k)) (join_conn k s)
      | M_lock_list k \<Rightarrow> map_option (go (M_push k)) (lock_list MainThread s)
      | M_push k \<Rightarrow> Some (go (M_unlock_list k) (s\<lparr>inList := inList s @ [k]\<rparr>))
      | M_unlock_list k \<Rightarrow> Some (go (M_erase k) (unlock_list MainThread s))
      | M_erase k \<Rightarrow>
          let s = s\<lparr>inMap := remove1 k (inMap s)\<rparr>
          in Some (go M_next (if k \<in> set (inList s) then s else s\<lparr>destroyed := destroyed s @ [k]\<rparr>))
      | M_unlock \<Rightarrow> Some (go (M_process P_lock) (unlock_map MainThread s))
      | M_process P_end \<Rightarrow> Some (go M_stop s)
      | M_process p \<Rightarrow> map_option (\<lambda>(p, s). go (M_process p) s) (process_step MainThread p s)
      | M_stop \<Rightarrow> Some (go M_join_manager (s\<lparr>managerTold := True\<rparr>))
      | M_join_manager \<Rightarrow> if manager s = G_end then Some (go M_end s) else None
      | M_end \<Rightarrow> None)"

text \<open>After \<open>std::terminate\<close> nothing moves. There are \<open>n\<close> connections.\<close>

definition actor_step :: "nat \<Rightarrow> actor \<Rightarrow> input \<Rightarrow> life \<Rightarrow> life option" where
  "actor_step n a i s =
     (if crashed s then None
      else
        case a of
          MainThread \<Rightarrow> shutdown_step s
        | Manager \<Rightarrow> manager_step s
        | Connection k \<Rightarrow> if k < n then conn_step k i s else None)"

inductive life_step :: "nat \<Rightarrow> life \<Rightarrow> life \<Rightarrow> bool" for n :: nat where
  step: "actor_step n a i s = Some s' \<Longrightarrow> life_step n s s'"

inductive_cases life_stepE: "life_step n s s'"

definition life_start :: "nat \<Rightarrow> life" where
  "life_start n =
     \<lparr>mapMutex = Mutex_new, listMutex = Mutex_new, inMap = [0..<n], inList = [], invalid = (\<lambda>_. False),
      toldToEnd = (\<lambda>_. False), wasJoined = (\<lambda>_. False), destroyed = [], managerTold = False, main = M_running,
      manager = G_loop, conn = (\<lambda>_. C_loop), crashed = False\<rparr>"

definition life_reachable :: "nat \<Rightarrow> life \<Rightarrow> bool" where
  "life_reachable n s \<longleftrightarrow> (life_step n)\<^sup>*\<^sup>* (life_start n) s"

text \<open>A schedule.\<close>

primrec run_schedule :: "nat \<Rightarrow> (actor \<times> input) list \<Rightarrow> life \<Rightarrow> life option" where
  "run_schedule n [] s = Some s"
| "run_schedule n (m # ms) s =
     (case actor_step n (fst m) (snd m) s of None \<Rightarrow> None | Some s \<Rightarrow> run_schedule n ms s)"

lemma run_schedule_steps: "run_schedule n ms s = Some s' \<Longrightarrow> (life_step n)\<^sup>*\<^sup>* s s'"
  by (induction ms arbitrary: s) (auto split: option.splits intro: converse_rtranclp_into_rtranclp life_step.intros)

section \<open>Waiting\<close>

text \<open>Whom an actor waits for: the owner of a mutex that it wants, or the thread that it joins.\<close>

definition actor_of :: "tid \<Rightarrow> actor" where
  "actor_of t = (if t = 0 then MainThread else if t = 1 then Manager else Connection (t - 2))"

definition waits_mutex :: "actor \<Rightarrow> Mutex \<Rightarrow> actor option" where
  "waits_mutex a m = (if Mutex_Lock (tid_of a) m = None then map_option actor_of (owner m) else None)"

definition waits_join :: "nat \<Rightarrow> life \<Rightarrow> actor option" where
  "waits_join k s = (if join_conn k s = None then Some (Connection k) else None)"

fun waits_process :: "actor \<Rightarrow> process_pc \<Rightarrow> life \<Rightarrow> actor option" where
  "waits_process a P_lock s = waits_mutex a (listMutex s)"
| "waits_process a (P_join k) s = waits_join k s"
| "waits_process a _ s = None"

fun waits :: "nat \<Rightarrow> life \<Rightarrow> actor \<Rightarrow> actor option" where
  "waits n s MainThread =
     (case main s of
        M_lock \<Rightarrow> waits_mutex MainThread (mapMutex s)
      | M_join k \<Rightarrow> waits_join k s
      | M_lock_list k \<Rightarrow> waits_mutex MainThread (listMutex s)
      | M_process p \<Rightarrow> waits_process MainThread p s
      | M_join_manager \<Rightarrow> if manager s = G_end then None else Some Manager
      | _ \<Rightarrow> None)"
| "waits n s Manager = (case manager s of G_process p \<Rightarrow> waits_process Manager p s | _ \<Rightarrow> None)"
| "waits n s (Connection k) =
     (if k < n
      then
        case conn s k of
          C_lock \<Rightarrow> waits_mutex (Connection k) (mapMutex s)
        | C_lock_list \<Rightarrow> waits_mutex (Connection k) (listMutex s)
        | _ \<Rightarrow> None
      else None)"

section \<open>Invariants\<close>

subsection \<open>Who holds the mutexes\<close>

definition conn_in_map :: "conn_pc \<Rightarrow> bool" where
  "conn_in_map p \<longleftrightarrow> p \<in> {C_find, C_lock_list, C_push, C_unlock_list, C_erase, C_self_join, C_unlock}"

definition conn_in_list :: "conn_pc \<Rightarrow> bool" where
  "conn_in_list p \<longleftrightarrow> p \<in> {C_push, C_unlock_list}"

fun process_in_list :: "process_pc \<Rightarrow> bool" where
  "process_in_list P_lock \<longleftrightarrow> False"
| "process_in_list P_end \<longleftrightarrow> False"
| "process_in_list _ \<longleftrightarrow> True"

fun manager_in_list :: "manager_pc \<Rightarrow> bool" where
  "manager_in_list (G_process p) \<longleftrightarrow> process_in_list p"
| "manager_in_list _ \<longleftrightarrow> False"

fun main_in_list :: "main_pc \<Rightarrow> bool" where
  "main_in_list (M_push k) \<longleftrightarrow> True"
| "main_in_list (M_unlock_list k) \<longleftrightarrow> True"
| "main_in_list (M_process p) \<longleftrightarrow> process_in_list p"
| "main_in_list _ \<longleftrightarrow> False"

text \<open>The socket that the shutdown is at, in the scope of the map.\<close>

fun main_at :: "main_pc \<Rightarrow> nat option" where
  "main_at (M_close k) = Some k"
| "main_at (M_join k) = Some k"
| "main_at (M_lock_list k) = Some k"
| "main_at (M_push k) = Some k"
| "main_at (M_unlock_list k) = Some k"
| "main_at (M_erase k) = Some k"
| "main_at _ = None"

definition main_in_map :: "main_pc \<Rightarrow> bool" where
  "main_in_map p \<longleftrightarrow> main_at p \<noteq> None \<or> p = M_next \<or> p = M_unlock"

definition holds_map :: "life \<Rightarrow> actor \<Rightarrow> bool" where
  "holds_map s a =
     (case a of MainThread \<Rightarrow> main_in_map (main s) | Manager \<Rightarrow> False | Connection k \<Rightarrow> conn_in_map (conn s k))"

definition holds_list :: "life \<Rightarrow> actor \<Rightarrow> bool" where
  "holds_list s a =
     (case a of MainThread \<Rightarrow> main_in_list (main s) | Manager \<Rightarrow> manager_in_list (manager s)
      | Connection k \<Rightarrow> conn_in_list (conn s k))"

definition owned_by :: "Mutex \<Rightarrow> (actor \<Rightarrow> bool) \<Rightarrow> bool" where
  "owned_by m H \<longleftrightarrow> (\<forall>a. H a \<longleftrightarrow> owner m = Some (tid_of a)) \<and> depth m = (if owner m = None then 0 else 1)"

lemma tid_of_eq [simp]: "tid_of a = tid_of b \<longleftrightarrow> a = b"
  by (cases a; cases b) auto

lemma actor_of_tid [simp]: "actor_of (tid_of a) = a"
  by (cases a) (auto simp: actor_of_def)

lemma owned_lock:
  assumes "owned_by m H" "Mutex_Lock (tid_of a) m = Some m'" "\<not> H a"
  shows "owned_by m' (H(a := True)) \<and> (\<forall>b. \<not> H b)"
  using assms by (auto simp: owned_by_def Mutex_Lock_def split: option.splits if_splits)

lemma owned_unlock:
  assumes "owned_by m H" "H a"
  shows "owned_by (Mutex_Unlock (tid_of a) m) (H(a := False))"
  using assms by (auto simp: owned_by_def Mutex_Unlock_def)

lemma owned_unique: "owned_by m H \<Longrightarrow> H a \<Longrightarrow> H b \<Longrightarrow> a = b"
  by (auto simp: owned_by_def)

lemma owned_blocks:
  assumes "owned_by m H" "\<not> H a"
  shows "waits_mutex a m = Some b \<longleftrightarrow> H b"
proof -
  have "\<exists>b. t = tid_of b" for t
  proof -
    have "t = 0 \<or> t = 1 \<or> t = tid_of (Connection (t - 2))" by auto
    then show ?thesis by (metis tid_of.simps(1,2))
  qed
  with assms show ?thesis
    by (auto simp: waits_mutex_def owned_by_def Mutex_Lock_def split: option.splits) (metis actor_of_tid)+
qed

lemma owned_cong: "owned_by m H \<Longrightarrow> (\<And>a. H' a = H a) \<Longrightarrow> owned_by m H'"
  by (simp add: owned_by_def)

definition mutexes_ok :: "life \<Rightarrow> bool" where
  "mutexes_ok s \<longleftrightarrow> owned_by (mapMutex s) (holds_map s) \<and> owned_by (listMutex s) (holds_list s)"

lemmas regions = conn_in_map_def conn_in_list_def main_in_map_def

lemma all_actors: "(\<forall>a. P a) \<longleftrightarrow> P MainThread \<and> P Manager \<and> (\<forall>k. P (Connection k))"
  by (metis actor.exhaust)

text \<open>A step in which an actor takes or gives back a mutex, or neither.\<close>

lemma owned_step:
  assumes "owned_by m H" "\<And>b. b \<noteq> a \<Longrightarrow> H' b = H b"
    "m' = m \<and> H' a = H a \<or> Mutex_Lock (tid_of a) m = Some m' \<and> \<not> H a \<and> H' a \<or> m' = Mutex_Unlock (tid_of a) m \<and> H a \<and> \<not> H' a"
  shows "owned_by m' H'"
  using assms(3)
proof (elim disjE conjE)
  assume m: "m' = m" "H' a = H a"
  have "H' b = H b" for b using m(2) assms(2) [of b] by (cases "b = a") simp_all
  then show ?thesis using owned_cong [OF assms(1)] m(1) by simp
next
  assume "Mutex_Lock (tid_of a) m = Some m'" "\<not> H a" "H' a"
  then show ?thesis
    using assms(2) by (intro owned_cong [OF conjunct1 [OF owned_lock [OF assms(1)]]]) auto
next
  assume "m' = Mutex_Unlock (tid_of a) m" "H a" "\<not> H' a"
  then show ?thesis
    using assms(2) owned_cong [OF owned_unlock [OF assms(1)], of a H'] by simp
qed

lemma mutexes_step:
  assumes "mutexes_ok s" "\<And>b. b \<noteq> a \<Longrightarrow> holds_map s' b = holds_map s b \<and> holds_list s' b = holds_list s b"
    "mapMutex s' = mapMutex s \<and> holds_map s' a = holds_map s a \<or>
     Mutex_Lock (tid_of a) (mapMutex s) = Some (mapMutex s') \<and> \<not> holds_map s a \<and> holds_map s' a \<or>
     mapMutex s' = Mutex_Unlock (tid_of a) (mapMutex s) \<and> holds_map s a \<and> \<not> holds_map s' a"
    "listMutex s' = listMutex s \<and> holds_list s' a = holds_list s a \<or>
     Mutex_Lock (tid_of a) (listMutex s) = Some (listMutex s') \<and> \<not> holds_list s a \<and> holds_list s' a \<or>
     listMutex s' = Mutex_Unlock (tid_of a) (listMutex s) \<and> holds_list s a \<and> \<not> holds_list s' a"
  shows "mutexes_ok s'"
proof -
  have ok: "owned_by (mapMutex s) (holds_map s)" "owned_by (listMutex s) (holds_list s)"
    using assms(1) by (simp_all add: mutexes_ok_def)
  have "owned_by (mapMutex s') (holds_map s')"
    by (rule owned_step [OF ok(1), where a = a]) (use assms(2,3) in blast)+
  moreover have "owned_by (listMutex s') (holds_list s')"
    by (rule owned_step [OF ok(2), where a = a]) (use assms(2,4) in blast)+
  ultimately show ?thesis by (simp add: mutexes_ok_def)
qed

lemma conn_mutexes:
  assumes "mutexes_ok s" "conn_step k i s = Some s'"
  shows "mutexes_ok s'"
proof (rule mutexes_step [OF assms(1), where a = "Connection k"])
  show "holds_map s' b = holds_map s b \<and> holds_list s' b = holds_list s b" if "b \<noteq> Connection k" for b
    using assms(2) that
    by (cases b; cases "conn s k")
      (auto simp: holds_map_def holds_list_def Let_def lock_map_def unlock_map_def lock_list_def unlock_list_def begin_close_def
        split: if_splits input.splits)
qed (use assms(2) in \<open>cases "conn s k"; auto simp: holds_map_def holds_list_def Let_def regions lock_map_def unlock_map_def
  lock_list_def unlock_list_def begin_close_def split: if_splits input.splits\<close>)+

lemmas step_defs = lock_map_def unlock_map_def lock_list_def unlock_list_def begin_close_def join_conn_def Let_def

lemma process_frame:
  assumes "process_step a p s = Some (p', s')"
  shows "conn s' = conn s" "main s' = main s" "manager s' = manager s" "mapMutex s' = mapMutex s"
    "listMutex s' = listMutex s \<and> process_in_list p' = process_in_list p \<or>
     Mutex_Lock (tid_of a) (listMutex s) = Some (listMutex s') \<and> \<not> process_in_list p \<and> process_in_list p' \<or>
     listMutex s' = Mutex_Unlock (tid_of a) (listMutex s) \<and> process_in_list p \<and> \<not> process_in_list p'"
  using assms by (cases p; auto simp: step_defs split: list.splits if_splits)+

lemma manager_mutexes:
  assumes "mutexes_ok s" "manager_step s = Some s'"
  shows "mutexes_ok s'"
proof (cases "\<exists>p. manager s = G_process p \<and> p \<noteq> P_end")
  case True
  then obtain p p' s1 where p: "manager s = G_process p" "process_step Manager p s = Some (p', s1)" "s' = s1\<lparr>manager := G_process p'\<rparr>"
    using assms(2) by (auto split: process_pc.splits)
  note f = process_frame [OF p(2)]
  show ?thesis
    by (rule mutexes_step [OF assms(1), where a = Manager])
      (use p(1,3) f in \<open>auto simp: holds_map_def holds_list_def split: actor.splits\<close>)
next
  case False
  then show ?thesis
    using assms by (intro mutexes_step [OF assms(1), where a = Manager])
      (auto simp: holds_map_def holds_list_def split: manager_pc.splits actor.splits process_pc.splits if_splits)
qed

lemma main_mutexes:
  assumes "mutexes_ok s" "shutdown_step s = Some s'"
  shows "mutexes_ok s'"
proof (cases "\<exists>p. main s = M_process p \<and> p \<noteq> P_end")
  case True
  then obtain p p' s1 where p: "main s = M_process p" "process_step MainThread p s = Some (p', s1)" "s' = s1\<lparr>main := M_process p'\<rparr>"
    using assms(2) by (auto split: process_pc.splits)
  note f = process_frame [OF p(2)]
  show ?thesis
    by (rule mutexes_step [OF assms(1), where a = MainThread])
      (use p(1,3) f in \<open>auto simp: holds_map_def holds_list_def regions split: actor.splits\<close>)
next
  case False
  then show ?thesis
    using assms(2)
    by (intro mutexes_step [OF assms(1), where a = MainThread])
      (cases "main s"; auto simp: holds_map_def holds_list_def regions step_defs split: list.splits if_splits actor.splits process_pc.splits)+
qed

lemma map_mutex_scope:
  assumes "mutexes_ok s"
  shows "conn_in_map (conn s k) \<Longrightarrow> \<not> main_in_map (main s)" "conn_in_map (conn s k) \<Longrightarrow> conn_in_map (conn s j) \<Longrightarrow> j = k"
  using owned_unique [of "mapMutex s" "holds_map s" "Connection k" MainThread]
    owned_unique [of "mapMutex s" "holds_map s" "Connection k" "Connection j"] assms
  by (auto simp: mutexes_ok_def holds_map_def)

lemma list_mutex_scope:
  assumes "mutexes_ok s"
  shows "conn_in_list (conn s k) \<Longrightarrow> \<not> main_in_list (main s)" "conn_in_list (conn s k) \<Longrightarrow> \<not> manager_in_list (manager s)"
    "manager_in_list (manager s) \<Longrightarrow> \<not> main_in_list (main s)"
  using owned_unique [of "listMutex s" "holds_list s" "Connection k" MainThread]
    owned_unique [of "listMutex s" "holds_list s" "Connection k" Manager]
    owned_unique [of "listMutex s" "holds_list s" Manager MainThread] assms
  by (auto simp: mutexes_ok_def holds_list_def)

subsection \<open>Where the pointers are\<close>

definition joining :: "nat \<Rightarrow> life \<Rightarrow> bool" where
  "joining k s \<longleftrightarrow> manager s = G_process (P_join k) \<or> main s = M_process (P_join k)"

definition pointers_ok :: "nat \<Rightarrow> life \<Rightarrow> bool" where
  "pointers_ok n s \<longleftrightarrow>
     distinct (inMap s) \<and> distinct (inList s) \<and> distinct (destroyed s) \<and>
     set (inMap s) \<subseteq> {..<n} \<and> set (inList s) \<subseteq> {..<n} \<and>
     set (destroyed s) \<inter> set (inMap s) = {} \<and> set (destroyed s) \<inter> set (inList s) = {} \<and>
     (\<forall>k. wasJoined s k \<longrightarrow> conn s k = C_end) \<and>
     (\<forall>k<n. k \<notin> set (inMap s) \<longrightarrow> conn s k \<in> {C_unlock, C_end, C_self_join}) \<and>
     (\<forall>k. main_at (main s) = Some k \<longrightarrow> k \<in> set (inMap s)) \<and>
     (\<forall>k. main s \<in> {M_lock_list k, M_push k, M_unlock_list k, M_erase k} \<longrightarrow> wasJoined s k) \<and>
     (\<forall>k. k \<in> set (inMap s) \<and> k \<in> set (inList s) \<longrightarrow>
        conn s k \<in> {C_unlock_list, C_erase} \<or> main s \<in> {M_unlock_list k, M_erase k}) \<and>
     (\<forall>k. joining k s \<longrightarrow> k < n \<and> k \<notin> set (inMap s) \<and> k \<notin> set (inList s) \<and> k \<notin> set (destroyed s)) \<and>
     (\<forall>k\<in>set (destroyed s). wasJoined s k \<and> k < n)"

text \<open>Most steps of a connection's thread only move it on.\<close>

lemma conn_moves:
  assumes "conn_step k i s = Some s'" "conn s k \<notin> {C_push, C_erase, C_self_join}"
  shows "\<exists>q. conn s' = (conn s)(k := q) \<and> (conn s k = C_unlock \<longrightarrow> q = C_end) \<and> (conn s k = C_unlock_list \<longrightarrow> q = C_erase)"
    "conn s k \<noteq> C_end" "inMap s' = inMap s" "inList s' = inList s" "destroyed s' = destroyed s" "wasJoined s' = wasJoined s"
    "main s' = main s" "manager s' = manager s"
  using assms by (cases "conn s k"; auto simp: step_defs split: if_splits input.splits)+

lemma pointers_okD:
  assumes "pointers_ok n s"
  shows "distinct (inMap s)" "distinct (inList s)" "distinct (destroyed s)" "k \<in> set (inMap s) \<Longrightarrow> k < n" "k \<in> set (inList s) \<Longrightarrow> k < n"
    "k \<in> set (destroyed s) \<Longrightarrow> k \<notin> set (inMap s) \<and> k \<notin> set (inList s) \<and> wasJoined s k" "wasJoined s k \<Longrightarrow> conn s k = C_end"
    "k < n \<Longrightarrow> k \<notin> set (inMap s) \<Longrightarrow> conn s k \<in> {C_unlock, C_end, C_self_join}" "main_at (main s) = Some k \<Longrightarrow> k \<in> set (inMap s)"
    "main s \<in> {M_lock_list k, M_push k, M_unlock_list k, M_erase k} \<Longrightarrow> wasJoined s k"
    "k \<in> set (inMap s) \<Longrightarrow> k \<in> set (inList s) \<Longrightarrow> conn s k \<in> {C_unlock_list, C_erase} \<or> main s \<in> {M_unlock_list k, M_erase k}"
    "joining k s \<Longrightarrow> k < n \<and> k \<notin> set (inMap s) \<and> k \<notin> set (inList s) \<and> k \<notin> set (destroyed s)"
    "k \<in> set (destroyed s) \<Longrightarrow> k < n"
  using assms unfolding pointers_ok_def by blast+

lemma pointers_okI:
  assumes "distinct (inMap s)" "distinct (inList s)" "distinct (destroyed s)" "\<And>k. k \<in> set (inMap s) \<Longrightarrow> k < n"
    "\<And>k. k \<in> set (inList s) \<Longrightarrow> k < n"
    "\<And>k. k \<in> set (destroyed s) \<Longrightarrow> k \<notin> set (inMap s) \<and> k \<notin> set (inList s) \<and> wasJoined s k"
    "\<And>k. wasJoined s k \<Longrightarrow> conn s k = C_end"
    "\<And>k. k < n \<Longrightarrow> k \<notin> set (inMap s) \<Longrightarrow> conn s k \<in> {C_unlock, C_end, C_self_join}"
    "\<And>k. main_at (main s) = Some k \<Longrightarrow> k \<in> set (inMap s)"
    "\<And>k. main s \<in> {M_lock_list k, M_push k, M_unlock_list k, M_erase k} \<Longrightarrow> wasJoined s k"
    "\<And>k. k \<in> set (inMap s) \<Longrightarrow> k \<in> set (inList s) \<Longrightarrow> conn s k \<in> {C_unlock_list, C_erase} \<or> main s \<in> {M_unlock_list k, M_erase k}"
    "\<And>k. joining k s \<Longrightarrow> k < n \<and> k \<notin> set (inMap s) \<and> k \<notin> set (inList s) \<and> k \<notin> set (destroyed s)"
    "\<And>k. k \<in> set (destroyed s) \<Longrightarrow> k < n"
  shows "pointers_ok n s"
  using assms unfolding pointers_ok_def by blast

lemma conn_pointers:
  assumes "pointers_ok n s" "mutexes_ok s" "k < n" "conn_step k i s = Some s'"
  shows "pointers_ok n s'"
proof -
  note D = pointers_okD [OF assms(1)]
  consider (push) "conn s k = C_push" | (erase) "conn s k = C_erase" | (crash) "conn s k = C_self_join"
    | (move) "conn s k \<notin> {C_push, C_erase, C_self_join}" by blast
  then show ?thesis
  proof cases
    case push
    have s': "s' = s\<lparr>inList := inList s @ [k], conn := (conn s)(k := C_unlock_list)\<rparr>" using assms(4) push by simp
    have "conn_in_map (conn s k)" using push by (simp add: regions)
    from map_mutex_scope(1) [OF assms(2) this] have m: "main_at (main s) = None" by (simp add: regions)
    have k: "k \<in> set (inMap s)" using D(8) [of k] assms(3) push by auto
    then have "k \<notin> set (inList s)" "k \<notin> set (destroyed s)" "\<not> joining k s" "\<not> wasJoined s k"
      using D(11) [of k] m D(6,12,7) [of k] push by auto
    then show ?thesis
      unfolding s' by (intro pointers_okI) (use D(1-7,9,10,12,13) m k assms(3) in \<open>auto simp: joining_def dest: D(8,11)\<close>)
  next
    case erase
    have "conn_in_map (conn s k)" using erase by (simp add: regions)
    from map_mutex_scope(1) [OF assms(2) this] have m: "main_at (main s) = None" by (simp add: regions)
    have k: "k \<in> set (inMap s)" using D(8) [of k] assms(3) erase by auto
    then have "k \<notin> set (destroyed s)" "\<not> joining k s" "\<not> wasJoined s k" using D(6,12,7) [of k] erase by auto
    moreover obtain q where "inMap s' = remove1 k (inMap s)" "inList s' = inList s" "destroyed s' = destroyed s"
        "wasJoined s' = wasJoined s" "main s' = main s" "manager s' = manager s" "conn s' = (conn s)(k := q)"
        "q = C_unlock \<or> q = C_self_join"
      using assms(4) erase by (auto simp: step_defs split: if_splits)
    ultimately show ?thesis
      by (intro pointers_okI) (use D(1-7,9,10,12,13) m k assms(3) in \<open>auto simp: joining_def dest: D(8,11)\<close>)
  next
    case crash
    then have "s' = s\<lparr>crashed := True\<rparr>" using assms(4) by simp
    then show ?thesis using assms(1) by (simp add: pointers_ok_def joining_def)
  next
    case move
    from conn_moves(1) [OF assms(4) move] obtain q where q: "conn s' = (conn s)(k := q)"
      "conn s k = C_unlock \<longrightarrow> q = C_end" "conn s k = C_unlock_list \<longrightarrow> q = C_erase" by blast
    note m = conn_moves(2-8) [OF assms(4) move]
    show ?thesis
      by (intro pointers_okI) (use D(1-7,9,10,12,13) q m move assms(3) in \<open>auto simp: joining_def dest: D(8,11)\<close>)
  qed
qed

text \<open>What a step of \<open>ProcessClosedSockets\<close> does to the pointers.\<close>

lemma process_effect:
  assumes "process_step a p s = Some (p', s1)"
  shows "inMap s1 = inMap s" "conn s1 = conn s" "main s1 = main s" "manager s1 = manager s"
    "inList s1 = inList s \<and> destroyed s1 = destroyed s \<and> wasJoined s1 = wasJoined s \<and> (\<forall>j. p \<noteq> P_join j \<and> p' \<noteq> P_join j) \<or>
     p = P_reset \<and> destroyed s1 = destroyed s \<and> wasJoined s1 = wasJoined s \<and>
       (\<exists>k. inList s = k # inList s1 \<and> (p' = P_reset \<and> k \<in> set (inMap s) \<or> p' = P_join k \<and> k \<notin> set (inMap s))) \<or>
     (\<exists>k. p = P_join k \<and> p' = P_reset \<and> inList s1 = inList s \<and> destroyed s1 = destroyed s @ [k] \<and>
       wasJoined s1 = (wasJoined s)(k := True) \<and> (\<not> wasJoined s k \<longrightarrow> conn s k = C_end))"
  using assms by (cases p; auto simp: step_defs split: list.splits if_splits)+

lemma process_pointers:
  assumes "pointers_ok n s" "process_step a p s = Some (p', s1)"
    "\<forall>j. joining j s \<longleftrightarrow> p = P_join j \<or> other j" "\<forall>j. joining j s' \<longleftrightarrow> p' = P_join j \<or> other j" "process_in_list p \<Longrightarrow> \<forall>j. \<not> other j"
    "main s' = main s \<or> (\<exists>p p'. main s = M_process p \<and> main s' = M_process p')"
    "inMap s' = inMap s1" "inList s' = inList s1" "destroyed s' = destroyed s1" "wasJoined s' = wasJoined s1" "conn s' = conn s1"
  shows "pointers_ok n s'"
proof -
  note D = pointers_okD [OF assms(1)] and e = process_effect [OF assms(2)]
  have m: "main_at (main s') = main_at (main s)" "main s' = M_lock_list k \<longleftrightarrow> main s = M_lock_list k" "main s' = M_push k \<longleftrightarrow> main s = M_push k"
    "main s' = M_unlock_list k \<longleftrightarrow> main s = M_unlock_list k" "main s' = M_erase k \<longleftrightarrow> main s = M_erase k" for k
    using assms(6) by auto
  from e(5) show ?thesis
  proof (elim disjE exE conjE)
    assume "inList s1 = inList s" "destroyed s1 = destroyed s" "wasJoined s1 = wasJoined s" "\<forall>j. p \<noteq> P_join j \<and> p' \<noteq> P_join j"
    then show ?thesis
      by (intro pointers_okI) (use D(1-7,9,10,12,13) e(1,2) m assms(3,4,7-11) in \<open>auto dest: D(8,11)\<close>)
  next
    fix k assume "p = P_reset" "destroyed s1 = destroyed s" "wasJoined s1 = wasJoined s" "inList s = k # inList s1"
      "p' = P_reset" "k \<in> set (inMap s)"
    then show ?thesis
      by (intro pointers_okI) (use D(1-7,9,10,12,13) e(1,2) m assms(3,4,7-11) in \<open>auto dest: D(8,11)\<close>)
  next
    fix k assume p: "p = P_reset" "destroyed s1 = destroyed s" "wasJoined s1 = wasJoined s" "inList s = k # inList s1"
      "p' = P_join k" "k \<notin> set (inMap s)"
    have "k < n" "k \<notin> set (destroyed s)" "k \<notin> set (inList s1)" using D(2) D(5,6) [of k] p(4) by auto
    moreover have "\<not> joining j s" for j using assms(3,5) p(1) by simp
    ultimately show ?thesis
      using p by (intro pointers_okI) (use D(1-7,9,10,12,13) e(1,2) m assms(3-5,7-11) in \<open>auto dest: D(8,11)\<close>)
  next
    fix k assume p: "p = P_join k" "p' = P_reset" "inList s1 = inList s" "destroyed s1 = destroyed s @ [k]"
      "wasJoined s1 = (wasJoined s)(k := True)" "\<not> wasJoined s k \<longrightarrow> conn s k = C_end"
    have "conn s k = C_end" "k < n" "k \<notin> set (inMap s)" "k \<notin> set (inList s)" "k \<notin> set (destroyed s)"
      using p(1,6) D(7,12) [of k] assms(3) by auto
    moreover have "\<not> joining j s'" for j using assms(4,5) p(1,2) by simp
    ultimately show ?thesis
      using p by (intro pointers_okI) (use D(1-7,9,10,12,13) e(1,2) m assms(7-11) in \<open>auto dest: D(8,11) split: if_splits\<close>)
  qed
qed

lemma manager_pointers:
  assumes "pointers_ok n s" "mutexes_ok s" "manager_step s = Some s'"
  shows "pointers_ok n s'"
proof (cases "\<exists>p. manager s = G_process p \<and> p \<noteq> P_end")
  case True
  then obtain p p' s1 where p: "manager s = G_process p" "process_step Manager p s = Some (p', s1)" "s' = s1\<lparr>manager := G_process p'\<rparr>"
    using assms(3) by (auto split: process_pc.splits)
  have "process_in_list p \<Longrightarrow> \<not> main_in_list (main s)" using list_mutex_scope(3) [OF assms(2)] p(1) by simp
  then have "process_in_list p \<Longrightarrow> \<forall>j. main s \<noteq> M_process (P_join j)" by auto
  then show ?thesis
    by (intro process_pointers [OF assms(1) p(2), where other = "\<lambda>j. main s = M_process (P_join j)"])
      (use p(1,3) process_frame [OF p(2)] in \<open>auto simp: joining_def\<close>)
next
  case False
  then have "\<exists>g. s' = s\<lparr>manager := g\<rparr> \<and> (\<forall>k. g \<noteq> G_process (P_join k))" "\<forall>k. manager s \<noteq> G_process (P_join k)"
    using assms(3) by (auto split: manager_pc.splits process_pc.splits if_splits)
  then show ?thesis using assms(1) by (auto simp: pointers_ok_def joining_def)
qed

text \<open>The shutdown's own steps.\<close>

lemma main_moves:
  assumes "shutdown_step s = Some s'" "\<forall>p. main s \<noteq> M_process p" "\<forall>k. main s \<noteq> M_push k \<and> main s \<noteq> M_erase k"
  shows "inMap s' = inMap s" "inList s' = inList s" "destroyed s' = destroyed s" "conn s' = conn s" "manager s' = manager s"
    "\<forall>p. p \<noteq> P_lock \<longrightarrow> main s' \<noteq> M_process p"
    "main_at (main s') = Some k \<Longrightarrow> main_at (main s) = Some k \<or> main s = M_next \<and> (\<exists>ks. inMap s = k # ks)"
    "main s' \<in> {M_lock_list k, M_push k, M_unlock_list k, M_erase k} \<Longrightarrow>
       main s \<in> {M_lock_list k, M_push k, M_unlock_list k, M_erase k} \<or> wasJoined s' k"
    "main s \<in> {M_unlock_list k, M_erase k} \<Longrightarrow> main s' \<in> {M_unlock_list k, M_erase k}"
    "wasJoined s' = wasJoined s \<or> (\<exists>k. wasJoined s' = (wasJoined s)(k := True) \<and> conn s k = C_end)"
  using assms by (cases "main s"; auto simp: step_defs split: list.splits if_splits)+

lemma main_pointers:
  assumes "pointers_ok n s" "mutexes_ok s" "shutdown_step s = Some s'"
  shows "pointers_ok n s'"
proof -
  note D = pointers_okD [OF assms(1)]
  consider (process) p where "main s = M_process p" | (push) k where "main s = M_push k" | (erase) k where "main s = M_erase k"
    | (move) "\<forall>p. main s \<noteq> M_process p" "\<forall>k. main s \<noteq> M_push k \<and> main s \<noteq> M_erase k" by blast
  then show ?thesis
  proof cases
    case (process p)
    show ?thesis
    proof (cases "p = P_end")
      case True
      then have "s' = s\<lparr>main := M_stop\<rparr>" using assms(3) process by simp
      then show ?thesis using assms(1) process True by (auto simp: pointers_ok_def joining_def)
    next
      case False
      then obtain p' s1 where p: "process_step MainThread p s = Some (p', s1)" "s' = s1\<lparr>main := M_process p'\<rparr>"
        using assms(3) process by (auto split: process_pc.splits)
      have "process_in_list p \<Longrightarrow> \<not> manager_in_list (manager s)" using list_mutex_scope(3) [OF assms(2)] process by auto
      then have "process_in_list p \<Longrightarrow> \<forall>j. manager s \<noteq> G_process (P_join j)" by auto
      then show ?thesis
        by (intro process_pointers [OF assms(1) p(1), where other = "\<lambda>j. manager s = G_process (P_join j)"])
          (use process p(2) process_frame [OF p(1)] in \<open>auto simp: joining_def\<close>)
    qed
  next
    case (push k)
    have s': "s' = s\<lparr>inList := inList s @ [k], main := M_unlock_list k\<rparr>" using assms(3) push by simp
    have k: "k \<in> set (inMap s)" "wasJoined s k" "conn s k = C_end" using D(9,10,7) [of k] push by simp_all
    then have "k \<notin> set (inList s)" "k < n" "k \<notin> set (destroyed s)" "\<not> joining k s" using D(11,4,6,12) [of k] push by auto
    then show ?thesis
      unfolding s' by (intro pointers_okI) (use D(1-7,9,10,12,13) k push in \<open>auto simp: joining_def dest: D(8,11)\<close>)
  next
    case (erase k)
    have k: "k \<in> set (inMap s)" "wasJoined s k" "conn s k = C_end" using D(9,10,7) [of k] erase by simp_all
    have s': "inMap s' = remove1 k (inMap s)" "inList s' = inList s" "wasJoined s' = wasJoined s" "conn s' = conn s"
      "manager s' = manager s" "main s' = M_next" "destroyed s' = destroyed s \<or> k \<notin> set (inList s) \<and> destroyed s' = destroyed s @ [k]"
      using assms(3) erase by (auto simp: Let_def)
    have k': "k \<notin> set (destroyed s)" using D(6) [of k] k(1) by auto
    have set: "set (inMap s') = set (inMap s) - {k}" "distinct (inMap s')" using D(1) s'(1) by simp_all
    have des: "distinct (destroyed s')" "j \<in> set (destroyed s') \<Longrightarrow> j \<in> set (destroyed s) \<or> j = k \<and> k \<notin> set (inList s)" for j
      using s'(7) D(3) k' by auto
    show ?thesis
    proof (rule pointers_okI)
      fix j
      show "distinct (inMap s')" "distinct (inList s')" "distinct (destroyed s')" "j \<in> set (inMap s') \<Longrightarrow> j < n" "j \<in> set (inList s') \<Longrightarrow> j < n"
        using set des(1) D(2,4,5,13) s'(2) by simp_all
      show "j \<in> set (destroyed s') \<Longrightarrow> j \<notin> set (inMap s') \<and> j \<notin> set (inList s') \<and> wasJoined s' j"
        using des(2) [of j] D(6) [of j] set(1) s'(2,3) k(2) by auto
      show "wasJoined s' j \<Longrightarrow> conn s' j = C_end" using D(7) [of j] s'(3,4) by simp
      show "j \<in> set (destroyed s') \<Longrightarrow> j < n" using des(2) [of j] D(4,13) [of j] k(1) by auto
      show "j < n \<Longrightarrow> j \<notin> set (inMap s') \<Longrightarrow> conn s' j \<in> {C_unlock, C_end, C_self_join}"
        using D(8) [of j] set(1) s'(4) k(3) by auto
      show "main_at (main s') = Some j \<Longrightarrow> j \<in> set (inMap s')"
        "main s' \<in> {M_lock_list j, M_push j, M_unlock_list j, M_erase j} \<Longrightarrow> wasJoined s' j" using s'(6) by simp_all
      show "j \<in> set (inMap s') \<Longrightarrow> j \<in> set (inList s') \<Longrightarrow> conn s' j \<in> {C_unlock_list, C_erase} \<or> main s' \<in> {M_unlock_list j, M_erase j}"
        using D(11) [of j] set(1) s'(2,4) erase by auto
      show "joining j s' \<Longrightarrow> j < n \<and> j \<notin> set (inMap s') \<and> j \<notin> set (inList s') \<and> j \<notin> set (destroyed s')"
        using D(12) [of j] des(2) [of j] set(1) s'(2,5,6) k(1) by (auto simp: joining_def)
    qed
  next
    case move
    note m = main_moves [OF assms(3) move]
    have w: "wasJoined s' k \<Longrightarrow> wasJoined s k \<or> conn s k = C_end" "wasJoined s k \<Longrightarrow> wasJoined s' k" for k
      using m(10) by (auto split: if_splits)
    have j: "joining k s' \<Longrightarrow> joining k s" for k using m(5,6) by (auto simp: joining_def)
    show ?thesis
    proof (rule pointers_okI)
      fix k
      show "distinct (inMap s')" "distinct (inList s')" "distinct (destroyed s')" "k \<in> set (inMap s') \<Longrightarrow> k < n" "k \<in> set (inList s') \<Longrightarrow> k < n"
        "k < n \<Longrightarrow> k \<notin> set (inMap s') \<Longrightarrow> conn s' k \<in> {C_unlock, C_end, C_self_join}"
        using D(1-5,8) m(1-4) by simp_all
      show "k \<in> set (destroyed s') \<Longrightarrow> k \<notin> set (inMap s') \<and> k \<notin> set (inList s') \<and> wasJoined s' k"
        using D(6) [of k] m(1-3) w(2) by simp
      show "k \<in> set (destroyed s') \<Longrightarrow> k < n" using D(13) [of k] m(3) by simp
      show "wasJoined s' k \<Longrightarrow> conn s' k = C_end" using w(1) [of k] D(7) [of k] m(4) by auto
      show "main_at (main s') = Some k \<Longrightarrow> k \<in> set (inMap s')" using m(7) [of k] D(9) [of k] m(1) by auto
      show "main s' \<in> {M_lock_list k, M_push k, M_unlock_list k, M_erase k} \<Longrightarrow> wasJoined s' k"
        using m(8) [of k] D(10) [of k] w(2) by blast
      show "k \<in> set (inMap s') \<Longrightarrow> k \<in> set (inList s') \<Longrightarrow> conn s' k \<in> {C_unlock_list, C_erase} \<or> main s' \<in> {M_unlock_list k, M_erase k}"
        using D(11) [of k] m(9) [of k] m(1,2,4) by auto
      show "joining k s' \<Longrightarrow> k < n \<and> k \<notin> set (inMap s') \<and> k \<notin> set (inList s') \<and> k \<notin> set (destroyed s')"
        using D(12) [of k] j [of k] m(1-3) by simp
    qed
  qed
qed

subsection \<open>Nothing is lost\<close>

text \<open>How far the shutdown is: the map has been emptied; the disposal list too.\<close>

fun past_map :: "main_pc \<Rightarrow> bool" where
  "past_map M_unlock \<longleftrightarrow> True"
| "past_map (M_process p) \<longleftrightarrow> True"
| "past_map M_stop \<longleftrightarrow> True"
| "past_map M_join_manager \<longleftrightarrow> True"
| "past_map M_end \<longleftrightarrow> True"
| "past_map _ \<longleftrightarrow> False"

fun past_list :: "main_pc \<Rightarrow> bool" where
  "past_list (M_process p) \<longleftrightarrow> p = P_unlock \<or> p = P_end"
| "past_list M_stop \<longleftrightarrow> True"
| "past_list M_join_manager \<longleftrightarrow> True"
| "past_list M_end \<longleftrightarrow> True"
| "past_list _ \<longleftrightarrow> False"

definition somewhere :: "nat \<Rightarrow> life \<Rightarrow> bool" where
  "somewhere k s \<longleftrightarrow>
     k \<in> set (inMap s) \<or> k \<in> set (inList s) \<or> k \<in> set (destroyed s) \<or> joining k s \<or> conn s k = C_self_join"

definition nothing_lost :: "nat \<Rightarrow> life \<Rightarrow> bool" where
  "nothing_lost n s \<longleftrightarrow>
     (\<forall>k<n. somewhere k s) \<and>
     (past_map (main s) \<longrightarrow> inMap s = [] \<and> (\<forall>k<n. conn s k \<noteq> C_self_join)) \<and>
     (past_list (main s) \<longrightarrow> inList s = [] \<and> (\<forall>k. \<not> joining k s)) \<and>
     (main s = M_end \<longrightarrow> manager s = G_end)"

lemma nothing_lost_start: "nothing_lost n (life_start n)"
  by (simp add: nothing_lost_def somewhere_def life_start_def)

lemma conn_nothing_lost:
  assumes "nothing_lost n s" "pointers_ok n s" "k < n" "conn_step k i s = Some s'"
  shows "nothing_lost n s'"
proof -
  have f: "main s' = main s" "manager s' = manager s" "destroyed s' = destroyed s" "\<And>j. joining j s' = joining j s"
    using assms(4) by (cases "conn s k"; auto simp: step_defs joining_def split: if_splits input.splits)+
  have i: "inMap s' = inMap s \<or> conn s k = C_erase \<and> inMap s' = remove1 k (inMap s) \<and> (k \<in> set (inList s') \<or> conn s' k = C_self_join)"
    using assms(4) by (cases "conn s k"; auto simp: step_defs split: if_splits input.splits)
  have l: "inList s' = inList s \<or> conn s k = C_push \<and> inList s' = inList s @ [k]"
    using assms(4) by (cases "conn s k"; auto simp: step_defs split: if_splits input.splits)
  have c: "\<exists>q. conn s' = (conn s)(k := q) \<and> (q = C_self_join \<longrightarrow> conn s k \<in> {C_erase, C_self_join}) \<and> (conn s k = C_self_join \<longrightarrow> q = C_self_join)"
    using assms(4) by (cases "conn s k"; auto simp: step_defs fun_upd_triv [symmetric] split: if_splits input.splits)
  then obtain q where q: "conn s' = (conn s)(k := q)" "q = C_self_join \<longrightarrow> conn s k \<in> {C_erase, C_self_join}"
    "conn s k = C_self_join \<longrightarrow> q = C_self_join" by blast
  have somewhere: "somewhere j s'" if "somewhere j s" for j
    using that f(3) f(4) [of j] i l q by (cases "j = k") (auto simp: somewhere_def)
  have in_map: "k \<in> set (inMap s)" if "conn s k \<in> {C_push, C_erase}"
    using pointers_okD(8) [OF assms(2,3)] that by (cases "k \<in> set (inMap s)") auto
  have "inMap s' = [] \<and> (\<forall>j<n. conn s' j \<noteq> C_self_join)" if "past_map (main s)"
  proof -
    have m: "inMap s = []" "\<forall>j<n. conn s j \<noteq> C_self_join" using assms(1) that by (simp_all add: nothing_lost_def)
    then have "conn s k \<noteq> C_erase" "conn s k \<noteq> C_self_join" using in_map assms(3) by auto
    then show ?thesis using m i q by auto
  qed
  moreover have "inList s' = []" if "past_list (main s)"
  proof -
    have "past_map (main s)" using that by (cases "main s") auto
    then have "conn s k \<noteq> C_push" "inList s = []" using in_map assms(1) that by (auto simp: nothing_lost_def)
    then show ?thesis using l by simp
  qed
  ultimately show ?thesis
    using assms(1) somewhere f by (simp add: nothing_lost_def)
qed

lemma process_nothing_lost:
  assumes "process_step a p s = Some (p', s1)" "pointers_ok n s" "nothing_lost n s"
    "\<forall>j. joining j s \<longleftrightarrow> p = P_join j \<or> other j" "\<forall>j. joining j s' \<longleftrightarrow> p' = P_join j \<or> other j"
    "inMap s' = inMap s1" "inList s' = inList s1" "destroyed s' = destroyed s1" "conn s' = conn s1"
  shows "\<forall>k<n. somewhere k s'" "p' = P_unlock \<longrightarrow> p = P_reset \<and> inList s' = []"
    "past_list (main s) \<longrightarrow> inList s' = [] \<and> (\<forall>k. p' \<noteq> P_join k)"
proof -
  note e = process_effect [OF assms(1)]
  show "\<forall>k<n. somewhere k s'"
    using assms(3-9) e unfolding nothing_lost_def somewhere_def by fastforce
  show "p' = P_unlock \<longrightarrow> p = P_reset \<and> inList s' = []"
    using assms(1,7) by (cases p) (auto simp: step_defs split: list.splits if_splits)
  show "past_list (main s) \<longrightarrow> inList s' = [] \<and> (\<forall>k. p' \<noteq> P_join k)"
    using assms(3,4,7) e(5) unfolding nothing_lost_def by auto
qed

lemma manager_nothing_lost:
  assumes "nothing_lost n s" "pointers_ok n s" "manager_step s = Some s'"
  shows "nothing_lost n s'"
proof (cases "\<exists>p. manager s = G_process p \<and> p \<noteq> P_end")
  case True
  then obtain p p' s1 where p: "manager s = G_process p" "process_step Manager p s = Some (p', s1)" "s' = s1\<lparr>manager := G_process p'\<rparr>"
    using assms(3) by (auto split: process_pc.splits)
  note e = process_effect(1-4) [OF p(2)]
  have "\<forall>k<n. somewhere k s'" "past_list (main s) \<longrightarrow> inList s' = [] \<and> (\<forall>k. p' \<noteq> P_join k)"
    by (rule process_nothing_lost [OF p(2) assms(2,1), where other = "\<lambda>j. main s = M_process (P_join j)"];
        use p(1,3) e in \<open>auto simp: joining_def\<close>)+
  then show ?thesis
    using assms(1) p(1,3) e by (auto simp: nothing_lost_def joining_def)
next
  case False
  then have "\<exists>g. s' = s\<lparr>manager := g\<rparr> \<and> (\<forall>k. g \<noteq> G_process (P_join k))" "\<forall>k. manager s \<noteq> G_process (P_join k)" "manager s \<noteq> G_end"
    using assms(3) by (auto split: manager_pc.splits process_pc.splits if_splits)
  then show ?thesis using assms(1) by (auto simp: nothing_lost_def somewhere_def joining_def)
qed

lemma main_nothing_lost:
  assumes "nothing_lost n s" "pointers_ok n s" "mutexes_ok s" "shutdown_step s = Some s'"
  shows "nothing_lost n s'"
proof (cases "\<exists>p. main s = M_process p \<and> p \<noteq> P_end")
  case True
  then obtain p p' s1 where p: "main s = M_process p" "process_step MainThread p s = Some (p', s1)" "s' = s1\<lparr>main := M_process p'\<rparr>"
    using assms(4) by (auto split: process_pc.splits)
  note e = process_effect(1-4) [OF p(2)]
  have r: "\<forall>k<n. somewhere k s'" "p' = P_unlock \<longrightarrow> p = P_reset \<and> inList s' = []"
      "past_list (main s) \<longrightarrow> inList s' = [] \<and> (\<forall>k. p' \<noteq> P_join k)"
    by (rule process_nothing_lost [OF p(2) assms(2,1), where other = "\<lambda>j. manager s = G_process (P_join j)"];
        use p(1,3) e in \<open>auto simp: joining_def\<close>)+
  have "p = P_reset \<longrightarrow> \<not> manager_in_list (manager s)" using list_mutex_scope(3) [OF assms(3)] p(1) by auto
  then have "p = P_reset \<longrightarrow> (\<forall>j. manager s \<noteq> G_process (P_join j))" by auto
  moreover have "p' = P_end \<longrightarrow> p = P_unlock"
    using p(2) by (cases p) (auto simp: step_defs split: list.splits if_splits)
  ultimately show ?thesis
    using assms(1) p(1,3) e r by (auto simp: nothing_lost_def joining_def)
next
  case False
  have j: "joining j s' = joining j s" for j
    using False assms(4) by (cases "main s"; auto simp: step_defs joining_def split: list.splits if_splits process_pc.splits)
  have c: "conn s' = conn s" "manager s' = manager s"
    using False assms(4) by (cases "main s"; auto simp: step_defs split: list.splits if_splits process_pc.splits)+
  have "conn_in_map (conn s k) \<Longrightarrow> \<not> main_in_map (main s)" for k by (rule map_mutex_scope(1) [OF assms(3)])
  then have crash: "main s = M_next \<Longrightarrow> conn s k \<noteq> C_self_join" for k by (auto simp: regions)
  have past: "past_map (main s') \<Longrightarrow> past_map (main s) \<and> inMap s' = inMap s \<or> main s = M_next \<and> inMap s' = []"
    "past_list (main s') \<Longrightarrow> past_list (main s) \<and> inList s' = inList s" "main s' = M_end \<Longrightarrow> manager s = G_end"
    using False assms(4) by (cases "main s"; auto simp: step_defs split: list.splits if_splits process_pc.splits)+
  have "somewhere k s'" if "somewhere k s" for k
    using that False assms(4) j [of k] c
    by (cases "main s"; cases "main s = M_erase k") (auto simp: somewhere_def step_defs split: list.splits if_splits process_pc.splits)
  then show ?thesis
    using assms(1) j c past crash unfolding nothing_lost_def by metis
qed

subsection \<open>In every reachable state\<close>

lemma mutexes_start: "mutexes_ok (life_start n)"
  by (simp add: mutexes_ok_def owned_by_def life_start_def Mutex_new_def)
    (simp add: all_actors holds_map_def holds_list_def regions)

lemma pointers_start: "pointers_ok n (life_start n)"
  by (rule pointers_okI) (simp_all add: life_start_def joining_def)

lemma life_inv_step:
  assumes "mutexes_ok s" "pointers_ok n s" "nothing_lost n s" "life_step n s s'"
  shows "mutexes_ok s' \<and> pointers_ok n s' \<and> nothing_lost n s'"
proof -
  obtain a i where a: "actor_step n a i s = Some s'" using assms(4) by (rule life_stepE)
  show ?thesis
  proof (cases a)
    case MainThread
    then have m: "shutdown_step s = Some s'" using a by (simp add: actor_step_def del: shutdown_step.simps split: if_splits)
    show ?thesis using main_mutexes [OF assms(1) m] main_pointers [OF assms(2,1) m] main_nothing_lost [OF assms(3,2,1) m] by (intro conjI)
  next
    case Manager
    then have m: "manager_step s = Some s'" using a by (simp add: actor_step_def del: manager_step.simps split: if_splits)
    show ?thesis using manager_mutexes [OF assms(1) m] manager_pointers [OF assms(2,1) m] manager_nothing_lost [OF assms(3,2) m] by (intro conjI)
  next
    case (Connection k)
    then have c: "k < n" "conn_step k i s = Some s'"
      using a by (simp_all add: actor_step_def del: conn_step.simps split: if_splits)
    show ?thesis using conn_mutexes [OF assms(1) c(2)] conn_pointers [OF assms(2,1) c] conn_nothing_lost [OF assms(3,2) c] by (intro conjI)
  qed
qed

lemma life_reachable_inv:
  assumes "life_reachable n s"
  shows "mutexes_ok s" "pointers_ok n s" "nothing_lost n s"
proof -
  from assms have "mutexes_ok s \<and> pointers_ok n s \<and> nothing_lost n s"
    unfolding life_reachable_def
  proof (induction rule: rtranclp_induct)
    case base
    show ?case using mutexes_start pointers_start nothing_lost_start by (intro conjI)
  next
    case (step u v)
    then show ?case using life_inv_step by blast
  qed
  then show "mutexes_ok s" "pointers_ok n s" "nothing_lost n s" by simp_all
qed

section \<open>Who waits for whom\<close>

text \<open>A measure that goes down along the waiting, unless the shutdown joins a thread that wants the map.\<close>

fun process_level :: "process_pc \<Rightarrow> nat" where
  "process_level P_lock = 2"
| "process_level (P_join k) = 1"
| "process_level _ = 0"

fun level :: "life \<Rightarrow> actor \<Rightarrow> nat" where
  "level s MainThread =
     (case main s of M_lock \<Rightarrow> 4 | M_join k \<Rightarrow> 3 | M_join_manager \<Rightarrow> 3 | M_lock_list k \<Rightarrow> 2 | M_process p \<Rightarrow> process_level p | _ \<Rightarrow> 0)"
| "level s Manager = (case manager s of G_process p \<Rightarrow> process_level p | _ \<Rightarrow> 0)"
| "level s (Connection k) = (case conn s k of C_lock \<Rightarrow> 4 | C_lock_list \<Rightarrow> 2 | _ \<Rightarrow> 0)"

lemma process_level_in_list: "process_in_list p \<Longrightarrow> process_level p \<le> 1"
  by (cases p) auto

lemma process_level_bound: "process_level p \<le> 2"
  by (cases p) auto

lemma list_holder_level: "holds_list s b \<Longrightarrow> level s b \<le> 1"
  using process_level_in_list
  by (cases b) (auto simp: holds_list_def conn_in_list_def split: main_pc.splits manager_pc.splits conn_pc.splits)

lemma map_holder_level: "holds_map s b \<Longrightarrow> level s b \<le> 3"
  by (cases b) (auto simp: holds_map_def regions split: main_pc.splits conn_pc.splits)

lemma waits_list:
  assumes "mutexes_ok s" "waits_mutex a (listMutex s) = Some b" "\<not> holds_list s a"
  shows "level s b < 2"
  using owned_blocks [of "listMutex s" "holds_list s" a b] list_holder_level [of s b] assms by (auto simp: mutexes_ok_def)

lemma waits_map:
  assumes "mutexes_ok s" "waits_mutex a (mapMutex s) = Some b" "\<not> holds_map s a"
  shows "level s b < 4"
  using owned_blocks [of "mapMutex s" "holds_map s" a b] map_holder_level [of s b] assms by (auto simp: mutexes_ok_def)

lemma joining_level: "pointers_ok n s \<Longrightarrow> joining k s \<Longrightarrow> level s (Connection k) = 0"
  using pointers_okD(12) [of n s k] pointers_okD(8) [of n s k] by auto

lemma waits_process_level:
  assumes "mutexes_ok s" "pointers_ok n s" "waits_process a p s = Some b" "\<not> process_in_list p \<Longrightarrow> \<not> holds_list s a"
    "\<And>k. p = P_join k \<Longrightarrow> joining k s"
  shows "level s b < process_level p"
proof (cases p)
  case P_lock
  then show ?thesis using waits_list [OF assms(1)] assms(3,4) by simp
next
  case (P_join k)
  then have "b = Connection k" using assms(3) by (simp add: waits_join_def split: if_splits)
  then show ?thesis using joining_level [OF assms(2)] assms(5) P_join by simp
qed (use assms(3) in auto)

lemma waits_level:
  assumes ok: "mutexes_ok s" "pointers_ok n s" and no: "\<forall>k. \<not> (main s = M_join k \<and> conn s k = C_lock)"
    and w: "waits n s a = Some b"
  shows "level s b < level s a"
proof (cases a)
  case MainThread
  show ?thesis
  proof (cases "main s")
    case (M_join k)
    then have b: "b = Connection k" "conn s k \<noteq> C_end"
      using w MainThread by (auto simp: waits_join_def join_conn_def split: if_splits)
    have "\<not> conn_in_map (conn s k)" using map_mutex_scope(1) [OF ok(1), of k] M_join by (auto simp: main_in_map_def)
    then have "level s (Connection k) = 0" using no M_join by (auto simp: conn_in_map_def split: conn_pc.splits)
    then show ?thesis using b(1) MainThread M_join by simp
  next
    case (M_process p)
    have "level s b < process_level p"
      by (rule waits_process_level [OF ok, of MainThread])
        (use w MainThread M_process in \<open>auto simp: holds_list_def joining_def\<close>)
    then show ?thesis using MainThread M_process by simp
  next
    case M_join_manager
    have "level s Manager \<le> 2" using process_level_bound by (auto split: manager_pc.splits)
    moreover have "b = Manager" using w MainThread M_join_manager by (simp split: if_splits)
    ultimately show ?thesis using MainThread M_join_manager by simp
  qed (use w MainThread waits_map [OF ok(1)] waits_list [OF ok(1)] in \<open>auto simp: holds_map_def holds_list_def main_in_map_def\<close>)
next
  case Manager
  then obtain p where p: "manager s = G_process p" using w by (auto split: manager_pc.splits)
  have "level s b < process_level p"
    by (rule waits_process_level [OF ok, of Manager]) (use w Manager p in \<open>auto simp: holds_list_def joining_def\<close>)
  then show ?thesis using Manager p by simp
next
  case (Connection k)
  then show ?thesis
    using w waits_map [OF ok(1), of a b] waits_list [OF ok(1), of a b]
    by (auto simp: holds_map_def holds_list_def conn_in_map_def conn_in_list_def split: conn_pc.splits if_splits)
qed

text \<open>The one cycle.\<close>

lemma deadlock_cycle:
  assumes "mutexes_ok s" "pointers_ok n s" "main s = M_join k" "conn s k = C_lock"
  shows "waits n s MainThread = Some (Connection k)" "waits n s (Connection k) = Some MainThread"
    "join_conn k s = None" "lock_map (Connection k) s = None"
proof -
  note D = pointers_okD [OF assms(2)]
  have "\<not> wasJoined s k" using D(7) [of k] assms(4) by auto
  then show j: "join_conn k s = None" using assms(4) by (simp add: join_conn_def)
  then show "waits n s MainThread = Some (Connection k)" using assms(3) by (simp add: waits_join_def)
  have "k < n" using D(4,9) [of k] assms(3) by simp
  moreover have m: "waits_mutex (Connection k) (mapMutex s) = Some MainThread"
    using owned_blocks [of "mapMutex s" "holds_map s" "Connection k" MainThread] assms
    by (simp add: mutexes_ok_def holds_map_def regions)
  ultimately show "waits n s (Connection k) = Some MainThread" using assms(4) by simp
  show "lock_map (Connection k) s = None" using m by (simp add: lock_map_def waits_mutex_def split: if_splits)
qed

lemma conn_frame:
  assumes "conn_step j i s = Some s'"
  shows "main s' = main s" "k \<noteq> j \<Longrightarrow> conn s' k = conn s k"
  using assms by (cases "conn s j"; auto simp: step_defs split: if_splits input.splits)+

lemma manager_frame:
  assumes "manager_step s = Some s'"
  shows "main s' = main s" "conn s' = conn s"
proof -
  have "main s' = main s \<and> conn s' = conn s"
  proof (cases "\<exists>p. manager s = G_process p \<and> p \<noteq> P_end")
    case True
    then obtain p p' s1 where "manager s = G_process p" "process_step Manager p s = Some (p', s1)" "s' = s1\<lparr>manager := G_process p'\<rparr>"
      using assms by (auto split: process_pc.splits)
    then show ?thesis using process_frame(1,2) [of Manager p s p' s1] by simp
  next
    case False
    then show ?thesis using assms by (auto split: manager_pc.splits process_pc.splits)
  qed
  then show "main s' = main s" "conn s' = conn s" by simp_all
qed

lemma deadlock_stays:
  assumes "mutexes_ok s" "pointers_ok n s" "main s = M_join k" "conn s k = C_lock" "life_step n s s'"
  shows "main s' = M_join k \<and> conn s' k = C_lock"
  using assms(5)
proof (rule life_stepE)
  fix a i assume a: "actor_step n a i s = Some s'"
  note c = deadlock_cycle(3,4) [OF assms(1-4)]
  show ?thesis
  proof (cases a)
    case MainThread
    then show ?thesis using a c(1) assms(3) by (simp add: actor_step_def split: if_splits)
  next
    case Manager
    then show ?thesis using a manager_frame [of s s'] assms(3,4) by (simp add: actor_step_def split: if_splits)
  next
    case (Connection j)
    then have j: "conn_step j i s = Some s'" using a by (simp add: actor_step_def split: if_splits)
    have "j \<noteq> k" using j c(2) assms(4) by auto
    then show ?thesis using conn_frame [OF j] assms(3,4) by simp
  qed
qed

section \<open>Who runs a destructor\<close>

text \<open>
  The thread that is in the destructor of a socket: the main thread or the manager, which join the
  socket's thread there, or the thread itself, which waits for itself.
\<close>

fun destructs :: "life \<Rightarrow> actor \<Rightarrow> nat \<Rightarrow> bool" where
  "destructs s MainThread k \<longleftrightarrow> main s = M_process (P_join k)"
| "destructs s Manager k \<longleftrightarrow> manager s = G_process (P_join k)"
| "destructs s (Connection j) k \<longleftrightarrow> j = k \<and> conn s k = C_self_join"

definition self_joins_ok :: "life \<Rightarrow> bool" where
  "self_joins_ok s \<longleftrightarrow>
     (\<forall>k. conn s k = C_self_join \<longrightarrow> k \<notin> set (inMap s) \<and> k \<notin> set (inList s) \<and> \<not> joining k s)"

lemma self_joins_start: "self_joins_ok (life_start n)"
  by (simp add: self_joins_ok_def life_start_def)

lemma self_joins_keep:
  assumes "self_joins_ok s" "\<And>k. conn s' k = C_self_join \<Longrightarrow> conn s k = C_self_join"
    "\<And>k. k \<in> set (inMap s') \<Longrightarrow> conn s k = C_self_join \<Longrightarrow> k \<in> set (inMap s)"
    "\<And>k. k \<in> set (inList s') \<Longrightarrow> conn s k = C_self_join \<Longrightarrow> k \<in> set (inMap s) \<or> k \<in> set (inList s)"
    "\<And>k. joining k s' \<Longrightarrow> conn s k = C_self_join \<Longrightarrow> k \<in> set (inList s) \<or> joining k s"
  shows "self_joins_ok s'"
  using assms unfolding self_joins_ok_def by blast

lemma conn_self_joins:
  assumes "self_joins_ok s" "pointers_ok n s" "k < n" "conn_step k i s = Some s'"
  shows "self_joins_ok s'"
proof (cases "conn s k = C_erase")
  case True
  note D = pointers_okD [OF assms(2)]
  have k: "k \<in> set (inMap s)" using D(8) [of k] assms(3) True by auto
  then have j: "\<not> joining k s" using D(12) [of k] by auto
  obtain q where "inMap s' = remove1 k (inMap s)" "inList s' = inList s" "main s' = main s" "manager s' = manager s"
      "conn s' = (conn s)(k := q)" "q = C_self_join \<longrightarrow> k \<notin> set (inList s)"
    using assms(4) True by (auto simp: step_defs split: if_splits)
  then show ?thesis using assms(1) j D(1) by (auto simp: self_joins_ok_def joining_def split: if_splits)
next
  case False
  then have "conn s' j = C_self_join \<longrightarrow> conn s j = C_self_join" for j
    using assms(4) by (cases "conn s k") (auto simp: step_defs split: if_splits input.splits)
  moreover have "inMap s' = inMap s \<and> main s' = main s \<and> manager s' = manager s \<and>
      (inList s' = inList s \<or> conn s k = C_push \<and> inList s' = inList s @ [k])"
    using assms(4) False by (cases "conn s k") (auto simp: step_defs split: if_splits input.splits)
  ultimately show ?thesis by (intro self_joins_keep [OF assms(1)]) (auto simp: joining_def)
qed

lemma process_self_joins:
  assumes "self_joins_ok s" "process_step a p s = Some (p', s1)" "conn s' = conn s1" "inMap s' = inMap s1" "inList s' = inList s1"
    "\<And>j. p = P_join j \<Longrightarrow> joining j s" "\<And>j. joining j s' \<Longrightarrow> joining j s \<or> p' = P_join j"
  shows "self_joins_ok s'"
proof -
  note e = process_effect [OF assms(2)]
  have l: "set (inList s1) \<subseteq> set (inList s)" using e(5) by auto
  have "p' = P_join k \<Longrightarrow> k \<in> set (inList s)" for k using e(5) by auto
  then have "joining k s' \<Longrightarrow> k \<in> set (inList s) \<or> joining k s" for k using assms(7) by blast
  then show ?thesis using e(1,2) l assms(3-5) by (intro self_joins_keep [OF assms(1)]) auto
qed

lemma manager_self_joins:
  assumes "self_joins_ok s" "manager_step s = Some s'"
  shows "self_joins_ok s'"
proof (cases "\<exists>p. manager s = G_process p \<and> p \<noteq> P_end")
  case True
  then obtain p p' s1 where p: "manager s = G_process p" "process_step Manager p s = Some (p', s1)" "s' = s1\<lparr>manager := G_process p'\<rparr>"
    using assms(2) by (auto split: process_pc.splits)
  show ?thesis
    by (rule process_self_joins [OF assms(1) p(2)]) (use p(1,3) process_frame [OF p(2)] in \<open>auto simp: joining_def\<close>)
next
  case False
  then have "\<exists>g. s' = s\<lparr>manager := g\<rparr> \<and> (\<forall>k. g \<noteq> G_process (P_join k))"
    using assms(2) by (auto split: manager_pc.splits process_pc.splits if_splits)
  then show ?thesis by (intro self_joins_keep [OF assms(1)]) (auto simp: joining_def)
qed

lemma main_self_joins:
  assumes "self_joins_ok s" "pointers_ok n s" "shutdown_step s = Some s'"
  shows "self_joins_ok s'"
proof (cases "\<exists>p. main s = M_process p")
  case True
  then obtain p where m: "main s = M_process p" by blast
  show ?thesis
  proof (cases "p = P_end")
    case True
    then have "s' = s\<lparr>main := M_stop\<rparr>" using assms(3) m by simp
    then show ?thesis by (intro self_joins_keep [OF assms(1)]) (auto simp: joining_def)
  next
    case False
    then obtain p' s1 where p: "process_step MainThread p s = Some (p', s1)" "s' = s1\<lparr>main := M_process p'\<rparr>"
      using assms(3) m by (auto split: process_pc.splits)
    show ?thesis
      by (rule process_self_joins [OF assms(1) p(1)]) (use m p(2) process_frame [OF p(1)] in \<open>auto simp: joining_def\<close>)
  qed
next
  case False
  have "conn s' = conn s \<and> manager s' = manager s \<and> set (inMap s') \<subseteq> set (inMap s) \<and> (\<forall>k. main s' \<noteq> M_process (P_join k)) \<and>
      (inList s' = inList s \<or> (\<exists>k. main s = M_push k \<and> inList s' = inList s @ [k]))"
    using assms(3) False by (cases "main s"; auto simp: step_defs dest: set_remove1_subset [THEN subsetD] split: list.splits if_splits)
  moreover have "main s = M_push k \<Longrightarrow> k \<in> set (inMap s)" for k using pointers_okD(9) [OF assms(2), of k] by simp
  ultimately show ?thesis by (intro self_joins_keep [OF assms(1)]) (auto simp: joining_def)
qed

lemma life_reachable_self_joins:
  assumes "life_reachable n s"
  shows "self_joins_ok s"
  using assms unfolding life_reachable_def
proof (induction rule: rtranclp_induct)
  case base
  show ?case by (rule self_joins_start)
next
  case (step u v)
  have p: "pointers_ok n u" using life_reachable_inv(2) [of n u] step(1) by (simp add: life_reachable_def)
  obtain a i where a: "actor_step n a i u = Some v" using step(2) by (rule life_stepE)
  show ?case
  proof (cases a)
    case MainThread
    then have "shutdown_step u = Some v" using a by (simp add: actor_step_def del: shutdown_step.simps split: if_splits)
    then show ?thesis by (rule main_self_joins [OF step(3) p])
  next
    case Manager
    then have "manager_step u = Some v" using a by (simp add: actor_step_def del: manager_step.simps split: if_splits)
    then show ?thesis by (rule manager_self_joins [OF step(3)])
  next
    case (Connection k)
    then have "k < n" "conn_step k i u = Some v" using a by (simp_all add: actor_step_def del: conn_step.simps split: if_splits)
    then show ?thesis by (rule conn_self_joins [OF step(3) p])
  qed
qed

lemma one_destructor:
  assumes "life_reachable n s" "destructs s a k"
  shows "k \<notin> set (destroyed s) \<and> k \<notin> set (inMap s) \<and> k \<notin> set (inList s) \<and> (\<forall>b. destructs s b k \<longrightarrow> b = a)"
proof -
  note inv = life_reachable_inv(1,2) [OF assms(1)] and self = life_reachable_self_joins [OF assms(1)]
  have "joining k s \<or> conn s k = C_self_join" using assms(2) by (cases a) (auto simp: joining_def)
  then have "k \<notin> set (destroyed s) \<and> k \<notin> set (inMap s) \<and> k \<notin> set (inList s)"
    using pointers_okD(6,7,12) [OF inv(2), of k] self by (auto simp: self_joins_ok_def)
  moreover have "\<not> (destructs s MainThread k \<and> destructs s Manager k)" using list_mutex_scope(3) [OF inv(1)] by auto
  moreover have "destructs s (Connection j) k \<Longrightarrow> j = k \<and> \<not> destructs s MainThread k \<and> \<not> destructs s Manager k" for j
    using self by (auto simp: self_joins_ok_def joining_def)
  ultimately show ?thesis using assms(2) by (metis actor.exhaust)
qed

section \<open>Schedules\<close>

text \<open>A shutdown while nothing happens, and the two that the last properties tell.\<close>

lemmas schedule_simps = life_start_def actor_step_def step_defs Mutex_Lock_def Mutex_Unlock_def Mutex_new_def numeral_eq_Suc

definition orderly :: "(actor \<times> input) list" where
  "orderly =
     map (Pair MainThread) (replicate 3 Timeout) @ [(MainThread, Timeout), (Connection 0, Timeout)] @
     map (Pair MainThread) (replicate 13 Timeout)"

text \<open>The same, until the manager has ended too.\<close>

definition whole :: "(actor \<times> input) list" where
  "whole = orderly @ [(MainThread, Timeout), (Manager, Timeout), (MainThread, Timeout)]"
definition closing :: "(actor \<times> input) list" where
  "closing =
     [(Connection 0, Timeout), (Connection 0, Ready), (Connection 0, Timeout), (Connection 0, NoData)] @
     map (Pair MainThread) (replicate 4 Timeout)"
definition hasty :: "(actor \<times> input) list" where
  "hasty =
     [(Connection 0, Timeout), (Connection 0, Ready), (Connection 0, Timeout), (Connection 0, NoData)] @
     map (Pair (Connection 0)) (replicate 5 Timeout) @ map (Pair Manager) (replicate 5 Timeout) @
     map (Pair (Connection 0)) (replicate 2 Timeout)"

section \<open>Properties\<close>

text \<open>
  C13. A socket is destroyed at most once, and by one thread. In any interleaving of any number of
  connections with the manager and a shutdown, at most one thread is in the destructor of a socket, and
  while it is, and after, neither the map nor the disposal list points to the socket. No destructor of a
  socket completes twice, or starts again once it has completed, and it completes only when the socket's
  thread has ended. (A connection's thread can start the destructor of its own socket while it
  runs; it then waits for itself and never completes it.)
\<close>

theorem sockets_destroyed_once:
  assumes "life_reachable n s"
  shows "distinct (destroyed s) \<and>
     (\<forall>k\<in>set (destroyed s). conn s k = C_end \<and> k \<notin> set (inMap s) \<and> k \<notin> set (inList s)) \<and>
     (\<forall>a k. destructs s a k \<longrightarrow> k \<notin> set (destroyed s) \<and> k \<notin> set (inMap s) \<and> k \<notin> set (inList s) \<and> (\<forall>b. destructs s b k \<longrightarrow> b = a))"
  using pointers_okD(3,6,7) [OF life_reachable_inv(2) [OF assms]] one_destructor [OF assms] by blast

theorem sockets_destroyed_once_witness:
  "\<exists>s. life_reachable 1 s \<and> destroyed s = [0] \<and> conn s 0 = C_end"
proof -
  obtain s where "run_schedule 1 orderly (life_start 1) = Some s" "destroyed s = [0]"
    by (simp add: orderly_def schedule_simps)
  then show ?thesis
    using sockets_destroyed_once [of 1 s] run_schedule_steps unfolding life_reachable_def by (intro exI [of _ s]) auto
qed

text \<open>
  C9. What a shutdown leaves. When \<open>Shutdown\<close> returns, whatever the peers did meanwhile and however the
  threads were interleaved, the socket map and the disposal list are empty, each socket has been destroyed,
  each connection's thread has ended, and so has the management thread.
\<close>

theorem shutdown_complete:
  assumes "life_reachable n s" "main s = M_end"
  shows "inMap s = [] \<and> inList s = [] \<and> manager s = G_end \<and> set (destroyed s) = {..<n} \<and> (\<forall>k<n. conn s k = C_end)"
proof -
  note l = life_reachable_inv(3) [OF assms(1), unfolded nothing_lost_def] and D = pointers_okD [OF life_reachable_inv(2) [OF assms(1)]]
  have e: "inMap s = []" "inList s = []" "manager s = G_end" using l assms(2) by simp_all
  have "k \<in> set (destroyed s) \<longleftrightarrow> k < n" for k using l assms(2) D(13) [of k] by (auto simp: somewhere_def)
  then have "set (destroyed s) = {..<n}" by auto
  with e D(6,7) show ?thesis by auto
qed

theorem shutdown_complete_witness: "\<exists>s. life_reachable 1 s \<and> main s = M_end \<and> set (destroyed s) = {..<1}"
proof -
  obtain s where "run_schedule 1 whole (life_start 1) = Some s" "main s = M_end"
    by (simp add: whole_def orderly_def schedule_simps)
  then show ?thesis
    using shutdown_complete [of 1 s] run_schedule_steps unfolding life_reachable_def by (intro exI [of _ s]) auto
qed

text \<open>
  C10. The only deadlock. In any interleaving, the threads that wait for one another, for a mutex or for
  a thread to end, form a cycle if and only if the shutdown, which holds the mutex of the socket map, joins
  the thread of a connection that is in \<open>OnSocketClosed\<close> and waits for that mutex.
\<close>

theorem only_deadlock:
  assumes "life_reachable n s"
  shows "acyclic {(a, b). waits n s a = Some b} \<longleftrightarrow> \<not> (\<exists>k. main s = M_join k \<and> conn s k = C_lock)"
proof
  note ok = life_reachable_inv(1,2) [OF assms]
  assume a: "acyclic {(a, b). waits n s a = Some b}"
  show "\<not> (\<exists>k. main s = M_join k \<and> conn s k = C_lock)"
  proof
    assume "\<exists>k. main s = M_join k \<and> conn s k = C_lock"
    then obtain k where "main s = M_join k" "conn s k = C_lock" by blast
    note c = deadlock_cycle(1,2) [OF ok this]
    have "(MainThread, MainThread) \<in> {(a, b). waits n s a = Some b}\<^sup>+"
      by (rule trancl_into_trancl [OF r_into_trancl, of _ "Connection k"]) (simp_all add: c del: waits.simps)
    with a show False by (simp add: acyclic_def)
  qed
next
  note ok = life_reachable_inv(1,2) [OF assms]
  assume "\<not> (\<exists>k. main s = M_join k \<and> conn s k = C_lock)"
  then have "\<forall>k. \<not> (main s = M_join k \<and> conn s k = C_lock)" by blast
  from waits_level [OF ok this] show "acyclic {(a, b). waits n s a = Some b}"
    by (intro acyclicI_order [where f = "level s"]) (simp del: waits.simps level.simps)
qed

theorem only_deadlock_witness: "acyclic {(a, b). waits 1 (life_start 1) a = Some b}"
  using only_deadlock [of 1 "life_start 1"] by (simp add: life_reachable_def life_start_def)

text \<open>
  C11. A shutdown that never ends. A connection is closed by its peer while the server shuts down: the
  connection's thread has seen it and calls \<open>OnSocketClosed\<close>, which needs the mutex of the socket map,
  and \<open>CloseAllSockets\<close> holds that mutex while it joins the thread. From there on neither of them ever moves.
\<close>

theorem shutdown_deadlock:
  "\<exists>s. life_reachable 1 s \<and> main s = M_join 0 \<and> conn s 0 = C_lock \<and>
     (\<forall>s'. (life_step 1)\<^sup>*\<^sup>* s s' \<longrightarrow> main s' = M_join 0 \<and> conn s' 0 = C_lock)"
proof -
  obtain s where s: "run_schedule 1 closing (life_start 1) = Some s" "main s = M_join 0" "conn s 0 = C_lock"
    by (simp add: closing_def schedule_simps)
  then have r: "life_reachable 1 s" using run_schedule_steps unfolding life_reachable_def by blast
  have "life_reachable 1 s' \<and> main s' = M_join 0 \<and> conn s' 0 = C_lock" if "(life_step 1)\<^sup>*\<^sup>* s s'" for s'
    using that
  proof (induction rule: rtranclp_induct)
    case (step u v)
    then have "life_reachable 1 v" by (auto simp: life_reachable_def)
    then show ?case using step life_reachable_inv [of 1 u] deadlock_stays [of u 1 0 v] by blast
  qed (use s r in simp)
  with r s show ?thesis by blast
qed

theorem shutdown_deadlock_witness:
  "\<exists>s. life_reachable 1 s \<and> \<not> (\<exists>s'. (life_step 1)\<^sup>*\<^sup>* s s' \<and> main s' = M_end)"
  using shutdown_deadlock by fastforce

text \<open>
  C12. A thread that joins itself. A peer closes its connection, and nobody shuts the server down. The
  thread of the connection has put its socket into the disposal list; the manager, woken, empties the
  list before the thread has erased the socket from the map, so that the erased pointer is the last one: the
  destructor runs on the socket's own thread and joins it, and the program is terminated.
\<close>

theorem self_join:
  "\<exists>s. life_reachable 1 s \<and> main s = M_running \<and> crashed s \<and> conn s 0 = C_self_join"
proof -
  obtain s where "run_schedule 1 hasty (life_start 1) = Some s" "main s = M_running" "crashed s" "conn s 0 = C_self_join"
    by (simp add: hasty_def schedule_simps)
  then show ?thesis using run_schedule_steps unfolding life_reachable_def by blast
qed

end
