(* ===== verification/MessageTests.thy ===== *)
theory MessageTests
  imports Messages
begin

text \<open>
  The test cases of \<open>MessageTests.cpp\<close>, run on the model. A test case is a function of the heap: a
  \<open>REQUIRE\<close> that fails ends it with False, an exception with the fault, and True is a pass. Comparing
  memory that nobody wrote is a fault of its own. With a heap that serves every request all of them
  pass: the model does what the authors saw the program do.
\<close>

section \<open>Test cases\<close>

definition require :: "bool \<Rightarrow> bool res \<Rightarrow> bool res" where
  "require c k = (if c then k else Inr False)"

abbreviation require_false :: "bool \<Rightarrow> bool res \<Rightarrow> bool res" where
  "require_false c \<equiv> require (\<not> c)"

text \<open>\<open>memcmp (\<dots>) == 0\<close> with an array of bytes.\<close>

definition memcmp_eq :: "cell list option \<Rightarrow> u8 list \<Rightarrow> size_t \<Rightarrow> bool res" where
  "memcmp_eq d xs n =
     bindE (mem_load d 0 n) (\<lambda>cs. if None \<in> set cs then Inl Indeterminate else Inr (cs = map Some (take (unat n) xs)))"

definition write_array :: "u8 list \<Rightarrow> DataBuffer \<Rightarrow> (size_t \<times> DataBuffer) res" where
  "write_array xs b = WriteBytes (Some (map Some xs)) (of_nat (length xs)) b"

text \<open>A loop that writes the same array \<open>n\<close> times.\<close>

primrec write_repeatedly :: "nat \<Rightarrow> u8 list \<Rightarrow> DataBuffer \<Rightarrow> DataBuffer res" where
  "write_repeatedly 0 xs b = Inr b"
| "write_repeatedly (Suc n) xs b = bindE (write_array xs b) (\<lambda>(_, b). write_repeatedly n xs b)"

definition same_headers :: "MessageHeader \<Rightarrow> MessageHeader \<Rightarrow> bool res" where
  "same_headers header comp0 =
     require (CAS header = CAS comp0) (
     require (DataType header = DataType comp0) (
     require (ExtrasLen header = ExtrasLen comp0) (
     require (KeyLen header = KeyLen comp0) (
     require (Magic header = Magic comp0) (
     require (Opaque header = Opaque comp0) (
     require (Opcode header = Opcode comp0) (
     require (Status header = Status comp0) (
     require (TotalBodyLen header = TotalBodyLen comp0) (Inr True)))))))))"

definition test_header_write_parse :: "heap \<Rightarrow> bool res" where
  "test_header_write_parse ok =
     (let header = MessageHeader_new; comp0 = MessageHeader_new in
      bindE (DataBuffer_len ok kMBPHeaderSize) (\<lambda>buffer.
      let header = header\<lparr>CAS := 0x1122334455667788\<rparr>;
          header = header\<lparr>DataType := 4\<rparr>;
          header = header\<lparr>ExtrasLen := 50\<rparr>;
          header = header\<lparr>KeyLen := 20\<rparr>;
          header = header\<lparr>Magic := 128\<rparr>;
          header = header\<lparr>Opaque := 256\<rparr>;
          header = header\<lparr>Opcode := 30\<rparr>;
          header = header\<lparr>Status := 2048\<rparr>;
          header = header\<lparr>TotalBodyLen := 65535\<rparr> in
      bindE (WriteToBuffer header buffer) (\<lambda>(n, buffer).
      require (n = kMBPHeaderSize) (
      bindE (ParseFromBuffer buffer comp0) (\<lambda>((n, comp0), buffer).
      require (n = kMBPHeaderSize) (same_headers header comp0))))))"

definition test_header_byte_order :: "heap \<Rightarrow> bool res" where
  "test_header_byte_order ok =
     (let header = MessageHeader_new; comp0 = MessageHeader_new in
      bindE (DataBuffer_len ok kMBPHeaderSize) (\<lambda>buffer.
      let byteHeader = replicate 24 0;
          byteHeader = byteHeader[0 := 0x80];
          comp0 = comp0\<lparr>Magic := 0x80\<rparr>;
          byteHeader = byteHeader[1 := 0x0A];
          comp0 = comp0\<lparr>Opcode := 0x0A\<rparr>;
          byteHeader = byteHeader[2 := 0x11, 3 := 0x22];
          comp0 = comp0\<lparr>KeyLen := 0x1122\<rparr>;
          byteHeader = byteHeader[4 := 0x05];
          comp0 = comp0\<lparr>ExtrasLen := 0x05\<rparr>;
          byteHeader = byteHeader[5 := 0x10];
          comp0 = comp0\<lparr>DataType := 0x10\<rparr>;
          byteHeader = byteHeader[6 := 0x33, 7 := 0x44];
          comp0 = comp0\<lparr>Status := 0x3344\<rparr>;
          byteHeader = byteHeader[8 := 0x11, 9 := 0x22, 10 := 0x33, 11 := 0x44];
          comp0 = comp0\<lparr>TotalBodyLen := 0x11223344\<rparr>;
          byteHeader = byteHeader[12 := 0x11, 13 := 0x22, 14 := 0x33, 15 := 0x44];
          comp0 = comp0\<lparr>Opaque := 0x11223344\<rparr>;
          byteHeader = byteHeader[16 := 0x11, 17 := 0x22, 18 := 0x33, 19 := 0x44,
            20 := 0x55, 21 := 0x66, 22 := 0x77, 23 := 0x88];
          comp0 = comp0\<lparr>CAS := 0x1122334455667788\<rparr> in
      bindE (WriteBytes (Some (map Some byteHeader)) kMBPHeaderSize buffer) (\<lambda>(n, buffer).
      require (n = kMBPHeaderSize) (
      bindE (ParseFromBuffer buffer header) (\<lambda>((n, header), buffer).
      require (n = kMBPHeaderSize) (same_headers header comp0))))))"

definition test_get_request_parse :: "heap \<Rightarrow> bool res" where
  "test_get_request_parse ok =
     (let buffer = DataBuffer_new;
          byteArray = [
            kMagicReq,
            kOpGet,
            0, 8,
            0,
            0,
            0, 0,
            0, 0, 0, 8,
            0, 0, 0, 0,
            0, 0, 0, 0, 0, 0, 0, 0] @
            ascii ''memcache'' in
      bindE (Alloc ok (of_nat (length byteArray)) buffer) (\<lambda>(_, buffer).
      bindE (write_array byteArray buffer) (\<lambda>(_, buffer).
      let req = GetRequest_buf (Some buffer) in
      bindE (Parse ok req) (\<lambda>(r, req).
      require r (
      require (GetKey req = ascii ''memcache'') (Inr True))))))"

definition test_get_request_failed_parse :: "heap \<Rightarrow> bool res" where
  "test_get_request_failed_parse ok =
     (let buffer = DataBuffer_new;
          byteArray = [
            kMagicRes,
            kOpGet,
            0, 8,
            0,
            0,
            0, 0,
            0, 0, 0, 8,
            0, 0, 0, 0,
            0, 0, 0, 0, 0, 0, 0, 0] @
            ascii ''memcache'' in
      bindE (Alloc ok (of_nat (length byteArray)) buffer) (\<lambda>(_, buffer).
      bindE (write_array byteArray buffer) (\<lambda>(_, buffer).
      let req = GetRequest_buf (Some buffer) in
      bindE (Parse ok req) (\<lambda>(r, req).
      require_false r (
      let byteArray = byteArray[0 := kMagicReq];
          byteArray = byteArray[1 := kOpSet] in
      bindE (the_buffer req) (\<lambda>buffer.
      bindE (write_array byteArray (Reset buffer)) (\<lambda>(_, buffer).
      let req = GetRequest_buf (Some buffer) in
      bindE (Parse ok req) (\<lambda>(r, req).
      require_false r (
      let byteArray = byteArray[1 := kOpGet];
          byteArray = byteArray[2 := 0];
          byteArray = byteArray[3 := 0] in
      bindE (the_buffer req) (\<lambda>buffer.
      bindE (write_array byteArray (Reset buffer)) (\<lambda>(_, buffer).
      let req = GetRequest_buf (Some buffer) in
      bindE (Parse ok req) (\<lambda>(r, req).
      require_false r (Inr True)))))))))))))"

definition test_get_request_build :: "heap \<Rightarrow> bool res" where
  "test_get_request_build ok =
     (let key = ascii ''memcache'' in
      bindE (GetRequest_new ok) (\<lambda>req.
      let req = SetKey key req in
      bindE (Build ok req) (\<lambda>(r, req).
      require r (
      let header = GetHeader req in
      require (Magic header = kMagicReq) (
      require (ExtrasLen header = 0) (
      require (Opcode header = kOpGet) (
      require (ucast (KeyLen header) = (of_nat (length key) :: size_t)) (Inr True))))))))"

definition test_get_response_parse :: "heap \<Rightarrow> bool res" where
  "test_get_response_parse ok =
     (let buffer = DataBuffer_new;
          byteArray = [
            kMagicRes,
            kOpGet,
            0, 8,
            4,
            0,
            0, 1,
            0, 0, 0, 16,
            0, 0, 0, 0,
            0, 0, 0, 0, 0, 0, 0, 0,
            0xDE, 0xAD, 0xBE, 0xEF] @
            ascii ''memcache'' @
            ascii ''exam'' in
      bindE (Alloc ok (of_nat (length byteArray)) buffer) (\<lambda>(_, buffer).
      bindE (write_array byteArray buffer) (\<lambda>(_, buffer).
      let res = GetResponse_buf (Some buffer) in
      bindE (Parse ok res) (\<lambda>(r, res).
      require r (
      bindE (GetFlags res) (\<lambda>flags.
      require (flags = Some 0xDEADBEEF) (
      bindE (GetValue res) (\<lambda>val.
      require (GetBytesWritten val = 4) (
      let valArray = ascii ''exam'' in
      bindE (memcmp_eq (data val) valArray 4) (\<lambda>eq.
      require eq (
      require (GetStatus res = kResKeyNotFound) (Inr True))))))))))))"

definition test_get_response_build :: "heap \<Rightarrow> bool res" where
  "test_get_response_build ok =
     bindE (GetResponse_new ok) (\<lambda>res.
     let key = ascii ''memcache'';
         flags = 0xDEADBEEF;
         valBuffer = DataBuffer_new;
         valArray = ascii ''exam'' in
     bindE (Alloc ok (of_nat (length valArray) * 512) valBuffer) (\<lambda>(_, valBuffer).
     bindE (write_repeatedly 512 valArray valBuffer) (\<lambda>valBuffer.
     let res = SetKey key res in
     bindE (SetFlags (Some flags) res) (\<lambda>res.
     bindE (SetValue ok valBuffer res) (\<lambda>res.
     bindE (Build ok res) (\<lambda>(r, res).
     require r (
     let header = GetHeader res in
     require (Magic header = kMagicRes) (
     require (Opcode header = kOpGet) (
     require (ExtrasLen header = 4) (
     require (ucast (KeyLen header) = (of_nat (length key) :: size_t)) (
     require (TotalBodyLen header = GetBytesWritten valBuffer + ucast (KeyLen header) + ucast (ExtrasLen header))
       (Inr True))))))))))))"

definition test_set_request_parse :: "heap \<Rightarrow> bool res" where
  "test_set_request_parse ok =
     (let buffer = DataBuffer_new;
          byteArray = [
            kMagicReq,
            kOpSet,
            0, 8,
            8,
            0,
            0, 0,
            0, 0, 0, 20,
            0, 0, 0, 0,
            0, 0, 0, 0, 0, 0, 0, 0,
            0xDE, 0xAD, 0xBE, 0xEF,
            0xCA, 0xFE, 0xBA, 0xBE] @
            ascii ''memcache'' @
            ascii ''exam'' in
      bindE (Alloc ok (of_nat (length byteArray)) buffer) (\<lambda>(_, buffer).
      bindE (write_array byteArray buffer) (\<lambda>(_, buffer).
      let res = SetRequest_buf (Some buffer) in
      bindE (Parse ok res) (\<lambda>(r, res).
      require r (
      bindE (GetFlags res) (\<lambda>flags.
      require (flags = Some 0xDEADBEEF) (
      bindE (GetExpiration res) (\<lambda>expiration.
      require (expiration = Some 0xCAFEBABE) (
      bindE (GetValue res) (\<lambda>val.
      let valArray = ascii ''exam'' in
      require (GetBytesWritten val = 4) (
      bindE (memcmp_eq (data val) valArray 4) (\<lambda>eq.
      require eq (Inr True)))))))))))))"

definition test_set_request_build :: "heap \<Rightarrow> bool res" where
  "test_set_request_build ok =
     bindE (SetRequest_new ok) (\<lambda>req.
     let key = ascii ''memcache'';
         flags = 0xDEADBEEF;
         expiration = 0xCAFEBABE;
         valBuffer = DataBuffer_new;
         valArray = ascii ''exam'' in
     bindE (Alloc ok (of_nat (length valArray) * 512) valBuffer) (\<lambda>(_, valBuffer).
     bindE (write_repeatedly 512 valArray valBuffer) (\<lambda>valBuffer.
     let req = SetKey key req in
     bindE (SetFlags (Some flags) req) (\<lambda>req.
     bindE (SetExpiration (Some expiration) req) (\<lambda>req.
     bindE (SetValue ok valBuffer req) (\<lambda>req.
     bindE (Build ok req) (\<lambda>(r, req).
     require r (
     let header = GetHeader req in
     require (Magic header = kMagicReq) (
     require (Opcode header = kOpSet) (
     require (ExtrasLen header = 8) (
     require (ucast (KeyLen header) = (of_nat (length key) :: size_t)) (
     require (TotalBodyLen header = GetBytesWritten valBuffer + ucast (KeyLen header) + ucast (ExtrasLen header))
       (Inr True)))))))))))))"

definition test_set_response_parse :: "heap \<Rightarrow> bool res" where
  "test_set_response_parse ok =
     (let buffer = DataBuffer_new;
          byteArray = [
            kMagicRes,
            kOpSet,
            0, 0,
            0,
            0,
            0, ucast kResOutOfMem,
            0, 0, 0, 0,
            0, 0, 0, 0,
            0, 0, 0, 0, 0, 0, 0, 1] in
      bindE (Alloc ok (of_nat (length byteArray)) buffer) (\<lambda>(_, buffer).
      bindE (write_array byteArray buffer) (\<lambda>(_, buffer).
      let res = SetResponse_buf (Some buffer) in
      bindE (Parse ok res) (\<lambda>(r, res).
      require r (
      let header = GetHeader res in
      require (Magic header = kMagicRes) (
      require (Opcode header = kOpSet) (
      require (Status header = kResOutOfMem) (
      require (CAS header = 1) (
      require (KeyLen header = 0) (
      require (ExtrasLen header = 0) (
      require (TotalBodyLen header = 0) (Inr True))))))))))))"

definition test_set_response_build :: "heap \<Rightarrow> bool res" where
  "test_set_response_build ok =
     bindE (SetResponse_new ok) (\<lambda>res.
     let res = SetHeader (GetHeader res\<lparr>Status := kResOutOfMem\<rparr>) res in
     bindE (Build ok res) (\<lambda>(r, res).
     require r (
     let header = GetHeader res in
     require (Magic header = kMagicRes) (
     require (Opcode header = kOpSet) (
     require (ExtrasLen header = 0) (
     require (KeyLen header = 0) (
     require (TotalBodyLen header = 0) (
     require (Status header = kResOutOfMem) (Inr True)))))))))"

definition message_tests :: "(heap \<Rightarrow> bool res) list" where
  "message_tests =
     [test_header_write_parse, test_header_byte_order, test_get_request_parse, test_get_request_failed_parse,
      test_get_request_build, test_get_response_parse, test_get_response_build, test_set_request_parse,
      test_set_request_build, test_set_response_parse, test_set_response_build]"

section \<open>They pass\<close>

lemma write_repeatedly_eq:
  assumes "wf_buffer b" "n * length xs \<le> room b"
  shows "write_repeatedly n xs b = Inr (append_cells (concat (replicate n (map Some xs))) b)"
  using assms
proof (induction n arbitrary: b)
  case (Suc n)
  have le: "length xs \<le> room b" using Suc.prems(2) by simp
  have "room b < 2 ^ 32"
    using wf_offsets [OF Suc.prems(1)] by (simp add: room_def)
  then have n: "unat (of_nat (length xs) :: size_t) = length xs"
    using le by (simp add: unat_of_nat take_bit_eq_mod)
  have "write_array xs b = Inr (of_nat (length xs), append_cells (map Some xs) b)"
    using WriteBytes_eq [OF Suc.prems(1), of "of_nat (length xs)" "map Some xs"] le n
    by (simp add: write_array_def Let_def)
  moreover have "wf_buffer (append_cells (map Some xs) b)"
    using Suc.prems(1) le by (intro wf_append) simp_all
  moreover have "n * length xs \<le> room (append_cells (map Some xs) b)"
    using Suc.prems le by (simp add: room_append)
  ultimately show ?case
    using Suc.prems le Suc.IH [of "append_cells (map Some xs) b"]
    by (simp add: append_append length_concat sum_list_replicate)
qed simp

text \<open>The value of the two build tests: 512 times the same four bytes.\<close>

definition exam_buffer :: DataBuffer where
  "exam_buffer = append_cells (concat (replicate 512 (map Some (ascii ''exam'')))) (fresh 2048)"

lemma exam_buffer:
  "Alloc (\<lambda>_. True) (of_nat (length (ascii ''exam'')) * 512) b = Inr (True, fresh 2048)"
  "write_repeatedly 512 (ascii ''exam'') (fresh 2048) = Inr exam_buffer"
  "wf_buffer exam_buffer" "length (written exam_buffer) = 2048" "GetBytesWritten exam_buffer = 2048" "bufferSize exam_buffer = 2048"
proof -
  have f: "wf_buffer (fresh 2048)" "room (fresh 2048) = 2048"
    by (simp_all add: wf_fresh heap_maxreq_def room_def)
  have l: "length (concat (replicate 512 (map Some (ascii ''exam'')))) = 2048"
    by (simp add: length_concat sum_list_replicate)
  show "Alloc (\<lambda>_. True) (of_nat (length (ascii ''exam'')) * 512) b = Inr (True, fresh 2048)"
    by (simp add: Alloc_eq new_array_def heap_maxreq_def)
  show "write_repeatedly 512 (ascii ''exam'') (fresh 2048) = Inr exam_buffer"
    unfolding exam_buffer_def by (rule write_repeatedly_eq) (use f in simp_all)
  show wf: "wf_buffer exam_buffer" unfolding exam_buffer_def by (rule wf_append) (use f l in simp_all)
  show w: "length (written exam_buffer) = 2048" "bufferSize exam_buffer = 2048"
    unfolding exam_buffer_def using f l by (simp_all add: written_append)
  have "unat (GetBytesWritten exam_buffer) = unat (2048 :: size_t)"
    using length_written [OF wf] w(1) by (simp add: GetBytesWritten_def)
  then show "GetBytesWritten exam_buffer = 2048" by (simp only: word_unat_eq_iff)
qed

lemma exam_copy: "operator_assign (\<lambda>_. True) False exam_buffer b = Inr exam_buffer"
  using exam_buffer(3,6) by (simp add: operator_assign_def copy_from_eq new_array_def heap_maxreq_def)

lemma exam_buildable:
  assumes "value_of d = exam_buffer" "length k \<le> 2048"
  shows "buildable (\<lambda>_. True) \<lparr>m_buffer = Some (fresh 2048), m_header = h, m_key = k, m_derived = d\<rparr>"
  using assms exam_buffer by (simp add: buildable_def wf_message_def wf_fresh heap_maxreq_def heap_serves_all value_cells_def)

lemma response_build_passes: "test_get_response_build (\<lambda>_. True) = Inr True"
proof -
  let ?m = "\<lparr>m_buffer = Some (fresh 2048), m_header = MessageHeader_new, m_key = ascii ''memcache'',
    m_derived = GetResponse exam_buffer (Some 0xDEADBEEF)\<rparr>"
  have "buildable (\<lambda>_. True) ?m" by (rule exam_buildable) simp_all
  then obtain m' where m': "Build (\<lambda>_. True) ?m = Inr (True, m')" "m_header m' = sent_header ?m"
    by (rule Build_eq)
  have new: "GetResponse_new (\<lambda>_. True) = Inr \<lparr>m_buffer = Some (fresh 2048), m_header = MessageHeader_new, m_key = [],
      m_derived = GetResponse DataBuffer_new (Some 0)\<rparr>"
    by (simp add: GetResponse_new_def BaseMessage_new_def DataBuffer_len_def Alloc_eq new_array_def heap_maxreq_def)
  have h: "sent_header ?m = MessageHeader_new\<lparr>Magic := kMagicRes, Opcode := kOpGet, ExtrasLen := 4, KeyLen := 8, TotalBodyLen := 2060\<rparr>"
    by (simp add: sent_header_def start_header_def body_length_def value_cells_def exam_buffer(4) MessageHeader_new_def)
  show ?thesis
    unfolding test_get_response_build_def new Let_def exam_buffer(1,2) bindE_simps prod.case
    by (simp add: SetKey_def SetFlags_def SetValue_def exam_copy m'(1) [simplified] m'(2) [unfolded h] GetHeader_def require_def exam_buffer(5))
qed

lemma request_build_passes: "test_set_request_build (\<lambda>_. True) = Inr True"
proof -
  let ?m = "\<lparr>m_buffer = Some (fresh 2048), m_header = MessageHeader_new, m_key = ascii ''memcache'',
    m_derived = SetRequest exam_buffer (Some 0xDEADBEEF) (Some 0xCAFEBABE)\<rparr>"
  have "buildable (\<lambda>_. True) ?m" by (rule exam_buildable) simp_all
  then obtain m' where m': "Build (\<lambda>_. True) ?m = Inr (True, m')" "m_header m' = sent_header ?m"
    by (rule Build_eq)
  have new: "SetRequest_new (\<lambda>_. True) = Inr \<lparr>m_buffer = Some (fresh 2048), m_header = MessageHeader_new, m_key = [],
      m_derived = SetRequest DataBuffer_new (Some 0) None\<rparr>"
    by (simp add: SetRequest_new_def BaseMessage_new_def DataBuffer_len_def Alloc_eq new_array_def heap_maxreq_def)
  have h: "sent_header ?m = MessageHeader_new\<lparr>Magic := kMagicReq, Opcode := kOpSet, ExtrasLen := 8, KeyLen := 8, TotalBodyLen := 2064\<rparr>"
    by (simp add: sent_header_def start_header_def body_length_def value_cells_def exam_buffer(4) MessageHeader_new_def)
  show ?thesis
    unfolding test_set_request_build_def new Let_def exam_buffer(1,2) bindE_simps prod.case
    by (simp add: SetKey_def SetFlags_def SetExpiration_def SetValue_def exam_copy m'(1) [simplified] m'(2) [unfolded h] GetHeader_def require_def exam_buffer(5))
qed

text \<open>The others are small enough to be run.\<close>

lemma header_write_parse_passes: "test_header_write_parse (\<lambda>_. True) = Inr True"
  by code_simp

lemma header_byte_order_passes: "test_header_byte_order (\<lambda>_. True) = Inr True"
  by code_simp

lemma get_request_parse_passes: "test_get_request_parse (\<lambda>_. True) = Inr True"
  by code_simp

lemma get_request_failed_parse_passes: "test_get_request_failed_parse (\<lambda>_. True) = Inr True"
  by code_simp

lemma get_request_build_passes: "test_get_request_build (\<lambda>_. True) = Inr True"
  by code_simp

lemma get_response_parse_passes: "test_get_response_parse (\<lambda>_. True) = Inr True"
  by code_simp

lemma set_request_parse_passes: "test_set_request_parse (\<lambda>_. True) = Inr True"
  by code_simp

lemma set_response_parse_passes: "test_set_response_parse (\<lambda>_. True) = Inr True"
  by code_simp

lemma set_response_build_passes: "test_set_response_build (\<lambda>_. True) = Inr True"
  by code_simp

section \<open>Properties\<close>

text \<open>
  The tests of the message classes pass. With a heap that serves every request, each of the
  eleven test cases of \<open>MessageTests.cpp\<close>, run on the model, meets all its \<open>REQUIRE\<close>s and ends without
  an exception.
\<close>

theorem message_tests_pass: "list_all (\<lambda>test. test (\<lambda>_. True) = Inr True) message_tests"
  by (simp add: message_tests_def header_write_parse_passes header_byte_order_passes get_request_parse_passes get_request_failed_parse_passes get_request_build_passes get_response_parse_passes set_request_parse_passes set_response_parse_passes set_response_build_passes response_build_passes request_build_passes)

end
