(* ===== verification/ServerTests.thy ===== *)
theory ServerTests
  imports Exchange MessageTests
begin

text \<open>
  The test case of \<open>ServerTests.cpp\<close>: a server without sockets, and a client of its own that calls
  the server's message handler directly. The test passes whatever the heap does, short of a failed
  allocation.
\<close>

section \<open>The test's client\<close>

text \<open>The class \<open>MemcacheClient\<close> of the test is the handler it calls; the handler's state is passed on.\<close>

definition test_SetData ::
  "heap \<Rightarrow> ('h, 'w) ISocketHandler \<Rightarrow> u8 list \<Rightarrow> DataBuffer \<Rightarrow> 'h \<Rightarrow> (bool \<times> 'h) run" where
  "test_SetData ok H key v h =
     andThen (Some (SetRequest_new ok)) (\<lambda>req.
     andThen (Some (SetFlags (Some 0xDEADBEEF) (SetKey key req))) (\<lambda>req.
     andThen (Some (SetValue ok v req)) (\<lambda>req.
     andThen (Some (Build ok req)) (\<lambda>(_, req).
     andThen (OnReceivedMessage H req h) (\<lambda>(reply, h).
     case reply of
       None \<Rightarrow> Some (Inr (False, h))
     | Some reply \<Rightarrow>
         andThen (Some (Build ok reply)) (\<lambda>(r, reply).
         Some (Inr (r \<and> GetStatus reply = kResNoError, h))))))))"

definition test_GetData ::
  "heap \<Rightarrow> ('h, 'w) ISocketHandler \<Rightarrow> u8 list \<Rightarrow> 'h \<Rightarrow> (DataBuffer \<times> 'h) run" where
  "test_GetData ok H key h =
     andThen (Some (GetRequest_new ok)) (\<lambda>req.
     let req = SetKey key req in
     andThen (Some (Build ok req)) (\<lambda>(_, req).
     andThen (OnReceivedMessage H req h) (\<lambda>(reply, h).
     case reply of
       None \<Rightarrow> Some (Inr (DataBuffer_new, h))
     | Some reply \<Rightarrow>
         andThen (Some (Build ok reply)) (\<lambda>(r, reply).
         if r
         then
           andThen (Some (cast_to (GetResponse DataBuffer_new (Some 0)) reply)) (\<lambda>reply.
           andThen (Some (GetValue reply)) (\<lambda>v.
           andThen (Some (DataBuffer_copy ok v)) (\<lambda>v. Some (Inr (v, h)))))
         else Some (Inr (DataBuffer_new, h))))))"

section \<open>The test case\<close>

definition expect :: "bool \<Rightarrow> bool run \<Rightarrow> bool run" where
  "expect c k = (if c then k else Some (Inr False))"

text \<open>The loop that fills the two values, and the comparison of two buffers.\<close>

primrec write_ints :: "nat \<Rightarrow> DataBuffer \<Rightarrow> DataBuffer \<Rightarrow> (DataBuffer \<times> DataBuffer) res" where
  "write_ints 0 v1 v2 = Inr (v1, v2)"
| "write_ints (Suc n) v1 v2 =
     bindE (WriteInt (Some 0xDEADBEEF) v1) (\<lambda>(_, v1).
     bindE (WriteInt (Some 0xCAFEBABE) v2) (\<lambda>(_, v2). write_ints n v1 v2))"

definition memcmp_buffers :: "DataBuffer \<Rightarrow> DataBuffer \<Rightarrow> size_t \<Rightarrow> bool res" where
  "memcmp_buffers a b n =
     bindE (mem_load (data a) 0 n) (\<lambda>xs.
     bindE (mem_load (data b) 0 n) (\<lambda>ys.
     if None \<in> set xs \<union> set ys then Inl Indeterminate else Inr (xs = ys)))"

definition test_server ::
  "heap \<Rightarrow> 'e event_api \<Rightarrow> 'w winsock \<Rightarrow> tid \<Rightarrow> u32 \<Rightarrow> 'w \<Rightarrow> bool run" where
  "test_server ok api ws t n w =
     andThen (Some (MemcacheServer_new ok api n)) (\<lambda>(server, n).
     let handler = server_handler ok api ws t; value1 = DataBuffer_new; value2 = DataBuffer_new in
     andThen (Start api ws t 0 server w) (\<lambda>(r, w, server).
     expect r (
     andThen (Some (Alloc ok 1024 value1)) (\<lambda>(_, value1).
     andThen (Some (Alloc ok 1024 value2)) (\<lambda>(_, value2).
     andThen (Some (write_ints 256 value1 value2)) (\<lambda>(value1, value2).
     andThen (test_SetData ok handler (ascii ''value1'') value1 server) (\<lambda>(r, server).
     expect r (
     andThen (test_SetData ok handler (ascii ''value2'') value2 server) (\<lambda>(r, server).
     expect r (
     andThen (test_GetData ok handler (ascii ''value1'') server) (\<lambda>(comp1, server).
     expect (GetBytesWritten comp1 = GetBytesWritten value1) (
     andThen (Some (memcmp_buffers comp1 value1 (GetBytesWritten value1))) (\<lambda>eq.
     expect eq (
     andThen (test_GetData ok handler (ascii ''value2'') server) (\<lambda>(comp2, server).
     expect (GetBytesWritten comp2 = GetBytesWritten value2) (
     andThen (Some (memcmp_buffers comp2 value2 (GetBytesWritten value2))) (\<lambda>eq.
     expect eq (
     andThen (Shutdown api ws t server w) (\<lambda>(w, server). Some (Inr True))))))))))))))))))))"

section \<open>It passes\<close>

text \<open>The built request is the request the server serves.\<close>

lemma built_is_request:
  assumes "buildable ok m" "request_of (m_derived m) (m_key m) = Some r"
  obtains m' where "Build ok m = Inr (True, m')" "is_request m' r" "wf_message m'"
proof (rule Build_eq [OF assms(1)])
  fix m' assume m': "Build ok m = Inr (True, m')" "wf_message m'" "m_header m' = sent_header m" "m_key m' = m_key m"
    "m_derived m' = m_derived m"
  have "dispatched m'" using select_sent(2) [of m] m' by (simp add: dispatched_def)
  then have "is_request m' r"
    using assms(2) m' by (cases "m_derived m") (auto simp: is_request_def sent_header_def start_header_def)
  then show thesis using that [of m'] m' by simp
qed

lemma built_reply:
  assumes "buildable ok (reply_to r c)"
  obtains m' where "Build ok (reply_to r c) = Inr (True, m')" "GetStatus m' = Status (m_header (reply_to r c))"
    "m_derived m' = m_derived (reply_to r c)"
proof (rule Build_eq [OF assms])
  fix m' assume m': "Build ok (reply_to r c) = Inr (True, m')" "m_header m' = sent_header (reply_to r c)"
    "m_derived m' = m_derived (reply_to r c)"
  have "m_derived (reply_to r c) \<noteq> GetRequest"
    by (cases r) (auto simp: reply_to_def get_answer_def set_answer_def new_reply_def split: option.split)
  then have "GetStatus m' = Status (m_header (reply_to r c))"
    using m'(2) by (cases "m_derived (reply_to r c)") (simp_all add: GetStatus_def sent_header_def start_header_def)
  then show thesis using that [of m'] m' by simp
qed

lemma served:
  assumes "srv_inv api h" "is_request m r" "wf_message m"
  shows "returns (\<lambda>e. e = BadAlloc)
     (\<lambda>(reply, h'). reply = Some (reply_to r (cache h)) \<and> cache h' = snd (serve r (cache h)) \<and> srv_inv api h')
     (OnReceivedMessage (server_handler ok api ws t) m h)"
proof -
  have "returns (\<lambda>e. e = BadAlloc)
     (\<lambda>(reply, h'). (reply, cache h') = apfst Some (serve r (cache h)) \<and> srv_inv api h' \<and> same_sockets h h')
     (OnReceivedMessage (server_handler ok api ws t) m h)"
    using serve_request [OF assms] by (simp add: server_handler_def)
  then show ?thesis
    by (rule returns_mono) (auto simp: reply_to_def apfst_def map_prod_def split: prod.splits)
qed

text \<open>A value of the test: full, and nothing in it indeterminate.\<close>

definition test_value :: "DataBuffer \<Rightarrow> bool" where
  "test_value v \<longleftrightarrow> wf_buffer v \<and> bufferSize v = 1024 \<and> written v \<noteq> []"

lemma test_SetData_returns:
  assumes "srv_inv api h" "test_value v" "length key \<le> 1024" "heap_serves 8192 ok"
  shows "returns (\<lambda>e. e = BadAlloc)
     (\<lambda>(r, h'). r \<and> srv_inv api h' \<and> cache h' = (cache h)(key \<mapsto> \<lparr>Flags = Some 0xDEADBEEF, EntryBuffer = Some v\<rparr>))
     (test_SetData ok (server_handler ok api ws t) key v h)"
proof -
  let ?m = "request_message key (SetRequest v (Some 0xDEADBEEF) None)" and ?r = "Set key (Some 0xDEADBEEF) v"
  have v: "wf_buffer v" "bufferSize v = 1024" using assms(2) by (simp_all add: test_value_def)
  have ok: "ok 2048" "ok 1024" using assms(4) by (simp_all add: heap_serves_def)
  obtain req where req: "SetRequest_new ok = Inr req"
      "SetKey key req = request_message key (SetRequest DataBuffer_new (Some 0) None)"
    using new_requests(2) [where ok = ok and k = key, OF ok(1)] by (cases "SetRequest_new ok") auto
  have "operator_assign ok False v b = Inr v" for b
    using v ok(2) by (simp add: operator_assign_def copy_from_eq new_array_def heap_maxreq_def)
  then have fill: "andThen (Some (SetFlags (Some 0xDEADBEEF) (SetKey key req))) (\<lambda>m. andThen (Some (SetValue ok v m)) g) = g ?m" for g
    unfolding req(2) by (simp add: SetFlags_def SetValue_def request_message_def)
  have "length (written v) \<le> 1024"
    using wf_offsets [OF v(1)] v(2) by (simp add: length_written [OF v(1)])
  then have "buildable ok ?m"
    using assms(3) v(1) by (intro request_buildable heap_serves_mono [OF assms(4)]) (simp_all add: value_cells_def)
  then obtain m where m: "Build ok ?m = Inr (True, m)" "is_request m ?r" "wf_message m"
    by (rule built_is_request) simp_all
  have "buildable ok (reply_to ?r (cache h))"
    by (rule reply_buildable) (use heap_serves_mono [OF assms(4)] in \<open>simp_all add: set_reply value_cells_def\<close>)
  then obtain rep where rep: "Build ok (reply_to ?r (cache h)) = Inr (True, rep)" "GetStatus rep = kResNoError"
    by (rule built_reply) (simp add: set_reply)
  have st: "stored v = v" using v(2) by (simp add: stored_def)
  have "returns (\<lambda>e. e = BadAlloc)
     (\<lambda>(r, h'). r \<and> srv_inv api h' \<and> cache h' = (cache h)(key \<mapsto> \<lparr>Flags = Some 0xDEADBEEF, EntryBuffer = Some v\<rparr>))
     (andThen (OnReceivedMessage (server_handler ok api ws t) m h) (\<lambda>(reply, h).
       case reply of None \<Rightarrow> Some (Inr (False, h))
       | Some reply \<Rightarrow> andThen (Some (Build ok reply)) (\<lambda>(r, reply). Some (Inr (r \<and> GetStatus reply = kResNoError, h)))))"
    by (rule returns_andThen [OF served [OF assms(1) m(2,3)]]) (use rep st in auto)
  then show ?thesis
    by (simp add: test_SetData_def req(1) fill m(1))
qed

lemma test_GetData_returns:
  assumes "srv_inv api h" "cache h key = Some \<lparr>Flags = f, EntryBuffer = Some v\<rparr>" "test_value v" "length key \<le> 1024"
    "heap_serves 8192 ok"
  shows "returns (\<lambda>e. e = BadAlloc) (\<lambda>(v', h'). v' = v \<and> srv_inv api h' \<and> cache h' = cache h)
     (test_GetData ok (server_handler ok api ws t) key h)"
proof -
  let ?m = "request_message key GetRequest" and ?r = "Get key"
  have v: "wf_buffer v" "bufferSize v = 1024" "written v \<noteq> []" using assms(3) by (simp_all add: test_value_def)
  have ok: "ok 2048" "ok 1024" using assms(5) by (simp_all add: heap_serves_def)
  obtain req where req: "GetRequest_new ok = Inr req" "SetKey key req = ?m"
    using new_requests(1) [where ok = ok and k = key, OF ok(1)] by (cases "GetRequest_new ok") auto
  have "buildable ok ?m"
    using assms(4) by (intro request_buildable heap_serves_mono [OF assms(5)]) (simp_all add: value_cells_def)
  then obtain m where m: "Build ok ?m = Inr (True, m)" "is_request m ?r" "wf_message m"
    by (rule built_is_request) simp_all
  have rep: "m_derived (reply_to ?r (cache h)) = GetResponse v f"
    using get_reply_found [of "cache h" key _ v, OF assms(2) _ v(3,1)] by simp
  have "length (written v) \<le> 1024"
    using wf_offsets [OF v(1)] v(2) by (simp add: length_written [OF v(1)])
  then have "buildable ok (reply_to ?r (cache h))"
    using v(1) by (intro reply_buildable heap_serves_mono [OF assms(5)]) (simp_all add: rep value_cells_def)
  then obtain rm where rm: "Build ok (reply_to ?r (cache h)) = Inr (True, rm)" "m_derived rm = GetResponse v f"
    by (rule built_reply) (simp add: rep)
  have copy: "DataBuffer_copy ok v = Inr v"
    using v ok(2) by (simp add: DataBuffer_copy_def copy_from_eq new_array_def heap_maxreq_def)
  have "returns (\<lambda>e. e = BadAlloc) (\<lambda>(v', h'). v' = v \<and> srv_inv api h' \<and> cache h' = cache h)
     (andThen (OnReceivedMessage (server_handler ok api ws t) m h) (\<lambda>(reply, h).
       case reply of None \<Rightarrow> Some (Inr (DataBuffer_new, h))
       | Some reply \<Rightarrow> andThen (Some (Build ok reply)) (\<lambda>(r, reply).
           if r
           then andThen (Some (cast_to (GetResponse DataBuffer_new (Some 0)) reply)) (\<lambda>reply.
             andThen (Some (GetValue reply)) (\<lambda>v. andThen (Some (DataBuffer_copy ok v)) (\<lambda>v. Some (Inr (v, h)))))
           else Some (Inr (DataBuffer_new, h)))))"
    by (rule returns_andThen [OF served [OF assms(1) m(2,3)]])
      (use rm copy in \<open>auto simp: cast_to_def GetValue_def\<close>)
  then show ?thesis
    by (simp add: test_GetData_def req m(1))
qed

text \<open>The two values.\<close>

definition ints :: "nat \<Rightarrow> u32 \<Rightarrow> cell list" where
  "ints n x = concat (replicate n (map Some (be32 x)))"

lemma ints_Suc: "ints (Suc n) x = map Some (be32 x) @ ints n x" "length (ints n x) = 4 * n" "None \<notin> set (ints n x)"
  by (auto simp: ints_def length_concat sum_list_replicate be32_def)

lemma write_ints_eq:
  assumes "wf_buffer a" "4 * n \<le> room a" "wf_buffer b" "4 * n \<le> room b"
  shows "write_ints n a b = Inr (append_cells (ints n 0xDEADBEEF) a, append_cells (ints n 0xCAFEBABE) b)"
  using assms
proof (induction n arbitrary: a b)
  case 0
  then show ?case by (simp add: ints_def)
next
  case (Suc n)
  have w: "WriteInt (Some x) c = Inr (True, append_cells (map Some (be32 x)) c)" "wf_buffer (append_cells (map Some (be32 x)) c)"
    "4 * n \<le> room (append_cells (map Some (be32 x)) c)"
    "append_cells (ints n x) (append_cells (map Some (be32 x)) c) = append_cells (ints (Suc n) x) c"
    if "wf_buffer c" "4 * Suc n \<le> room c" for c :: DataBuffer and x :: u32
  proof -
    have l: "length (map Some (be32 x)) = 4" by (simp add: be32_def)
    show "WriteInt (Some x) c = Inr (True, append_cells (map Some (be32 x)) c)"
      using that by (simp add: WriteInt_eq)
    show "wf_buffer (append_cells (map Some (be32 x)) c)" by (rule wf_append) (use that l in simp_all)
    show "4 * n \<le> room (append_cells (map Some (be32 x)) c)" using that l by (simp add: room_append)
    show "append_cells (ints n x) (append_cells (map Some (be32 x)) c) = append_cells (ints (Suc n) x) c"
      unfolding ints_Suc(1) by (rule append_append) (use that l in \<open>simp_all add: ints_Suc(2)\<close>)
  qed
  show ?case
    using w [OF Suc.prems(1,2)] w [OF Suc.prems(3,4)] by (simp add: Suc.IH)
qed

lemma test_values:
  "write_ints 256 (fresh 1024) (fresh 1024) =
     Inr (append_cells (ints 256 0xDEADBEEF) (fresh 1024), append_cells (ints 256 0xCAFEBABE) (fresh 1024))"
  "test_value (append_cells (ints 256 x) (fresh 1024))"
  "memcmp_buffers (append_cells (ints 256 x) (fresh 1024)) (append_cells (ints 256 x) (fresh 1024))
     (GetBytesWritten (append_cells (ints 256 x) (fresh 1024))) = Inr True"
proof -
  let ?v = "append_cells (ints 256 x) (fresh 1024)"
  have f: "wf_buffer (fresh 1024)" "room (fresh 1024) = 1024"
    by (simp_all add: wf_fresh heap_maxreq_def room_def)
  show "write_ints 256 (fresh 1024) (fresh 1024) =
     Inr (append_cells (ints 256 0xDEADBEEF) (fresh 1024), append_cells (ints 256 0xCAFEBABE) (fresh 1024))"
    by (rule write_ints_eq) (use f in simp_all)
  have wf: "wf_buffer ?v" by (rule wf_append) (use f in \<open>simp_all add: ints_Suc(2)\<close>)
  have w: "written ?v = ints 256 x" using f by (simp add: written_append ints_Suc(2))
  moreover have "ints 256 x \<noteq> []" using ints_Suc(2) [of 256 x] by auto
  ultimately show "test_value ?v" using wf by (simp add: test_value_def)
  have "mem_load (data ?v) 0 (GetBytesWritten ?v) = Inr (written ?v)" by (rule load_written [OF wf])
  then show "memcmp_buffers ?v ?v (GetBytesWritten ?v) = Inr True"
    by (simp add: memcmp_buffers_def w ints_Suc(3))
qed

text \<open>One step of the test each.\<close>

lemma set_step:
  assumes "srv_inv api h" "test_value v" "length key \<le> 1024" "heap_serves 8192 ok"
    and "\<And>h'. srv_inv api h' \<Longrightarrow> cache h' = (cache h)(key \<mapsto> \<lparr>Flags = Some 0xDEADBEEF, EntryBuffer = Some v\<rparr>) \<Longrightarrow>
      returns (\<lambda>e. e = BadAlloc) P (k h')"
  shows "returns (\<lambda>e. e = BadAlloc) P
     (andThen (test_SetData ok (server_handler ok api ws t) key v h) (\<lambda>(r, h). expect r (k h)))"
proof (rule returns_andThen [OF test_SetData_returns [OF assms(1-4)]])
  fix x :: "bool \<times> 'a MemcacheServer"
  assume "case x of (r, h') \<Rightarrow> r \<and> srv_inv api h' \<and> cache h' = (cache h)(key \<mapsto> \<lparr>Flags = Some 0xDEADBEEF, EntryBuffer = Some v\<rparr>)"
  then show "returns (\<lambda>e. e = BadAlloc) P ((\<lambda>(r, h). expect r (k h)) x)"
    using assms(5) by (cases x) (simp add: expect_def)
qed

lemma get_step:
  assumes "srv_inv api h" "cache h key = Some \<lparr>Flags = f, EntryBuffer = Some v\<rparr>" "test_value v" "length key \<le> 1024"
    "heap_serves 8192 ok" "memcmp_buffers v v (GetBytesWritten v) = Inr True"
    and "\<And>h'. srv_inv api h' \<Longrightarrow> cache h' = cache h \<Longrightarrow> returns (\<lambda>e. e = BadAlloc) P (k h')"
  shows "returns (\<lambda>e. e = BadAlloc) P
     (andThen (test_GetData ok (server_handler ok api ws t) key h) (\<lambda>(c, h).
       expect (GetBytesWritten c = GetBytesWritten v) (
       andThen (Some (memcmp_buffers c v (GetBytesWritten v))) (\<lambda>eq. expect eq (k h)))))"
proof (rule returns_andThen [OF test_GetData_returns [OF assms(1-5)]])
  fix x :: "DataBuffer \<times> 'a MemcacheServer"
  assume "case x of (v', h') \<Rightarrow> v' = v \<and> srv_inv api h' \<and> cache h' = cache h"
  then show "returns (\<lambda>e. e = BadAlloc) P ((\<lambda>(c, h).
       expect (GetBytesWritten c = GetBytesWritten v) (
       andThen (Some (memcmp_buffers c v (GetBytesWritten v))) (\<lambda>eq. expect eq (k h)))) x)"
    using assms(6,7) by (cases x) (simp add: expect_def)
qed

section \<open>Properties\<close>

text \<open>
  The server's test passes. The test case of \<open>ServerTests.cpp\<close>, run on the model with any
  event functions that behave as documented and a heap that serves requests of up to 8192 bytes,
  meets all its \<open>REQUIRE\<close>s; no lock blocks it, and nothing but an allocation can fail.
\<close>

theorem server_test_passes:
  assumes "events_ok api sig man" "heap_serves 8192 ok"
  shows "returns (\<lambda>e. e = BadAlloc) (\<lambda>passed. passed) (test_server ok api ws t n w)"
proof -
  let ?v1 = "append_cells (ints 256 0xDEADBEEF) (fresh 1024)" and ?v2 = "append_cells (ints 256 0xCAFEBABE) (fresh 1024)"
  let ?E = "\<lambda>e. e = BadAlloc" and ?P = "\<lambda>passed :: bool. passed"
  have "ok 1024" using assms(2) by (simp add: heap_serves_def)
  then have alloc: "Alloc ok 1024 DataBuffer_new = Inr (True, fresh 1024)"
    by (simp add: Alloc_eq new_array_def heap_maxreq_def)
  have finish: "returns ?E ?P (andThen (Shutdown api ws t h w') (\<lambda>(w, server). Some (Inr True)))" if "srv_inv api h" for h w'
    by (rule returns_andThen [OF Shutdown_returns [OF that]]) (simp split: prod.split)
  have key: "length (ascii ''value1'') \<le> 1024" "length (ascii ''value2'') \<le> 1024" "ascii ''value1'' \<noteq> ascii ''value2''"
    by simp_all
  show ?thesis
    unfolding test_server_def
    apply (rule yields_andThen [OF server_made [OF assms(1)]])
    apply (clarsimp simp: Let_def)
    apply (rule returns_andThen [OF Start_ends], assumption)
    apply (clarsimp simp: expect_def started_def alloc test_values split: if_splits)
    apply (fold expect_def)
    apply (rule set_step [OF _ test_values(2) _ assms(2)], assumption, simp)
    apply (rule set_step [OF _ test_values(2) _ assms(2)], assumption, simp)
    apply (rule get_step [OF _ _ test_values(2) _ assms(2) test_values(3)], assumption, simp add: key, simp)
    apply (rule get_step [OF _ _ test_values(2) _ assms(2) test_values(3)], assumption, simp, simp)
    apply (erule finish)
    done
qed

theorem server_test_passes_witness:
  "returns (\<lambda>e. e = BadAlloc) (\<lambda>passed. passed) (test_server (\<lambda>_. True) flag_events pipe_winsock 1 0 ([], []))"
  by (rule server_test_passes [OF flag_events_ok]) (simp add: heap_serves_def heap_maxreq_def)

end
