(* ===== verification/ThreadTests.thy ===== *)
theory ThreadTests
  imports Sync Threading
begin

text \<open>
  The test cases of \<open>ThreadingTests.cpp\<close>. The first one starts and stops a thread. The second one
  runs three readers and a writer against one \<open>ReadWriteLock\<close>; it is modelled step by step, so that
  the main thread, the readers and the writer interleave between any two accesses to what they
  share. Thread 0 is the test itself, the threads 1 to 3 are the readers, thread 4 is the writer.

  A call of \<open>Wait\<close> is one step, possible when the event is signalled. A thread that already waits
  when an event is set goes on whatever happens to the event then: in the schedules below no event
  is reset while a thread waits for it.
\<close>

section \<open>Starting and stopping a thread\<close>

text \<open>
  \<open>SleepyRunner::Run\<close>: the thread looks at its flag, sleeps, and looks again; \<open>flag i\<close> is what it
  finds the \<open>i\<close>-th time. The result is how often it has slept.
\<close>

partial_function (option) sleepy_Run :: "(nat \<Rightarrow> Thread) \<Rightarrow> nat \<Rightarrow> nat option" where
  "sleepy_Run flag i = (if \<not> ShouldTerminate (flag i) then sleepy_Run flag (Suc i) else Some i)"

declare sleepy_Run.simps [code]

text \<open>
  The test, with the ids of the two threads: \<open>None\<close> when \<open>Stop(true)\<close> waits for ever for the thread,
  else whether every \<open>REQUIRE\<close> was met. \<open>flag\<close> is what the thread sees of its object.
\<close>

definition test_thread :: "tid \<Rightarrow> tid \<Rightarrow> (nat \<Rightarrow> Thread) \<Rightarrow> bool option" where
  "test_thread this other flag =
     (let thread = Thread_new in
      if IsRunning thread then Some False
      else
        let thread = Thread_Start thread in
        if \<not> IsRunning thread \<or> other = this then Some False
        else
          let thread = Thread_Stop True thread in
          case sleepy_Run flag 0 of
            None \<Rightarrow> None
          | Some _ \<Rightarrow> Some (\<not> IsRunning thread))"

section \<open>Readers and a writer\<close>

text \<open>Where a thread is in its \<open>Run\<close>.\<close>

datatype position = NotStarted | Check | Locking | Body1 | Body2 | Body3 | Unlocking | Ended

text \<open>The statements of the test.\<close>

datatype statement =
  StartThread tid
| RequireReading bool tid
| WaitForWriter
| StopThread bool tid
| Join tid
| StopWriting
| Sleep

record 'e lock_test =
  t_lock :: "'e rw_state"
  t_event :: 'e
  t_thread :: "tid \<Rightarrow> Thread"
  t_at :: "tid \<Rightarrow> position"
  t_reading :: "tid \<Rightarrow> bool"
  t_main :: "statement list"
  t_failed :: bool

definition move_to :: "tid \<Rightarrow> position \<Rightarrow> 'e lock_test \<Rightarrow> 'e lock_test" where
  "move_to t p s = s\<lparr>t_at := (t_at s)(t := p)\<rparr>"

text \<open>Entering a method of the lock, and its next access.\<close>

definition enter :: "rw_op \<Rightarrow> tid \<Rightarrow> position \<Rightarrow> 'e lock_test \<Rightarrow> 'e lock_test option" where
  "enter op t p s =
     (case rw_call op (snd (t_lock s) t) of
        None \<Rightarrow> None
      | Some th \<Rightarrow> Some (move_to t p (s\<lparr>t_lock := (fst (t_lock s), (snd (t_lock s))(t := th))\<rparr>)))"

definition go_on :: "'e event_api \<Rightarrow> tid \<Rightarrow> position \<Rightarrow> 'e lock_test \<Rightarrow> 'e lock_test option" where
  "go_on api t p s =
     (case rw_exec api t (snd (t_lock s) t) (fst (t_lock s)) of
        None \<Rightarrow> None
      | Some (th, l) \<Rightarrow>
          let s = s\<lparr>t_lock := (l, (snd (t_lock s))(t := th))\<rparr>
          in Some (if pc th = Running then move_to t p s else s))"

definition set_reading :: "tid \<Rightarrow> bool \<Rightarrow> 'e lock_test \<Rightarrow> 'e lock_test" where
  "set_reading t b s = s\<lparr>t_reading := (t_reading s)(t := b)\<rparr>"

definition reader_Run :: "'e event_api \<Rightarrow> tid \<Rightarrow> 'e lock_test \<Rightarrow> 'e lock_test option" where
  "reader_Run api t s =
     (case t_at s t of
        NotStarted \<Rightarrow> None
      | Check \<Rightarrow> if \<not> ShouldTerminate (t_thread s t) then enter OpLockRead t Locking s else Some (move_to t Ended s)
      | Locking \<Rightarrow> go_on api t Body1 s
      | Body1 \<Rightarrow> Some (move_to t Body2 (set_reading t True s))
      | Body2 \<Rightarrow> Some (move_to t Body3 s)
      | Body3 \<Rightarrow> enter OpUnlockRead t Unlocking (set_reading t False s)
      | Unlocking \<Rightarrow> go_on api t Check s
      | Ended \<Rightarrow> None)"

definition writer_Run :: "'e event_api \<Rightarrow> tid \<Rightarrow> 'e lock_test \<Rightarrow> 'e lock_test option" where
  "writer_Run api t s =
     (case t_at s t of
        NotStarted \<Rightarrow> None
      | Check \<Rightarrow> if \<not> ShouldTerminate (t_thread s t) then enter OpLockWrite t Locking s else Some (move_to t Ended s)
      | Locking \<Rightarrow> go_on api t Body1 s
      | Body1 \<Rightarrow> Some (move_to t Body2 (s\<lparr>t_event := Event_Set api (t_event s)\<rparr>))
      | Body2 \<Rightarrow> Some (move_to t Body3 (s\<lparr>t_event := Event_Reset api (t_event s)\<rparr>))
      | Body3 \<Rightarrow>
          (case Event_Wait api (t_event s) of
             None \<Rightarrow> None
           | Some e \<Rightarrow> enter OpUnlockWrite t Unlocking (s\<lparr>t_event := e\<rparr>))
      | Unlocking \<Rightarrow> go_on api t Check s
      | Ended \<Rightarrow> None)"

text \<open>
  A statement of the test. A failed \<open>REQUIRE\<close> leaves the test. \<open>Stop\<close> raises the flag before it
  joins; the threads are new when they are started, so that \<open>Start\<close> has nothing to join.
\<close>

definition main_step :: "'e event_api \<Rightarrow> 'e lock_test \<Rightarrow> 'e lock_test option" where
  "main_step api s =
     (case t_main s of
        [] \<Rightarrow> None
      | c # cs \<Rightarrow>
          let s = s\<lparr>t_main := cs\<rparr> in
          case c of
            StartThread t \<Rightarrow> Some (move_to t Check (s\<lparr>t_thread := (t_thread s)(t := Thread_Start (t_thread s t))\<rparr>))
          | RequireReading b t \<Rightarrow> if t_reading s t = b then Some s else Some (s\<lparr>t_main := [], t_failed := True\<rparr>)
          | WaitForWriter \<Rightarrow>
              (case Event_Wait api (t_event s) of None \<Rightarrow> None | Some e \<Rightarrow> Some (s\<lparr>t_event := e\<rparr>))
          | StopThread join t \<Rightarrow>
              Some (s\<lparr>t_thread := (t_thread s)(t := Thread_Stop join (t_thread s t)),
                      t_main := (if join \<and> IsRunning (t_thread s t) then [Join t] else []) @ cs\<rparr>)
          | Join t \<Rightarrow> if t_at s t = Ended then Some s else None
          | StopWriting \<Rightarrow> Some (s\<lparr>t_event := Event_Set api (t_event s)\<rparr>)
          | Sleep \<Rightarrow> Some s)"

definition lock_test_main :: "statement list" where
  "lock_test_main =
     [StartThread 1, StartThread 2, StartThread 3,
      RequireReading True 1, RequireReading True 2, RequireReading True 3,
      StartThread 4, WaitForWriter,
      RequireReading False 1, RequireReading False 2, RequireReading False 3,
      StopThread False 4, StopWriting, Sleep,
      RequireReading True 1, RequireReading True 2, RequireReading True 3,
      StopThread True 1, StopThread True 2, StopThread True 3, StopThread True 4]"

definition lock_test_start :: "'e event_api \<Rightarrow> 'e lock_test" where
  "lock_test_start api =
     \<lparr>t_lock = rw_start api, t_event = Event_new api True False, t_thread = (\<lambda>_. Thread_new), t_at = (\<lambda>_. NotStarted),
      t_reading = (\<lambda>_. False), t_main = lock_test_main, t_failed = False\<rparr>"

definition test_step :: "'e event_api \<Rightarrow> tid \<Rightarrow> 'e lock_test \<Rightarrow> 'e lock_test option" where
  "test_step api t s =
     (if t = 0 then main_step api s else if t < 4 then reader_Run api t s else if t = 4 then writer_Run api t s else None)"

primrec schedule :: "'e event_api \<Rightarrow> tid list \<Rightarrow> 'e lock_test \<Rightarrow> 'e lock_test option" where
  "schedule api [] s = Some s"
| "schedule api (t # ts) s = (case test_step api t s of None \<Rightarrow> None | Some s' \<Rightarrow> schedule api ts s')"

section \<open>The lock is used as it may be\<close>

text \<open>
  What holds of a thread between two of its steps: its position agrees with the call it is in and
  with the locks it holds, and it says that it reads only while it holds the read lock.
\<close>

definition at_pc :: "rw_pc set \<Rightarrow> rw_thread \<Rightarrow> bool" where
  "at_pc P th \<longleftrightarrow> pc th \<in> P \<and> reads th = 0 \<and> writes th = 0"

definition lock_pcs :: "tid \<Rightarrow> rw_pc set" where
  "lock_pcs t = (if t < 4 then {LR_wait, LR_count, LR_reset} else {LW_mutex, LW_reset, LW_count, LW_wait})"

definition unlock_pcs :: "tid \<Rightarrow> rw_pc set" where
  "unlock_pcs t = (if t < 4 then {UR_count, UR_set} else {UW_count, UW_set, UW_unlock})"

definition holder :: "tid \<Rightarrow> rw_thread" where
  "holder t = (if t < 4 then got_read idle else got_write idle)"

definition thread_inv :: "'e lock_test \<Rightarrow> tid \<Rightarrow> bool" where
  "thread_inv s t \<longleftrightarrow>
     (case t_at s t of
        Locking \<Rightarrow> at_pc (lock_pcs t) (snd (t_lock s) t) \<and> \<not> t_reading s t
      | Body1 \<Rightarrow> snd (t_lock s) t = holder t \<and> \<not> t_reading s t
      | Body2 \<Rightarrow> snd (t_lock s) t = holder t \<and> (t_reading s t \<longrightarrow> t < 4)
      | Body3 \<Rightarrow> snd (t_lock s) t = holder t \<and> (t_reading s t \<longrightarrow> t < 4)
      | Unlocking \<Rightarrow> at_pc (unlock_pcs t) (snd (t_lock s) t) \<and> \<not> t_reading s t
      | _ \<Rightarrow> snd (t_lock s) t = idle \<and> \<not> t_reading s t)"

lemma exec_in_call:
  "at_pc {LR_wait, LR_count, LR_reset} th \<Longrightarrow> rw_exec api t th l = Some (th', l') \<Longrightarrow>
     th' = got_read idle \<or> at_pc {LR_wait, LR_count, LR_reset} th'"
  "at_pc {UR_count, UR_set} th \<Longrightarrow> rw_exec api t th l = Some (th', l') \<Longrightarrow> th' = idle \<or> at_pc {UR_count, UR_set} th'"
  "at_pc {LW_mutex, LW_reset, LW_count, LW_wait} th \<Longrightarrow> rw_exec api t th l = Some (th', l') \<Longrightarrow>
     th' = got_write idle \<or> at_pc {LW_mutex, LW_reset, LW_count, LW_wait} th'"
  "at_pc {UW_count, UW_set, UW_unlock} th \<Longrightarrow> rw_exec api t th l = Some (th', l') \<Longrightarrow>
     th' = idle \<or> at_pc {UW_count, UW_set, UW_unlock} th'"
  by (cases th; auto simp: at_pc_def rw_exec_def idle_def got_read_def got_write_def split: if_splits)+

lemma exec_lock:
  "rw_exec api t th l = Some (th', l') \<Longrightarrow> at_pc (lock_pcs t) th \<Longrightarrow> pc th' = Running \<Longrightarrow> th' = holder t"
  "rw_exec api t th l = Some (th', l') \<Longrightarrow> at_pc (lock_pcs t) th \<Longrightarrow> pc th' \<noteq> Running \<Longrightarrow> at_pc (lock_pcs t) th'"
  "rw_exec api t th l = Some (th', l') \<Longrightarrow> at_pc (unlock_pcs t) th \<Longrightarrow> pc th' = Running \<Longrightarrow> th' = idle"
  "rw_exec api t th l = Some (th', l') \<Longrightarrow> at_pc (unlock_pcs t) th \<Longrightarrow> pc th' \<noteq> Running \<Longrightarrow> at_pc (unlock_pcs t) th'"
  using exec_in_call [where th = th and t = t and api = api and l = l and th' = th' and l' = l']
  by (auto simp: lock_pcs_def unlock_pcs_def holder_def got_read_def got_write_def idle_def at_pc_def split: if_splits)

text \<open>Threads that are still to be started are where they were.\<close>

fun starts :: "statement list \<Rightarrow> tid list" where
  "starts [] = []"
| "starts (StartThread t # cs) = t # starts cs"
| "starts (_ # cs) = starts cs"

definition test_inv :: "'e event_api \<Rightarrow> 'e lock_test \<Rightarrow> bool" where
  "test_inv api s \<longleftrightarrow> rw_reachable api 5 (t_lock s) \<and> (\<forall>t. thread_inv s t) \<and>
     distinct (starts (t_main s)) \<and> (\<forall>t\<in>set (starts (t_main s)). t_at s t = NotStarted)"

text \<open>A thread looks at its own part of the state only.\<close>

lemma thread_inv_cong:
  "t_reading s' t = t_reading s t \<Longrightarrow> t_at s' t = t_at s t \<Longrightarrow> snd (t_lock s') t = snd (t_lock s) t \<Longrightarrow>
     thread_inv s' t = thread_inv s t"
  by (simp add: thread_inv_def split: position.split)

lemma step_frame:
  "enter op t p s = Some s' \<Longrightarrow> u \<noteq> t \<Longrightarrow> t_reading s' u = t_reading s u \<and> t_at s' u = t_at s u \<and> snd (t_lock s') u = snd (t_lock s) u"
  "go_on api t p s = Some s' \<Longrightarrow> u \<noteq> t \<Longrightarrow> t_reading s' u = t_reading s u \<and> t_at s' u = t_at s u \<and> snd (t_lock s') u = snd (t_lock s) u"
  by (auto simp: enter_def go_on_def move_to_def Let_def split: option.splits if_splits)

lemma enter_reachable:
  assumes "rw_reachable api 5 (t_lock s)" "t < 5" "enter op t p s = Some s'"
  shows "rw_reachable api 5 (t_lock s')"
proof -
  obtain l ths where l: "t_lock s = (l, ths)" by (cases "t_lock s")
  then obtain th where th: "rw_call op (ths t) = Some th" "t_lock s' = (l, ths(t := th))"
    using assms(3) by (auto simp: enter_def move_to_def split: option.splits)
  show ?thesis
    unfolding th(2) by (rule rw_reachable_step [OF _ rw_step.call [where ths = ths and t = t]]) (use assms l th in simp_all)
qed

lemma go_on_reachable:
  assumes "rw_reachable api 5 (t_lock s)" "t < 5" "go_on api t p s = Some s'"
  shows "rw_reachable api 5 (t_lock s')"
proof -
  obtain l ths where l: "t_lock s = (l, ths)" by (cases "t_lock s")
  then obtain th l' where th: "rw_exec api t (ths t) l = Some (th, l')" "t_lock s' = (l', ths(t := th))"
    using assms(3) by (auto simp: go_on_def move_to_def Let_def split: option.splits if_splits)
  show ?thesis
    unfolding th(2) by (rule rw_reachable_step [OF _ rw_step.exec [where ths = ths and t = t]]) (use assms l th in simp_all)
qed

lemma run_frame:
  "reader_Run api t s = Some s' \<Longrightarrow> u \<noteq> t \<Longrightarrow> thread_inv s' u = thread_inv s u"
  "writer_Run api t s = Some s' \<Longrightarrow> u \<noteq> t \<Longrightarrow> thread_inv s' u = thread_inv s u"
  by (rule thread_inv_cong;
      auto simp: reader_Run_def writer_Run_def move_to_def set_reading_def split: position.splits if_splits option.splits
        dest: step_frame)+

lemma reader_reachable:
  "rw_reachable api 5 (t_lock s) \<Longrightarrow> t < 4 \<Longrightarrow> reader_Run api t s = Some s' \<Longrightarrow> rw_reachable api 5 (t_lock s')"
  by (auto simp: reader_Run_def move_to_def set_reading_def split: position.splits if_splits option.splits
      dest: enter_reachable [rotated 2] go_on_reachable [rotated 2])

lemma writer_reachable:
  "rw_reachable api 5 (t_lock s) \<Longrightarrow> writer_Run api 4 s = Some s' \<Longrightarrow> rw_reachable api 5 (t_lock s')"
  by (auto simp: writer_Run_def move_to_def split: position.splits if_splits option.splits
      dest: enter_reachable [rotated 2] go_on_reachable [rotated 2])

lemma go_on_inv:
  assumes "go_on api t p s = Some s'" "thread_inv s t"
    and "t_at s t = Locking \<and> p = Body1 \<or> t_at s t = Unlocking \<and> p = Check"
  shows "thread_inv s' t"
  using assms
  by (auto simp: go_on_def move_to_def thread_inv_def Let_def split: option.splits if_splits dest: exec_lock)

lemma enter_inv:
  assumes "enter op t p s = Some s'" "\<not> t_reading s t"
    and "p = Locking \<and> snd (t_lock s) t = idle \<and> op = (if t < 4 then OpLockRead else OpLockWrite) \<or>
      p = Unlocking \<and> snd (t_lock s) t = holder t \<and> op = (if t < 4 then OpUnlockRead else OpUnlockWrite)"
  shows "thread_inv s' t"
  using assms
  by (auto simp: enter_def move_to_def thread_inv_def at_pc_def lock_pcs_def unlock_pcs_def holder_def got_read_def
      got_write_def idle_def split: if_splits)

lemma reader_inv:
  assumes "thread_inv s t" "t < 4" "reader_Run api t s = Some s'"
  shows "thread_inv s' t"
proof (cases "t_at s t")
  case Locking
  then show ?thesis using go_on_inv [where api = api and s = s and s' = s' and t = t] assms by (auto simp: reader_Run_def)
next
  case Unlocking
  then show ?thesis using go_on_inv [where api = api and s = s and s' = s' and t = t] assms by (auto simp: reader_Run_def)
next
  case Check
  then show ?thesis using assms enter_inv [of OpLockRead t Locking s s']
    by (auto simp: reader_Run_def thread_inv_def [of s] split: if_splits) (simp_all add: thread_inv_def move_to_def)
next
  case Body3
  then show ?thesis using assms enter_inv [of OpUnlockRead t Unlocking "set_reading t False s" s']
    by (simp add: reader_Run_def thread_inv_def [of s] set_reading_def)
qed (use assms in \<open>auto simp: reader_Run_def thread_inv_def move_to_def set_reading_def\<close>)

lemma writer_inv:
  assumes "thread_inv s 4" "writer_Run api 4 s = Some s'"
  shows "thread_inv s' 4"
proof (cases "t_at s 4")
  case Locking
  then show ?thesis using go_on_inv [where api = api and s = s and s' = s' and t = 4] assms by (auto simp: writer_Run_def)
next
  case Unlocking
  then show ?thesis using go_on_inv [where api = api and s = s and s' = s' and t = 4] assms by (auto simp: writer_Run_def)
next
  case Check
  then show ?thesis using assms enter_inv [of OpLockWrite 4 Locking s s']
    by (auto simp: writer_Run_def thread_inv_def [of s] split: if_splits) (simp_all add: thread_inv_def move_to_def)
next
  case Body3
  then show ?thesis
    using assms enter_inv [where op = OpUnlockWrite and t = 4 and p = Unlocking and s' = s' and s = "s\<lparr>t_event := e\<rparr>" for e]
    by (auto simp: writer_Run_def thread_inv_def [of s] split: option.splits)
qed (use assms in \<open>auto simp: writer_Run_def thread_inv_def move_to_def\<close>)

lemma run_started:
  "reader_Run api t s = Some s' \<Longrightarrow> t_main s' = t_main s \<and> t_at s t \<noteq> NotStarted \<and> (\<forall>u. u \<noteq> t \<longrightarrow> t_at s' u = t_at s u)"
  "writer_Run api t s = Some s' \<Longrightarrow> t_main s' = t_main s \<and> t_at s t \<noteq> NotStarted \<and> (\<forall>u. u \<noteq> t \<longrightarrow> t_at s' u = t_at s u)"
  by (auto simp: reader_Run_def writer_Run_def move_to_def set_reading_def enter_def go_on_def Let_def
      split: position.splits if_splits option.splits)

lemma thread_step_inv:
  assumes "test_inv api s" "t \<noteq> 0" "test_step api t s = Some s'"
  shows "test_inv api s'"
proof -
  have inv: "rw_reachable api 5 (t_lock s)" "\<And>u. thread_inv s u" "distinct (starts (t_main s))"
    "\<And>u. u \<in> set (starts (t_main s)) \<Longrightarrow> t_at s u = NotStarted"
    using assms(1) by (auto simp: test_inv_def)
  have cases: "t < 4 \<and> reader_Run api t s = Some s' \<or> t = 4 \<and> writer_Run api 4 s = Some s'"
    using assms(2,3) by (auto simp: test_step_def split: if_splits)
  then have r: "rw_reachable api 5 (t_lock s')"
    using reader_reachable writer_reachable inv(1) by blast
  have "thread_inv s' u" for u
    using cases inv(2) reader_inv writer_inv run_frame by (cases "u = t") blast+
  moreover have "t_main s' = t_main s \<and> t_at s t \<noteq> NotStarted \<and> (\<forall>u. u \<noteq> t \<longrightarrow> t_at s' u = t_at s u)"
    using cases run_started by blast
  ultimately show ?thesis
    using r inv(3,4) by (metis test_inv_def)
qed

lemma starts_step:
  "starts (a @ b) = starts a @ starts b" "starts (if c then [Join t] else []) = []"
  by (induction a rule: starts.induct) auto

lemma main_step_inv:
  assumes "test_inv api s" "main_step api s = Some s'"
  shows "test_inv api s'"
proof -
  have inv: "rw_reachable api 5 (t_lock s)" "\<And>u. thread_inv s u" "distinct (starts (t_main s))"
    "\<And>u. u \<in> set (starts (t_main s)) \<Longrightarrow> t_at s u = NotStarted"
    using assms(1) by (auto simp: test_inv_def)
  obtain c cs where c: "t_main s = c # cs" using assms(2) by (auto simp: main_step_def split: list.splits)
  show ?thesis
  proof (cases "\<exists>t. c = StartThread t")
    case True
    then obtain t where t: "c = StartThread t" by blast
    then have s': "t_lock s' = t_lock s" "t_reading s' = t_reading s" "t_at s' = (t_at s)(t := Check)" "t_main s' = cs"
      using assms(2) c by (auto simp: main_step_def move_to_def)
    have "t_at s t = NotStarted" using inv(4) c t by simp
    then have "thread_inv s' t" using inv(2) [of t] s' by (simp add: thread_inv_def)
    moreover have "thread_inv s' u" if "u \<noteq> t" for u
      using inv(2) [of u] thread_inv_cong [of s' u s] that s' by simp
    ultimately have "thread_inv s' u" for u by (cases "u = t") simp_all
    then show ?thesis using inv(1,3,4) c t s' by (auto simp: test_inv_def)
  next
    case False
    then have s': "t_lock s' = t_lock s" "t_reading s' = t_reading s" "t_at s' = t_at s"
      "starts (t_main s') = starts cs \<or> starts (t_main s') = []"
      using assms(2) c
      by (auto simp: main_step_def Let_def starts_step split: statement.splits if_splits option.splits)
    have "starts cs = starts (t_main s)" using c False by (cases c) auto
    then show ?thesis using inv s' thread_inv_cong [where s' = s' and s = s] by (auto simp: test_inv_def)
  qed
qed

lemma test_inv_start: "test_inv api (lock_test_start api)"
  using rw_reachable_start [of api 5]
  by (simp add: test_inv_def lock_test_start_def thread_inv_def lock_test_main_def) (simp add: rw_start_def)

lemma schedule_inv: "test_inv api s \<Longrightarrow> schedule api ts s = Some s' \<Longrightarrow> test_inv api s'"
proof (induction ts arbitrary: s)
  case (Cons t ts)
  then obtain s1 where s1: "test_step api t s = Some s1" "schedule api ts s1 = Some s'" by (auto split: option.splits)
  have "test_inv api s1"
    using s1(1) Cons.prems(1) thread_step_inv main_step_inv by (cases "t = 0") (auto simp: test_step_def)
  then show ?case using Cons.IH s1(2) by blast
qed simp

section \<open>Schedules\<close>

text \<open>
  Up to where the writer waits for the readers to leave: the readers have been found reading, the
  writer has been started, and the readers have given the lock back and wait for the writer.
\<close>

definition writer_waits :: "tid list" where
  "writer_waits =
     [0, 0, 0] @ replicate 5 1 @ replicate 4 2 @ replicate 4 3 @ [0, 0, 0, 0] @ replicate 4 4
     @ [1, 1, 1, 2, 2, 2, 3, 3, 3, 3, 1, 2, 3]"

text \<open>
  From there the test passes if the main thread comes between the writer's \<open>Set\<close> and \<open>Reset\<close>, and the
  readers have begun to read again before they are asked.
\<close>

definition to_the_end :: "tid list" where
  "to_the_end =
     [4, 4, 0, 0, 0, 0, 0, 4, 0, 0, 4, 4, 4, 4, 4] @ replicate 4 1 @ replicate 3 2 @ replicate 3 3 @ [0, 0, 0]
     @ [0] @ replicate 4 1 @ [0, 0] @ replicate 4 2 @ [0, 0] @ replicate 5 3 @ [0, 0, 0]"

definition after :: "tid list \<Rightarrow> (bool \<times> bool) lock_test \<Rightarrow> ((bool \<times> bool) lock_test \<Rightarrow> bool) \<Rightarrow> bool" where
  "after ts s P = (case schedule flag_events ts s of None \<Rightarrow> False | Some s' \<Rightarrow> P s')"

lemma after_run: "after ts s P \<Longrightarrow> \<exists>s'. schedule flag_events ts s = Some s' \<and> P s'"
  by (auto simp: after_def split: option.splits)

lemma passing_run:
  "after (writer_waits @ to_the_end) (lock_test_start flag_events)
     (\<lambda>s. t_main s = [] \<and> \<not> t_failed s \<and> list_all (\<lambda>t. t_at s t = Ended) [1, 2, 3, 4])"
  by code_simp

lemma failing_run:
  "after [0, 0, 0, 0] (lock_test_start flag_events) t_failed"
  by code_simp

lemma hanging_run:
  "after (writer_waits @ [4, 4, 4]) (lock_test_start flag_events)
     (\<lambda>s. t_main s = drop 7 lock_test_main \<and> \<not> t_failed s \<and>
        list_all (\<lambda>t. Option.is_none (test_step flag_events t s)) [0, 1, 2, 3, 4])"
  by code_simp

section \<open>Properties\<close>

text \<open>
  Starting and stopping a thread. The test of \<open>Thread\<close> passes as soon as the thread sees the flag
  that \<open>Stop\<close> has raised, at whatever look at it, given that the two threads have different ids.
\<close>

theorem thread_test_passes:
  assumes "other \<noteq> this" "flag n = Thread_Stop True (Thread_Start Thread_new)"
  shows "test_thread this other flag = Some True"
proof -
  have "\<exists>k. sleepy_Run flag i = Some k" if "i \<le> n" for i
    using that
  proof (induction rule: inc_induct)
    case base
    then show ?case using assms(2) by (subst sleepy_Run.simps) (simp add: ShouldTerminate_def)
  next
    case (step i)
    then show ?case by (subst sleepy_Run.simps) auto
  qed
  then obtain k where "sleepy_Run flag 0 = Some k" by blast
  then show ?thesis using assms(1) by (simp add: test_thread_def IsRunning_def Thread_new_def)
qed

theorem thread_test_passes_witness:
  "test_thread 0 1 (\<lambda>i. if i < 3 then Thread_Start Thread_new else Thread_Stop True (Thread_Start Thread_new)) = Some True"
  by (rule thread_test_passes [where n = 3]) simp_all

text \<open>
  Who reads holds the lock. Whatever the interleaving, a reader of the lock's test that says it
  reads has the read lock, and the lock is in a state its methods can reach.
\<close>

theorem reading_holds_lock:
  assumes "schedule api ts (lock_test_start api) = Some s" "t_reading s t"
  shows "reads (snd (t_lock s) t) = 1 \<and> rw_reachable api 5 (t_lock s)"
proof -
  have inv: "test_inv api s" by (rule schedule_inv [OF test_inv_start assms(1)])
  then have "thread_inv s t" by (simp add: test_inv_def)
  then have "snd (t_lock s) t = got_read idle"
    using assms(2) by (auto simp: thread_inv_def holder_def split: position.splits)
  then show ?thesis using inv by (simp add: got_read_def idle_def test_inv_def)
qed

lemma reading_run: "after [0, 1, 1, 1, 1, 1] (lock_test_start flag_events) (\<lambda>s. t_reading s 1)"
  by code_simp

theorem reading_holds_lock_witness:
  "\<exists>s. schedule flag_events [0, 1, 1, 1, 1, 1] (lock_test_start flag_events) = Some s \<and> reads (snd (t_lock s) 1) = 1"
  using after_run [OF reading_run] reading_holds_lock [where api = flag_events and t = 1] by blast

text \<open>
  What the test of the lock can come to. There is an interleaving in which it passes, one in which
  it fails, because the main thread asks the readers before they run, and one in which it hangs:
  when the writer sets and resets its event before the main thread waits for it, the main thread,
  the writer and the readers all wait, and none of them can make a step.
\<close>

theorem lock_test_outcomes:
  "(\<exists>ts s. schedule flag_events ts (lock_test_start flag_events) = Some s \<and> t_main s = [] \<and> \<not> t_failed s \<and>
      list_all (\<lambda>t. t_at s t = Ended) [1, 2, 3, 4]) \<and>
   (\<exists>ts s. schedule flag_events ts (lock_test_start flag_events) = Some s \<and> t_failed s) \<and>
   (\<exists>ts s. schedule flag_events ts (lock_test_start flag_events) = Some s \<and> t_main s = drop 7 lock_test_main \<and>
      (\<forall>t. test_step flag_events t s = None))"
proof (intro conjI)
  show "\<exists>ts s. schedule flag_events ts (lock_test_start flag_events) = Some s \<and> t_main s = [] \<and> \<not> t_failed s \<and>
      list_all (\<lambda>t. t_at s t = Ended) [1, 2, 3, 4]"
    using after_run [OF passing_run] by blast
  show "\<exists>ts s. schedule flag_events ts (lock_test_start flag_events) = Some s \<and> t_failed s"
    using after_run [OF failing_run] by blast
  obtain s where s: "schedule flag_events (writer_waits @ [4, 4, 4]) (lock_test_start flag_events) = Some s"
      "t_main s = drop 7 lock_test_main" "list_all (\<lambda>t. Option.is_none (test_step flag_events t s)) [0, 1, 2, 3, 4]"
    using after_run [OF hanging_run] by blast
  have "test_step flag_events t s = None" for t
  proof (cases "t < 5")
    case True
    then have "t \<in> set [0, 1, 2, 3, 4]" by auto
    then show ?thesis using s(3) by (simp only: list_all_iff Option.is_none_def)
  qed (simp add: test_step_def)
  then show "\<exists>ts s. schedule flag_events ts (lock_test_start flag_events) = Some s \<and> t_main s = drop 7 lock_test_main \<and>
      (\<forall>t. test_step flag_events t s = None)"
    using s(1,2) by blast
qed

end
