(* ===== verification/Console.thy ===== *)
theory Console
  imports Prelude
begin

text \<open>
  The standard streams of the two console applications, as the C++ library documents them: what is
  left to read with the stream's state, and what has been printed. An extraction from a stream that
  is not good fails and leaves its target as it was.
\<close>

section \<open>Input\<close>

record istream =
  rest :: string
  eof :: bool
  failed :: bool

definition good :: "istream \<Rightarrow> bool" where
  "good i \<longleftrightarrow> \<not> eof i \<and> \<not> failed i"

definition is_space :: "char \<Rightarrow> bool" where
  "is_space c \<longleftrightarrow> c \<in> set [CHR '' '', CHR 0x09, CHR 0x0A, CHR 0x0B, CHR 0x0C, CHR 0x0D]"

text \<open>\<open>std::cin >> word\<close>, \<open>std::cin.ignore()\<close> and \<open>std::getline(std::cin, line)\<close>.\<close>

definition get_word :: "string \<Rightarrow> istream \<Rightarrow> string \<times> istream" where
  "get_word word i =
     (if good i
      then
        let r = dropWhile is_space (rest i) in
        if r = [] then (word, i\<lparr>rest := [], eof := True, failed := True\<rparr>)
        else (takeWhile (\<lambda>c. \<not> is_space c) r,
              i\<lparr>rest := dropWhile (\<lambda>c. \<not> is_space c) r, eof := dropWhile (\<lambda>c. \<not> is_space c) r = []\<rparr>)
      else (word, i\<lparr>failed := True\<rparr>))"

definition ignore_char :: "istream \<Rightarrow> istream" where
  "ignore_char i =
     (if good i
      then case rest i of [] \<Rightarrow> i\<lparr>eof := True\<rparr> | _ # cs \<Rightarrow> i\<lparr>rest := cs\<rparr>
      else i\<lparr>failed := True\<rparr>)"

definition get_line :: "string \<Rightarrow> istream \<Rightarrow> string \<times> istream" where
  "get_line line i =
     (if good i
      then
        if rest i = [] then ([], i\<lparr>eof := True, failed := True\<rparr>)
        else
          let l = takeWhile (\<lambda>c. c \<noteq> CHR 0x0A) (rest i); r = dropWhile (\<lambda>c. c \<noteq> CHR 0x0A) (rest i)
          in (l, i\<lparr>rest := drop 1 r, eof := r = []\<rparr>)
      else (line, i\<lparr>failed := True\<rparr>))"

section \<open>Strings\<close>

text \<open>\<open>s.find(t) != npos\<close>.\<close>

definition finds :: "string \<Rightarrow> string \<Rightarrow> bool" where
  "finds t s \<longleftrightarrow> str_find t s \<noteq> None"

text \<open>\<open>atoi\<close>: white space, a sign, digits; the result is undefined if an \<open>int\<close> cannot hold it.\<close>

definition digit :: "char \<Rightarrow> nat option" where
  "digit c = (let n = of_char c :: nat in if 48 \<le> n \<and> n \<le> 57 then Some (n - 48) else None)"

fun digits :: "nat \<Rightarrow> string \<Rightarrow> nat" where
  "digits n [] = n"
| "digits n (c # cs) = (case digit c of None \<Rightarrow> n | Some d \<Rightarrow> digits (10 * n + d) cs)"

definition atoi :: "string \<Rightarrow> int ind" where
  "atoi s =
     (let s = dropWhile is_space s;
          v = (case s of
                 [] \<Rightarrow> 0
               | c # cs \<Rightarrow> if c = CHR ''-'' then - int (digits 0 cs) else if c = CHR ''+'' then int (digits 0 cs)
                   else int (digits 0 s))
      in if - (2 ^ 31) \<le> v \<and> v < 2 ^ 31 then Some v else None)"

section \<open>Output\<close>

text \<open>A line of output and the parts it is made of. What is printed of a buffer can be indeterminate.\<close>

datatype printed =
  Text string
| Number "int ind"
| Size nat
| Bytes "cell list"

abbreviation endl :: printed where
  "endl \<equiv> Text [CHR 0x0A]"

section \<open>What the applications share\<close>

text \<open>\<open>WSAStartup\<close> and \<open>WSACleanup\<close> belong to Winsock.\<close>

record 'w wsa_api =
  WSAStartup :: "'w \<Rightarrow> int \<times> 'w"
  WSACleanup :: "'w \<Rightarrow> 'w"

definition asks_help :: "string \<Rightarrow> bool" where
  "asks_help arg \<longleftrightarrow> finds ''help'' arg \<or> finds ''?'' arg"

section \<open>Words\<close>

text \<open>The words a stream still holds.\<close>

function words_of :: "string \<Rightarrow> string list" where
  "words_of s =
     (let r = dropWhile is_space s in
      if r = [] then [] else takeWhile (\<lambda>c. \<not> is_space c) r # words_of (dropWhile (\<lambda>c. \<not> is_space c) r))"
  by auto
termination
proof (relation "measure length")
  fix s and r :: string
  assume r: "r = dropWhile is_space s" "r \<noteq> []"
  then have "\<not> is_space (hd r)" using hd_dropWhile by blast
  then have "length (dropWhile (\<lambda>c. \<not> is_space c) r) < length r"
    using r(2) by (cases r) (auto simp: le_imp_less_Suc length_dropWhile_le)
  then show "(dropWhile (\<lambda>c. \<not> is_space c) r, s) \<in> measure length"
    using r(1) length_dropWhile_le [of is_space s] by simp
qed simp

declare words_of.simps [simp del]

definition words :: "istream \<Rightarrow> string list" where
  "words i = (if good i then words_of (rest i) else [])"

text \<open>Reading a word takes the first one; when none is left the stream is no longer good.\<close>

lemma words_of_Nil [simp]: "words_of [] = []"
  by (simp add: words_of.simps)

lemma get_word_Cons:
  assumes "words i = x # xs"
  shows "\<exists>i'. get_word w i = (x, i') \<and> words i' = xs"
proof -
  let ?r = "dropWhile is_space (rest i)"
  have g: "good i" "words_of (rest i) = x # xs" using assms by (auto simp: words_def split: if_splits)
  then have r: "?r \<noteq> []" "x = takeWhile (\<lambda>c. \<not> is_space c) ?r" "xs = words_of (dropWhile (\<lambda>c. \<not> is_space c) ?r)"
    by (simp_all add: words_of.simps [of "rest i"] Let_def split: if_splits)
  then show ?thesis
    using g(1) by (auto simp: get_word_def Let_def words_def good_def simp del: dropWhile_eq_Nil_conv)
qed

lemma get_word_Nil:
  assumes "words i = []"
  shows "\<exists>i'. get_word w i = (w, i') \<and> words i' = []"
  using assms
  by (auto simp: get_word_def words_def Let_def words_of.simps [of "rest i"] good_def simp del: dropWhile_eq_Nil_conv split: if_splits)

section \<open>Numbers\<close>

lemma digit_of [simp]: "k < 10 \<Longrightarrow> digit (char_of (48 + k)) = Some k"
  by (simp add: digit_def)

lemma digits_append: "(\<forall>c\<in>set cs. digit c \<noteq> None) \<Longrightarrow> digits n (cs @ ds) = digits (digits n cs) ds"
  by (induction n cs rule: digits.induct) auto

lemma decimal_digits: "(\<forall>c\<in>set (decimal n). digit c \<noteq> None) \<and> decimal n \<noteq> [] \<and> digits 0 (decimal n) = n"
proof (induction n rule: decimal.induct)
  case (1 n)
  show ?case
  proof (cases "n < 10")
    case True
    then show ?thesis by (simp add: decimal.simps [of n])
  next
    case False
    with 1 show ?thesis by (simp add: decimal.simps [of n] digits_append)
  qed
qed

lemma digit_no_space: "digit c \<noteq> None \<Longrightarrow> \<not> is_space c \<and> c \<noteq> CHR ''-'' \<and> c \<noteq> CHR ''+''"
  by (auto simp: digit_def is_space_def Let_def split: if_splits)

lemma atoi_decimal: "n < 2 ^ 31 \<Longrightarrow> atoi (decimal n) = Some (int n)"
proof -
  assume n: "n < 2 ^ 31"
  obtain c cs where c: "decimal n = c # cs" using decimal_digits by (metis neq_Nil_conv)
  then have "\<not> is_space c" "c \<noteq> CHR ''-''" "c \<noteq> CHR ''+''"
    using digit_no_space [of c] decimal_digits [of n] by auto
  moreover have "digits 0 (c # cs) = n" using decimal_digits [of n] c by simp
  ultimately show ?thesis using n by (simp add: atoi_def c)
qed

end
