(* ===== verification/ServerApp.thy ===== *)
theory ServerApp
  imports Server Console
begin

text \<open>
  The server's application, \<open>MemcacheServer/main.cpp\<close>: the command line, and the loop over the
  commands that are typed while the server's threads run. \<open>others\<close> is what those threads do to the
  server and to the world while the application waits for a word.
\<close>

section \<open>Texts\<close>

definition srv_PrintUsage :: "printed list" where
  "srv_PrintUsage =
     [endl, Text ''Usage: MemcacheServer (listen_port)'', endl,
      Text ''listen_port: listen on a port different than the default of 30000'', endl]"

definition srv_PrintCommands :: "printed list" where
  "srv_PrintCommands =
     [endl, Text ''Supported Commands:'', endl,
      Text ''quit: Terminates the application.'', endl,
      Text ''printcache: Dumps the current cache to the console.'', endl,
      Text ''clearcache: Clears the cache of all entries.'', endl]"

text \<open>What \<open>PrintDataCache\<close> writes for the entries it finds.\<close>

definition print_entries :: "nat \<times> (u8 list \<times> u32 ind \<times> size_t option) list \<Rightarrow> printed list" where
  "print_entries =
     (\<lambda>(n, entries).
        [Text ''DataCache ('', Size n, Text '' entries)'', endl] @
        concat (map (\<lambda>(key, flags, size).
          [Text ''Key:'', Bytes (map Some key), Text '' Flags:'', Number (map_option uint flags)] @
          (case size of None \<Rightarrow> [] | Some k \<Rightarrow> [Text '' DataSize:'', Size (unat k)]) @ [endl]) entries))"

section \<open>The command line\<close>

text \<open>\<open>argv\<close> without the name of the program.\<close>

definition listen_port :: "string list \<Rightarrow> u16 res" where
  "listen_port args =
     (case args of
        [] \<Rightarrow> Inr 30000
      | arg # _ \<Rightarrow>
          bindE (determined (atoi arg)) (\<lambda>overridePort.
          Inr (if overridePort > 0 then word_of_int overridePort else 30000)))"

section \<open>The commands\<close>

definition server_command ::
  "'e event_api \<Rightarrow> tid \<Rightarrow> string \<Rightarrow> 'e MemcacheServer \<Rightarrow> (printed list \<times> 'e MemcacheServer) run" where
  "server_command api t command s =
     (if command = ''printcache''
      then andThen (PrintDataCache api t s) (\<lambda>(entries, s). Some (Inr (print_entries entries, s)))
      else if command = ''clearcache''
      then andThen (ClearDataCache api t s) (\<lambda>(_, s). Some (Inr ([], s)))
      else if command = ''help'' \<or> finds ''?'' command
      then Some (Inr (srv_PrintCommands, s))
      else Some (Inr ([], s)))"

text \<open>The loop; \<open>out\<close> is what has been printed so far.\<close>

partial_function (option) server_commands ::
  "'e event_api \<Rightarrow> tid \<Rightarrow> ('e MemcacheServer \<times> 'w \<Rightarrow> 'e MemcacheServer \<times> 'w) \<Rightarrow> string \<Rightarrow> istream \<Rightarrow> printed list \<Rightarrow>
     'e MemcacheServer \<Rightarrow> 'w \<Rightarrow> (printed list \<times> 'e MemcacheServer \<times> 'w) run" where
  "server_commands api t others command inp out s w =
     (if command \<noteq> ''quit''
      then
        (case server_command api t (fst (get_word command inp)) (fst (others (s, w))) of
           None \<Rightarrow> None
         | Some (Inl f) \<Rightarrow> Some (Inl f)
         | Some (Inr r) \<Rightarrow>
             server_commands api t others (fst (get_word command inp)) (snd (get_word command inp))
               (out @ [endl, Text ''Enter command: ''] @ fst r) (snd r) (snd (others (s, w))))
      else Some (Inr (out, s, w)))"

text \<open>
  Every return destroys the server. The result is
  the exit code and what has been printed.
\<close>

definition return_code ::
  "'e event_api \<Rightarrow> 'w winsock \<Rightarrow> tid \<Rightarrow> int \<Rightarrow> printed list \<Rightarrow> 'e MemcacheServer \<Rightarrow> 'w \<Rightarrow> (int \<times> printed list \<times> 'w) run" where
  "return_code api ws t code out s w =
     andThen (MemcacheServer_delete api ws t s w) (\<lambda>(w, _). Some (Inr (code, out, w)))"

text \<open>From the start of the server on.\<close>

definition run_server ::
  "'e event_api \<Rightarrow> 'w winsock \<Rightarrow> 'w wsa_api \<Rightarrow> tid \<Rightarrow> ('e MemcacheServer \<times> 'w \<Rightarrow> 'e MemcacheServer \<times> 'w) \<Rightarrow>
     u16 \<Rightarrow> istream \<Rightarrow> 'e MemcacheServer \<Rightarrow> 'w \<Rightarrow> (int \<times> printed list \<times> 'w) run" where
  "run_server api ws wsa t others port inp server w =
     andThen (Start api ws t port server w) (\<lambda>(started, w, server).
     if \<not> started
     then return_code api ws t (- 1) [Text ''Failed to start server!'', endl] server w
     else
       andThen (server_commands api t others [] inp srv_PrintCommands server w) (\<lambda>(out, server, w).
       andThen (MemcacheServer_delete api ws t server w) (\<lambda>(w, _).
       Some (Inr (0, out, WSACleanup wsa w)))))"

definition server_main ::
  "heap \<Rightarrow> 'e event_api \<Rightarrow> 'w winsock \<Rightarrow> 'w wsa_api \<Rightarrow> tid \<Rightarrow> ('e MemcacheServer \<times> 'w \<Rightarrow> 'e MemcacheServer \<times> 'w) \<Rightarrow>
     string list \<Rightarrow> istream \<Rightarrow> u32 \<Rightarrow> 'w \<Rightarrow> (int \<times> printed list \<times> 'w) run" where
  "server_main ok api ws wsa t others args inp n w =
     andThen (Some (MemcacheServer_new ok api n)) (\<lambda>(server, _).
     if args \<noteq> [] \<and> asks_help (hd args)
     then return_code api ws t 0 srv_PrintUsage server w
     else
       andThen (Some (listen_port args)) (\<lambda>port.
       let (result, w) = WSAStartup wsa w in
       if result \<noteq> 0
       then return_code api ws t (- 1) [Text ''WSAStartup failed with error: '', Number (Some result), endl] server w
       else run_server api ws wsa t others port inp server w))"

section \<open>The loop\<close>

lemma server_command_returns:
  assumes "srv_inv api s"
  shows "returns (\<lambda>e. e = BadAlloc) (\<lambda>(_, s'). srv_inv api s') (server_command api t c s)"
  unfolding server_command_def
  using assms
  by (auto intro!: returns_andThen [OF PrintDataCache_returns] returns_andThen [OF ClearDataCache_returns])

text \<open>The words before the first \<open>quit\<close>, executed one after the other.\<close>

lemma server_commands_return:
  assumes "\<And>s w. srv_inv api s \<Longrightarrow> srv_inv api (fst (others (s, w)))" "words inp = cs @ ''quit'' # ds" "srv_inv api s"
  shows "returns (\<lambda>e. e = BadAlloc) (\<lambda>(_, s', _). srv_inv api s') (server_commands api t others c inp out s w)"
  using assms(2,3)
proof (induction cs arbitrary: inp c out s w)
  case Nil
  note unf = server_commands.simps [of api t others c inp out s w]
  obtain i where i: "get_word c inp = (''quit'', i)" using get_word_Cons Nil.prems(1) by force
  have c: "server_command api t ''quit'' s' = Some (Inr ([], s'))" for s'
    by (simp add: server_command_def finds_def)
  show ?case
    using Nil.prems(2) assms(1) [of s w]
    by (cases "others (s, w)") (simp add: unf i c server_commands.simps [of api t others "''quit''"])
next
  case (Cons x cs)
  note unf = server_commands.simps [of api t others c inp out s w]
  obtain i where i: "get_word c inp = (x, i)" "words i = cs @ ''quit'' # ds"
    using get_word_Cons Cons.prems(1) by force
  have "srv_inv api (fst (others (s, w)))" using assms(1) Cons.prems(2) by blast
  from server_command_returns [OF this] obtain r where r: "server_command api t x (fst (others (s, w))) = Some r"
      "yields (\<lambda>e. e = BadAlloc) (\<lambda>(_, s'). srv_inv api s') r"
    by (auto simp: returns_def)
  show ?case
  proof (cases r)
    case (Inr y)
    then have "srv_inv api (snd y)" using r(2) by (cases y) simp
    then show ?thesis using Cons.IH [OF i(2)] Cons.prems(2) by (simp add: unf i(1) r(1) Inr)
  qed (use r Cons.prems(2) in \<open>simp add: unf i(1)\<close>)
qed

text \<open>Only the word \<open>quit\<close> ends the loop.\<close>

lemma server_commands_quit:
  assumes "server_commands api t others c inp out s w = Some y"
  shows "c \<noteq> ''quit'' \<longrightarrow> (\<exists>r. y = Inr r) \<longrightarrow> ''quit'' \<in> set (words inp)"
proof (rule server_commands.raw_induct [where P = "\<lambda>api t others c inp out s w y.
    c \<noteq> ''quit'' \<longrightarrow> (\<exists>r. y = Inr r) \<longrightarrow> ''quit'' \<in> set (words inp)", OF _ assms], intro impI)
  fix self api t others c inp out s w and y :: "(printed list \<times> 'a MemcacheServer \<times> 'b) res"
  assume IH: "\<And>api t others c inp out s w y. self api t others c inp out s w = Some y \<Longrightarrow>
      c \<noteq> ''quit'' \<longrightarrow> (\<exists>r. y = Inr r) \<longrightarrow> ''quit'' \<in> set (words inp)"
    and y: "(if c \<noteq> ''quit''
       then (case server_command api t (fst (get_word c inp)) (fst (others (s, w))) of
            None \<Rightarrow> None
          | Some (Inl f) \<Rightarrow> Some (Inl f)
          | Some (Inr r) \<Rightarrow> self api t others (fst (get_word c inp)) (snd (get_word c inp))
              (out @ [endl, Text ''Enter command: ''] @ fst r) (snd r) (snd (others (s, w))))
       else Some (Inr (out, s, w))) = Some y"
    and c: "c \<noteq> ''quit''" "\<exists>r. y = Inr r"
  then obtain r where "self api t others (fst (get_word c inp)) (snd (get_word c inp))
      (out @ [endl, Text ''Enter command: ''] @ fst r) (snd r) (snd (others (s, w))) = Some y"
    by (auto split: option.splits sum.splits)
  from IH [OF this] c(2) have *: "fst (get_word c inp) = ''quit'' \<or> ''quit'' \<in> set (words (snd (get_word c inp)))"
    by blast
  show "''quit'' \<in> set (words inp)"
  proof (cases "words inp")
    case Nil
    from get_word_Nil [OF this, of c] * c(1) show ?thesis by auto
  next
    case (Cons x xs)
    from get_word_Cons [OF this, of c] * Cons show ?thesis by auto
  qed
qed

lemma return_code_returns:
  assumes "srv_inv api s" "\<And>w. P (code, out, w)"
  shows "returns (\<lambda>e. e = BadAlloc) P (return_code api ws t code out s w)"
  unfolding return_code_def MemcacheServer_delete_def
  by (rule returns_andThen [OF Shutdown_returns [OF assms(1)]]) (use assms(2) in auto)

lemma run_server_returns:
  assumes "\<And>s w. srv_inv api s \<Longrightarrow> srv_inv api (fst (others (s, w)))" "words inp = cs @ ''quit'' # ds" "srv_inv api s"
    and P: "\<And>code out w. code \<in> {0, - 1} \<Longrightarrow> P (code, out, w)"
  shows "returns (\<lambda>e. e = BadAlloc) P (run_server api ws wsa t others port inp s w)"
  unfolding run_server_def
proof (rule returns_andThen [OF Start_ends [OF assms(3)]])
  fix x :: "bool \<times> 'b \<times> 'a MemcacheServer"
  assume x: "case x of (r, _, s') \<Rightarrow> if r then started api port s s' else 0 < port \<and> shut_down api s'"
  obtain r w' s' where xs: "x = (r, w', s')" by (cases x)
  have s': "srv_inv api s'" using x by (simp add: xs started_def shut_down_def split: if_splits)
  have "returns (\<lambda>e. e = BadAlloc) (\<lambda>(_, s', _). srv_inv api s')
      (server_commands api t others [] inp srv_PrintCommands s' w')"
    using assms(1,2) s' by (rule server_commands_return)
  then have "returns (\<lambda>e. e = BadAlloc) P
      (andThen (server_commands api t others [] inp srv_PrintCommands s' w') (\<lambda>(out, server, w).
        andThen (MemcacheServer_delete api ws t server w) (\<lambda>(w, _). Some (Inr (0, out, WSACleanup wsa w)))))"
    by (rule returns_andThen)
      (auto simp: MemcacheServer_delete_def P intro!: returns_andThen [OF Shutdown_returns])
  then show "returns (\<lambda>e. e = BadAlloc) P
      ((\<lambda>(started, w, server).
         if \<not> started then return_code api ws t (- 1) [Text ''Failed to start server!'', endl] server w
         else andThen (server_commands api t others [] inp srv_PrintCommands server w) (\<lambda>(out, server, w).
           andThen (MemcacheServer_delete api ws t server w) (\<lambda>(w, _). Some (Inr (0, out, WSACleanup wsa w))))) x)"
    using s' by (simp add: xs return_code_returns P)
qed

lemma server_main_returns:
  assumes "events_ok api sig man" "\<And>s w. srv_inv api s \<Longrightarrow> srv_inv api (fst (others (s, w)))"
    "words inp = cs @ ''quit'' # ds" "args = [] \<or> atoi (hd args) \<noteq> None"
    and P: "\<And>w. args \<noteq> [] \<and> asks_help (hd args) \<Longrightarrow> P (0, srv_PrintUsage, w)"
      "\<And>code out w. \<not> (args \<noteq> [] \<and> asks_help (hd args)) \<Longrightarrow> code \<in> {0, - 1} \<Longrightarrow> P (code, out, w)"
  shows "returns (\<lambda>e. e = BadAlloc) P (server_main ok api ws wsa t others args inp n w)"
proof -
  let ?asks = "args \<noteq> [] \<and> asks_help (hd args)"
  obtain port where port: "listen_port args = Inr port"
    using assms(4) by (cases args) (auto simp: listen_port_def)
  obtain result w' where wsa: "WSAStartup wsa w = (result, w')" by (cases "WSAStartup wsa w")
  have run: "returns (\<lambda>e. e = BadAlloc) P (run_server api ws wsa t others port inp s w')" if "srv_inv api s" "\<not> ?asks" for s
    by (rule run_server_returns [where others = others and api = api and inp = inp, OF _ assms(3) that(1)])
      (use assms(2) P(2) that(2) in blast)+
  have main: "returns (\<lambda>e. e = BadAlloc) P
      (if ?asks then return_code api ws t 0 srv_PrintUsage s w
       else andThen (Some (listen_port args)) (\<lambda>port. let (result, w) = WSAStartup wsa w in
         if result \<noteq> 0
         then return_code api ws t (- 1) [Text ''WSAStartup failed with error: '', Number (Some result), endl] s w
         else run_server api ws wsa t others port inp s w))" if "srv_inv api s" for s
  proof (cases ?asks)
    case True
    then show ?thesis using P(1) that by (simp add: return_code_returns)
  next
    case False
    then show ?thesis using P(2) [OF False] that run by (simp add: port wsa return_code_returns)
  qed
  show ?thesis
    unfolding server_main_def
  proof (rule yields_andThen [OF server_made [OF assms(1)]])
    fix x :: "'a MemcacheServer \<times> u32"
    assume "case x of (s, _) \<Rightarrow> srv_inv api s \<and> cache s = Map.empty"
    then show "returns (\<lambda>e. e = BadAlloc) P
      ((\<lambda>(s, _). if ?asks then return_code api ws t 0 srv_PrintUsage s w
       else andThen (Some (listen_port args)) (\<lambda>port. let (result, w) = WSAStartup wsa w in
         if result \<noteq> 0
         then return_code api ws t (- 1) [Text ''WSAStartup failed with error: '', Number (Some result), endl] s w
         else run_server api ws wsa t others port inp s w)) x)"
      using main by (cases x) (simp only: prod.case)
  qed
qed

section \<open>Properties\<close>

text \<open>
  C27. The application ends when it is told to. If the port, when one is given, is a number that an
  \<open>int\<close> can hold, a \<open>quit\<close> comes among the words that are typed, and whatever the other threads do
  leaves the server in its invariant, which means with its locks free, then the program returns, with
  0 or -1, or fails to allocate; asked for help it prints the usage and returns 0. (Without that premise the
  shutdown after \<open>quit\<close> can hang: see \<open>Lifetime\<close>.)
\<close>

theorem server_app_ends:
  assumes "events_ok api sig man" "\<And>s w. srv_inv api s \<Longrightarrow> srv_inv api (fst (others (s, w)))"
    "words inp = cs @ ''quit'' # ds" "args = [] \<or> atoi (hd args) \<noteq> None"
  shows "returns (\<lambda>e. e = BadAlloc)
     (\<lambda>(code, out, _). code \<in> {0, - 1} \<and> (args \<noteq> [] \<and> asks_help (hd args) \<longrightarrow> code = 0 \<and> out = srv_PrintUsage))
     (server_main ok api ws wsa t others args inp n w)"
  using assms
  by (intro server_main_returns [where others = others and api = api and sig = sig and man = man and args = args and inp = inp])
    auto

theorem server_app_ends_witness:
  "returns (\<lambda>e. e = BadAlloc) (\<lambda>(code, _). code \<in> {0, - 1})
     (server_main (\<lambda>_. True) flag_events pipe_winsock \<lparr>WSAStartup = \<lambda>w. (0, w), WSACleanup = id\<rparr> 1 id [''30001'']
        \<lparr>rest = ''quit'', eof = False, failed = False\<rparr> 0 ([], []))"
proof -
  have "words \<lparr>rest = ''quit'', eof = False, failed = False\<rparr> = [] @ ''quit'' # []"
    by (simp add: words_def good_def words_of.simps [of "''quit''"] is_space_def)
  moreover have "atoi (hd [''30001'']) \<noteq> None" by (simp add: atoi_def is_space_def digit_def)
  ultimately show ?thesis
    by (intro returns_mono [OF server_app_ends [OF flag_events_ok]]) auto
qed

text \<open>
  Without \<open>quit\<close> the application does not end. If the input ends before a \<open>quit\<close> the extraction
  fails for ever and leaves the last command in place: the loop never comes to its end, whatever
  the other threads do.
\<close>

theorem server_app_needs_quit:
  assumes "''quit'' \<notin> set (words inp)"
  shows "\<nexists>r. server_commands api t others [] inp out s w = Some (Inr r)"
proof
  assume "\<exists>r. server_commands api t others [] inp out s w = Some (Inr r)"
  then obtain r where "server_commands api t others [] inp out s w = Some (Inr r)" ..
  from server_commands_quit [OF this] assms show False by (metis list.distinct(1))
qed

theorem server_app_needs_quit_witness:
  "\<nexists>r. server_commands flag_events 1 id [] \<lparr>rest = ''printcache'', eof = False, failed = False\<rparr> [] empty_server ([] :: nat list) =
     Some (Inr r)"
  by (rule server_app_needs_quit)
    (simp add: words_def good_def words_of.simps [of "''printcache''"] is_space_def)

text \<open>
  The port on the command line. A number below \<open>2 ^ 31\<close> is taken modulo 65536: the ports there are
  arrive as they are, but 65536 becomes 0, with which the server starts and listens nowhere.
\<close>

theorem port_argument:
  assumes "0 < n" "n < 2 ^ 31"
  shows "listen_port [decimal n] = Inr (of_nat n)"
  using assms atoi_decimal [of n] by (simp add: listen_port_def)

theorem port_argument_witness:
  "listen_port [decimal 65536] = Inr 0"
  using port_argument [of 65536] by simp

end
