(* ===== verification/ClientApp.thy ===== *)
theory ClientApp
  imports Client Console
begin

text \<open>
  The client's application, \<open>MemcacheClient/main.cpp\<close>: the command line, and the loop that reads
  commands with their arguments, calls the client and prints what came of it.
\<close>

section \<open>Texts\<close>

definition cli_PrintUsage :: "printed list" where
  "cli_PrintUsage =
     [endl, Text ''Usage: MemcacheClient [server_ip] [server_port]'', endl,
      Text ''server_ip: IP address of the server to connect to.'', endl,
      Text ''server_port: port on which the server is listening.'', endl]"

definition cli_PrintCommands :: "printed list" where
  "cli_PrintCommands =
     [endl, Text ''Supported Commands:'', endl,
      Text ''quit: Terminates the application.'', endl,
      Text ''set: sets the provided value of the provided key on the connected server.'', endl,
      Text ''get: gets the value of the provided key.'', endl]"

section \<open>The commands\<close>

text \<open>The variables of the loop.\<close>

record client_vars =
  v_command :: string
  v_key :: string
  v_value :: string
  v_flags :: string

definition client_set ::
  "heap \<Rightarrow> 'w winsock \<Rightarrow> client_vars \<Rightarrow> istream \<Rightarrow> MemcacheClient \<Rightarrow> 'w \<Rightarrow>
     (printed list \<times> client_vars \<times> istream \<times> MemcacheClient \<times> 'w) run" where
  "client_set ok ws v inp c w =
     (let (key, inp) = get_word (v_key v) inp;
          (flags, inp) = get_word (v_flags v) inp;
          inp = ignore_char inp;
          (line, inp) = get_line (v_value v) inp;
          v = v\<lparr>v_key := key, v_flags := flags, v_value := line\<rparr>
      in
      andThen (Some (DataBuffer_len ok (of_nat (length line)))) (\<lambda>buffer.
      andThen (Some (WriteBytes (Some (map Some (ascii line) @ [Some 0])) (of_nat (length line)) buffer)) (\<lambda>(_, buffer).
      andThen (Some (determined (atoi flags))) (\<lambda>f.
      andThen (cl_Set ok ws (ascii key) (word_of_int f) buffer c w) (\<lambda>(r, c, w).
      Some (Inr ([Text ''Enter Key:'', Text ''Enter Flags:'', Text ''Enter Value:'',
        Text (if r then ''Set successful!'' else ''Set failed!''), endl], v, inp, c, w)))))))"

definition client_get ::
  "heap \<Rightarrow> 'w winsock \<Rightarrow> client_vars \<Rightarrow> istream \<Rightarrow> MemcacheClient \<Rightarrow> 'w \<Rightarrow>
     (printed list \<times> client_vars \<times> istream \<times> MemcacheClient \<times> 'w) run" where
  "client_get ok ws v inp c w =
     (let (key, inp) = get_word (v_key v) inp; v = v\<lparr>v_key := key\<rparr> in
      andThen (cl_Get ok ws (ascii key) DataBuffer_new None c w) (\<lambda>(r, valueBuffer, flags, c, w).
      if r
      then
        andThen (Some (mem_load (data valueBuffer) 0 (GetBytesWritten valueBuffer))) (\<lambda>bytes.
        Some (Inr ([Text ''Enter Key:'', Text ''Flags:'', Number (map_option uint flags), Text '' Value:'', Bytes bytes, endl],
          v, inp, c, w)))
      else Some (Inr ([Text ''Enter Key:'', Text ''Get Failed!'', endl], v, inp, c, w))))"

definition client_command ::
  "heap \<Rightarrow> 'w winsock \<Rightarrow> client_vars \<Rightarrow> istream \<Rightarrow> MemcacheClient \<Rightarrow> 'w \<Rightarrow>
     (printed list \<times> client_vars \<times> istream \<times> MemcacheClient \<times> 'w) run" where
  "client_command ok ws v inp c w =
     (if v_command v = ''set'' then client_set ok ws v inp c w
      else if v_command v = ''get'' then client_get ok ws v inp c w
      else if v_command v = ''help'' \<or> finds ''?'' (v_command v) then Some (Inr (cli_PrintCommands, v, inp, c, w))
      else Some (Inr ([], v, inp, c, w)))"

definition read_command :: "client_vars \<Rightarrow> istream \<Rightarrow> client_vars \<times> istream" where
  "read_command v inp = (let (command, inp) = get_word (v_command v) inp in (v\<lparr>v_command := command\<rparr>, inp))"

partial_function (option) client_commands ::
  "heap \<Rightarrow> 'w winsock \<Rightarrow> client_vars \<Rightarrow> istream \<Rightarrow> printed list \<Rightarrow> MemcacheClient \<Rightarrow> 'w \<Rightarrow>
     (printed list \<times> MemcacheClient \<times> 'w) run" where
  "client_commands ok ws v inp out c w =
     (if v_command v \<noteq> ''quit''
      then
        (case client_command ok ws (fst (read_command v inp)) (snd (read_command v inp)) c w of
           None \<Rightarrow> None
         | Some (Inl f) \<Rightarrow> Some (Inl f)
         | Some (Inr (printed, v, inp, c, w)) \<Rightarrow>
             client_commands ok ws v inp (out @ [endl, Text ''Enter command:''] @ printed) c w)
      else Some (Inr (out, c, w)))"

section \<open>The program\<close>

definition client_main ::
  "heap \<Rightarrow> 'w winsock \<Rightarrow> 'w wsa_api \<Rightarrow> string list \<Rightarrow> istream \<Rightarrow> u32 \<Rightarrow> 'w \<Rightarrow> (int \<times> printed list \<times> 'w) run" where
  "client_main ok ws wsa args inp n w =
     (let client = MemcacheClient_new in
      if args \<noteq> [] \<and> asks_help (hd args)
      then Some (Inr (0, cli_PrintUsage, MemcacheClient_delete ws client w))
      else if length args < 2
      then Some (Inr (- 1, [Text ''Not enough parameters!'', endl] @ cli_PrintUsage, MemcacheClient_delete ws client w))
      else
        andThen (Some (determined (atoi (args ! 1)))) (\<lambda>port.
        let serverPort = word_of_int port; (result, w) = WSAStartup wsa w in
        if result \<noteq> 0
        then Some (Inr (- 1, [Text ''WSAStartup failed with error: '', Number (Some result), endl],
          MemcacheClient_delete ws client w))
        else
          andThen (Some (cl_Connect ok ws (hd args) serverPort client n w)) (\<lambda>(r, client, _, w).
          andThen
            (if r
             then client_commands ok ws \<lparr>v_command = [], v_key = [], v_value = [], v_flags = []\<rparr> inp cli_PrintCommands client w
             else Some (Inr ([Text ''Connect failed!'', endl], client, w))) (\<lambda>(out, client, w).
          let (client, w) = Disconnect ws client w; w = WSACleanup wsa w
          in Some (Inr (0, out, MemcacheClient_delete ws client w))))))"

section \<open>The client stays well formed\<close>

text \<open>
  Every word that can be read from what is typed, wherever a line or an ignored character ends the one
  before, is a number that an \<open>int\<close> can hold, or starts with one, or with none.
\<close>

fun numbers_fit :: "string \<Rightarrow> bool" where
  "numbers_fit [] \<longleftrightarrow> True"
| "numbers_fit (c # cs) \<longleftrightarrow> (\<forall>x\<in>set (words_of (c # cs)). atoi x \<noteq> None) \<and> numbers_fit cs"

definition app_fault :: "bool \<Rightarrow> fault \<Rightarrow> bool" where
  "app_fault fits e \<longleftrightarrow> e = BadAlloc \<or> \<not> fits \<and> e = Indeterminate"

lemma numbers_fit_drop: "numbers_fit s \<Longrightarrow> numbers_fit (drop k s)"
proof (induction s arbitrary: k)
  case (Cons c s)
  then show ?case by (cases k) auto
qed simp

lemma numbers_fit_dropWhile: "numbers_fit s \<Longrightarrow> numbers_fit (dropWhile P s)"
  by (simp add: dropWhile_eq_drop numbers_fit_drop)

lemma numbers_fit_word:
  assumes "numbers_fit s" "dropWhile is_space s \<noteq> []"
  shows "atoi (takeWhile (\<lambda>c. \<not> is_space c) (dropWhile is_space s)) \<noteq> None"
proof -
  have "takeWhile (\<lambda>c. \<not> is_space c) (dropWhile is_space s) \<in> set (words_of s)"
    unfolding words_of.simps [of s] Let_def using assms(2) by simp
  moreover obtain c cs where "s = c # cs" using assms(2) by (cases s) simp_all
  ultimately show ?thesis using assms(1) by simp
qed

lemma atoi_Nil: "atoi [] = Some 0"
  by (simp add: atoi_def)

text \<open>The input that is left, and the word that gives the flags.\<close>

definition input_fits :: "bool \<Rightarrow> string \<Rightarrow> istream \<Rightarrow> bool" where
  "input_fits fits flags inp \<longleftrightarrow> (fits \<longrightarrow> numbers_fit (rest inp) \<and> atoi flags \<noteq> None)"

lemma get_word_fits:
  assumes "numbers_fit (rest i)" "get_word w i = (x, i')"
  shows "numbers_fit (rest i')" "atoi w \<noteq> None \<Longrightarrow> atoi x \<noteq> None"
  using assms numbers_fit_word [of "rest i"]
  by (auto simp: get_word_def Let_def numbers_fit_dropWhile simp del: dropWhile_eq_Nil_conv split: if_splits)

lemma ignore_char_fits: "numbers_fit (rest i) \<Longrightarrow> numbers_fit (rest (ignore_char i))"
  by (auto simp: ignore_char_def split: list.splits)

lemma get_line_fits: "numbers_fit (rest i) \<Longrightarrow> get_line l i = (x, i') \<Longrightarrow> numbers_fit (rest i')"
  by (auto simp: get_line_def Let_def numbers_fit_dropWhile numbers_fit_drop split: if_splits)

lemma new_buffer: "yields (app_fault fits) wf_buffer (DataBuffer_len ok n)"
  by (auto simp: DataBuffer_len_def Alloc_eq new_array_def wf_fresh app_fault_def)

lemma fill_buffer:
  assumes "wf_buffer b"
  shows "yields (app_fault fits) (\<lambda>(_, b'). wf_buffer b') (WriteBytes (Some (map Some (ascii line) @ [Some 0])) (of_nat (length line)) b)"
proof -
  have "unat (of_nat (length line) :: u32) \<le> length line" by (simp add: unat_of_nat take_bit_eq_mod)
  then show ?thesis
    using WriteBytes_eq [OF assms, of "of_nat (length line)" "map Some (ascii line) @ [Some 0]"]
    by (auto simp: Let_def intro!: wf_append assms)
qed

lemma if_returns_mono:
  "if_returns E P r \<Longrightarrow> (\<And>e. E e \<Longrightarrow> E' e) \<Longrightarrow> (\<And>x. P x \<Longrightarrow> P' x) \<Longrightarrow> if_returns E' P' r"
  unfolding if_returns_def using yields_mono by blast

lemma set_safe:
  assumes "recv_ok ws" "wf_client c" "wf_buffer b"
  shows "if_returns (app_fault fits) (\<lambda>(_, c', _). wf_client c') (cl_Set ok ws k f b c w)"
  by (rule if_returns_mono [OF cl_Set_safe [OF assms]]) (auto simp: app_fault_def)

lemma get_safe:
  assumes "recv_ok ws" "wf_client c"
  shows "if_returns (app_fault fits) (\<lambda>(_, v', _, c', _). wf_client c' \<and> wf_buffer v') (cl_Get ok ws k DataBuffer_new None c w)"
  by (rule if_returns_mono [OF cl_Get_safe [OF assms]]) (auto simp: app_fault_def)

lemma determined_fault: "(fits \<Longrightarrow> v \<noteq> None) \<Longrightarrow> yields (app_fault fits) (\<lambda>_. True) (determined v)"
  by (cases v) (auto simp: app_fault_def)

definition keeps_client :: "bool \<Rightarrow> (printed list \<times> client_vars \<times> istream \<times> MemcacheClient \<times> 'w) run \<Rightarrow> bool" where
  "keeps_client fits = if_returns (app_fault fits) (\<lambda>(_, v, inp, c, _). wf_client c \<and> input_fits fits (v_flags v) inp)"

lemma client_set_safe:
  assumes "recv_ok ws" "wf_client c" "input_fits fits (v_flags v) inp"
  shows "keeps_client fits (client_set ok ws v inp c w)"
proof -
  obtain key inp1 where 1: "get_word (v_key v) inp = (key, inp1)" by fastforce
  obtain flags inp2 where 2: "get_word (v_flags v) inp1 = (flags, inp2)" by fastforce
  obtain line inp3 where 3: "get_line (v_value v) (ignore_char inp2) = (line, inp3)" by fastforce
  have "numbers_fit (rest inp3)" "atoi flags \<noteq> None" if fits
  proof -
    have i: "numbers_fit (rest inp)" "atoi (v_flags v) \<noteq> None" using assms(3) that by (simp_all add: input_fits_def)
    note i1 = get_word_fits(1) [OF i(1) 1]
    show "atoi flags \<noteq> None" by (rule get_word_fits(2) [OF i1 2 i(2)])
    show "numbers_fit (rest inp3)" by (rule get_line_fits [OF ignore_char_fits [OF get_word_fits(1) [OF i1 2]] 3])
  qed
  note f = this
  show ?thesis
    unfolding keeps_client_def client_set_def Let_def 1 2 3 prod.case
    apply (rule if_yields_andThen [OF new_buffer])
    apply (rule if_yields_andThen [OF fill_buffer], assumption)
    apply (clarsimp)
    apply (rule if_yields_andThen [OF determined_fault])
     apply (erule f(2))
    apply (rule if_returns_andThen [OF set_safe [OF assms(1,2)]], assumption)
    using f apply (clarsimp simp: input_fits_def)
    done
qed

lemma client_get_safe:
  assumes "recv_ok ws" "wf_client c" "input_fits fits (v_flags v) inp"
  shows "keeps_client fits (client_get ok ws v inp c w)"
proof -
  obtain key inp1 where 1: "get_word (v_key v) inp = (key, inp1)" by fastforce
  have "input_fits fits (v_flags v) inp1" using assms(3) get_word_fits(1) [OF _ 1] by (simp add: input_fits_def)
  then show ?thesis
    unfolding keeps_client_def client_get_def Let_def 1 prod.case
    by (intro if_returns_andThen [OF get_safe [OF assms(1,2)]]) (auto simp: load_written split: prod.splits)
qed

lemma client_command_safe:
  assumes "recv_ok ws" "wf_client c" "input_fits fits (v_flags v) inp"
  shows "keeps_client fits (client_command ok ws v inp c w)"
  using client_set_safe [OF assms] client_get_safe [OF assms] assms
  by (auto simp: client_command_def keeps_client_def)

lemma read_command_fits:
  "input_fits fits (v_flags v) inp \<Longrightarrow> input_fits fits (v_flags (fst (read_command v inp))) (snd (read_command v inp))"
  using get_word_fits(1) [of inp "v_command v"] by (auto simp: read_command_def input_fits_def split: prod.splits)

lemma client_commands_safe:
  assumes "client_commands ok ws v inp out c w = Some y"
  shows "recv_ok ws \<longrightarrow> wf_client c \<longrightarrow> input_fits fits (v_flags v) inp \<longrightarrow> yields (app_fault fits) (\<lambda>(_, c', _). wf_client c') y"
proof (rule client_commands.raw_induct [where P = "\<lambda>ok ws v inp out c w y.
    recv_ok ws \<longrightarrow> wf_client c \<longrightarrow> input_fits fits (v_flags v) inp \<longrightarrow> yields (app_fault fits) (\<lambda>(_, c', _). wf_client c') y", OF _ assms], intro impI)
  fix self ok ws v inp out c w and y :: "(printed list \<times> MemcacheClient \<times> 'a) res"
  assume IH: "\<And>ok ws v inp out c w y. self ok ws v inp out c w = Some y \<Longrightarrow>
      recv_ok ws \<longrightarrow> wf_client c \<longrightarrow> input_fits fits (v_flags v) inp \<longrightarrow> yields (app_fault fits) (\<lambda>(_, c', _). wf_client c') y"
    and y: "(if v_command v \<noteq> ''quit''
       then (case client_command ok ws (fst (read_command v inp)) (snd (read_command v inp)) c w of
            None \<Rightarrow> None
          | Some (Inl f) \<Rightarrow> Some (Inl f)
          | Some (Inr (printed, v, inp, c, w)) \<Rightarrow>
              self ok ws v inp (out @ [endl, Text ''Enter command:''] @ printed) c w)
       else Some (Inr (out, c, w))) = Some y"
    and c: "recv_ok ws" "wf_client c" "input_fits fits (v_flags v) inp"
  show "yields (app_fault fits) (\<lambda>(_, c', _). wf_client c') y"
  proof (cases "v_command v = ''quit''")
    case False
    note safe = client_command_safe [OF c(1,2) read_command_fits [OF c(3)], of ok w]
    from y False obtain r where r: "client_command ok ws (fst (read_command v inp)) (snd (read_command v inp)) c w = Some r"
      by (auto split: option.splits)
    show ?thesis
    proof (cases r)
      case (Inr z)
      obtain printed v' inp' c' w' where z: "z = (printed, v', inp', c', w')" by (cases z)
      have "wf_client c'" "input_fits fits (v_flags v') inp'" using safe by (simp_all add: keeps_client_def r Inr z)
      then show ?thesis using IH y False c(1) by (simp add: r Inr z)
    qed (use safe y False r in \<open>auto simp: keeps_client_def\<close>)
  qed (use y c in auto)
qed

lemma client_main_safe:
  assumes "recv_ok ws" "client_main ok ws wsa args inp n w = Some r"
  shows "(\<exists>code out w'. r = Inr (code, out, w') \<and> code \<in> {0, - 1}) \<or> r = Inl BadAlloc \<or>
     r = Inl Indeterminate \<and> \<not> (numbers_fit (rest inp) \<and> atoi (args ! 1) \<noteq> None)"
proof -
  define fits where "fits \<longleftrightarrow> numbers_fit (rest inp) \<and> atoi (args ! 1) \<noteq> None"
  have loop: "if_returns (app_fault fits) (\<lambda>_. True)
      (client_commands ok ws \<lparr>v_command = [], v_key = [], v_value = [], v_flags = []\<rparr> inp out c w)" if "wf_client c" for out c w
    using client_commands_safe [where fits = fits and v = "\<lparr>v_command = [], v_key = [], v_value = [], v_flags = []\<rparr>"
        and ok = ok and ws = ws and inp = inp and out = out and c = c and w = w] assms(1) that
    by (auto simp: if_returns_def input_fits_def atoi_Nil fits_def intro: yields_mono)
  obtain result w' where wsa: "WSAStartup wsa w = (result, w')" by (cases "WSAStartup wsa w")
  have "if_returns (app_fault fits) (\<lambda>(code, _). code \<in> {0, - 1})
      (andThen (Some (cl_Connect ok ws (hd args) port MemcacheClient_new n w')) (\<lambda>(r, client, _, w).
          andThen
            (if r
             then client_commands ok ws \<lparr>v_command = [], v_key = [], v_value = [], v_flags = []\<rparr> inp cli_PrintCommands client w
             else Some (Inr ([Text ''Connect failed!'', endl], client, w))) (\<lambda>(out, client, w).
          let (client, w) = Disconnect ws client w; w = WSACleanup wsa w
          in Some (Inr (0, out, MemcacheClient_delete ws client w)))))" for port
  proof (rule if_yields_andThen)
    show "yields (app_fault fits) (\<lambda>(_, c', _). wf_client c') (cl_Connect ok ws (hd args) port MemcacheClient_new n w')"
      by (rule yields_mono [OF cl_Connect_yields]) (auto simp: app_fault_def)
  qed (auto simp: loop split: prod.splits intro!: if_returns_andThen [OF loop])
  then have "if_returns (app_fault fits) (\<lambda>(code, _). code \<in> {0, - 1}) (client_main ok ws wsa args inp n w)"
    by (auto simp: client_main_def wsa Let_def fits_def intro!: if_yields_andThen [OF determined_fault])
  then show ?thesis using assms(2) by (cases r) (auto simp: if_returns_def app_fault_def fits_def)
qed

section \<open>The program returns\<close>

text \<open>What a command reads of the input, whatever becomes of it.\<close>

definition command_reads :: "client_vars \<Rightarrow> istream \<Rightarrow> client_vars \<times> istream" where
  "command_reads v inp =
     (if v_command v = ''set''
      then
        let (key, inp) = get_word (v_key v) inp;
            (flags, inp) = get_word (v_flags v) inp;
            (line, inp) = get_line (v_value v) (ignore_char inp)
        in (v\<lparr>v_key := key, v_flags := flags, v_value := line\<rparr>, inp)
      else if v_command v = ''get''
      then let (key, inp) = get_word (v_key v) inp in (v\<lparr>v_key := key\<rparr>, inp)
      else (v, inp))"

text \<open>A \<open>quit\<close> is read as a command, after at most so many commands.\<close>

fun comes_to_quit :: "nat \<Rightarrow> client_vars \<times> istream \<Rightarrow> bool" where
  "comes_to_quit 0 (v, inp) \<longleftrightarrow> v_command v = ''quit''"
| "comes_to_quit (Suc k) (v, inp) \<longleftrightarrow>
     v_command v = ''quit'' \<or> comes_to_quit k (case read_command v inp of (v, inp) \<Rightarrow> command_reads v inp)"

lemma client_command_returns:
  assumes "recv_ok ws" "\<And>h. recv_progress ws h" "wf_client c"
  shows "\<exists>r. client_command ok ws v inp c w = Some r \<and> 
     (\<forall>printed v' inp' c' w'. r = Inr (printed, v', inp', c', w') \<longrightarrow> (v', inp') = command_reads v inp \<and> wf_client c')"
proof -
  have "\<exists>r. client_command ok ws v inp c w = Some r"
    using cl_Set_returns [OF assms] cl_Get_returns [OF assms]
    by (auto simp: client_command_def client_set_def client_get_def Let_def split: prod.split intro!: andThen_returns)
  then obtain r where r: "client_command ok ws v inp c w = Some r" ..
  have "(v', inp') = command_reads v inp" if "r = Inr (printed, v', inp', c', w')" for printed v' inp' c' w'
    using r that
    by (auto simp: client_command_def client_set_def client_get_def command_reads_def Let_def andThen_def
        split: prod.splits if_splits option.splits sum.splits)
  moreover have "wf_client c'" if "r = Inr (printed, v', inp', c', w')" for printed v' inp' c' w'
    using client_command_safe [OF assms(1,3), where fits = False and v = v and inp = inp and ok = ok and w = w] that
    by (simp add: r input_fits_def keeps_client_def)
  ultimately show ?thesis using r by blast
qed

lemma client_commands_return:
  assumes "recv_ok ws" "\<And>h. recv_progress ws h" "wf_client c" "comes_to_quit k (v, inp)"
  shows "\<exists>r. client_commands ok ws v inp out c w = Some r"
  using assms(3,4)
proof (induction k arbitrary: v inp out c w)
  case 0
  then show ?case by (simp add: client_commands.simps)
next
  case (Suc k)
  show ?case
  proof (cases "v_command v = ''quit''")
    case False
    obtain v1 inp1 where 1: "read_command v inp = (v1, inp1)" by fastforce
    obtain r where r: "client_command ok ws v1 inp1 c w = Some r"
        "\<forall>printed v' inp' c' w'. r = Inr (printed, v', inp', c', w') \<longrightarrow> (v', inp') = command_reads v1 inp1 \<and> wf_client c'"
      using client_command_returns [OF assms(1,2) Suc.prems(1)] by blast
    have k: "comes_to_quit k (command_reads v1 inp1)" using Suc.prems(2) False 1 by simp
    show ?thesis
    proof (cases r)
      case (Inr z)
      obtain printed v' inp' c' w' where z: "z = (printed, v', inp', c', w')" by (cases z)
      have "wf_client c'" "comes_to_quit k (v', inp')" using r(2) k by (simp_all add: Inr z)
      then show ?thesis using Suc.IH False r(1) 1 by (simp add: client_commands.simps [of ok ws v] Inr z)
    qed (use False r(1) 1 in \<open>simp add: client_commands.simps [of ok ws v]\<close>)
  qed (simp add: client_commands.simps)
qed

abbreviation no_vars :: client_vars where
  "no_vars \<equiv> \<lparr>v_command = [], v_key = [], v_value = [], v_flags = []\<rparr>"

lemma client_main_returns:
  assumes "recv_ok ws" "\<And>h. recv_progress ws h" "comes_to_quit k (no_vars, inp)"
  shows "\<exists>r. client_main ok ws wsa args inp n w = Some r"
proof -
  have c: "wf_client c" if "cl_Connect ok ws a p MemcacheClient_new n w = Inr (r, c, n', w')" for a p w r c n' w'
    using cl_Connect_yields [where ok = ok and ws = ws and a = a and p = p and c = MemcacheClient_new and n = n and w = w] that by simp
  show ?thesis
    by (auto simp: client_main_def Let_def split: prod.split intro!: andThen_returns client_commands_return [OF assms(1,2) _ assms(3)])
      (erule c)
qed

section \<open>Properties\<close>

text \<open>
  C28. The client's application is safe. Whatever is typed and whatever the server answers: if the
  program returns, it does so with the code 0 or -1, or an allocation has failed, or \<open>atoi\<close> has been
  given a number that an \<open>int\<close> cannot hold, for which its result is undefined, and this only if the port
  or a word of what is typed is such a number. It never accesses memory outside an array and never takes a message
  for what it is not. And it does return if every \<open>recv\<close> gets at least one byte or fails and a \<open>quit\<close> comes
  where a command is read; a server that closes the connection can make it wait for ever.
\<close>

theorem client_app_safe:
  assumes "recv_ok ws"
  shows "(\<forall>r. client_main ok ws wsa args inp n w = Some r \<longrightarrow>
       (\<exists>code out w'. r = Inr (code, out, w') \<and> code \<in> {0, - 1}) \<or> r = Inl BadAlloc \<or>
       r = Inl Indeterminate \<and> \<not> (numbers_fit (rest inp) \<and> atoi (args ! 1) \<noteq> None)) \<and>
     ((\<forall>h. recv_progress ws h) \<and> (\<exists>k. comes_to_quit k (no_vars, inp)) \<longrightarrow> (\<exists>r. client_main ok ws wsa args inp n w = Some r))"
  using client_main_safe [OF assms] client_main_returns [OF assms] by blast

theorem client_app_safe_witness:
  "\<exists>r. client_main (\<lambda>_. True) pipe_winsock \<lparr>WSAStartup = \<lambda>w. (0, w), WSACleanup = id\<rparr> [''127.0.0.1'', ''30000'']
        \<lparr>rest = ''get key quit'', eof = False, failed = False\<rparr> 0 ([1, 2, 3], []) = Some r \<and>
     ((\<exists>code out w'. r = Inr (code, out, w') \<and> code \<in> {0, - 1}) \<or> r = Inl BadAlloc)"
proof -
  let ?inp = "\<lparr>rest = ''get key quit'', eof = False, failed = False\<rparr>" and ?args = "[''127.0.0.1'', ''30000'']"
  have a: "atoi (?args ! 1) = Some 30000" by (simp add: atoi_def is_space_def digit_def)
  have fits: "numbers_fit (rest ?inp)"
    by (simp add: words_of.simps is_space_def atoi_def digit_def)
  have "comes_to_quit 2 (no_vars, ?inp)"
    by (simp add: numeral_2_eq_2 read_command_def command_reads_def get_word_def good_def is_space_def)
  then obtain r where "client_main (\<lambda>_. True) pipe_winsock \<lparr>WSAStartup = \<lambda>w. (0, w), WSACleanup = id\<rparr> ?args ?inp 0 ([1, 2, 3], []) = Some r"
    using conjunct2 [OF client_app_safe [OF pipe_ok(1), of "\<lambda>_. True" "\<lparr>WSAStartup = \<lambda>w. (0, w), WSACleanup = id\<rparr>" ?args ?inp]] pipe_ok(2) by blast
  then show ?thesis using conjunct1 [OF client_app_safe [OF pipe_ok(1)]] fits a by blast
qed

end
