(* ===== verification/CatchStrings.thy ===== *)
theory CatchStrings
  imports Prelude "HOL-Library.Char_ord" "HOL-Library.List_Lexorder"
begin

text \<open>
  The string functions of the test framework Catch, which the unit tests are built on, and the small
  classes that hold a place in the source and a count with its noun.
\<close>

section \<open>Strings\<close>

definition substr :: "string \<Rightarrow> nat \<Rightarrow> nat \<Rightarrow> string" where
  "substr s pos n = take n (drop pos s)"

definition startsWith :: "string \<Rightarrow> string \<Rightarrow> bool" where
  "startsWith s prefix \<longleftrightarrow> length s \<ge> length prefix \<and> substr s 0 (length prefix) = prefix"

definition endsWith :: "string \<Rightarrow> string \<Rightarrow> bool" where
  "endsWith s suffix \<longleftrightarrow>
     length s \<ge> length suffix \<and> substr s (length s - length suffix) (length suffix) = suffix"

definition contains :: "string \<Rightarrow> string \<Rightarrow> bool" where
  "contains s infixed \<longleftrightarrow> str_find infixed s \<noteq> None"

text \<open>\<open>::tolower\<close> in the C locale.\<close>

definition tolower :: "char \<Rightarrow> char" where
  "tolower c = (let n = of_char c :: nat in if 65 \<le> n \<and> n \<le> 90 then char_of (n + 32) else c)"

definition toLower :: "string \<Rightarrow> string" where
  "toLower s = map tolower s"

definition is_white :: "char \<Rightarrow> bool" where
  "is_white c \<longleftrightarrow> c \<in> set [CHR 0x0A, CHR 0x0D, CHR 0x09, CHR '' '']"

text \<open>\<open>find_first_not_of\<close> and \<open>find_last_not_of\<close>.\<close>

primrec first_not :: "(char \<Rightarrow> bool) \<Rightarrow> string \<Rightarrow> nat option" where
  "first_not P [] = None"
| "first_not P (c # cs) = (if P c then map_option Suc (first_not P cs) else Some 0)"

definition last_not :: "(char \<Rightarrow> bool) \<Rightarrow> string \<Rightarrow> nat option" where
  "last_not P s = map_option (\<lambda>k. length s - 1 - k) (first_not P (rev s))"

definition trim :: "string \<Rightarrow> string" where
  "trim str =
     (case (first_not is_white str, last_not is_white str) of
        (Some start, Some end) \<Rightarrow> substr str start (1 + end - start)
      | _ \<Rightarrow> [])"

lemma startsWith_iff: "startsWith s t \<longleftrightarrow> (\<exists>u. s = t @ u)"
  unfolding startsWith_def substr_def by (auto simp: append_eq_conv_conj) (metis append_take_drop_id)

lemma endsWith_iff: "endsWith s t \<longleftrightarrow> (\<exists>u. s = u @ t)"
  unfolding endsWith_def substr_def by (auto simp: append_eq_conv_conj) (metis append_take_drop_id)

lemma contains_iff: "contains s t \<longleftrightarrow> (\<exists>u v. s = u @ t @ v)"
  by (simp add: contains_def str_find_None)

lemma toLower_toLower [simp]: "toLower (toLower s) = toLower s"
  by (induction s) (auto simp: toLower_def tolower_def Let_def)

text \<open>\<open>trim\<close> takes the white space off both ends, and only that.\<close>

lemma first_not_append:
  "\<forall>c\<in>set xs. P c \<Longrightarrow> first_not P (xs @ s) = map_option ((+) (length xs)) (first_not P s)"
  by (cases "first_not P s"; induction xs) auto

lemma trim_white: "\<forall>c\<in>set s. is_white c \<Longrightarrow> trim s = []"
  using first_not_append [of s is_white "[]"] by (simp add: trim_def)

lemma trim_middle:
  assumes "\<forall>c\<in>set xs \<union> set ys. is_white c" "m \<noteq> []" "\<not> is_white (hd m)" "\<not> is_white (last m)"
  shows "trim (xs @ m @ ys) = m"
proof -
  have "first_not is_white (m @ ys) = Some 0" using assms(2,3) by (cases m) auto
  then have 1: "first_not is_white (xs @ m @ ys) = Some (length xs)"
    using assms(1) by (simp add: first_not_append)
  have "first_not is_white (rev m @ rev xs) = Some 0"
    using assms(2,4) by (cases m rule: rev_cases) auto
  then have "first_not is_white (rev ys @ rev m @ rev xs) = Some (length ys)"
    using assms(1) by (subst first_not_append) auto
  then have 2: "last_not is_white (xs @ m @ ys) = Some (length xs + length m - 1)"
    using assms(2) by (simp add: last_not_def)
  have "1 + (length xs + length m - 1) - length xs = length m" using assms(2) by (cases m) auto
  then show ?thesis by (simp add: trim_def 1 2 substr_def)
qed

section \<open>Places and plurals\<close>

text \<open>The line number is printed as it is; on Win32 the form is \<open>file(line)\<close>.\<close>

record SourceLineInfo =
  si_file :: string
  si_line :: nat

definition SourceLineInfo_new :: SourceLineInfo where
  "SourceLineInfo_new = \<lparr>si_file = [], si_line = 0\<rparr>"

definition line_empty :: "SourceLineInfo \<Rightarrow> bool" where
  "line_empty i \<longleftrightarrow> si_file i = []"

definition line_equal :: "SourceLineInfo \<Rightarrow> SourceLineInfo \<Rightarrow> bool" where
  "line_equal a b \<longleftrightarrow> si_line a = si_line b \<and> si_file a = si_file b"

definition print_line_info :: "SourceLineInfo \<Rightarrow> string" where
  "print_line_info i = si_file i @ ''('' @ decimal (si_line i) @ '')''"

record pluralise =
  p_count :: nat
  p_label :: string

definition print_plural :: "pluralise \<Rightarrow> string" where
  "print_plural p = decimal (p_count p) @ '' '' @ p_label p @ (if p_count p \<noteq> 1 then ''s'' else [])"

end
