(* ===== verification/CatchText.thy ===== *)
theory CatchText
  imports CatchStrings "HOL-Library.Sublist"
begin

text \<open>
  The text formatter of Catch, \<open>Tbc::Text\<close>, which breaks what the console reporter, the usage text and the
  lists print into lines of a given width. A \<open>size_t\<close> is a natural number and \<open>npos\<close> is \<open>None\<close>; the
  subtraction that the code does without looking is \<open>size_minus\<close>. Reading behind the terminator of a
  string is \<open>PastEnd\<close>, the exception of \<open>substr\<close> is \<open>OutOfRange\<close>, that of a string of more than
  2^31 blanks is \<open>LengthError\<close>, one that the code itself throws as \<open>std::logic_error\<close> is \<open>LogicError\<close>.
\<close>

section \<open>Searching in strings\<close>

primrec find_first_of :: "char set \<Rightarrow> string \<Rightarrow> nat option" where
  "find_first_of cs [] = None"
| "find_first_of cs (c # s) = (if c \<in> cs then Some 0 else map_option Suc (find_first_of cs s))"

text \<open>The last position up to \<open>pos\<close>.\<close>

definition find_last_of :: "char set \<Rightarrow> nat \<Rightarrow> string \<Rightarrow> nat option" where
  "find_last_of cs pos s =
     (let t = take (pos + 1) s in map_option (\<lambda>k. length t - 1 - k) (find_first_of cs (rev t)))"

text \<open>\<open>s[i]\<close> for \<open>i\<close> up to the length, where the terminator is.\<close>

definition char_at :: "string \<Rightarrow> nat \<Rightarrow> char" where
  "char_at s i = (if i < length s then s ! i else CHR 0x00)"

definition size_minus :: "nat \<Rightarrow> nat \<Rightarrow> nat" where
  "size_minus a b = (if b \<le> a then a - b else 2 ^ 32 + a - b)"

lemma find_first_of_None: "find_first_of cs s = None \<longleftrightarrow> set s \<inter> cs = {}"
  by (induction s) auto

lemma find_first_of_Some:
  "find_first_of cs s = Some p \<longleftrightarrow> p < length s \<and> s ! p \<in> cs \<and> (\<forall>i<p. s ! i \<notin> cs)"
proof (induction s arbitrary: p)
  case (Cons c s)
  show ?case
  proof (cases "c \<in> cs")
    case False
    then show ?thesis using Cons by (cases p) (auto simp: less_Suc_eq_0_disj)
  qed (auto intro: ccontr)
qed simp

lemma find_last_of_SomeD:
  assumes "find_last_of cs pos s = Some p"
  shows "p < length s \<and> p \<le> pos \<and> s ! p \<in> cs"
proof -
  let ?t = "take (pos + 1) s"
  obtain k where k: "k < length ?t" "rev ?t ! k \<in> cs" "p = length ?t - 1 - k"
    using assms by (auto simp: find_last_of_def find_first_of_Some Let_def)
  then have "p < length ?t" "?t ! p \<in> cs" by (auto simp: rev_nth)
  then show ?thesis by simp
qed

lemma find_last_of_None: "find_last_of cs pos s = None \<longleftrightarrow> set (take (pos + 1) s) \<inter> cs = {}"
  by (simp add: find_last_of_def find_first_of_None Let_def)

section \<open>Attributes and lines\<close>

record TextAttributes =
  initialIndent :: "nat option"
  indent :: nat
  width :: nat
  tabChar :: char

definition TextAttributes_new :: TextAttributes where
  "TextAttributes_new = \<lparr>initialIndent = None, indent = 0, width = 79, tabChar = CHR 0x09\<rparr>"

definition wrappableChars :: "char set" where
  "wrappableChars = insert CHR 0x5C (set '' [({.,/|-'')"

datatype text_fault = PastEnd | OutOfRange | LengthError | LogicError

definition truncated :: string where
  "truncated = ''... message truncated due to excessive size''"

text \<open>\<open>spliceLine\<close>: the new line and what is left.\<close>

definition spliceLine :: "nat \<Rightarrow> string \<Rightarrow> nat \<Rightarrow> text_fault + string \<times> string" where
  "spliceLine n s pos =
     (if pos > length s then Inl OutOfRange else Inr (replicate n CHR '' '' @ take pos s, drop pos s))"

text \<open>
  One pass of the loop, after the test for too many lines, with the current indent and whether there are
  lines yet: the new line, the new indent and what is left.
\<close>

definition text_pass :: "TextAttributes \<Rightarrow> bool \<Rightarrow> nat \<Rightarrow> string \<Rightarrow> text_fault + string \<times> nat \<times> string" where
  "text_pass attr first ind s =
     (let w = min (length s) (size_minus (width attr) ind);
          w = (case find_first_of {CHR 0x0A} s of Some p \<Rightarrow> if p \<le> w then p else w | None \<Rightarrow> w);
          tab = find_last_of {tabChar attr} w s;
          (w, s) = (case tab of
              None \<Rightarrow> (w, s)
            | Some p \<Rightarrow> (if char_at s w = CHR 0x0A then size_minus w 1 else w, take p s @ drop (p + 1) s))
      in
        if w = length s then map_sum id (\<lambda>(l, s). (l, ind, s)) (spliceLine ind s w)
        else if w > length s then Inl PastEnd
        else if char_at s w = CHR 0x0A then
          map_sum id (\<lambda>(l, s). (l, indent attr, if w \<le> 1 \<or> length s \<noteq> 1 then drop 1 s else s)) (spliceLine ind s w)
        else
          let next = (\<lambda>l s. (l, (if first then indent attr else ind) + (case tab of Some p \<Rightarrow> p | None \<Rightarrow> 0), s))
          in case find_last_of wrappableChars w s of
               Some (Suc p) \<Rightarrow>
                 map_sum id (\<lambda>(l, s). next l (if char_at s 0 = CHR '' '' then drop 1 s else s)) (spliceLine ind s (Suc p))
             | _ \<Rightarrow> map_sum id (\<lambda>(l, s). next (l @ ''-'') s) (spliceLine ind s (size_minus w 1)))"

function text_loop :: "TextAttributes \<Rightarrow> string list \<Rightarrow> nat \<Rightarrow> string \<Rightarrow> text_fault + string list" where
  "text_loop attr lines ind s =
     (if s = [] then Inr lines
      else if length lines \<ge> 1000 then Inr (lines @ [truncated])
      else
        case text_pass attr (lines = []) ind s of
          Inl e \<Rightarrow> Inl e
        | Inr (l, ind, s) \<Rightarrow> text_loop attr (lines @ [l]) ind s)"
  by pat_completeness auto
termination
  by (relation "measure (\<lambda>(attr, lines, ind, s). 1000 - length lines)") auto

declare text_loop.simps [simp del]

definition Text_new :: "string \<Rightarrow> TextAttributes \<Rightarrow> text_fault + string list" where
  "Text_new s attr =
     text_loop attr [] (case initialIndent attr of Some n \<Rightarrow> n | None \<Rightarrow> indent attr) s"

text \<open>\<open>std::string( n, ' ' )\<close>.\<close>

definition blanks :: "nat \<Rightarrow> text_fault + string" where
  "blanks n = (if n < 2 ^ 31 then Inr (replicate n CHR '' '') else Inl LengthError)"

text \<open>The lines, printed.\<close>

fun print_lines :: "string list \<Rightarrow> string" where
  "print_lines [] = []"
| "print_lines [l] = l"
| "print_lines (l # ls) = l @ [CHR 0x0A] @ print_lines ls"

section \<open>What a pass does\<close>

definition visible :: "char \<Rightarrow> bool" where
  "visible c \<longleftrightarrow> c \<noteq> CHR '' '' \<and> c \<noteq> CHR 0x0A"

definition shown :: "string \<Rightarrow> string" where
  "shown s = filter visible s"

text \<open>A line that is the indent, a part of the text, and perhaps a hyphen; what follows may lose an invisible character.\<close>

definition splits :: "nat \<Rightarrow> nat \<Rightarrow> string \<Rightarrow> string \<Rightarrow> string \<Rightarrow> bool" where
  "splits m ind s l s' \<longleftrightarrow> length l \<le> m \<and> set s' \<subseteq> set s \<and> subseq (shown s) (l @ shown s')"

lemma splits_at:
  assumes "pos \<le> length s" "ind + pos + length h \<le> m"
    "s' = drop pos s \<or> (\<exists>c. \<not> visible c \<and> drop pos s = c # s')"
  shows "splits m ind s (replicate ind CHR '' '' @ take pos s @ h) s'"
proof -
  have "shown (drop pos s) = shown s'" using assms(3) by (auto simp: shown_def)
  then have "shown s = shown (take pos s) @ shown s'"
    by (metis append_take_drop_id filter_append shown_def)
  moreover have "subseq (shown (take pos s)) (replicate ind CHR '' '' @ take pos s @ h)"
    by (simp add: shown_def list_emb_append2 subseq_filter_left list_emb_prefix)
  ultimately have "subseq (shown s) ((replicate ind CHR '' '' @ take pos s @ h) @ shown s')"
    by (metis list_emb_append_mono subseq_order.refl)
  moreover have "set s' \<subseteq> set (drop pos s)" using assms(3) by auto
  ultimately show ?thesis
    using assms(1,2) set_drop_subset [of pos s] by (auto simp: splits_def)
qed

lemma text_pass_splits:
  assumes "tabChar attr \<notin> set s" "s \<noteq> []" "ind < width attr" "indent attr < width attr"
  shows "\<exists>l ind' s'. text_pass attr first ind s = Inr (l, ind', s') \<and> splits (width attr) ind s l s' \<and> ind' \<in> {ind, indent attr}"
proof -
  let ?w = "min (length s) (size_minus (width attr) ind)"
  obtain w where w: "w = (case find_first_of {CHR 0x0A} s of Some p \<Rightarrow> if p \<le> ?w then p else ?w | None \<Rightarrow> ?w)" by blast
  have le: "w \<le> length s" "ind + w \<le> width attr"
    using assms(3) by (auto simp: w size_minus_def split: option.splits)
  have pos: "0 < w \<or> char_at s w = CHR 0x0A"
    using assms(2,3) by (auto simp: w size_minus_def char_at_def find_first_of_Some split: option.splits)
  have tab: "find_last_of {tabChar attr} w s = None"
    using assms(1) set_take_subset [of "w + 1" s] by (auto simp: find_last_of_None)
  note pass = text_pass_def [of attr first ind s, unfolded Let_def, folded w, unfolded tab option.case prod.case]
  show ?thesis
  proof (cases "w = length s \<or> char_at s w = CHR 0x0A")
    case True
    then have "\<exists>ind' s'. text_pass attr first ind s = Inr (replicate ind CHR '' '' @ take w s @ [], ind', s') \<and> ind' \<in> {ind, indent attr} \<and>
        (s' = drop w s \<or> (\<exists>c. \<not> visible c \<and> drop w s = c # s'))"
    proof (cases "w = length s")
      case False
      with True le(1) have "w < length s" "s ! w = CHR 0x0A" by (auto simp: char_at_def)
      then have "drop w s = CHR 0x0A # drop (Suc w) s" by (metis Cons_nth_drop_Suc)
      then show ?thesis using False True le(1) by (simp add: pass spliceLine_def visible_def)
    qed (simp add: pass spliceLine_def)
    then show ?thesis using splits_at [of w s ind "[]" "width attr"] le by fastforce
  next
    case False
    then have w: "w < length s" "0 < w" "char_at s w \<noteq> CHR 0x0A" using le(1) pos by auto
    have "\<exists>q h ind' s'. text_pass attr first ind s = Inr (replicate ind CHR '' '' @ take q s @ h, ind', s') \<and> ind' \<in> {ind, indent attr} \<and>
        q + length h \<le> w \<and> (s' = drop q s \<or> (\<exists>c. \<not> visible c \<and> drop q s = c # s'))"
    proof (cases "\<exists>q. find_last_of wrappableChars w s = Some (Suc q)")
      case True
      then obtain q where q: "find_last_of wrappableChars w s = Some (Suc q)" by blast
      have "Suc q \<le> w" "Suc q \<le> length s" using find_last_of_SomeD [OF q] by auto
      let ?s' = "if char_at (drop (Suc q) s) 0 = CHR '' '' then drop 1 (drop (Suc q) s) else drop (Suc q) s"
      have "text_pass attr first ind s = Inr (replicate ind CHR '' '' @ take (Suc q) s @ [], if first then indent attr else ind, ?s')"
        using q w \<open>Suc q \<le> length s\<close> by (simp add: pass spliceLine_def)
      moreover have "?s' = drop (Suc q) s \<or> (\<exists>c. \<not> visible c \<and> drop (Suc q) s = c # ?s')"
        by (cases "drop (Suc q) s") (auto simp: visible_def char_at_def)
      ultimately show ?thesis
        using \<open>Suc q \<le> w\<close>
        by (intro exI [of _ "Suc q"] exI [of _ "[]"] exI [of _ "if first then indent attr else ind"] exI [of _ ?s']) simp
    next
      case False
      then have "text_pass attr first ind s =
          Inr (replicate ind CHR '' '' @ take (w - 1) s @ ''-'', if first then indent attr else ind, drop (w - 1) s)"
        using w by (auto simp: pass spliceLine_def size_minus_def split: option.splits nat.splits)
      then show ?thesis
        using w
        by (intro exI [of _ "w - 1"] exI [of _ "''-''"] exI [of _ "if first then indent attr else ind"] exI [of _ "drop (w - 1) s"]) simp
    qed
    then show ?thesis using splits_at [of _ s ind _ "width attr"] le w(1) by fastforce
  qed
qed

lemma text_loop_splits:
  assumes "tabChar attr \<notin> set s" "ind < width attr" "indent attr < width attr" "length lines \<le> 1000"
  shows "\<exists>new. text_loop attr lines ind s = Inr (lines @ new) \<and> length (lines @ new) \<le> 1001 \<and>
     (\<forall>i<length new. length (new ! i) \<le> width attr \<or> length lines + i = 1000 \<and> new ! i = truncated) \<and>
     (length (lines @ new) \<le> 1000 \<longrightarrow> subseq (shown s) (concat new))"
  using assms
proof (induction attr lines ind s rule: text_loop.induct)
  case (1 attr lines ind s)
  consider "s = []" | "s \<noteq> []" "length lines = 1000" | "s \<noteq> []" "length lines < 1000" using "1.prems"(4) by linarith
  then show ?case
  proof cases
    case 3
    obtain l ind' s' where p: "text_pass attr (lines = []) ind s = Inr (l, ind', s')" "splits (width attr) ind s l s'"
        "ind' \<in> {ind, indent attr}"
      using text_pass_splits [OF "1.prems"(1) 3(1) "1.prems"(2,3)] by blast
    have s': "length l \<le> width attr" "set s' \<subseteq> set s" "subseq (shown s) (l @ shown s')" using p(2) by (auto simp: splits_def)
    obtain new where new: "text_loop attr (lines @ [l]) ind' s' = Inr ((lines @ [l]) @ new)" "length ((lines @ [l]) @ new) \<le> 1001"
        "\<forall>i<length new. length (new ! i) \<le> width attr \<or> length (lines @ [l]) + i = 1000 \<and> new ! i = truncated"
        "length ((lines @ [l]) @ new) \<le> 1000 \<longrightarrow> subseq (shown s') (concat new)"
      using "1.IH" [OF 3(1) _ p(1) refl refl] 3(2) p(3) s'(2) "1.prems"(1-3) by auto
    have "subseq (shown s) (l @ concat new)" if "subseq (shown s') (concat new)"
      using subseq_order.trans [OF s'(3)] that by (simp add: list_emb_append_mono)
    moreover have "length ((l # new) ! i) \<le> width attr \<or> length lines + i = 1000 \<and> (l # new) ! i = truncated"
      if "i < length (l # new)" for i
      using new(3) s'(1) that by (cases i) auto
    ultimately show ?thesis
      using new(1,2,4) 3 p(1) by (intro exI [of _ "l # new"]) (simp add: text_loop.simps [of attr lines])
  next
    case 2
    then show ?thesis by (intro exI [of _ "[truncated]"]) (simp add: text_loop.simps [of attr lines])
  qed (use "1.prems"(4) in \<open>simp add: text_loop.simps [of attr lines] shown_def\<close>)
qed

section \<open>Properties\<close>

text \<open>
  C34. Text is wrapped, and none is lost. For a text without tab characters and indents below the width, the
  formatter returns: at most 1001 lines, none longer than the width, save that line 1001, if there is
  one, may be the note that the text was cut, whatever the width. As long as there are at most 1000
  lines, every character other than a blank or a line break is on them, in order.
\<close>

theorem text_wrapped:
  assumes "tabChar attr \<notin> set s" "indent attr < width attr" "\<forall>n. initialIndent attr = Some n \<longrightarrow> n < width attr"
  shows "\<exists>ls. Text_new s attr = Inr ls \<and> length ls \<le> 1001 \<and>
     (\<forall>i<length ls. length (ls ! i) \<le> width attr \<or> i = 1000 \<and> ls ! i = truncated) \<and>
     (length ls \<le> 1000 \<longrightarrow> subseq (filter (\<lambda>c. c \<noteq> CHR '' '' \<and> c \<noteq> CHR 0x0A) s) (concat ls))"
proof -
  have "(case initialIndent attr of Some n \<Rightarrow> n | None \<Rightarrow> indent attr) < width attr"
    using assms(2,3) by (auto split: option.splits)
  moreover have "shown s = filter (\<lambda>c. c \<noteq> CHR '' '' \<and> c \<noteq> CHR 0x0A) s" by (simp add: shown_def visible_def [abs_def])
  ultimately show ?thesis using text_loop_splits [OF assms(1) _ assms(2), of _ "[]"] by (auto simp: Text_new_def)
qed

theorem text_wrapped_witness:
  "\<exists>ls. Text_new ''a long word'' (TextAttributes_new\<lparr>width := 6\<rparr>) = Inr ls \<and>
     (length ls \<le> 1000 \<longrightarrow> subseq ''alongword'' (concat ls)) \<and> length ls \<le> 1001"
  using text_wrapped [of "TextAttributes_new\<lparr>width := 6\<rparr>" "''a long word''"] by (auto simp: TextAttributes_new_def)

text \<open>
  A tab in a text that fits on its line: taking the tab out makes the text shorter than the position at
  which the formatter then looks for a line break.
\<close>

theorem tab_in_short_line:
  assumes "tabChar attr \<in> set s" "CHR 0x0A \<notin> set s" "length s \<le> size_minus (width attr) (indent attr)" "initialIndent attr = None"
  shows "Text_new s attr = Inl PastEnd"
proof -
  have w: "min (length s) (size_minus (width attr) (indent attr)) = length s" using assms(3) by simp
  have n: "find_first_of {CHR 0x0A} s = None" using assms(2) by (simp add: find_first_of_None)
  obtain p where p: "find_last_of {tabChar attr} (length s) s = Some p"
    using assms(1) find_last_of_None [of "{tabChar attr}" "length s" s] by (cases "find_last_of {tabChar attr} (length s) s") auto
  then have "length s - Suc 0 < length s" "p < length s" using find_last_of_SomeD [OF p] by auto
  then have "text_pass attr True (indent attr) s = Inl PastEnd"
    by (simp add: text_pass_def w n p char_at_def Let_def)
  then show ?thesis
    using assms(1,4) by (auto simp: Text_new_def text_loop.simps [of attr "[]"])
qed

theorem tab_in_short_line_witness: "Text_new [CHR ''a'', CHR 0x09, CHR ''b''] TextAttributes_new = Inl PastEnd"
  by (rule tab_in_short_line) (simp_all add: TextAttributes_new_def size_minus_def)

end
