(* ===== verification/CatchClara.thy ===== *)
theory CatchClara
  imports CatchText "HOL-Library.Monad_Syntax"
begin

text \<open>
  Clara, the command line parser of Catch: words are cut into tokens, options are matched and set the members
  they are bound to, and what is left goes to the positional arguments. \<open>'c\<close> is the type of the
  configuration. Setting a member may throw: \<open>Inl\<close> the text of the exception. An argument is bound when
  it is made, as all arguments in the program are.
\<close>

section \<open>Conversions\<close>

text \<open>\<open>ss >> _dest\<close> for an \<open>int\<close>: white space, a sign, digits; what follows them is not looked at.\<close>

definition is_digit :: "char \<Rightarrow> bool" where
  "is_digit c \<longleftrightarrow> 48 \<le> (of_char c :: nat) \<and> (of_char c :: nat) \<le> 57"

definition is_spacing :: "char \<Rightarrow> bool" where
  "is_spacing c \<longleftrightarrow> c = CHR '' '' \<or> 9 \<le> (of_char c :: nat) \<and> (of_char c :: nat) \<le> 13"

definition digits_value :: "string \<Rightarrow> nat" where
  "digits_value s = foldl (\<lambda>n c. 10 * n + (of_char c - 48)) 0 s"

definition read_int :: "string \<Rightarrow> int option" where
  "read_int s =
     (let s = dropWhile is_spacing s;
          (sign, s) = (case s of c # r \<Rightarrow> if c = CHR ''-'' then (- 1, r) else if c = CHR ''+'' then (1, r) else (1, s) | [] \<Rightarrow> (1, s));
          ds = takeWhile is_digit s;
          v = sign * int (digits_value ds)
      in if ds \<noteq> [] \<and> - (2 ^ 31) \<le> v \<and> v < 2 ^ 31 then Some v else None)"

definition convert_int :: "string \<Rightarrow> string + int" where
  "convert_int s =
     (case read_int s of
        Some v \<Rightarrow> Inr v
      | None \<Rightarrow> Inl (''Unable to convert '' @ s @ '' to destination type''))"

definition convert_string :: "string \<Rightarrow> string + string" where
  "convert_string s = Inr s"

definition convert_bool :: "string \<Rightarrow> string + bool" where
  "convert_bool s =
     (let sourceLC = toLower s in
      if sourceLC \<in> set [''y'', ''1'', ''true'', ''yes'', ''on''] then Inr True
      else if sourceLC \<in> set [''n'', ''0'', ''false'', ''no'', ''off''] then Inr False
      else Inl (''Expected a boolean value but did not recognise:'' @ [CHR 0x0A] @ ''  '' @ [CHR 0x27] @ s @ [CHR 0x27]))"

section \<open>Bound members and functions\<close>

record 'c IArgFunction =
  set_arg :: "'c \<Rightarrow> string \<Rightarrow> string + 'c"
  setFlag :: "'c \<Rightarrow> string + 'c"

definition NullBinder :: "'c IArgFunction" where
  "NullBinder = \<lparr>set_arg = (\<lambda>c s. Inr c), setFlag = Inr\<rparr>"

text \<open>A data member, given by its update and the conversion to its type; from \<open>true\<close> only a \<open>bool\<close> can be had.\<close>

definition BoundDataMember :: "(string \<Rightarrow> string + 'm) \<Rightarrow> (string + 'm) \<Rightarrow> ('m \<Rightarrow> 'c \<Rightarrow> 'c) \<Rightarrow> 'c IArgFunction" where
  "BoundDataMember convert flag member =
     \<lparr>set_arg = (\<lambda>c s. map_sum id (\<lambda>v. member v c) (convert s)), setFlag = (\<lambda>c. map_sum id (\<lambda>v. member v c) flag)\<rparr>"

definition BoundUnaryFunction :: "('c \<Rightarrow> 'c) \<Rightarrow> 'c IArgFunction" where
  "BoundUnaryFunction f =
     \<lparr>set_arg = (\<lambda>c s. map_sum id (\<lambda>v. if v then f c else c) (convert_bool s)), setFlag = (\<lambda>c. Inr (f c))\<rparr>"

definition BoundBinaryFunction :: "(string \<Rightarrow> string + 'm) \<Rightarrow> (string + 'm) \<Rightarrow> ('c \<Rightarrow> 'm \<Rightarrow> string + 'c) \<Rightarrow> 'c IArgFunction" where
  "BoundBinaryFunction convert flag f =
     \<lparr>set_arg = (\<lambda>c s. case convert s of Inl e \<Rightarrow> Inl e | Inr v \<Rightarrow> f c v),
       setFlag = (\<lambda>c. case flag of Inl e \<Rightarrow> Inl e | Inr v \<Rightarrow> f c v)\<rparr>"

definition invalid_conversion :: "string + 'm" where
  "invalid_conversion = Inl ''Invalid conversion''"

section \<open>Tokens\<close>

datatype token_type = Positional | ShortOpt | LongOpt

record Token =
  token_type :: token_type
  token_data :: string

definition Token_new :: "token_type \<Rightarrow> string \<Rightarrow> Token" where
  "Token_new t s = \<lparr>token_type = t, token_data = s\<rparr>"

lemma Token_new_simps [simp]: "token_type (Token_new t s) = t" "token_data (Token_new t s) = s"
  by (simp_all add: Token_new_def)

definition separators :: "char set" where
  "separators = {CHR '' '', CHR 0x09, CHR ''='', CHR '':''}"

text \<open>The first token of a word, and what is left to be looked at.\<close>

definition first_token :: "string \<Rightarrow> Token \<times> string" where
  "first_token arg =
     (let (token, rest) =
        (if char_at arg 0 = CHR ''-''
         then
           if length arg > 1 \<and> char_at arg 1 = CHR ''-'' then (Token_new LongOpt (drop 2 arg), [])
           else
             let s = drop 1 arg in
             if length s > 1 \<and> s ! 1 \<notin> separators then (Token_new ShortOpt (take 1 s), ''-'' @ drop 1 s)
             else (Token_new ShortOpt s, [])
         else (Token_new Positional arg, []))
      in if token_type token \<noteq> Positional
         then
           case find_first_of separators (token_data token) of
             Some pos \<Rightarrow> (token\<lparr>token_data := take pos (token_data token)\<rparr>, drop (pos + 1) (token_data token))
           | None \<Rightarrow> (token, rest)
         else (token, rest))"

lemma first_token_shorter: "arg \<noteq> [] \<Longrightarrow> length (snd (first_token arg)) < length arg"
  by (auto simp: first_token_def Let_def Token_new_def char_at_def split: option.splits)

function word_tokens :: "string \<Rightarrow> Token list" where
  "word_tokens arg =
     (if arg = [] then [] else case first_token arg of (token, rest) \<Rightarrow> token # word_tokens rest)"
  by pat_completeness auto
termination
  by (relation "measure length") (auto dest: first_token_shorter simp del: length_greater_0_conv, metis first_token_shorter snd_conv)

declare word_tokens.simps [simp del]

text \<open>The words after the first, up to a double dash.\<close>

definition parseIntoTokens :: "string list \<Rightarrow> Token list" where
  "parseIntoTokens argv = concat (map word_tokens (takeWhile (\<lambda>w. w \<noteq> ''--'') (drop 1 argv)))"

section \<open>Arguments\<close>

record 'c Arg =
  boundField :: "'c IArgFunction"
  arg_description :: string
  placeholder :: string
  shortNames :: "string list"
  longName :: string
  position :: int

definition Arg_new :: "'c IArgFunction \<Rightarrow> 'c Arg" where
  "Arg_new f = \<lparr>boundField = f, arg_description = [], placeholder = [], shortNames = [], longName = [], position = - 1\<rparr>"

definition takesArg :: "'c Arg \<Rightarrow> bool" where
  "takesArg a \<longleftrightarrow> placeholder a \<noteq> []"

definition hasShortName :: "string \<Rightarrow> 'c Arg \<Rightarrow> bool" where
  "hasShortName s a \<longleftrightarrow> s \<in> set (shortNames a)"

definition hasLongName :: "string \<Rightarrow> 'c Arg \<Rightarrow> bool" where
  "hasLongName s a \<longleftrightarrow> s = longName a"

definition commands :: "'c Arg \<Rightarrow> string" where
  "commands a =
     (let s = foldl (\<lambda>s n. (if s = [] then [] else s @ '', '') @ ''-'' @ n) [] (shortNames a);
          s = (if longName a \<noteq> [] then (if shortNames a = [] then [] else s @ '', '') @ ''--'' @ longName a else s)
      in if placeholder a \<noteq> [] then s @ '' <'' @ placeholder a @ ''>'' else s)"

definition addOptName :: "string \<Rightarrow> 'c Arg \<Rightarrow> string + 'c Arg" where
  "addOptName optName a =
     (if optName = [] then Inr a
      else if startsWith optName ''--'' then
        if longName a \<noteq> []
        then Inl (''Only one long opt may be specified. '' @ [CHR 0x27] @ longName a @ [CHR 0x27] @
          '' already specified, now attempting to add '' @ [CHR 0x27] @ optName @ [CHR 0x27])
        else Inr (a\<lparr>longName := drop 2 optName\<rparr>)
      else if startsWith optName ''-'' then Inr (a\<lparr>shortNames := shortNames a @ [drop 1 optName]\<rparr>)
      else Inl (''option must begin with - or --. Option was: '' @ [CHR 0x27] @ optName @ [CHR 0x27]))"

section \<open>The command line\<close>

record 'c CommandLine =
  m_boundProcessName :: "'c IArgFunction"
  m_options :: "'c Arg list"
  m_positionalArgs :: "(int \<times> 'c Arg) list"
  m_floatingArg :: "'c Arg option"
  m_highestSpecifiedArgPosition :: int
  m_throwOnUnrecognisedTokens :: bool

definition CommandLine_new :: "'c CommandLine" where
  "CommandLine_new =
     \<lparr>m_boundProcessName = NullBinder, m_options = [], m_positionalArgs = [], m_floatingArg = None,
       m_highestSpecifiedArgPosition = 0, m_throwOnUnrecognisedTokens = False\<rparr>"

definition setThrowOnUnrecognisedTokens :: "bool \<Rightarrow> 'c CommandLine \<Rightarrow> 'c CommandLine" where
  "setThrowOnUnrecognisedTokens b cli = cli\<lparr>m_throwOnUnrecognisedTokens := b\<rparr>"

text \<open>Adding an option with its names, description, member and placeholder, a positional argument, and the floating one.\<close>

primrec add_names :: "string list \<Rightarrow> 'c Arg \<Rightarrow> string + 'c Arg" where
  "add_names [] a = Inr a"
| "add_names (n # ns) a = (case addOptName n a of Inl e \<Rightarrow> Inl e | Inr a \<Rightarrow> add_names ns a)"

definition add_option ::
  "string list \<Rightarrow> string \<Rightarrow> 'c IArgFunction \<Rightarrow> string \<Rightarrow> 'c CommandLine \<Rightarrow> string + 'c CommandLine" where
  "add_option ns descr field p cli =
     (case add_names ns (Arg_new field) of
        Inl e \<Rightarrow> Inl e
      | Inr a \<Rightarrow> Inr (cli\<lparr>m_options := m_options cli @ [a\<lparr>arg_description := descr, placeholder := p\<rparr>]\<rparr>))"

definition add_positional :: "int \<Rightarrow> string \<Rightarrow> 'c IArgFunction \<Rightarrow> string \<Rightarrow> 'c CommandLine \<Rightarrow> 'c CommandLine" where
  "add_positional n descr field p cli =
     (let a = (Arg_new field)\<lparr>arg_description := descr, placeholder := p, position := n\<rparr>
      in cli\<lparr>m_positionalArgs := (n, a) # m_positionalArgs cli,
           m_highestSpecifiedArgPosition := max n (m_highestSpecifiedArgPosition cli)\<rparr>)"

definition add_floating :: "string \<Rightarrow> 'c IArgFunction \<Rightarrow> string \<Rightarrow> 'c CommandLine \<Rightarrow> string + 'c CommandLine" where
  "add_floating descr field p cli =
     (if m_floatingArg cli \<noteq> None then Inl ''Only one unpositional argument can be added''
      else Inr (cli\<lparr>m_floatingArg := Some ((Arg_new field)\<lparr>arg_description := descr, placeholder := p\<rparr>)\<rparr>))"

definition validate :: "'c CommandLine \<Rightarrow> string + unit" where
  "validate cli =
     (if m_options cli = [] \<and> m_positionalArgs cli = [] \<and> m_floatingArg cli = None
      then Inl ''No options or arguments specified'' else Inr ())"

subsection \<open>Parsing\<close>

definition matches_token :: "Token \<Rightarrow> 'c Arg \<Rightarrow> bool" where
  "matches_token t a \<longleftrightarrow>
     token_type t = ShortOpt \<and> hasShortName (token_data t) a \<or> token_type t = LongOpt \<and> hasLongName (token_data t) a"

definition while_parsing :: "string \<Rightarrow> 'c Arg \<Rightarrow> string" where
  "while_parsing what a = what @ [CHR 0x0A] @ ''- while parsing: ('' @ commands a @ '')''"

text \<open>
  The loop over the options for one token, with the tokens behind it: whether it ended early, the tokens
  that are left, the configuration, the errors. An exception is caught inside of the loop, which then
  goes on, behind the value it has taken.
\<close>

fun try_options ::
  "Token \<Rightarrow> 'c Arg list \<Rightarrow> Token list \<Rightarrow> 'c \<Rightarrow> string list \<Rightarrow> bool \<times> Token list \<times> 'c \<times> string list" where
  "try_options t [] rest c errors = (False, rest, c, errors)"
| "try_options t (a # as) rest c errors =
     (if matches_token t a
      then
        if takesArg a
        then
          case rest of
            [] \<Rightarrow> (True, rest, c, errors @ [''Expected argument to option: '' @ token_data t])
          | v # rest' \<Rightarrow>
              if token_type v \<noteq> Positional
              then (True, rest, c, errors @ [''Expected argument to option: '' @ token_data t])
              else
                (case set_arg (boundField a) c (token_data v) of
                   Inl e \<Rightarrow> try_options t as rest' c (errors @ [while_parsing e a])
                 | Inr c \<Rightarrow> (True, rest', c, errors))
        else
          case setFlag (boundField a) c of
            Inl e \<Rightarrow> try_options t as rest c (errors @ [while_parsing e a])
          | Inr c \<Rightarrow> (True, rest, c, errors)
      else try_options t as rest c errors)"

lemma try_options_rest: "try_options t as rest c errors = (b, rest', c', errors') \<Longrightarrow> length rest' \<le> length rest"
proof (induction t as rest c errors rule: try_options.induct)
  case (2 t a as rest c errors)
  then show ?case by (fastforce split: if_splits list.splits sum.splits)
qed simp

function option_tokens ::
  "'c CommandLine \<Rightarrow> Token list \<Rightarrow> 'c \<Rightarrow> Token list \<Rightarrow> string list \<Rightarrow> Token list \<times> 'c \<times> string list" where
  "option_tokens cli [] c unused errors = (unused, c, errors)"
| "option_tokens cli (t # ts) c unused errors =
     (case try_options t (m_options cli) ts c errors of
        (found, rest, c, errors) \<Rightarrow>
          if found then option_tokens cli rest c unused errors
          else if token_type t = Positional \<or> \<not> m_throwOnUnrecognisedTokens cli
          then option_tokens cli rest c (unused @ [t]) errors
          else option_tokens cli rest c unused (errors @ [''unrecognised option: '' @ token_data t]))"
  by pat_completeness auto
termination
  by (relation "measure (\<lambda>(cli, ts, c, unused, errors). length ts)") (auto simp: less_Suc_eq_le dest: try_options_rest [OF sym])

text \<open>A result is an exception or the tokens left, with the configuration, which is changed in place.\<close>

type_synonym 'c parsed = "(string + Token list) \<times> 'c"

definition populateOptions :: "'c CommandLine \<Rightarrow> Token list \<Rightarrow> 'c \<Rightarrow> 'c parsed" where
  "populateOptions cli tokens c =
     (case option_tokens cli tokens c [] [] of
        (unused, c, errors) \<Rightarrow> (if errors \<noteq> [] then Inl (print_lines errors) else Inr unused, c))"

fun fixed_args :: "'c CommandLine \<Rightarrow> int \<Rightarrow> Token list \<Rightarrow> 'c \<Rightarrow> Token list \<Rightarrow> 'c parsed" where
  "fixed_args cli pos [] c unused = (Inr unused, c)"
| "fixed_args cli pos (t # ts) c unused =
     (let next = (if token_type t = Positional then pos + 1 else pos) in
      case map_of (m_positionalArgs cli) pos of
        None \<Rightarrow> fixed_args cli next ts c (unused @ [t])
      | Some a \<Rightarrow>
          (case set_arg (boundField a) c (token_data t) of
             Inl e \<Rightarrow> (Inl e, c)
           | Inr c \<Rightarrow> fixed_args cli next ts c unused))"

definition populateFixedArgs :: "'c CommandLine \<Rightarrow> Token list \<Rightarrow> 'c \<Rightarrow> 'c parsed" where
  "populateFixedArgs cli tokens c = fixed_args cli 1 tokens c []"

fun floating_args :: "'c Arg \<Rightarrow> Token list \<Rightarrow> 'c \<Rightarrow> Token list \<Rightarrow> 'c parsed" where
  "floating_args a [] c unused = (Inr unused, c)"
| "floating_args a (t # ts) c unused =
     (if token_type t = Positional
      then
        case set_arg (boundField a) c (token_data t) of
          Inl e \<Rightarrow> (Inl e, c)
        | Inr c \<Rightarrow> floating_args a ts c unused
      else floating_args a ts c (unused @ [t]))"

definition populateFloatingArgs :: "'c CommandLine \<Rightarrow> Token list \<Rightarrow> 'c \<Rightarrow> 'c parsed" where
  "populateFloatingArgs cli tokens c =
     (case m_floatingArg cli of None \<Rightarrow> (Inr tokens, c) | Some a \<Rightarrow> floating_args a tokens c [])"

definition parsed_then :: "'c parsed \<Rightarrow> (Token list \<Rightarrow> 'c \<Rightarrow> 'c parsed) \<Rightarrow> 'c parsed" where
  "parsed_then r f = (case r of (Inl e, c) \<Rightarrow> (Inl e, c) | (Inr ts, c) \<Rightarrow> f ts c)"

definition populate :: "'c CommandLine \<Rightarrow> Token list \<Rightarrow> 'c \<Rightarrow> 'c parsed" where
  "populate cli tokens c =
     (case validate cli of
        Inl e \<Rightarrow> (Inl e, c)
      | Inr _ \<Rightarrow> parsed_then (parsed_then (populateOptions cli tokens c) (populateFixedArgs cli)) (populateFloatingArgs cli))"

definition process_name :: "string \<Rightarrow> string" where
  "process_name s =
     (case find_last_of {CHR ''/'', CHR 0x5C} (length s) s of None \<Rightarrow> s | Some k \<Rightarrow> drop (k + 1) s)"

text \<open>\<open>argv\<close> has at least the name of the program.\<close>

definition parseInto :: "'c CommandLine \<Rightarrow> string list \<Rightarrow> 'c \<Rightarrow> 'c parsed" where
  "parseInto cli argv c =
     (case set_arg (m_boundProcessName cli) c (process_name (argv ! 0)) of
        Inl e \<Rightarrow> (Inl e, c)
      | Inr c \<Rightarrow> populate cli (parseIntoTokens argv) c)"

subsection \<open>Usage\<close>

text \<open>One line of the two columns, the names of an option and its description.\<close>

definition usage_row :: "nat \<Rightarrow> nat \<Rightarrow> string list \<Rightarrow> string list \<Rightarrow> nat \<Rightarrow> text_fault + string" where
  "usage_row maxWidth ind usage desc i =
     (let usageCol = (if i < length usage then usage ! i else []) in
      if i < length desc \<and> desc ! i \<noteq> []
      then map_sum id (\<lambda>b. usageCol @ b @ desc ! i @ [CHR 0x0A]) (blanks (size_minus (ind + 2 + maxWidth) (length usageCol)))
      else Inr (usageCol @ [CHR 0x0A]))"

fun concat_sum :: "('e + string) list \<Rightarrow> 'e + string" where
  "concat_sum [] = Inr []"
| "concat_sum (Inl e # rs) = Inl e"
| "concat_sum (Inr s # rs) = map_sum id (\<lambda>t. s @ t) (concat_sum rs)"

definition option_usage :: "nat \<Rightarrow> nat \<Rightarrow> nat \<Rightarrow> 'c Arg \<Rightarrow> text_fault + string" where
  "option_usage maxWidth ind wid a =
     (case Text_new (commands a) (TextAttributes_new\<lparr>width := maxWidth + ind, indent := ind\<rparr>) of
        Inl e \<Rightarrow> Inl e
      | Inr usage \<Rightarrow>
          (case Text_new (arg_description a) (TextAttributes_new\<lparr>width := size_minus (size_minus wid maxWidth) 3\<rparr>) of
             Inl e \<Rightarrow> Inl e
           | Inr desc \<Rightarrow> concat_sum (map (usage_row maxWidth ind usage desc) [0..<max (length usage) (length desc)])))"

definition optUsage :: "nat \<Rightarrow> nat \<Rightarrow> 'c CommandLine \<Rightarrow> text_fault + string" where
  "optUsage ind wid cli =
     (let maxWidth = foldl (\<lambda>m a. max m (length (commands a))) 0 (m_options cli)
      in concat_sum (map (option_usage maxWidth ind wid) (m_options cli)))"

text \<open>\<open>None\<close>: positions with a gap, and no floating argument.\<close>

definition synopsis_at :: "'c CommandLine \<Rightarrow> int \<Rightarrow> string option" where
  "synopsis_at cli i =
     (let s = (if i > 1 then '' '' else []) in
      case map_of (m_positionalArgs cli) i of
        Some a \<Rightarrow> Some (s @ ''<'' @ placeholder a @ ''>'')
      | None \<Rightarrow> map_option (\<lambda>a. s @ ''<'' @ placeholder a @ ''>'') (m_floatingArg cli))"

definition argSynopsis :: "'c CommandLine \<Rightarrow> string option" where
  "argSynopsis cli =
     (let ps = map (synopsis_at cli) [1..m_highestSpecifiedArgPosition cli] in
      if None \<in> set ps then None
      else
        let s = concat (map the ps) in
        Some (case m_floatingArg cli of
            None \<Rightarrow> s
          | Some a \<Rightarrow> s @ (if m_highestSpecifiedArgPosition cli > 1 then '' '' else []) @ ''[<'' @ placeholder a @ ''> ...]''))"

definition usage :: "'c CommandLine \<Rightarrow> string \<Rightarrow> text_fault + string" where
  "usage cli procName =
     (case (validate cli, argSynopsis cli) of
        (Inr _, Some synopsis) \<Rightarrow>
          (let start = ''usage:'' @ [CHR 0x0A] @ ''  '' @ procName @ '' '' @ synopsis in
           if m_options cli \<noteq> []
           then map_sum id
             (\<lambda>s. start @ '' [options]'' @ [CHR 0x0A, CHR 0x0A] @ ''where options are: '' @ [CHR 0x0A] @ s @ [CHR 0x0A])
             (optUsage 2 80 cli)
           else Inr (start @ [CHR 0x0A]))
      | _ \<Rightarrow> Inl LogicError)"

section \<open>Parsing a command line\<close>

text \<open>What one writes on a command line: an option, by one of its names, with its value if it takes one; or a word.\<close>

datatype 'c cl_item = Opt "'c Arg" Token "string option" | Word string

definition render_token :: "Token \<Rightarrow> string" where
  "render_token t =
     (case token_type t of Positional \<Rightarrow> token_data t | ShortOpt \<Rightarrow> ''-'' @ token_data t | LongOpt \<Rightarrow> ''--'' @ token_data t)"

fun item_words :: "'c cl_item \<Rightarrow> string list" where
  "item_words (Opt a t v) = render_token t # (case v of None \<Rightarrow> [] | Some v \<Rightarrow> [v])"
| "item_words (Word w) = [w]"

definition plain_word :: "string \<Rightarrow> bool" where
  "plain_word w \<longleftrightarrow> w \<noteq> [] \<and> hd w \<noteq> CHR ''-''"

definition option_name :: "Token \<Rightarrow> bool" where
  "option_name t \<longleftrightarrow> set (token_data t) \<inter> separators = {} \<and>
     (token_type t = ShortOpt \<and> length (token_data t) = 1 \<and> token_data t \<noteq> ''-'' \<or> token_type t = LongOpt \<and> token_data t \<noteq> [])"

text \<open>The option is the first that goes by the name.\<close>

fun valid_item :: "'c CommandLine \<Rightarrow> 'c cl_item \<Rightarrow> bool" where
  "valid_item cli (Opt a t v) \<longleftrightarrow>
     option_name t \<and> find (matches_token t) (m_options cli) = Some a \<and>
     (case v of None \<Rightarrow> \<not> takesArg a | Some v \<Rightarrow> takesArg a \<and> plain_word v)"
| "valid_item cli (Word w) \<longleftrightarrow> plain_word w"

text \<open>What the items mean: the options are set in order, then the floating argument takes the words.\<close>

fun set_items :: "'c cl_item list \<Rightarrow> 'c \<Rightarrow> string + 'c" where
  "set_items [] c = Inr c"
| "set_items (Opt a t v # is) c =
     (case (case v of None \<Rightarrow> setFlag (boundField a) c | Some v \<Rightarrow> set_arg (boundField a) c v) of
        Inl e \<Rightarrow> Inl e
      | Inr c \<Rightarrow> set_items is c)"
| "set_items (Word w # is) c = set_items is c"

fun take_words :: "'c Arg \<Rightarrow> 'c cl_item list \<Rightarrow> 'c \<Rightarrow> string + 'c" where
  "take_words f [] c = Inr c"
| "take_words f (Word w # is) c = (case set_arg (boundField f) c w of Inl e \<Rightarrow> Inl e | Inr c \<Rightarrow> take_words f is c)"
| "take_words f (Opt a t v # is) c = take_words f is c"

fun item_tokens :: "'c cl_item \<Rightarrow> Token list" where
  "item_tokens (Opt a t v) = t # (case v of None \<Rightarrow> [] | Some v \<Rightarrow> [Token_new Positional v])"
| "item_tokens (Word w) = [Token_new Positional w]"

lemma word_tokens_plain: "plain_word w \<Longrightarrow> word_tokens w = [Token_new Positional w]"
  by (subst word_tokens.simps) (auto simp: plain_word_def word_tokens.simps [of "[]"] first_token_def Token_new_def char_at_def hd_conv_nth)

lemma word_tokens_option:
  assumes "option_name t"
  shows "word_tokens (render_token t) = [t]" "''--'' \<noteq> render_token t"
proof -
  have "find_first_of separators (token_data t) = None" using assms by (simp add: option_name_def find_first_of_None)
  moreover obtain ty d where t: "t = \<lparr>token_type = ty, token_data = d\<rparr>" by (cases t) auto
  ultimately have "first_token (render_token t) = (t, []) \<and> render_token t \<noteq> [] \<and> render_token t \<noteq> ''--''"
    using assms by (cases d) (auto simp: render_token_def option_name_def first_token_def Token_new_def char_at_def Let_def split: token_type.splits)
  then show "word_tokens (render_token t) = [t]" "''--'' \<noteq> render_token t"
    by (auto simp: word_tokens.simps [of "render_token t"] word_tokens.simps [of "[]"])
qed

lemma items_tokens:
  assumes "\<forall>i\<in>set is. valid_item cli i"
  shows "parseIntoTokens (exe # concat (map item_words is)) = concat (map item_tokens is)"
proof -
  have w: "concat (map word_tokens (item_words i)) = item_tokens i \<and> ''--'' \<notin> set (item_words i)" if "valid_item cli i" for i
    using that by (cases i) (auto simp: word_tokens_option word_tokens_plain plain_word_def split: option.splits)
  then have "takeWhile (\<lambda>w. w \<noteq> ''--'') (concat (map item_words is)) = concat (map item_words is)"
    using assms by (auto simp: takeWhile_eq_all_conv)
  moreover have "concat (map word_tokens (concat (map item_words is))) = concat (map item_tokens is)"
    using assms w by (induction "is") auto
  ultimately show ?thesis by (simp only: parseIntoTokens_def drop_Suc_Cons drop_0 One_nat_def)
qed

text \<open>The loop over the options finds the right one.\<close>

lemma try_options_found:
  assumes "find (matches_token t) as = Some a"
  shows "\<not> takesArg a \<Longrightarrow> setFlag (boundField a) c = Inr c' \<Longrightarrow> try_options t as rest c errors = (True, rest, c', errors)"
    "takesArg a \<Longrightarrow> set_arg (boundField a) c v = Inr c' \<Longrightarrow>
       try_options t as (Token_new Positional v # rest) c errors = (True, rest, c', errors)"
  using assms by (induction "as") (auto simp: Token_new_def split: if_splits)

lemma try_options_none:
  "\<forall>a\<in>set as. \<not> matches_token t a \<Longrightarrow> try_options t as rest c errors = (False, rest, c, errors)"
  by (induction "as") auto

lemma positional_matches_nothing [simp]: "\<not> matches_token (Token_new Positional w) a"
  by (simp add: matches_token_def Token_new_def)

text \<open>The words that the options leave.\<close>

fun item_words_left :: "'c cl_item \<Rightarrow> Token list" where
  "item_words_left (Word w) = [Token_new Positional w]"
| "item_words_left (Opt a t v) = []"

lemma option_tokens_items:
  assumes "\<forall>i\<in>set is. valid_item cli i" "set_items is c = Inr c'"
  shows "option_tokens cli (concat (map item_tokens is)) c unused errors = (unused @ concat (map item_words_left is), c', errors)"
  using assms
proof (induction "is" arbitrary: c unused)
  case (Cons i "is")
  show ?case
  proof (cases i)
    case (Opt a t v)
    then show ?thesis
      using Cons by (cases v) (auto simp: try_options_found split: sum.splits)
  next
    case (Word w)
    then show ?thesis
      using Cons by (simp add: try_options_none)
  qed
qed simp

lemma fixed_args_none: "m_positionalArgs cli = [] \<Longrightarrow> fixed_args cli pos ts c unused = (Inr (unused @ ts), c)"
  by (induction ts arbitrary: pos unused) (auto simp: Let_def)

lemma floating_args_words:
  "take_words f is c = Inr c' \<Longrightarrow> floating_args f (concat (map item_words_left is)) c unused = (Inr unused, c')"
proof (induction f "is" c rule: take_words.induct)
  case (2 f w "is" c)
  then show ?case by (simp split: sum.splits)
qed simp_all

text \<open>Errors are only added, and an option is never taken for a value.\<close>

lemma try_options_keeps:
  assumes "try_options t as rest c errors = (b, rest', c', errors')"
  shows "\<exists>es. errors' = errors @ es" "u \<in> set rest \<Longrightarrow> token_type u \<noteq> Positional \<Longrightarrow> u \<in> set rest'"
  using assms
proof (induction t "as" rest c errors rule: try_options.induct)
  case (2 t a as rest c errors)
  {
    case 1
    with 2 show ?case by (fastforce split: if_splits list.splits sum.splits)
  next
    case 2
    with "2.IH" show ?case by (fastforce split: if_splits list.splits sum.splits)
  }
qed simp_all

lemma option_tokens_errors: "\<exists>es. snd (snd (option_tokens cli ts c unused errors)) = errors @ es"
proof (induction cli ts c unused errors rule: option_tokens.induct)
  case (2 cli t ts c unused errors)
  obtain b rest c' errors' where r: "try_options t (m_options cli) ts c errors = (b, rest, c', errors')"
    by (cases "try_options t (m_options cli) ts c errors") auto
  obtain es where es: "errors' = errors @ es" using try_options_keeps(1) [OF r] by blast
  note IH = 2 [OF r [symmetric] refl refl]
  show ?case
  proof (cases b)
    case True
    then show ?thesis using IH(1) r es by auto
  next
    case False
    then show ?thesis using IH(2,3) r es by auto
  qed
qed simp

lemma unknown_token:
  assumes "t \<in> set ts" "token_type t \<noteq> Positional" "\<forall>a\<in>set (m_options cli). \<not> matches_token t a"
    "m_throwOnUnrecognisedTokens cli"
  shows "snd (snd (option_tokens cli ts c unused errors)) \<noteq> []"
  using assms
proof (induction cli ts c unused errors rule: option_tokens.induct)
  case (2 cli u ts c unused errors)
  obtain b rest c' errors' where r: "try_options u (m_options cli) ts c errors = (b, rest, c', errors')"
    by (cases "try_options u (m_options cli) ts c errors") auto
  show ?case
  proof (cases "u = t")
    case True
    then have "try_options u (m_options cli) ts c errors = (False, ts, c, errors)" using "2.prems"(3) by (simp add: try_options_none)
    then show ?thesis
      using True "2.prems"(2,4) option_tokens_errors [of cli ts c unused "errors @ [''unrecognised option: '' @ token_data t]"] by auto
  next
    case False
    then have "t \<in> set rest" using try_options_keeps(2) [OF r] "2.prems"(1,2) by auto
    then show ?thesis using "2.IH" [OF r [symmetric] refl refl] "2.prems"(2-4) r by auto
  qed
qed simp

lemma items_parsed:
  assumes "\<forall>i\<in>set is. valid_item cli i" "m_positionalArgs cli = []" "m_floatingArg cli = Some f"
    "set_arg (m_boundProcessName cli) c (process_name exe) = Inr c1" "set_items is c1 = Inr c2" "take_words f is c2 = Inr c3"
  shows "parseInto cli (exe # concat (map item_words is)) c = (Inr [], c3)"
  using assms items_tokens [OF assms(1)] option_tokens_items [OF assms(1,5), of "[]" "[]"] floating_args_words [OF assms(6), of "[]"]
  by (simp add: parseInto_def populate_def validate_def populateOptions_def populateFixedArgs_def fixed_args_none
    populateFloatingArgs_def parsed_then_def)

text \<open>An option nobody knows makes the whole parse fail.\<close>

lemma unknown_option_fails:
  assumes "t \<in> set (parseIntoTokens argv)" "token_type t \<noteq> Positional" "\<forall>a\<in>set (m_options cli). \<not> matches_token t a"
    "m_throwOnUnrecognisedTokens cli"
  shows "\<exists>e c'. parseInto cli argv c = (Inl e, c')"
proof -
  have failed: "\<exists>e c'. populateOptions cli (parseIntoTokens argv) c = (Inl e, c')" for c
    using unknown_token [OF assms, of c "[]" "[]"] by (auto simp: populateOptions_def split: prod.splits)
  have "\<exists>e c'. populate cli (parseIntoTokens argv) c = (Inl e, c')" for c
  proof -
    obtain e c' where "populateOptions cli (parseIntoTokens argv) c = (Inl e, c')" using failed by blast
    then show ?thesis by (cases "validate cli") (simp_all add: populate_def parsed_then_def)
  qed
  then show ?thesis by (cases "set_arg (m_boundProcessName cli) c (process_name (argv ! 0))") (simp_all add: parseInto_def)
qed

end
