(* ===== verification/CatchXml.thy ===== *)
theory CatchXml
  imports CatchText
begin

text \<open>
  The XML writer of Catch: the open elements, the indent and what has been written to the stream. An
  operation that takes the last element of an empty vector is \<open>None\<close>. A scanner, which is no part of the
  program, says when the markup of a document is right; each operation of the writer is shown to keep its
  output one that the scanner can go on with.
\<close>

section \<open>The writer\<close>

record XmlWriter =
  m_tagIsOpen :: bool
  m_needsNewline :: bool
  m_tags :: "string list"
  m_indent :: string
  m_os :: string

definition XmlWriter_new :: XmlWriter where
  "XmlWriter_new = \<lparr>m_tagIsOpen = False, m_needsNewline = False, m_tags = [], m_indent = [], m_os = []\<rparr>"

definition put :: "string \<Rightarrow> XmlWriter \<Rightarrow> XmlWriter" where
  "put s w = w\<lparr>m_os := m_os w @ s\<rparr>"

definition ensureTagClosed :: "XmlWriter \<Rightarrow> XmlWriter" where
  "ensureTagClosed w = (if m_tagIsOpen w then (put [CHR ''>'', CHR 0x0A] w)\<lparr>m_tagIsOpen := False\<rparr> else w)"

definition newlineIfNecessary :: "XmlWriter \<Rightarrow> XmlWriter" where
  "newlineIfNecessary w = (if m_needsNewline w then (put [CHR 0x0A] w)\<lparr>m_needsNewline := False\<rparr> else w)"

definition charsToEncode :: "char set" where
  "charsToEncode = {CHR ''<'', CHR ''&'', CHR 0x22}"

definition entity :: "char \<Rightarrow> string" where
  "entity c =
     (if c = CHR ''<'' then ''&lt;'' else if c = CHR ''&'' then ''&amp;'' else if c = CHR 0x22 then ''&quot;'' else [])"

text \<open>What \<open>writeEncodedText\<close> writes.\<close>

function encoded :: "string \<Rightarrow> string" where
  "encoded mtext =
     (case find_first_of charsToEncode mtext of
        None \<Rightarrow> mtext
      | Some pos \<Rightarrow> take pos mtext @ entity (mtext ! pos) @ encoded (drop (pos + 1) mtext))"
  by pat_completeness auto
termination
  by (relation "measure length") (auto simp: find_first_of_Some)

declare encoded.simps [simp del]

definition writeEncodedText :: "string \<Rightarrow> XmlWriter \<Rightarrow> XmlWriter" where
  "writeEncodedText s w = put (encoded s) w"

definition startElement :: "string \<Rightarrow> XmlWriter \<Rightarrow> XmlWriter" where
  "startElement name w =
     (let w = newlineIfNecessary (ensureTagClosed w);
          w = put (m_indent w @ ''<'' @ name) w
      in w\<lparr>m_tags := m_tags w @ [name], m_indent := m_indent w @ ''  '', m_tagIsOpen := True\<rparr>)"

definition endElement :: "XmlWriter \<Rightarrow> XmlWriter option" where
  "endElement w =
     (let w = newlineIfNecessary w;
          w = w\<lparr>m_indent := take (size_minus (length (m_indent w)) 2) (m_indent w)\<rparr>
      in if m_tags w = [] then None
         else
           let w = (if m_tagIsOpen w then (put (''/>'' @ [CHR 0x0A]) w)\<lparr>m_tagIsOpen := False\<rparr>
                    else put (m_indent w @ ''</'' @ last (m_tags w) @ ''>'' @ [CHR 0x0A]) w)
           in Some (w\<lparr>m_tags := butlast (m_tags w)\<rparr>))"

text \<open>An attribute that is a string, one that is a truth value, and one that is printed by the stream.\<close>

definition writeAttribute :: "string \<Rightarrow> string \<Rightarrow> XmlWriter \<Rightarrow> XmlWriter" where
  "writeAttribute name attribute w =
     (if name \<noteq> [] \<and> attribute \<noteq> []
      then put [CHR 0x22] (writeEncodedText attribute (put ('' '' @ name @ [CHR ''='', CHR 0x22]) w))
      else w)"

definition writeAttribute_bool :: "string \<Rightarrow> bool \<Rightarrow> XmlWriter \<Rightarrow> XmlWriter" where
  "writeAttribute_bool name attribute w =
     put ('' '' @ name @ [CHR ''='', CHR 0x22] @ (if attribute then ''true'' else ''false'') @ [CHR 0x22]) w"

definition writeAttribute_nat :: "string \<Rightarrow> nat \<Rightarrow> XmlWriter \<Rightarrow> XmlWriter" where
  "writeAttribute_nat name attribute w =
     (if name \<noteq> [] then put ('' '' @ name @ [CHR ''='', CHR 0x22] @ decimal attribute @ [CHR 0x22]) w else w)"

definition writeText :: "string \<Rightarrow> bool \<Rightarrow> XmlWriter \<Rightarrow> XmlWriter" where
  "writeText s ind w =
     (if s \<noteq> []
      then
        let tagWasOpen = m_tagIsOpen w;
            w = ensureTagClosed w;
            w = (if tagWasOpen \<and> ind then put (m_indent w) w else w)
        in (writeEncodedText s w)\<lparr>m_needsNewline := True\<rparr>
      else w)"

definition writeComment :: "string \<Rightarrow> XmlWriter \<Rightarrow> XmlWriter" where
  "writeComment s w =
     (let w = ensureTagClosed w in (put (m_indent w @ ''<!--'' @ s @ ''-->'') w)\<lparr>m_needsNewline := True\<rparr>)"

definition writeBlankLine :: "XmlWriter \<Rightarrow> XmlWriter" where
  "writeBlankLine w = put [CHR 0x0A] (ensureTagClosed w)"

text \<open>\<open>scopedElement\<close>: the element is open while \<open>f\<close> writes, and is ended by the destructor of the scope.\<close>

definition scopedElement :: "string \<Rightarrow> (XmlWriter \<Rightarrow> XmlWriter) \<Rightarrow> XmlWriter \<Rightarrow> XmlWriter option" where
  "scopedElement name f w = endElement (f (startElement name w))"

text \<open>The destructor of the writer ends the elements that are still open; it cannot fail.\<close>

function XmlWriter_delete :: "XmlWriter \<Rightarrow> XmlWriter" where
  "XmlWriter_delete w =
     (if m_tags w = [] then w else case endElement w of None \<Rightarrow> w | Some w \<Rightarrow> XmlWriter_delete w)"
  by pat_completeness auto
termination
  by (relation "measure (\<lambda>w. length (m_tags w))")
    (auto simp: endElement_def newlineIfNecessary_def put_def Let_def split: if_splits)

declare XmlWriter_delete.simps [simp del]

section \<open>Encoding\<close>

definition encode_char :: "char \<Rightarrow> string" where
  "encode_char c = (if c \<in> charsToEncode then entity c else [c])"

lemma concat_singletons: "\<forall>c\<in>set s. f c = [c] \<Longrightarrow> concat (map f s) = s"
  by (induction s) auto

lemma encoded_map: "encoded s = concat (map encode_char s)"
proof (induction s rule: encoded.induct)
  case (1 s)
  show ?case
  proof (cases "find_first_of charsToEncode s")
    case None
    then have "concat (map encode_char s) = s" by (intro concat_singletons) (auto simp: find_first_of_None encode_char_def)
    then show ?thesis using None by (simp add: encoded.simps [of s])
  next
    case (Some p)
    then have p: "p < length s" "s ! p \<in> charsToEncode" "\<forall>i<p. s ! i \<notin> charsToEncode" by (auto simp: find_first_of_Some)
    then have "concat (map encode_char (take p s)) = take p s"
      by (intro concat_singletons) (auto simp: encode_char_def in_set_conv_nth)
    moreover have "s = take p s @ s ! p # drop (p + 1) s" using p(1) by (simp add: id_take_nth_drop)
    then have "concat (map encode_char s) =
        concat (map encode_char (take p s)) @ encode_char (s ! p) @ concat (map encode_char (drop (p + 1) s))"
      by (metis concat.simps(2) concat_append list.simps(9) map_append)
    moreover have "encode_char (s ! p) = entity (s ! p)" using p(2) by (simp add: encode_char_def)
    ultimately show ?thesis
      using 1 [OF Some] Some by (simp add: encoded.simps [of s])
  qed
qed

lemma encoded_simps [simp]: "encoded [] = []" "encoded (c # s) = encode_char c @ encoded s"
  by (simp_all add: encoded_map)

section \<open>Markup\<close>

text \<open>
  The scanner goes through a document character by character: where it is, the open elements, innermost
  first, and whether the root has been seen. It insists on one root, on elements that are ended by their own name,
  on attributes in quotes, no two of an element with the same name, and on known entities. That is less than
  XML asks for: it also forbids certain characters, and in a text the three that end a CDATA section,
  and the writer lets them through.
\<close>

datatype place =
    Content | Less
  | Name string
  | Blank string "string list" | Attr string "string list" string | Equals string "string list" | Value string "string list"
  | Quoted string "string list"
  | Slash | Ended string
  | Entity place string

definition letter :: "char \<Rightarrow> bool" where
  "letter c \<longleftrightarrow> (let n = of_char c :: nat in 65 \<le> n \<and> n \<le> 90 \<or> 97 \<le> n \<and> n \<le> 122)"

definition name_char :: "char \<Rightarrow> bool" where
  "name_char c \<longleftrightarrow> letter c \<or> c = CHR ''-''"

definition known_entities :: "string list" where
  "known_entities = [''lt'', ''gt'', ''amp'', ''quot'', ''apos'']"

definition space :: "char \<Rightarrow> bool" where
  "space c \<longleftrightarrow> c = CHR '' '' \<or> c = CHR 0x0A"

type_synonym scanner = "place \<times> string list \<times> bool"

text \<open>After the name of an element or the quotes of a value.\<close>

definition in_tag :: "string \<Rightarrow> string list \<Rightarrow> string list \<Rightarrow> bool \<Rightarrow> char \<Rightarrow> scanner option" where
  "in_tag n used es r c =
     (if c = CHR '' '' then Some (Blank n used, es, r)
      else if c = CHR ''/'' then Some (Slash, es, r)
      else if c = CHR ''>'' then Some (Content, n # es, r)
      else None)"

fun scan_char :: "scanner \<Rightarrow> char \<Rightarrow> scanner option" where
  "scan_char (Content, es, r) c =
     (if c = CHR ''<'' then Some (Less, es, r)
      else if es = [] then if space c then Some (Content, es, r) else None
      else if c = CHR ''&'' then Some (Entity Content [], es, r)
      else Some (Content, es, r))"
| "scan_char (Less, es, r) c =
     (if c = CHR ''/'' then Some (Ended [], es, r)
      else if letter c \<and> (es = [] \<longrightarrow> \<not> r) then Some (Name [c], es, True)
      else None)"
| "scan_char (Name n, es, r) c = (if name_char c then Some (Name (n @ [c]), es, r) else in_tag n [] es r c)"
| "scan_char (Blank n used, es, r) c = (if letter c then Some (Attr n used [c], es, r) else in_tag n used es r c)"
| "scan_char (Attr n used a, es, r) c =
     (if name_char c then Some (Attr n used (a @ [c]), es, r)
      else if c = CHR ''='' \<and> a \<notin> set used then Some (Equals n (a # used), es, r)
      else None)"
| "scan_char (Equals n used, es, r) c = (if c = CHR 0x22 then Some (Value n used, es, r) else None)"
| "scan_char (Value n used, es, r) c =
     (if c = CHR 0x22 then Some (Quoted n used, es, r)
      else if c = CHR ''<'' then None
      else if c = CHR ''&'' then Some (Entity (Value n used) [], es, r)
      else Some (Value n used, es, r))"
| "scan_char (Quoted n used, es, r) c = in_tag n used es r c"
| "scan_char (Slash, es, r) c = (if c = CHR ''>'' then Some (Content, es, r) else None)"
| "scan_char (Ended n, es, r) c =
     (if name_char c then Some (Ended (n @ [c]), es, r)
      else if c = CHR ''>'' \<and> es \<noteq> [] \<and> hd es = n then Some (Content, tl es, r)
      else None)"
| "scan_char (Entity p n, es, r) c =
     (if c = CHR '';'' then if n \<in> set known_entities then Some (p, es, r) else None
      else if letter c then Some (Entity p (n @ [c]), es, r)
      else None)"

primrec scan :: "string \<Rightarrow> scanner \<Rightarrow> scanner option" where
  "scan [] q = Some q"
| "scan (c # s) q = (case scan_char q c of None \<Rightarrow> None | Some q \<Rightarrow> scan s q)"

definition markup_ok :: "string \<Rightarrow> bool" where
  "markup_ok s \<longleftrightarrow> scan s (Content, [], False) = Some (Content, [], True)"

lemma scan_append: "scan (s @ t) q = (case scan s q of None \<Rightarrow> None | Some q \<Rightarrow> scan t q)"
  by (induction s arbitrary: q) (auto split: option.splits)

text \<open>What the scanner makes of the pieces that the writer puts together.\<close>

definition element_name :: "string \<Rightarrow> bool" where
  "element_name n \<longleftrightarrow> n \<noteq> [] \<and> letter (hd n) \<and> (\<forall>c\<in>set n. name_char c)"

lemma letter_neq [simp]: "letter c \<Longrightarrow> c \<noteq> CHR '' '' \<and> c \<noteq> CHR ''='' \<and> c \<noteq> CHR ''>'' \<and> c \<noteq> CHR ''/'' \<and> c \<noteq> CHR ''<'' \<and> c \<noteq> CHR ''&'' \<and> c \<noteq> CHR '';''"
  by (auto simp: letter_def)

lemma name_char_neq [simp]: "name_char c \<Longrightarrow> c \<noteq> CHR '' '' \<and> c \<noteq> CHR ''='' \<and> c \<noteq> CHR ''>'' \<and> c \<noteq> CHR ''/'' \<and> c \<noteq> CHR ''<'' \<and> c \<noteq> CHR ''&'' \<and> c \<noteq> CHR '';''"
  by (auto simp: name_char_def letter_def)

lemma scan_letters:
  assumes "\<forall>c\<in>set s. name_char c"
  shows "scan s (Name n, es, r) = Some (Name (n @ s), es, r)"
    "scan s (Attr n used a, es, r) = Some (Attr n used (a @ s), es, r)"
    "scan s (Ended n, es, r) = Some (Ended (n @ s), es, r)"
  using assms by (induction s arbitrary: n a) auto

lemma scan_spaces: "\<forall>c\<in>set s. space c \<Longrightarrow> scan s (Content, es, r) = Some (Content, es, r)"
  by (induction s) (auto simp: space_def)

lemma not_letter [simp]:
  "\<not> letter CHR '' ''" "\<not> letter CHR ''=''" "\<not> letter CHR ''>''" "\<not> letter CHR ''/''" "\<not> letter CHR 0x0A" "\<not> letter CHR 0x22"
  "\<not> name_char CHR '' ''" "\<not> name_char CHR ''=''" "\<not> name_char CHR ''>''" "\<not> name_char CHR ''/''" "\<not> name_char CHR 0x0A" "\<not> name_char CHR 0x22"
  by (simp_all add: name_char_def letter_def)

lemma scan_end_tag:
  assumes "element_name n"
  shows "scan (replicate k CHR '' '' @ ''</'' @ n @ ''>'' @ [CHR 0x0A]) (Content, n # es, r) = Some (Content, es, r)"
  using assms by (auto simp: scan_append scan_spaces scan_letters element_name_def space_def)

lemma scan_encoded:
  "es \<noteq> [] \<Longrightarrow> scan (encoded s) (Content, es, r) = Some (Content, es, r)"
  "scan (encoded s) (Value n used, es, r) = Some (Value n used, es, r)"
proof -
  have e: "scan (encode_char c) (p, es, r) = Some (p, es, r)" if "p = Content \<and> es \<noteq> [] \<or> p = Value n used" for c p
    using that by (auto simp: encode_char_def charsToEncode_def entity_def letter_def known_entities_def)
  show "es \<noteq> [] \<Longrightarrow> scan (encoded s) (Content, es, r) = Some (Content, es, r)"
    by (induction s) (simp_all add: scan_append e)
  show "scan (encoded s) (Value n used, es, r) = Some (Value n used, es, r)"
    by (induction s) (simp_all add: scan_append e)
qed

lemma scan_plain:
  assumes "\<forall>c\<in>set s. c \<notin> charsToEncode"
  shows "scan s (Value n used, es, r) = Some (Value n used, es, r)"
  using assms by (induction s) (auto simp: charsToEncode_def)

section \<open>The writer and the scanner\<close>

text \<open>
  The output of a writer is one that the scanner accepts, and the scanner is where the writer is: with
  \<open>Some used\<close> in a tag that has these attributes, with \<open>None\<close> between tags.
\<close>

definition scanned :: "XmlWriter \<Rightarrow> place \<Rightarrow> string list \<Rightarrow> bool" where
  "scanned w p ns \<longleftrightarrow> (\<exists>r. scan (m_os w) (Content, [], False) = Some (p, rev ns, r) \<and> (m_os w \<noteq> [] \<longrightarrow> r))"

definition consistent :: "string list option \<Rightarrow> XmlWriter \<Rightarrow> bool" where
  "consistent u w \<longleftrightarrow>
     m_indent w = replicate (2 * length (m_tags w)) CHR '' '' \<and> (\<forall>n\<in>set (m_tags w). element_name n) \<and>
     (m_tagIsOpen w \<longleftrightarrow> u \<noteq> None) \<and> (m_needsNewline w \<longrightarrow> u = None \<and> m_os w \<noteq> []) \<and>
     (case u of
        None \<Rightarrow> scanned w Content (m_tags w)
      | Some used \<Rightarrow> m_os w \<noteq> [] \<and> m_tags w \<noteq> [] \<and>
          (\<exists>p\<in>{Name (last (m_tags w)), Quoted (last (m_tags w)) used}. scanned w p (butlast (m_tags w)) \<and>
            (p = Name (last (m_tags w)) \<longrightarrow> used = [])))"

lemma scanned_put:
  assumes "scanned w p ns" "\<And>r. r = (m_os w \<noteq> []) \<Longrightarrow> scan s (p, rev ns, r) = Some (q, rev ms, r \<or> b)" "m_os w \<noteq> [] \<or> b \<or> s = []"
  shows "scanned (put s w) q ms"
proof -
  obtain r where "scan (m_os w) (Content, [], False) = Some (p, rev ns, r)" "m_os w \<noteq> [] \<longrightarrow> r"
    using assms(1) by (auto simp: scanned_def)
  moreover from this have "r = (m_os w \<noteq> [])" by (cases "m_os w = []") auto
  ultimately show ?thesis using assms(2) [of r] assms(3) by (auto simp: scanned_def put_def scan_append)
qed

lemma put_simps [simp]:
  "m_tags (put s w) = m_tags w" "m_indent (put s w) = m_indent w" "m_tagIsOpen (put s w) = m_tagIsOpen w"
  "m_needsNewline (put s w) = m_needsNewline w" "m_os (put s w) = m_os w @ s"
  by (simp_all add: put_def)

lemma put_indent [simp]: "put s (w\<lparr>m_indent := i\<rparr>) = (put s w)\<lparr>m_indent := i\<rparr>"
  by (simp add: put_def)

lemma replicate_two_more [simp]: "replicate (2 * n) c @ [c, c] = c # c # replicate (2 * n) c"
  by (induction n) auto

lemma scanned_update [simp]:
  "scanned (w\<lparr>m_tagIsOpen := a\<rparr>) = scanned w" "scanned (w\<lparr>m_needsNewline := a\<rparr>) = scanned w"
  "scanned (w\<lparr>m_tags := ns\<rparr>) = scanned w" "scanned (w\<lparr>m_indent := s\<rparr>) = scanned w"
  by (simp_all add: scanned_def fun_eq_iff)

lemma consistent_new: "consistent None XmlWriter_new"
  by (auto simp: consistent_def XmlWriter_new_def scanned_def)

lemma rev_last: "ns \<noteq> [] \<Longrightarrow> rev ns = last ns # rev (butlast ns)"
  by (induction ns rule: rev_induct) auto

lemma ensureTagClosed_consistent:
  assumes "consistent u w"
  shows "consistent None (ensureTagClosed w)" "m_tags (ensureTagClosed w) = m_tags w"
    "m_os w \<noteq> [] \<Longrightarrow> m_os (ensureTagClosed w) \<noteq> []" "m_os w = [] \<Longrightarrow> ensureTagClosed w = w"
proof -
  show "consistent None (ensureTagClosed w)"
  proof (cases u)
    case None
    then show ?thesis using assms by (simp add: ensureTagClosed_def consistent_def)
  next
    case (Some used)
    then obtain p where p: "p \<in> {Name (last (m_tags w)), Quoted (last (m_tags w)) used}" "scanned w p (butlast (m_tags w))"
        "m_tags w \<noteq> []" "m_os w \<noteq> []" "m_tagIsOpen w" "\<not> m_needsNewline w"
      using assms by (auto simp: consistent_def)
    have "scanned (put [CHR ''>'', CHR 0x0A] w) Content (m_tags w)"
      using p(1,4) by (intro scanned_put [OF p(2), where b = False]) (auto simp: in_tag_def letter_def rev_last [OF p(3)])
    then show ?thesis using assms p by (simp add: ensureTagClosed_def consistent_def)
  qed
qed (use assms in \<open>auto simp: ensureTagClosed_def consistent_def split: option.splits\<close>)

lemma newlineIfNecessary_consistent:
  assumes "consistent u w"
  shows "consistent u (newlineIfNecessary w)" "m_tags (newlineIfNecessary w) = m_tags w" "\<not> m_needsNewline (newlineIfNecessary w)"
    "m_os w \<noteq> [] \<Longrightarrow> m_os (newlineIfNecessary w) \<noteq> []" "m_os w = [] \<Longrightarrow> newlineIfNecessary w = w"
proof -
  show "consistent u (newlineIfNecessary w)"
  proof (cases "m_needsNewline w")
    case True
    then have u: "u = None" "m_os w \<noteq> []" "scanned w Content (m_tags w)" using assms by (auto simp: consistent_def)
    then have "scanned (put [CHR 0x0A] w) Content (m_tags w)"
      by (intro scanned_put [OF u(3), where b = False]) (auto simp: space_def)
    then show ?thesis using assms True u(1) by (simp add: newlineIfNecessary_def consistent_def)
  qed (simp add: newlineIfNecessary_def assms)
qed (use assms in \<open>auto simp: newlineIfNecessary_def consistent_def\<close>)

lemma startElement_consistent:
  assumes "consistent u w" "element_name n" "m_tags w \<noteq> [] \<or> m_os w = []"
  shows "consistent (Some []) (startElement n w)" "m_tags (startElement n w) = m_tags w @ [n]"
proof -
  let ?w = "newlineIfNecessary (ensureTagClosed w)"
  note e = ensureTagClosed_consistent [OF assms(1)]
  note l = newlineIfNecessary_consistent [OF e(1)]
  have w: "consistent None ?w" "m_tags ?w = m_tags w" "\<not> m_needsNewline ?w" "m_tags ?w \<noteq> [] \<or> m_os ?w = []"
    using l e(2,4) assms(3) by auto
  then have s: "scanned ?w Content (m_tags ?w)" "m_indent ?w = replicate (2 * length (m_tags ?w)) CHR '' ''"
      "\<not> m_tagIsOpen ?w"
    by (simp_all add: consistent_def)
  have "m_tags ?w \<noteq> [] \<Longrightarrow> m_os ?w \<noteq> []" using s(1) by (auto simp: scanned_def)
  then have "scanned (put (m_indent ?w @ ''<'' @ n) ?w) (Name n) (m_tags ?w)"
    using assms(2) w(4) s(2)
    by (cases n; intro scanned_put [OF s(1), where b = True]) (auto simp: scan_append scan_spaces scan_letters element_name_def space_def)
  then show "consistent (Some []) (startElement n w)" "m_tags (startElement n w) = m_tags w @ [n]"
    using w(1-3) s(2) assms(2) by (auto simp: startElement_def Let_def consistent_def)
qed

lemma endElement_consistent:
  assumes "consistent u w" "m_tags w \<noteq> []"
  shows "\<exists>w'. endElement w = Some w' \<and> consistent None w' \<and> m_tags w' = butlast (m_tags w) \<and> m_os w' \<noteq> []"
proof -
  let ?w = "newlineIfNecessary w"
  note l = newlineIfNecessary_consistent [OF assms(1)]
  have w: "consistent u ?w" "m_tags ?w \<noteq> []" "\<not> m_needsNewline ?w" using l assms(2) by auto
  let ?i = "take (size_minus (length (m_indent ?w)) 2) (m_indent ?w)"
  have "m_indent ?w = replicate (2 * length (m_tags ?w)) CHR '' ''" "0 < length (m_tags ?w)"
    using w(1,2) by (simp_all add: consistent_def)
  then have i: "?i = replicate (2 * length (butlast (m_tags ?w))) CHR '' ''"
    by (simp add: size_minus_def min_def right_diff_distrib' Suc_le_eq)
  have r: "rev (m_tags ?w) = last (m_tags ?w) # rev (butlast (m_tags ?w))" by (rule rev_last [OF w(2)])
  have "m_os ?w \<noteq> []" using w(1,2) by (cases u) (auto simp: consistent_def scanned_def)
  moreover have "scanned (put (if m_tagIsOpen ?w then ''/>'' @ [CHR 0x0A] else ?i @ ''</'' @ last (m_tags ?w) @ ''>'' @ [CHR 0x0A]) ?w)
      Content (butlast (m_tags ?w))"
  proof (cases u)
    case None
    then have s: "scanned ?w Content (m_tags ?w)" "\<not> m_tagIsOpen ?w" "element_name (last (m_tags ?w))"
      using w(1,2) by (simp_all add: consistent_def)
    have "scan (?i @ ''</'' @ last (m_tags ?w) @ ''>'' @ [CHR 0x0A]) (Content, rev (m_tags ?w), b) =
        Some (Content, rev (butlast (m_tags ?w)), b)" for b
      unfolding i r by (rule scan_end_tag [OF s(3)])
    then show ?thesis
      using s(2) \<open>m_os ?w \<noteq> []\<close> by (intro scanned_put [OF s(1), where b = False]) simp_all
  next
    case (Some used)
    then obtain p where p: "scanned ?w p (butlast (m_tags ?w))" "p \<in> {Name (last (m_tags ?w)), Quoted (last (m_tags ?w)) used}"
        "m_tagIsOpen ?w"
      using w(1) by (auto simp: consistent_def)
    then show ?thesis
      using \<open>m_os ?w \<noteq> []\<close> by (intro scanned_put [OF p(1), where b = False]) (auto simp: in_tag_def letter_def space_def)
  qed
  ultimately show ?thesis
    using w i l(2) assms(2) by (auto simp: endElement_def Let_def consistent_def dest: in_set_butlastD)
qed

lemma decimal_plain: "\<forall>c\<in>set (decimal k). c \<notin> charsToEncode"
proof -
  have d: "char_of (48 + n) \<notin> charsToEncode" if "n < 10" for n :: nat
    using that by (auto simp: charsToEncode_def dest!: arg_cong [where f = "of_char :: char \<Rightarrow> nat"])
  show ?thesis
  proof (induction k rule: decimal.induct)
    case (1 k)
    then show ?case using d [of k] d [of "k mod 10"] by (auto simp: decimal.simps [of k])
  qed
qed

lemma attribute_consistent:
  assumes "consistent (Some used) w" "element_name a" "a \<notin> set used" "scan v (Value (last (m_tags w)) (a # used), rev (butlast (m_tags w)), True)
      = Some (Value (last (m_tags w)) (a # used), rev (butlast (m_tags w)), True)"
  shows "consistent (Some (a # used)) (put ('' '' @ a @ [CHR ''='', CHR 0x22] @ v @ [CHR 0x22]) w)"
proof -
  obtain p where p: "scanned w p (butlast (m_tags w))" "p \<in> {Name (last (m_tags w)), Quoted (last (m_tags w)) used}"
      "p = Name (last (m_tags w)) \<longrightarrow> used = []" "m_os w \<noteq> []" "m_tags w \<noteq> []"
    using assms(1) by (auto simp: consistent_def)
  have "scanned (put ('' '' @ a @ [CHR ''='', CHR 0x22] @ v @ [CHR 0x22]) w) (Quoted (last (m_tags w)) (a # used)) (butlast (m_tags w))"
    using p(2-4) assms(2-4)
    by (cases a; intro scanned_put [OF p(1), where b = False])
      (auto simp: in_tag_def letter_def scan_append scan_letters element_name_def split: option.splits)
  then show ?thesis using assms(1) p(4,5) by (auto simp: consistent_def)
qed

lemma writeAttribute_consistent:
  assumes "consistent (Some used) w" "element_name a" "a \<notin> set used"
  shows "\<exists>used'. consistent (Some used') (writeAttribute a v w) \<and> set used' \<subseteq> insert a (set used)"
    "consistent (Some (a # used)) (writeAttribute_bool a b w)" "consistent (Some (a # used)) (writeAttribute_nat a k w)"
    "m_tags (writeAttribute a v w) = m_tags w" "m_tags (writeAttribute_bool a b w) = m_tags w" "m_tags (writeAttribute_nat a k w) = m_tags w"
proof -
  note at = attribute_consistent [OF assms]
  have "consistent (Some (a # used)) (put [CHR 0x22] (writeEncodedText v (put ('' '' @ a @ [CHR ''='', CHR 0x22]) w)))"
    using at [OF scan_encoded(2), of v] by (simp add: writeEncodedText_def put_def)
  then show "\<exists>used'. consistent (Some used') (writeAttribute a v w) \<and> set used' \<subseteq> insert a (set used)"
    using assms(1) by (auto simp: writeAttribute_def)
  have "\<forall>c\<in>set (if b then ''true'' else ''false''). c \<notin> charsToEncode" by (simp add: charsToEncode_def)
  then show "consistent (Some (a # used)) (writeAttribute_bool a b w)"
    unfolding writeAttribute_bool_def by (intro at scan_plain)
  have "\<forall>c\<in>set (decimal k). c \<notin> charsToEncode" by (rule decimal_plain)
  then show "consistent (Some (a # used)) (writeAttribute_nat a k w)"
    using at [OF scan_plain, of "decimal k"] assms(2) by (simp add: writeAttribute_nat_def element_name_def)
qed (simp_all add: writeAttribute_def writeAttribute_bool_def writeAttribute_nat_def writeEncodedText_def)

lemma writeText_consistent:
  assumes "consistent u w" "m_tags w \<noteq> []"
  shows "consistent (if s = [] then u else None) (writeText s ind w)" "m_tags (writeText s ind w) = m_tags w"
proof -
  note e = ensureTagClosed_consistent [OF assms(1)]
  let ?e = "ensureTagClosed w"
  let ?pre = "if m_tagIsOpen w \<and> ind then m_indent ?e else []"
  have w: "scanned ?e Content (m_tags ?e)" "m_tags ?e \<noteq> []" "m_os ?e \<noteq> []" "m_indent ?e = replicate (2 * length (m_tags ?e)) CHR '' ''"
    using e assms(2) by (auto simp: consistent_def scanned_def)
  have "scanned (put (?pre @ encoded s) ?e) Content (m_tags ?e)"
    using w(2-4) by (intro scanned_put [OF w(1), where b = False]) (auto simp: scan_append scan_spaces scan_encoded space_def)
  then show "consistent (if s = [] then u else None) (writeText s ind w)" "m_tags (writeText s ind w) = m_tags w"
    using assms(1) e w by (auto simp: writeText_def writeEncodedText_def Let_def consistent_def put_def)
qed

lemma consistent_closed:
  assumes "consistent None w" "m_tags w = []" "m_os w \<noteq> []"
  shows "markup_ok (m_os w)"
  using assms by (auto simp: consistent_def scanned_def markup_ok_def)

lemma XmlWriter_delete_markup:
  assumes "consistent u w" "m_os w \<noteq> []"
  shows "markup_ok (m_os (XmlWriter_delete w))"
  using assms
proof (induction w arbitrary: u rule: XmlWriter_delete.induct)
  case (1 w)
  show ?case
  proof (cases "m_tags w = []")
    case True
    then have "u = None" using "1.prems"(1) by (auto simp: consistent_def split: option.splits)
    then show ?thesis using "1.prems" True by (simp add: consistent_closed XmlWriter_delete.simps [of w])
  next
    case False
    then obtain w' where w': "endElement w = Some w'" "consistent None w'" "m_os w' \<noteq> []"
      using endElement_consistent [OF "1.prems"(1)] by blast
    then show ?thesis using "1.IH" [OF False w'(1-3)] False by (simp add: XmlWriter_delete.simps [of w])
  qed
qed

end
