(* ===== verification/CatchSpec.thy ===== *)
theory CatchSpec
  imports CatchStrings StdMap
begin

text \<open>
  Catch's test cases and how they are selected: the tags in a test's description, the aliases of
  tags, the specification of tests that the command line gives and its parser, and the registry that
  holds the tests in the order they were registered. A \<open>std::set\<close> of strings is the sorted list of
  its elements.
\<close>

section \<open>Test cases\<close>

type_synonym properties = u32

definition NoProperties :: properties where "NoProperties = 0"
definition IsHidden :: properties where "IsHidden = 2"
definition ShouldFail :: properties where "ShouldFail = 4"
definition MayFail :: properties where "MayFail = 8"
definition Throws :: properties where "Throws = 16"

lemmas property_defs = NoProperties_def IsHidden_def ShouldFail_def MayFail_def Throws_def

definition parseSpecialTag :: "string \<Rightarrow> properties" where
  "parseSpecialTag tag =
     (if tag = ''.'' \<or> tag = ''hide'' \<or> tag = ''!hide'' then IsHidden
      else if tag = ''!throws'' then Throws
      else if tag = ''!shouldfail'' then ShouldFail
      else if tag = ''!mayfail'' then MayFail
      else NoProperties)"

definition isalnum :: "char \<Rightarrow> bool" where
  "isalnum c = (let n = of_char c :: nat in 48 \<le> n \<and> n \<le> 57 \<or> 65 \<le> n \<and> n \<le> 90 \<or> 97 \<le> n \<and> n \<le> 122)"

definition isReservedTag :: "string \<Rightarrow> bool" where
  "isReservedTag tag \<longleftrightarrow> parseSpecialTag tag = NoProperties \<and> length tag > 0 \<and> \<not> isalnum (tag ! 0)"

record TestCaseInfo =
  name :: string
  className :: string
  description :: string
  tags :: "string list"
  lcaseTags :: "string list"
  tagsAsString :: string
  lineInfo :: SourceLineInfo
  special :: properties

definition set_insert :: "string \<Rightarrow> string list \<Rightarrow> string list" where
  "set_insert x xs = insort_insert x xs"

text \<open>The constructor goes through the tags in order.\<close>

primrec add_tags :: "string list \<Rightarrow> TestCaseInfo \<Rightarrow> TestCaseInfo" where
  "add_tags [] i = i"
| "add_tags (t # ts) i =
     (let lcaseTag = toLower t in
      add_tags ts (i\<lparr>tagsAsString := tagsAsString i @ ''['' @ t @ '']'',
        special := special i OR parseSpecialTag lcaseTag, lcaseTags := set_insert lcaseTag (lcaseTags i)\<rparr>))"

definition TestCaseInfo_new :: "string \<Rightarrow> string \<Rightarrow> string \<Rightarrow> string list \<Rightarrow> SourceLineInfo \<Rightarrow> TestCaseInfo" where
  "TestCaseInfo_new n c d ts l =
     add_tags ts \<lparr>name = n, className = c, description = d, tags = ts, lcaseTags = [], tagsAsString = [], lineInfo = l,
       special = NoProperties\<rparr>"

definition isHidden :: "'x TestCaseInfo_scheme \<Rightarrow> bool" where
  "isHidden i \<longleftrightarrow> special i AND IsHidden \<noteq> 0"

definition throws :: "'x TestCaseInfo_scheme \<Rightarrow> bool" where
  "throws i \<longleftrightarrow> special i AND Throws \<noteq> 0"

definition okToFail :: "'x TestCaseInfo_scheme \<Rightarrow> bool" where
  "okToFail i \<longleftrightarrow> special i AND (ShouldFail OR MayFail) \<noteq> 0"

definition expectedToFail :: "'x TestCaseInfo_scheme \<Rightarrow> bool" where
  "expectedToFail i \<longleftrightarrow> special i AND ShouldFail \<noteq> 0"

text \<open>
  The parser of a description: what is in brackets is a tag. \<open>exit(1)\<close>, which ends the program on a
  reserved tag, is the left case.
\<close>

datatype catch_exit = Exit int

record tag_parser =
  tp_desc :: string
  tp_tag :: string
  tp_inTag :: bool
  tp_hidden :: bool
  tp_tags :: "string list"

definition tag_char :: "char \<Rightarrow> tag_parser \<Rightarrow> catch_exit + tag_parser" where
  "tag_char c p =
     (if \<not> tp_inTag p
      then
        if c = CHR ''['' then Inr (p\<lparr>tp_inTag := True\<rparr>)
        else Inr (p\<lparr>tp_desc := tp_desc p @ [c]\<rparr>)
      else
        if c = CHR '']''
        then
          if isReservedTag (tp_tag p) then Inl (Exit 1)
          else
            let p = p\<lparr>tp_inTag := False\<rparr>;
                p = (if tp_tag p = ''hide'' \<or> tp_tag p = ''.'' then p\<lparr>tp_hidden := True\<rparr>
                     else p\<lparr>tp_tags := set_insert (tp_tag p) (tp_tags p)\<rparr>)
            in Inr (p\<lparr>tp_tag := []\<rparr>)
        else Inr (p\<lparr>tp_tag := tp_tag p @ [c]\<rparr>))"

primrec tag_chars :: "string \<Rightarrow> tag_parser \<Rightarrow> catch_exit + tag_parser" where
  "tag_chars [] p = Inr p"
| "tag_chars (c # cs) p = (case tag_char c p of Inl e \<Rightarrow> Inl e | Inr p \<Rightarrow> tag_chars cs p)"

record 'f TestCase = TestCaseInfo +
  test :: 'f

definition makeTestCase ::
  "'f \<Rightarrow> string \<Rightarrow> string \<Rightarrow> string \<Rightarrow> SourceLineInfo \<Rightarrow> catch_exit + 'f TestCase" where
  "makeTestCase f cls nam descOrTags l =
     (case tag_chars descOrTags
         \<lparr>tp_desc = [], tp_tag = [], tp_inTag = False, tp_hidden = startsWith nam ''./'', tp_tags = []\<rparr> of
        Inl e \<Rightarrow> Inl e
      | Inr p \<Rightarrow>
          let ts = (if tp_hidden p then set_insert ''.'' (set_insert ''hide'' (tp_tags p)) else tp_tags p)
          in Inr (TestCaseInfo.extend (TestCaseInfo_new nam cls (tp_desc p) ts l) \<lparr>test = f\<rparr>))"

section \<open>Specifications of tests\<close>

datatype wildcard = NoWildcard | WildcardAtStart | WildcardAtEnd | WildcardAtBothEnds

datatype pattern =
  NamePattern string wildcard
| TagPattern string
| ExcludedPattern pattern

text \<open>The constructors of the patterns.\<close>

definition NamePattern_new :: "string \<Rightarrow> pattern" where
  "NamePattern_new nam =
     (let m_name = toLower nam;
          atStart = startsWith m_name ''*'';
          m_name = (if atStart then drop 1 m_name else m_name);
          atEnd = endsWith m_name ''*'';
          m_name = (if atEnd then substr m_name 0 (length m_name - 1) else m_name)
      in NamePattern m_name
           (if atStart then if atEnd then WildcardAtBothEnds else WildcardAtStart
            else if atEnd then WildcardAtEnd else NoWildcard))"

definition TagPattern_new :: "string \<Rightarrow> pattern" where
  "TagPattern_new tag = TagPattern (toLower tag)"

fun pattern_matches :: "pattern \<Rightarrow> 'x TestCaseInfo_scheme \<Rightarrow> bool" where
  "pattern_matches (NamePattern n NoWildcard) i \<longleftrightarrow> n = toLower (name i)"
| "pattern_matches (NamePattern n WildcardAtStart) i \<longleftrightarrow> endsWith (toLower (name i)) n"
| "pattern_matches (NamePattern n WildcardAtEnd) i \<longleftrightarrow> startsWith (toLower (name i)) n"
| "pattern_matches (NamePattern n WildcardAtBothEnds) i \<longleftrightarrow> contains (toLower (name i)) n"
| "pattern_matches (TagPattern t) i \<longleftrightarrow> t \<in> set (lcaseTags i)"
| "pattern_matches (ExcludedPattern p) i \<longleftrightarrow> \<not> pattern_matches p i"

text \<open>A filter is the list of its patterns, a specification the list of its filters.\<close>

type_synonym test_filter = "pattern list"
type_synonym TestSpec = "test_filter list"

primrec filter_matches :: "test_filter \<Rightarrow> 'x TestCaseInfo_scheme \<Rightarrow> bool" where
  "filter_matches [] i = True"
| "filter_matches (p # ps) i = (if \<not> pattern_matches p i then False else filter_matches ps i)"

definition hasFilters :: "TestSpec \<Rightarrow> bool" where
  "hasFilters spec \<longleftrightarrow> spec \<noteq> []"

primrec spec_matches :: "TestSpec \<Rightarrow> 'x TestCaseInfo_scheme \<Rightarrow> bool" where
  "spec_matches [] i = False"
| "spec_matches (f # fs) i = (if filter_matches f i then True else spec_matches fs i)"

section \<open>Tag aliases\<close>

type_synonym TagAliasRegistry = "(string \<times> string \<times> SourceLineInfo) list"

definition alias_find :: "TagAliasRegistry \<Rightarrow> string \<Rightarrow> (string \<times> SourceLineInfo) option" where
  "alias_find reg alias = map_find alias reg"

primrec expandAliases :: "TagAliasRegistry \<Rightarrow> string \<Rightarrow> string" where
  "expandAliases [] s = s"
| "expandAliases (e # es) s =
     expandAliases es
       (case str_find (fst e) s of
          None \<Rightarrow> s
        | Some pos \<Rightarrow> substr s 0 pos @ fst (snd e) @ drop (pos + length (fst e)) s)"

text \<open>A name that is no alias, or one that is taken, throws \<open>std::domain_error\<close> with a text.\<close>

definition alias_add :: "string \<Rightarrow> string \<Rightarrow> SourceLineInfo \<Rightarrow> TagAliasRegistry \<Rightarrow> string + TagAliasRegistry" where
  "alias_add alias tag l reg =
     (if \<not> startsWith alias ''[@'' \<or> \<not> endsWith alias '']''
      then Inl (''error: tag alias, '' @ [CHR 0x22] @ alias @ [CHR 0x22] @ '' is not of the form [@alias name].''
        @ [CHR 0x0A] @ print_line_info l)
      else
        case alias_find reg alias of
          None \<Rightarrow> Inr (map_assign alias (tag, l) reg)
        | Some (_, first) \<Rightarrow>
            Inl (''error: tag alias, '' @ [CHR 0x22] @ alias @ [CHR 0x22] @ '' already registered.'' @ [CHR 0x0A, CHR 0x09]
              @ ''First seen at '' @ print_line_info first @ [CHR 0x0A, CHR 0x09]
              @ ''Redefined at '' @ print_line_info l))"

section \<open>The parser of specifications\<close>

datatype mode = None_mode | Name_mode | QuotedName_mode | Tag_mode

record TestSpecParser =
  m_mode :: mode
  m_exclusion :: bool
  m_start :: nat
  m_pos :: nat
  m_arg :: string
  m_currentFilter :: test_filter
  m_testSpec :: TestSpec

definition startNewMode :: "mode \<Rightarrow> nat \<Rightarrow> TestSpecParser \<Rightarrow> TestSpecParser" where
  "startNewMode mode start p = p\<lparr>m_mode := mode, m_start := start\<rparr>"

definition subString :: "TestSpecParser \<Rightarrow> string" where
  "subString p = substr (m_arg p) (m_start p) (m_pos p - m_start p)"

text \<open>\<open>addPattern<T>\<close>; the constructor of \<open>T\<close> is an argument.\<close>

definition addPattern :: "(string \<Rightarrow> pattern) \<Rightarrow> TestSpecParser \<Rightarrow> TestSpecParser" where
  "addPattern new_pattern p =
     (let token = subString p;
          excl = startsWith token ''exclude:'';
          p = (if excl then p\<lparr>m_exclusion := True\<rparr> else p);
          token = (if excl then drop 8 token else token);
          p = (if token \<noteq> []
               then
                 let pat = new_pattern token;
                     pat = (if m_exclusion p then ExcludedPattern pat else pat)
                 in p\<lparr>m_currentFilter := m_currentFilter p @ [pat]\<rparr>
               else p)
      in p\<lparr>m_exclusion := False, m_mode := None_mode\<rparr>)"

definition addFilter :: "TestSpecParser \<Rightarrow> TestSpecParser" where
  "addFilter p =
     (if m_currentFilter p \<noteq> []
      then p\<lparr>m_testSpec := m_testSpec p @ [m_currentFilter p], m_currentFilter := []\<rparr>
      else p)"

text \<open>What \<open>visitChar\<close> does once a mode is set.\<close>

definition visit_in_mode :: "char \<Rightarrow> TestSpecParser \<Rightarrow> TestSpecParser" where
  "visit_in_mode c p =
     (if m_mode p = Name_mode
      then
        if c = CHR '','' then addFilter (addPattern NamePattern_new p)
        else if c = CHR ''[''
        then
          let p = (if subString p = ''exclude:'' then p\<lparr>m_exclusion := True\<rparr> else addPattern NamePattern_new p);
              p = p\<lparr>m_pos := m_pos p + 1\<rparr>
          in startNewMode Tag_mode (m_pos p) p
        else p
      else if m_mode p = QuotedName_mode \<and> c = CHR 0x22 then addPattern NamePattern_new p
      else if m_mode p = Tag_mode \<and> c = CHR '']'' then addPattern TagPattern_new p
      else p)"

definition visitChar :: "char \<Rightarrow> TestSpecParser \<Rightarrow> TestSpecParser" where
  "visitChar c p =
     (if m_mode p = None_mode
      then
        if c = CHR '' '' then p
        else if c = CHR ''~'' then p\<lparr>m_exclusion := True\<rparr>
        else if c = CHR ''['' then (let p = p\<lparr>m_pos := m_pos p + 1\<rparr> in startNewMode Tag_mode (m_pos p) p)
        else if c = CHR 0x22 then (let p = p\<lparr>m_pos := m_pos p + 1\<rparr> in startNewMode QuotedName_mode (m_pos p) p)
        else visit_in_mode c (startNewMode Name_mode (m_pos p) p)
      else visit_in_mode c p)"

lemma add_pos [simp]:
  "m_pos (addPattern f p) = m_pos p" "m_arg (addPattern f p) = m_arg p"
  "m_pos (addFilter p) = m_pos p" "m_arg (addFilter p) = m_arg p"
  by (simp_all add: addPattern_def addFilter_def Let_def)

lemma start_pos [simp]: "m_pos (startNewMode m k p) = m_pos p" "m_arg (startNewMode m k p) = m_arg p"
  by (simp_all add: startNewMode_def)

lemma in_mode_pos: "m_pos p \<le> m_pos (visit_in_mode c p) \<and> m_arg (visit_in_mode c p) = m_arg p"
  by (simp add: visit_in_mode_def Let_def)

lemma visit_pos: "m_pos p \<le> m_pos (visitChar c p)" "m_arg (visitChar c p) = m_arg p"
  using in_mode_pos [of p c] in_mode_pos [of "startNewMode Name_mode (m_pos p) p" c]
  by (simp_all add: visitChar_def Let_def)

function parse_loop :: "TestSpecParser \<Rightarrow> TestSpecParser" where
  "parse_loop p =
     (if m_pos p < length (m_arg p)
      then let p = visitChar (m_arg p ! m_pos p) p in parse_loop (p\<lparr>m_pos := m_pos p + 1\<rparr>)
      else p)"
  by auto
termination
proof (relation "measure (\<lambda>p. length (m_arg p) - m_pos p)")
  fix p x
  assume p: "m_pos p < length (m_arg p)" "x = visitChar (m_arg p ! m_pos p) p"
  then have "m_arg x = m_arg p" "m_pos p \<le> m_pos x" by (simp_all only: visit_pos)
  then show "(x\<lparr>m_pos := m_pos x + 1\<rparr>, p) \<in> measure (\<lambda>p. length (m_arg p) - m_pos p)"
    using p(1) by simp
qed simp

declare parse_loop.simps [simp del]

definition TestSpecParser_new :: TestSpecParser where
  "TestSpecParser_new =
     \<lparr>m_mode = None_mode, m_exclusion = False, m_start = 0, m_pos = 0, m_arg = [], m_currentFilter = [], m_testSpec = []\<rparr>"

definition parse :: "TagAliasRegistry \<Rightarrow> string \<Rightarrow> TestSpecParser \<Rightarrow> TestSpecParser" where
  "parse reg arg p =
     (let p = parse_loop (p\<lparr>m_mode := None_mode, m_exclusion := False, m_start := 2 ^ 32 - 1,
            m_arg := expandAliases reg arg, m_pos := 0\<rparr>)
      in if m_mode p = Name_mode then addPattern NamePattern_new p else p)"

definition testSpec :: "TestSpecParser \<Rightarrow> TestSpec" where
  "testSpec p = m_testSpec (addFilter p)"

definition parseTestSpec :: "TagAliasRegistry \<Rightarrow> string \<Rightarrow> TestSpec" where
  "parseTestSpec reg arg = testSpec (parse reg arg TestSpecParser_new)"

section \<open>The registry\<close>

definition withName :: "string \<Rightarrow> 'f TestCase \<Rightarrow> 'f TestCase" where
  "withName n t = t\<lparr>name := n\<rparr>"

text \<open>\<open>operator ==\<close> and \<open>operator <\<close>; two test cases are the same element of a set if neither is less.\<close>

definition case_equal :: "'f TestCase \<Rightarrow> 'f TestCase \<Rightarrow> bool" where
  "case_equal a b \<longleftrightarrow> test a = test b \<and> name a = name b \<and> className a = className b"

definition case_less :: "'f TestCase \<Rightarrow> 'f TestCase \<Rightarrow> bool" where
  "case_less a b \<longleftrightarrow> name a < name b"

text \<open>The set of the test cases is kept as the list of its elements in order, by name.\<close>

record 'f TestRegistry =
  m_functions :: "(string \<times> 'f TestCase) list"
  m_functionsInOrder :: "'f TestCase list"
  m_nonHiddenFunctions :: "'f TestCase list"
  m_unnamedCount :: nat

definition TestRegistry_new :: "'f TestRegistry" where
  "TestRegistry_new = \<lparr>m_functions = [], m_functionsInOrder = [], m_nonHiddenFunctions = [], m_unnamedCount = 0\<rparr>"

text \<open>The left case is \<open>exit(1)\<close>: a test of that name is there already.\<close>

definition register_named :: "'f TestCase \<Rightarrow> 'f TestRegistry \<Rightarrow> catch_exit + 'f TestRegistry" where
  "register_named t r =
     (if map_find (name t) (m_functions r) = None
      then
        let r = r\<lparr>m_functions := map_assign (name t) t (m_functions r)\<rparr>;
            r = r\<lparr>m_functionsInOrder := m_functionsInOrder r @ [t]\<rparr>
        in Inr (if \<not> isHidden t then r\<lparr>m_nonHiddenFunctions := m_nonHiddenFunctions r @ [t]\<rparr> else r)
      else Inl (Exit 1))"

definition registerTest :: "'f TestCase \<Rightarrow> 'f TestRegistry \<Rightarrow> catch_exit + 'f TestRegistry" where
  "registerTest t r =
     (if name t = []
      then
        let r = r\<lparr>m_unnamedCount := m_unnamedCount r + 1\<rparr>
        in register_named (withName (''Anonymous test case '' @ decimal (m_unnamedCount r)) t) r
      else register_named t r)"

definition getAllTests :: "'f TestRegistry \<Rightarrow> 'f TestCase list" where
  "getAllTests r = m_functionsInOrder r"

definition getAllNonHiddenTests :: "'f TestRegistry \<Rightarrow> 'f TestCase list" where
  "getAllNonHiddenTests r = m_nonHiddenFunctions r"

primrec filter_tests :: "TestSpec \<Rightarrow> bool \<Rightarrow> 'f TestCase list \<Rightarrow> 'f TestCase list \<Rightarrow> 'f TestCase list" where
  "filter_tests spec allowThrows [] matching = matching"
| "filter_tests spec allowThrows (t # ts) matching =
     filter_tests spec allowThrows ts
       (if spec_matches spec t \<and> (allowThrows \<or> \<not> throws t) then matching @ [t] else matching)"

definition getFilteredTests :: "TestSpec \<Rightarrow> bool \<Rightarrow> 'f TestRegistry \<Rightarrow> 'f TestCase list \<Rightarrow> 'f TestCase list" where
  "getFilteredTests spec allowThrows r matching = filter_tests spec allowThrows (m_functionsInOrder r) matching"

text \<open>What a registration made by \<open>TEST_CASE\<close> does; a free function has no class name.\<close>

definition AutoReg :: "'f \<Rightarrow> SourceLineInfo \<Rightarrow> string \<Rightarrow> string \<Rightarrow> 'f TestRegistry \<Rightarrow> catch_exit + 'f TestRegistry" where
  "AutoReg f l nam desc r =
     (case makeTestCase f [] nam desc l of Inl e \<Rightarrow> Inl e | Inr t \<Rightarrow> registerTest t r)"

section \<open>What a specification means\<close>

lemma filter_matches_all: "filter_matches ps i \<longleftrightarrow> (\<forall>p\<in>set ps. pattern_matches p i)"
  by (induction ps) auto

lemma spec_matches_any: "spec_matches fs i \<longleftrightarrow> (\<exists>f\<in>set fs. filter_matches f i)"
  by (induction fs) auto

lemma filter_tests_eq: "filter_tests spec b ts ms = ms @ filter (\<lambda>t. spec_matches spec t \<and> (b \<or> \<not> throws t)) ts"
  by (induction ts arbitrary: ms) auto

lemma set_set_insert [simp]: "set (set_insert x xs) = insert x (set xs)"
  by (auto simp: set_insert_def insort_insert_key_def set_insort_key)

lemma add_tags_simps [simp]:
  "name (add_tags ts i) = name i" "tags (add_tags ts i) = tags i" "lineInfo (add_tags ts i) = lineInfo i"
  "className (add_tags ts i) = className i" "description (add_tags ts i) = description i"
  by (induction ts arbitrary: i) (simp_all add: Let_def)

lemma add_tags_lower: "set (lcaseTags (add_tags ts i)) = toLower ` set ts \<union> set (lcaseTags i)"
  by (induction ts arbitrary: i) (auto simp: Let_def)

lemma add_tags_special: "special (add_tags ts i) = foldr (\<lambda>t w. parseSpecialTag (toLower t) OR w) ts (special i)"
proof (induction ts arbitrary: i)
  case (Cons t ts)
  have "foldr (\<lambda>t w. parseSpecialTag (toLower t) OR w) ts (a OR b) = b OR foldr (\<lambda>t w. parseSpecialTag (toLower t) OR w) ts a"
    for a b by (induction ts) (simp_all add: or.left_commute or.commute)
  then show ?case by (simp add: Cons.IH Let_def)
qed simp

lemma hidden_tags: "isHidden (add_tags ts i) \<longleftrightarrow> isHidden i \<or> (\<exists>t\<in>set ts. toLower t \<in> {''.'', ''hide'', ''!hide''})"
proof -
  have w: "(parseSpecialTag x OR v) AND IsHidden \<noteq> 0 \<longleftrightarrow> x \<in> {''.'', ''hide'', ''!hide''} \<or> v AND IsHidden \<noteq> 0"
    for x and v :: u32
    by (auto simp: bit.conj_disj_distrib2 or_eq_0_iff parseSpecialTag_def property_defs)
  have "foldr (\<lambda>t w. parseSpecialTag (toLower t) OR w) ts v AND IsHidden \<noteq> 0 \<longleftrightarrow>
     v AND IsHidden \<noteq> 0 \<or> (\<exists>t\<in>set ts. toLower t \<in> {''.'', ''hide'', ''!hide''})" for v
  proof (induction ts)
    case (Cons t ts)
    then show ?case unfolding foldr.simps comp_apply w by (auto simp del: insert_iff)
  qed simp
  then show ?thesis by (simp only: isHidden_def add_tags_special)
qed

section \<open>Printing a specification\<close>

text \<open>
  A specification as one would write it: filters of names in quotes and tags in brackets, each of
  them excluded by a tilde or not, separated by commas.
\<close>

datatype spec_item = Named string | Tagged string

fun print_item :: "bool \<times> spec_item \<Rightarrow> string" where
  "print_item (excl, Named n) = (if excl then ''~'' else []) @ [CHR 0x22] @ n @ [CHR 0x22]"
| "print_item (excl, Tagged t) = (if excl then ''~'' else []) @ ''['' @ t @ '']''"

fun print_spec :: "(bool \<times> spec_item) list list \<Rightarrow> string" where
  "print_spec [] = []"
| "print_spec [f] = concat (map print_item f)"
| "print_spec (f # fs) = concat (map print_item f) @ '','' @ print_spec fs"

fun item_pattern :: "bool \<times> spec_item \<Rightarrow> pattern" where
  "item_pattern (excl, Named n) = (if excl then ExcludedPattern (NamePattern_new n) else NamePattern_new n)"
| "item_pattern (excl, Tagged t) = (if excl then ExcludedPattern (TagPattern_new t) else TagPattern_new t)"

fun item_ok :: "bool \<times> spec_item \<Rightarrow> bool" where
  "item_ok (excl, Named n) \<longleftrightarrow> n \<noteq> [] \<and> CHR 0x22 \<notin> set n \<and> \<not> startsWith n ''exclude:''"
| "item_ok (excl, Tagged t) \<longleftrightarrow> t \<noteq> [] \<and> CHR '']'' \<notin> set t \<and> \<not> startsWith t ''exclude:''"

subsection \<open>Reading it back\<close>

lemma parse_step:
  assumes "m_arg p = pre @ c # rest" "m_pos p = length pre"
  shows "parse_loop p = parse_loop (visitChar c p\<lparr>m_pos := m_pos (visitChar c p) + 1\<rparr>)"
  using assms by (simp add: parse_loop.simps [of p] Let_def)

lemma visit_quiet:
  "m_mode p = QuotedName_mode \<Longrightarrow> c \<noteq> CHR 0x22 \<Longrightarrow> visitChar c p = p"
  "m_mode p = Tag_mode \<Longrightarrow> c \<noteq> CHR '']'' \<Longrightarrow> visitChar c p = p"
  by (simp_all add: visitChar_def visit_in_mode_def)

lemma parse_skip:
  assumes "m_mode p = QuotedName_mode \<and> CHR 0x22 \<notin> set xs \<or> m_mode p = Tag_mode \<and> CHR '']'' \<notin> set xs"
    "m_arg p = pre @ xs @ rest" "m_pos p = length pre"
  shows "parse_loop p = parse_loop (p\<lparr>m_pos := length pre + length xs\<rparr>)"
  using assms
proof (induction xs arbitrary: pre p)
  case Nil
  then show ?case by (cases p) simp
next
  case (Cons c xs)
  have v: "visitChar c p = p" using Cons.prems(1) visit_quiet [of p c] by (metis list.set_intros(1))
  have "parse_loop p = parse_loop (p\<lparr>m_pos := m_pos p + 1\<rparr>)"
    using parse_step [of p pre c "xs @ rest"] Cons.prems(2,3) by (simp add: v)
  also have "\<dots> = parse_loop (p\<lparr>m_pos := m_pos p + 1, m_pos := length (pre @ [c]) + length xs\<rparr>)"
    by (rule Cons.IH) (use Cons.prems in auto)
  finally show ?case using Cons.prems(3) by simp
qed

text \<open>A name or tag between its delimiters, which are read in the mode \<open>md\<close> and end with \<open>b\<close>.\<close>

lemma parse_delimited:
  assumes p: "m_mode p = None_mode" "m_arg p = pre @ a # xs @ b # rest" "m_pos p = length pre"
    and md: "a = CHR 0x22 \<and> b = CHR 0x22 \<and> md = QuotedName_mode \<and> new = NamePattern_new \<or>
      a = CHR ''['' \<and> b = CHR '']'' \<and> md = Tag_mode \<and> new = TagPattern_new"
    and xs: "xs \<noteq> []" "b \<notin> set xs" "\<not> startsWith xs ''exclude:''"
  shows "parse_loop p = parse_loop (p\<lparr>m_exclusion := False, m_start := length pre + 1, m_pos := length pre + length xs + 2,
      m_currentFilter := m_currentFilter p @ [if m_exclusion p then ExcludedPattern (new xs) else new xs]\<rparr>)"
proof -
  obtain c cs where c: "xs = c # cs" using xs(1) by (cases xs) auto
  let ?q = "p\<lparr>m_mode := md, m_start := length pre + 1, m_pos := length pre + 2\<rparr>"
  let ?r = "p\<lparr>m_mode := md, m_start := length pre + 1, m_pos := length pre + length xs + 1\<rparr>"
  have "parse_loop p = parse_loop ?q"
    using parse_step [OF p(2,3)] p md by (auto simp: visitChar_def startNewMode_def)
  also have "\<dots> = parse_loop (?q\<lparr>m_pos := length (pre @ [a, c]) + length cs\<rparr>)"
    by (rule parse_skip [where rest = "b # rest"]) (use p md xs c in auto)
  also have "\<dots> = parse_loop ?r" by (simp add: c)
  also have "\<dots> = parse_loop (visitChar b ?r\<lparr>m_pos := m_pos (visitChar b ?r) + 1\<rparr>)"
    by (rule parse_step [where pre = "pre @ a # xs" and rest = rest]) (use p in simp_all)
  also have "visitChar b ?r = addPattern new ?r"
    using md by (auto simp: visitChar_def visit_in_mode_def)
  also have "addPattern new ?r = p\<lparr>m_exclusion := False, m_start := length pre + 1, m_pos := length pre + length xs + 1,
      m_currentFilter := m_currentFilter p @ [if m_exclusion p then ExcludedPattern (new xs) else new xs]\<rparr>"
  proof -
    have "subString ?r = xs" using p(2) by (simp add: subString_def substr_def)
    then show ?thesis using xs p(1) by (cases p) (simp add: addPattern_def Let_def)
  qed
  finally show ?thesis by (cases p) simp
qed

definition item_start :: "bool \<times> spec_item \<Rightarrow> nat" where
  "item_start it = (if fst it then 2 else 1)"

lemma parse_item:
  assumes p: "m_mode p = None_mode" "m_exclusion p = False" "m_arg p = pre @ print_item it @ rest" "m_pos p = length pre"
    and it: "item_ok it"
  shows "parse_loop p = parse_loop (p\<lparr>m_start := length pre + item_start it, m_pos := length (pre @ print_item it),
      m_currentFilter := m_currentFilter p @ [item_pattern it]\<rparr>)"
proof -
  obtain excl i where i: "it = (excl, i)" by (cases it)
  obtain a xs b md new where body: "print_item it = (if excl then ''~'' else []) @ a # xs @ [b]"
      "a = CHR 0x22 \<and> b = CHR 0x22 \<and> md = QuotedName_mode \<and> new = NamePattern_new \<or>
       a = CHR ''['' \<and> b = CHR '']'' \<and> md = Tag_mode \<and> new = TagPattern_new"
      "xs \<noteq> []" "b \<notin> set xs" "\<not> startsWith xs ''exclude:''"
      "item_pattern it = (if excl then ExcludedPattern (new xs) else new xs)"
    using it i by (cases i) auto
  let ?pre = "if excl then pre @ ''~'' else pre" and ?p = "if excl then p\<lparr>m_exclusion := True, m_pos := length pre + 1\<rparr> else p"
  have "parse_loop p = parse_loop ?p"
  proof (cases excl)
    case True
    then show ?thesis
      using parse_step [of p pre "CHR ''~''" "a # xs @ b # rest"] p body(1) by (simp add: visitChar_def)
  qed simp
  also have "\<dots> = parse_loop (?p\<lparr>m_exclusion := False, m_start := length ?pre + 1, m_pos := length ?pre + length xs + 2,
      m_currentFilter := m_currentFilter ?p @ [if m_exclusion ?p then ExcludedPattern (new xs) else new xs]\<rparr>)"
    by (rule parse_delimited [OF _ _ _ body(2-5), where rest = rest]) (use p body(1) in auto)
  also have "\<dots> = parse_loop (p\<lparr>m_start := length pre + item_start it, m_pos := length (pre @ print_item it),
      m_currentFilter := m_currentFilter p @ [item_pattern it]\<rparr>)"
    using p body by (cases p; cases excl) (simp_all add: i item_start_def)
  finally show ?thesis .
qed

text \<open>Between two items: nothing is open, nothing is excluded.\<close>

definition between :: "TestSpecParser \<Rightarrow> string \<Rightarrow> string \<Rightarrow> bool" where
  "between p pre rest \<longleftrightarrow>
     m_mode p = None_mode \<and> \<not> m_exclusion p \<and> m_arg p = pre @ rest \<and> m_pos p = length pre"

lemma parse_items:
  assumes "between p pre (concat (map print_item f) @ rest)" "list_all item_ok f"
  shows "\<exists>q. parse_loop p = parse_loop q \<and> between q (pre @ concat (map print_item f)) rest \<and>
     m_currentFilter q = m_currentFilter p @ map item_pattern f \<and> m_testSpec q = m_testSpec p"
  using assms
proof (induction f arbitrary: pre p)
  case Nil
  then show ?case by auto
next
  case (Cons it f)
  let ?p = "p\<lparr>m_start := length pre + item_start it, m_pos := length (pre @ print_item it),
      m_currentFilter := m_currentFilter p @ [item_pattern it]\<rparr>"
  have 1: "parse_loop p = parse_loop ?p"
    by (rule parse_item [where rest = "concat (map print_item f) @ rest"]) (use Cons.prems in \<open>auto simp: between_def\<close>)
  have "between ?p (pre @ print_item it) (concat (map print_item f) @ rest)"
    using Cons.prems(1) by (simp add: between_def)
  from Cons.IH [OF this] Cons.prems(2) obtain q where
      "parse_loop ?p = parse_loop q" "between q ((pre @ print_item it) @ concat (map print_item f)) rest"
      "m_currentFilter q = m_currentFilter ?p @ map item_pattern f" "m_testSpec q = m_testSpec ?p"
    by auto
  then show ?case using 1 by (intro exI [of _ q]) simp
qed

lemma parse_comma:
  assumes "between p pre ('','' @ rest)" "m_currentFilter p \<noteq> []"
  shows "\<exists>q. parse_loop p = parse_loop q \<and> between q (pre @ '','') rest \<and>
     m_currentFilter q = [] \<and> m_testSpec q = m_testSpec p @ [m_currentFilter p]"
proof -
  let ?q = "p\<lparr>m_start := length pre, m_pos := length pre + 1, m_currentFilter := [], m_testSpec := m_testSpec p @ [m_currentFilter p]\<rparr>"
  have "parse_loop p = parse_loop (visitChar (CHR '','') p\<lparr>m_pos := m_pos (visitChar (CHR '','') p) + 1\<rparr>)"
    by (rule parse_step [where pre = pre and rest = rest]) (use assms(1) in \<open>simp_all add: between_def\<close>)
  also have "\<dots> = parse_loop ?q"
    using assms by (cases p) (simp add: between_def visitChar_def visit_in_mode_def startNewMode_def addPattern_def addFilter_def
        subString_def substr_def startsWith_def Let_def)
  finally show ?thesis using assms(1) by (intro exI [of _ ?q]) (simp add: between_def)
qed

lemma parse_spec:
  assumes "between p pre (print_spec fs)" "m_currentFilter p = []" "\<forall>f\<in>set fs. f \<noteq> [] \<and> list_all item_ok f"
  shows "m_mode (parse_loop p) = None_mode \<and> testSpec (parse_loop p) = m_testSpec p @ map (map item_pattern) fs"
  using assms
proof (induction fs arbitrary: p pre rule: print_spec.induct)
  case 1
  then have "parse_loop p = p" by (simp add: parse_loop.simps [of p] between_def)
  with 1 show ?case by (simp add: testSpec_def addFilter_def between_def)
next
  case (2 f)
  then obtain q where q: "parse_loop p = parse_loop q" "between q (pre @ concat (map print_item f)) []"
      "m_currentFilter q = map item_pattern f" "m_testSpec q = m_testSpec p"
    using parse_items [of p pre f "[]"] by auto
  then have "parse_loop q = q" by (simp add: parse_loop.simps [of q] between_def)
  with q 2 show ?case by (simp add: testSpec_def addFilter_def between_def)
next
  case (3 f g fs)
  let ?rest = "'','' @ print_spec (g # fs)"
  obtain q where q: "parse_loop p = parse_loop q" "between q (pre @ concat (map print_item f)) ?rest"
      "m_currentFilter q = map item_pattern f" "m_testSpec q = m_testSpec p"
    using parse_items [of p pre f ?rest] 3 by auto
  obtain r where r: "parse_loop q = parse_loop r" "between r (pre @ concat (map print_item f) @ '','') (print_spec (g # fs))"
      "m_currentFilter r = []" "m_testSpec r = m_testSpec q @ [map item_pattern f]"
    using parse_comma [OF q(2)] q(3) 3(4) by auto
  from 3(1) [OF r(2,3)] 3(4) show ?case by (simp add: q r)
qed

section \<open>Selecting tests by default\<close>

text \<open>No alias occurs in \<open>~[.]\<close>: \<open>add\<close> takes none that does not begin with \<open>[@\<close>.\<close>

definition aliases_ok :: "TagAliasRegistry \<Rightarrow> bool" where
  "aliases_ok reg \<longleftrightarrow> (\<forall>e\<in>set reg. startsWith (fst e) ''[@'')"

lemma alias_add_ok:
  assumes "aliases_ok reg" "alias_add al tag l reg = Inr reg'"
  shows "aliases_ok reg'"
proof -
  have r: "startsWith al ''[@''" "reg' = map_assign al (tag, l) reg"
    using assms(2) by (simp_all add: alias_add_def split: if_splits option.splits prod.splits)
  have "startsWith (fst e) ''[@''" if "e \<in> set reg'" for e
  proof -
    have "fst e \<in> insert al (fst ` set reg)" using that r(2) keys_assign [of al "(tag, l)" reg] by auto
    then show ?thesis using r(1) assms(1) by (auto simp: aliases_ok_def)
  qed
  then show ?thesis by (simp add: aliases_ok_def)
qed

lemma expand_none: "\<forall>e\<in>set reg. str_find (fst e) s = None \<Longrightarrow> expandAliases reg s = s"
  by (induction reg) auto

lemma expand_default: "aliases_ok reg \<Longrightarrow> expandAliases reg ''~[.]'' = ''~[.]''"
  by (rule expand_none) (auto simp: aliases_ok_def str_find_None startsWith_iff Cons_eq_append_conv)

lemma default_spec: "aliases_ok reg \<Longrightarrow> parseTestSpec reg ''~[.]'' = [ [ExcludedPattern (TagPattern ''.'')] ]"
proof -
  assume "aliases_ok reg"
  then have e: "expandAliases reg ''~[.]'' = print_spec [ [(True, Tagged ''.'')] ]" by (simp add: expand_default)
  let ?p = "TestSpecParser_new\<lparr>m_mode := None_mode, m_exclusion := False, m_start := 2 ^ 32 - 1,
      m_arg := print_spec [ [(True, Tagged ''.'')] ], m_pos := 0\<rparr>"
  have "m_mode (parse_loop ?p) = None_mode \<and>
      testSpec (parse_loop ?p) = m_testSpec ?p @ map (map item_pattern) [ [(True, Tagged ''.'')] ]"
    by (rule parse_spec [where pre = "[]"]) (simp_all add: between_def TestSpecParser_new_def startsWith_def substr_def)
  then show ?thesis
    by (simp add: parseTestSpec_def parse_def Let_def e TagPattern_new_def toLower_def tolower_def TestSpecParser_new_def)
qed

section \<open>The registry stays consistent\<close>

primrec register_all :: "'f TestCase list \<Rightarrow> 'f TestRegistry \<Rightarrow> catch_exit + 'f TestRegistry" where
  "register_all [] r = Inr r"
| "register_all (t # ts) r = (case registerTest t r of Inl e \<Rightarrow> Inl e | Inr r \<Rightarrow> register_all ts r)"

definition registry_inv :: "'f TestRegistry \<Rightarrow> bool" where
  "registry_inv r \<longleftrightarrow>
     wf_map (m_functions r) \<and> fst ` set (m_functions r) = name ` set (m_functionsInOrder r) \<and>
     distinct (map name (m_functionsInOrder r)) \<and> [] \<notin> name ` set (m_functionsInOrder r) \<and>
     m_nonHiddenFunctions r = filter (\<lambda>t. \<not> isHidden t) (m_functionsInOrder r)"

lemma map_find_absent: "wf_map m \<Longrightarrow> map_find k m = None \<longleftrightarrow> k \<notin> fst ` set m"
  by (simp add: map_find_map_of map_of_eq_None_iff)

lemma register_named_inv:
  assumes "registry_inv r" "register_named t r = Inr r'" "name t \<noteq> []"
  shows "registry_inv r' \<and> m_functionsInOrder r' = m_functionsInOrder r @ [t]"
proof -
  have new: "map_find (name t) (m_functions r) = None" using assms(2) by (auto simp: register_named_def split: if_splits)
  then have "name t \<notin> name ` set (m_functionsInOrder r)"
    using assms(1) map_find_absent [of "m_functions r" "name t"] by (simp add: registry_inv_def)
  moreover have "m_functions r' = map_assign (name t) t (m_functions r)" "m_functionsInOrder r' = m_functionsInOrder r @ [t]"
    "m_nonHiddenFunctions r' = m_nonHiddenFunctions r @ (if isHidden t then [] else [t])"
    using assms(2) new by (auto simp: register_named_def Let_def split: if_splits)
  ultimately show ?thesis
    using assms(1,3) by (simp add: registry_inv_def wf_map_assign keys_assign)
qed

lemma registerTest_inv:
  assumes "registry_inv r" "registerTest t r = Inr r'"
  shows "registry_inv r' \<and> (\<exists>n. m_functionsInOrder r' = m_functionsInOrder r @ [withName n t])"
proof (cases "name t = []")
  case True
  let ?t = "withName (''Anonymous test case '' @ decimal (m_unnamedCount r + 1)) t" and ?r = "r\<lparr>m_unnamedCount := m_unnamedCount r + 1\<rparr>"
  have "registry_inv ?r" using assms(1) by (simp add: registry_inv_def)
  moreover have "register_named ?t ?r = Inr r'" using assms(2) True by (simp add: registerTest_def Let_def)
  ultimately show ?thesis using register_named_inv [of ?r ?t r'] by (auto simp: withName_def)
next
  case False
  then have "registry_inv r' \<and> m_functionsInOrder r' = m_functionsInOrder r @ [t]"
    using assms by (intro register_named_inv) (auto simp: registerTest_def)
  then show ?thesis by (intro conjI exI [of _ "name t"]) (simp_all add: withName_def)
qed

lemma register_all_inv:
  "registry_inv r \<Longrightarrow> register_all ts r = Inr r' \<Longrightarrow>
     registry_inv r' \<and> length (m_functionsInOrder r') = length (m_functionsInOrder r) + length ts"
proof (induction ts arbitrary: r)
  case (Cons t ts)
  then obtain r1 where r1: "registerTest t r = Inr r1" "register_all ts r1 = Inr r'" by (auto split: sum.splits)
  with registerTest_inv [OF Cons.prems(1)] obtain n where
    "registry_inv r1" "m_functionsInOrder r1 = m_functionsInOrder r @ [withName n t]" by blast
  with Cons.IH [OF _ r1(2)] show ?case by simp
qed simp

section \<open>Properties\<close>

text \<open>
  C30. Specifications round trip. Take filters, none empty, of quoted names and bracketed tags, each with or
  without a tilde. If no name and no tag is empty, contains the character that ends it, or
  starts with \<open>exclude:\<close>, and no registered tag alias occurs in the text, then what the
  filters print as is parsed to exactly those filters and patterns, in order.
\<close>

theorem spec_round_trip:
  assumes "\<forall>f\<in>set fs. f \<noteq> [] \<and> list_all item_ok f" "\<forall>e\<in>set reg. str_find (fst e) (print_spec fs) = None"
  shows "parseTestSpec reg (print_spec fs) = map (map item_pattern) fs"
proof -
  let ?p = "TestSpecParser_new\<lparr>m_mode := None_mode, m_exclusion := False, m_start := 2 ^ 32 - 1,
      m_arg := print_spec fs, m_pos := 0\<rparr>"
  have "m_mode (parse_loop ?p) = None_mode \<and> testSpec (parse_loop ?p) = m_testSpec ?p @ map (map item_pattern) fs"
    by (rule parse_spec [where pre = "[]"]) (use assms(1) in \<open>simp_all add: between_def TestSpecParser_new_def\<close>)
  then show ?thesis
    by (simp add: parseTestSpec_def parse_def Let_def expand_none [OF assms(2)] TestSpecParser_new_def)
qed

theorem spec_round_trip_witness:
  "parseTestSpec [] (print_spec [ [(False, Named ''Get*''), (True, Tagged ''slow'')], [(False, Tagged ''net'')] ]) =
     [ [NamePattern ''get'' WildcardAtEnd, ExcludedPattern (TagPattern ''slow'')], [TagPattern ''net''] ]"
proof -
  let ?fs = "[ [(False, Named ''Get*''), (True, Tagged ''slow'')], [(False, Tagged ''net'')] ]"
  have "parseTestSpec [] (print_spec ?fs) = map (map item_pattern) ?fs"
    by (rule spec_round_trip) (simp_all add: startsWith_def substr_def)
  moreover have "map (map item_pattern) ?fs =
     [ [NamePattern ''get'' WildcardAtEnd, ExcludedPattern (TagPattern ''slow'')], [TagPattern ''net''] ]"
    by code_simp
  ultimately show ?thesis by simp
qed

text \<open>
  Hidden tests. Without a specification Catch runs the tests that \<open>~[.]\<close> selects: those without the
  tag \<open>.\<close>. That is not the complement of \<open>isHidden\<close>, which also holds for \<open>!hide\<close> and for \<open>hide\<close> in
  capitals: such a test says that it is hidden and is run all the same.
\<close>

theorem default_selection:
  assumes "makeTestCase f cls nam descOrTags l = Inr t" "aliases_ok reg"
  shows "(spec_matches (parseTestSpec reg ''~[.]'') t \<longleftrightarrow> (\<forall>x\<in>set (tags t). toLower x \<noteq> ''.'')) \<and>
     (isHidden t \<longleftrightarrow> (\<exists>x\<in>set (tags t). toLower x \<in> {''.'', ''hide'', ''!hide''}))"
proof -
  obtain d ts where t: "t = TestCaseInfo.extend (TestCaseInfo_new nam cls d ts l) \<lparr>test = f\<rparr>"
    using assms(1) by (auto simp: makeTestCase_def Let_def split: sum.splits)
  let ?i = "TestCaseInfo_new nam cls d ts l"
  have "tags t = ts" "lcaseTags t = lcaseTags ?i" "special t = special ?i"
    by (simp_all add: t TestCaseInfo.defs TestCaseInfo_new_def)
  moreover have "set (lcaseTags ?i) = toLower ` set ts" by (simp add: TestCaseInfo_new_def add_tags_lower)
  moreover have "isHidden ?i \<longleftrightarrow> (\<exists>x\<in>set ts. toLower x \<in> {''.'', ''hide'', ''!hide''})"
    unfolding TestCaseInfo_new_def hidden_tags by (simp add: isHidden_def property_defs)
  moreover have "''.'' \<notin> toLower ` set ts \<longleftrightarrow> (\<forall>x\<in>set ts. toLower x \<noteq> ''.'')"
    by (metis imageE image_eqI)
  ultimately show ?thesis
    unfolding default_spec [OF assms(2)] by (simp only: isHidden_def spec_matches.simps filter_matches.simps
        pattern_matches.simps if_bool_eq_conj simp_thms)
qed

theorem default_selection_witness:
  "\<exists>t. makeTestCase () [] ''a test'' ''[!hide]'' SourceLineInfo_new = Inr t \<and>
     spec_matches (parseTestSpec [] ''~[.]'') t \<and> isHidden t"
proof -
  obtain t where t: "makeTestCase () [] ''a test'' ''[!hide]'' SourceLineInfo_new = Inr t" "tags t = [''!hide'']"
    by (simp add: makeTestCase_def tag_char_def isReservedTag_def parseSpecialTag_def property_defs set_insert_def
        insort_insert_key_def startsWith_def substr_def Let_def TestCaseInfo_new_def TestCaseInfo.defs)
  from default_selection [OF t(1), of "[]"] t show ?thesis
    by (intro exI [of _ t]) (simp add: aliases_ok_def toLower_def tolower_def)
qed

text \<open>
  The registry is consistent. If the tests of a program are registered without a duplicate, the
  registry holds all of them in order, each under its own name that is not empty, and the list of
  the tests that are not hidden is the part of it that \<open>isHidden\<close> leaves.
\<close>

theorem registry_consistent:
  assumes "register_all ts TestRegistry_new = Inr r"
  shows "length (getAllTests r) = length ts \<and> distinct (map name (getAllTests r)) \<and> [] \<notin> name ` set (getAllTests r) \<and>
     getAllNonHiddenTests r = filter (\<lambda>t. \<not> isHidden t) (getAllTests r) \<and>
     getFilteredTests spec throwing r [] = filter (\<lambda>t. spec_matches spec t \<and> (throwing \<or> \<not> throws t)) (getAllTests r)"
proof -
  have "registry_inv r \<and> length (m_functionsInOrder r) = length ts"
    using register_all_inv [OF _ assms] by (simp add: registry_inv_def TestRegistry_new_def wf_map_def)
  then show ?thesis
    by (simp add: registry_inv_def getAllTests_def getAllNonHiddenTests_def getFilteredTests_def filter_tests_eq)
qed

definition plain_test :: "string \<Rightarrow> unit TestCase" where
  "plain_test n = TestCaseInfo.extend (TestCaseInfo_new n [] [] [] SourceLineInfo_new) \<lparr>test = ()\<rparr>"

theorem registry_consistent_witness:
  "\<exists>r. register_all [plain_test ''a'', plain_test [], plain_test ''b''] TestRegistry_new = Inr r \<and> length (getAllTests r) = 3"
proof -
  have "register_all [plain_test ''a'', plain_test [], plain_test ''b''] TestRegistry_new \<noteq> Inl e" for e
    by (simp add: plain_test_def registerTest_def register_named_def withName_def TestRegistry_new_def TestCaseInfo_new_def
        TestCaseInfo.defs Let_def decimal.simps)
  then obtain r where "register_all [plain_test ''a'', plain_test [], plain_test ''b''] TestRegistry_new = Inr r"
    by (metis sum.exhaust)
  from registry_consistent [OF this, of "[]" True] this show ?thesis by (intro exI [of _ r]) simp
qed

end
