(* ===== verification/CatchTracker.thy ===== *)
theory CatchTracker
  imports CatchStrings StdMap
begin

text \<open>
  How Catch finds its way through the sections of a test: the test case is run again and again, each
  time into one section that has not been completed, and a \<open>TestCaseTracker\<close> remembers in a tree of
  sections what has been done. The pointer to the current section, with the pointers from each
  section to its parent, is the current section together with the list of its ancestors, innermost
  first; a child is written back into its parent when it is left.
\<close>

section \<open>Tracked sections\<close>

datatype RunState = NotStarted | Executing | ExecutingChildren | Completed

datatype TrackedSection =
  TrackedSection (m_name: string) (m_runState: RunState) (m_children: "(string \<times> TrackedSection) list")

definition TrackedSection_new :: "string \<Rightarrow> TrackedSection" where
  "TrackedSection_new nam = TrackedSection nam NotStarted []"

definition findChild :: "string \<Rightarrow> TrackedSection \<Rightarrow> TrackedSection option" where
  "findChild childName s = map_find childName (m_children s)"

definition set_child :: "TrackedSection \<Rightarrow> TrackedSection \<Rightarrow> TrackedSection" where
  "set_child c s = TrackedSection (m_name s) (m_runState s) (map_assign (m_name c) c (m_children s))"

text \<open>The child, and the section that has it now.\<close>

definition acquireChild :: "string \<Rightarrow> TrackedSection \<Rightarrow> TrackedSection \<times> TrackedSection" where
  "acquireChild childName s =
     (case findChild childName s of
        Some child \<Rightarrow> (child, s)
      | None \<Rightarrow> (TrackedSection_new childName, set_child (TrackedSection_new childName) s))"

definition enter_section :: "TrackedSection \<Rightarrow> TrackedSection" where
  "enter_section s = (if m_runState s = NotStarted then TrackedSection (m_name s) Executing (m_children s) else s)"

definition leave_section :: "TrackedSection \<Rightarrow> TrackedSection" where
  "leave_section s =
     TrackedSection (m_name s)
       (if list_ex (\<lambda>(_, c). m_runState c \<noteq> Completed) (m_children s) then ExecutingChildren else Completed) (m_children s)"

definition hasChildren :: "TrackedSection \<Rightarrow> bool" where
  "hasChildren s \<longleftrightarrow> m_children s \<noteq> []"

section \<open>The tracker\<close>

record TestCaseTracker =
  m_currentSection :: TrackedSection
  m_parents :: "TrackedSection list"
  m_completedASectionThisRun :: bool

definition TestCaseTracker_new :: "string \<Rightarrow> TestCaseTracker" where
  "TestCaseTracker_new testCaseName =
     \<lparr>m_currentSection = TrackedSection_new testCaseName, m_parents = [], m_completedASectionThisRun = False\<rparr>"

text \<open>The test case, whatever section is the current one.\<close>

fun root_of :: "TrackedSection \<Rightarrow> TrackedSection list \<Rightarrow> TrackedSection" where
  "root_of s [] = s"
| "root_of s (p # ps) = root_of (set_child s p) ps"

definition m_testCase :: "TestCaseTracker \<Rightarrow> TrackedSection" where
  "m_testCase t = root_of (m_currentSection t) (m_parents t)"

definition enterSection :: "string \<Rightarrow> TestCaseTracker \<Rightarrow> bool \<times> TestCaseTracker" where
  "enterSection nam t =
     (let (child, cur) = acquireChild nam (m_currentSection t) in
      if m_completedASectionThisRun t \<or> m_runState child = Completed
      then (False, t\<lparr>m_currentSection := cur\<rparr>)
      else (True, t\<lparr>m_currentSection := enter_section child, m_parents := set_child (enter_section child) cur # m_parents t\<rparr>))"

text \<open>Leaving the test case itself trips the assertion.\<close>

definition leaveSection :: "TestCaseTracker \<Rightarrow> TestCaseTracker option" where
  "leaveSection t =
     (case m_parents t of
        [] \<Rightarrow> None
      | p # ps \<Rightarrow> Some (t\<lparr>m_currentSection := set_child (leave_section (m_currentSection t)) p, m_parents := ps,
          m_completedASectionThisRun := True\<rparr>))"

definition currentSectionHasChildren :: "TestCaseTracker \<Rightarrow> bool" where
  "currentSectionHasChildren t \<longleftrightarrow> hasChildren (m_currentSection t)"

definition isCompleted :: "TestCaseTracker \<Rightarrow> bool" where
  "isCompleted t \<longleftrightarrow> m_runState (m_testCase t) = Completed"

definition enterTestCase :: "TestCaseTracker \<Rightarrow> TestCaseTracker" where
  "enterTestCase t =
     t\<lparr>m_currentSection := enter_section (m_testCase t), m_parents := [], m_completedASectionThisRun := False\<rparr>"

text \<open>The test case is left in place: the current section stays what it is.\<close>

definition leaveTestCase :: "TestCaseTracker \<Rightarrow> TestCaseTracker" where
  "leaveTestCase t =
     (case m_parents t of
        [] \<Rightarrow> t\<lparr>m_currentSection := leave_section (m_currentSection t)\<rparr>
      | ps \<Rightarrow> t\<lparr>m_parents := butlast ps @ [leave_section (last ps)]\<rparr>)"

section \<open>A test with sections\<close>

text \<open>
  What the tracker sees of a test function: the sections it comes to, one after the other, and the
  sections within them. \<open>pass_body\<close> is one run of the function; it returns the paths of the innermost
  sections it has been in, and stops where the assertion of \<open>leaveSection\<close> would.
\<close>

datatype body = Body "(string \<times> body) list"

fun pass_body :: "string list \<Rightarrow> body \<Rightarrow> TestCaseTracker \<Rightarrow> (string list list \<times> TestCaseTracker) option"
  and pass_sections :: "string list \<Rightarrow> (string \<times> body) list \<Rightarrow> TestCaseTracker \<Rightarrow> (string list list \<times> TestCaseTracker) option"
where
  "pass_body path (Body []) t = Some ([path], t)"
| "pass_body path (Body (b # bs)) t = pass_sections path (b # bs) t"
| "pass_sections path [] t = Some ([], t)"
| "pass_sections path ((n, b) # bs) t =
     (case enterSection n t of
        (False, t) \<Rightarrow> pass_sections path bs t
      | (True, t) \<Rightarrow>
          (case pass_body (path @ [n]) b t of
             None \<Rightarrow> None
           | Some (ls, t) \<Rightarrow>
               (case leaveSection t of
                  None \<Rightarrow> None
                | Some t \<Rightarrow>
                    (case pass_sections path bs t of
                       None \<Rightarrow> None
                     | Some (ls', t) \<Rightarrow> Some (ls @ ls', t)))))"

definition pass_case :: "body \<Rightarrow> TestCaseTracker \<Rightarrow> (string list list \<times> TestCaseTracker) option" where
  "pass_case b t =
     (case pass_body [] b (enterTestCase t) of
        None \<Rightarrow> None
      | Some (ls, t) \<Rightarrow> Some (ls, leaveTestCase t))"

text \<open>Run after run, until the test case is completed; \<open>lss\<close> is what the runs so far have been in.\<close>

partial_function (option) pass_all ::
  "body \<Rightarrow> string list list list \<Rightarrow> TestCaseTracker \<Rightarrow> (string list list list \<times> TestCaseTracker) option" where
  "pass_all b lss t =
     (case pass_case b t of
        None \<Rightarrow> None
      | Some (ls, t) \<Rightarrow> if isCompleted t then Some (lss @ [ls], t) else pass_all b (lss @ [ls]) t)"

section \<open>What is left to do\<close>

text \<open>The innermost sections of a body, by their paths, in order.\<close>

fun leaves :: "body \<Rightarrow> string list list" where
  "leaves (Body []) = [ [] ]"
| "leaves (Body (b # bs)) = concat (map (\<lambda>(n, b). map ((#) n) (leaves b)) (b # bs))"

fun distinct_names :: "body \<Rightarrow> bool" where
  "distinct_names (Body bs) \<longleftrightarrow> distinct (map fst bs) \<and> (\<forall>(n, b)\<in>set bs. distinct_names b)"

text \<open>Those that a section in the tree of the tracker has still to see.\<close>

fun todo :: "body \<Rightarrow> TrackedSection \<Rightarrow> string list list" where
  "todo (Body bs) s =
     (if m_runState s = Completed then []
      else if bs = [] then [ [] ]
      else concat (map (\<lambda>(n, b). map ((#) n)
        (case map_find n (m_children s) of None \<Rightarrow> leaves b | Some c \<Rightarrow> todo b c)) bs))"

definition child_todo :: "(string \<times> TrackedSection) list \<Rightarrow> string \<times> body \<Rightarrow> string list list" where
  "child_todo m = (\<lambda>(n, b). map ((#) n) (case map_find n m of None \<Rightarrow> leaves b | Some c \<Rightarrow> todo b c))"

declare todo.simps [simp del]

lemma todo_eq:
  "todo (Body bs) s =
     (if m_runState s = Completed then [] else if bs = [] then [ [] ] else concat (map (child_todo (m_children s)) bs))"
  by (simp add: todo.simps child_todo_def)

lemma leaves_not_Nil: "leaves b \<noteq> []"
proof (induction b rule: leaves.induct)
  case (2 x bs)
  obtain n b where x: "x = (n, b)" by (cases x)
  then have "leaves b \<noteq> []" using 2 by auto
  then show ?case by (simp add: x)
qed simp

text \<open>A section of the tree fits the body: its children are sections of it, and one with nothing left to do is completed.\<close>

fun fits :: "body \<Rightarrow> TrackedSection \<Rightarrow> bool" where
  "fits (Body bs) s \<longleftrightarrow>
     wf_map (m_children s) \<and> fst ` set (m_children s) \<subseteq> fst ` set bs \<and>
     (\<forall>(n, b)\<in>set bs. \<forall>c. map_find n (m_children s) = Some c \<longrightarrow>
        m_name c = n \<and> fits b c \<and> (todo b c = [] \<longrightarrow> m_runState c = Completed))"

declare fits.simps [simp del]

definition child_fits :: "(string \<times> TrackedSection) list \<Rightarrow> string \<times> body \<Rightarrow> bool" where
  "child_fits m = (\<lambda>(n, b). \<forall>c. map_find n m = Some c \<longrightarrow>
     m_name c = n \<and> fits b c \<and> (todo b c = [] \<longrightarrow> m_runState c = Completed))"

lemma fits_eq:
  "fits (Body bs) s \<longleftrightarrow> wf_map (m_children s) \<and> fst ` set (m_children s) \<subseteq> fst ` set bs \<and> list_all (child_fits (m_children s)) bs"
  by (auto simp: fits.simps child_fits_def list_all_iff)

lemma new_section: "todo b (TrackedSection_new n) = leaves b" "fits b (TrackedSection_new n)"
proof -
  obtain bs where b: "b = Body bs" by (cases b)
  show "todo b (TrackedSection_new n) = leaves b"
    by (cases bs) (auto simp: b todo_eq TrackedSection_new_def child_todo_def)
  show "fits b (TrackedSection_new n)"
    by (simp add: b fits.simps TrackedSection_new_def wf_map_def)
qed

lemma enter_section_simps [simp]:
  "m_children (enter_section s) = m_children s" "m_name (enter_section s) = m_name s"
  "m_runState (enter_section s) = Completed \<longleftrightarrow> m_runState s = Completed"
  "m_runState (enter_section s) \<noteq> NotStarted"
  "fits b (enter_section s) = fits b s" "todo b (enter_section s) = todo b s"
  by (auto simp: enter_section_def) (cases b; simp add: fits.simps todo.simps)+

lemma set_child_simps [simp]:
  "m_name (set_child c s) = m_name s" "m_runState (set_child c s) = m_runState s"
  "m_children (set_child c s) = map_assign (m_name c) c (m_children s)"
  by (simp_all add: set_child_def)

text \<open>Another child's entry does not matter.\<close>

lemma child_cong:
  "map_find (fst x) m' = map_find (fst x) m \<Longrightarrow> child_todo m' x = child_todo m x"
  "map_find (fst x) m' = map_find (fst x) m \<Longrightarrow> child_fits m' x = child_fits m x"
  by (auto simp: child_todo_def child_fits_def split: prod.splits)

text \<open>The section after \<open>acquireChild\<close>.\<close>

lemma acquired:
  assumes "wf_map (m_children s)" "child_fits (m_children s) (n, b)"
  obtains c s' where "acquireChild n s = (c, s')" "m_name c = n" "fits b c" "todo b c = [] \<longrightarrow> m_runState c = Completed"
    "m_runState s' = m_runState s" "m_name s' = m_name s" "wf_map (m_children s')"
    "\<And>k. map_find k (m_children s') = (if k = n then Some c else map_find k (m_children s))"
    "child_todo (m_children s) (n, b) = map ((#) n) (todo b c)"
proof (cases "map_find n (m_children s)")
  case None
  let ?c = "TrackedSection_new n"
  show ?thesis
    by (rule that [of ?c "set_child ?c s"])
      (use None assms new_section leaves_not_Nil in
        \<open>auto simp: acquireChild_def findChild_def child_todo_def map_find_assign wf_map_assign, simp_all add: TrackedSection_new_def\<close>)
next
  case (Some c)
  show ?thesis
    by (rule that [of c s]) (use Some assms in \<open>auto simp: acquireChild_def findChild_def child_todo_def child_fits_def\<close>)
qed

section \<open>One run sees the next section\<close>

definition body_claim :: "body \<Rightarrow> bool" where
  "body_claim b \<longleftrightarrow>
     (\<forall>path t. fits b (m_currentSection t) \<longrightarrow> m_runState (m_currentSection t) \<noteq> Completed \<longrightarrow>
        todo b (m_currentSection t) \<noteq> [] \<longrightarrow> \<not> m_completedASectionThisRun t \<longrightarrow>
        (\<exists>t'. pass_body path b t = Some ([path @ hd (todo b (m_currentSection t))], t') \<and>
           m_parents t' = m_parents t \<and> m_name (m_currentSection t') = m_name (m_currentSection t) \<and>
           fits b (leave_section (m_currentSection t')) \<and>
           todo b (leave_section (m_currentSection t')) = tl (todo b (m_currentSection t)) \<and>
           (todo b (leave_section (m_currentSection t')) = [] \<longrightarrow> m_runState (leave_section (m_currentSection t')) = Completed)))"

text \<open>
  What a run of the sections \<open>bs\<close> does to the children \<open>m\<close> of the current section: if a section has
  been completed in this run, or none has anything left to do, nothing but that they are all known;
  otherwise the first thing left to do is done.
\<close>

definition stepped :: "string list \<Rightarrow> string list list \<Rightarrow> bool \<Rightarrow> string list list \<Rightarrow> bool \<Rightarrow> string list list \<Rightarrow> bool" where
  "stepped path T c ls c' T' \<longleftrightarrow>
     (if c \<or> T = [] then ls = [] \<and> c' = c \<and> T' = T else ls = [path @ hd T] \<and> c' \<and> T' = tl T)"

definition ran :: "string list \<Rightarrow> (string \<times> body) list \<Rightarrow> bool \<Rightarrow> (string \<times> TrackedSection) list \<Rightarrow> string list list \<Rightarrow>
    bool \<Rightarrow> (string \<times> TrackedSection) list \<Rightarrow> bool" where
  "ran path bs c m ls c' m' \<longleftrightarrow>
     wf_map m' \<and> list_all (child_fits m') bs \<and> (\<forall>n\<in>fst ` set bs. map_find n m' \<noteq> None) \<and>
     (\<forall>k. k \<notin> fst ` set bs \<longrightarrow> map_find k m' = map_find k m) \<and>
     stepped path (concat (map (child_todo m) bs)) c ls c' (concat (map (child_todo m') bs))"

lemma stepped_skip: "c \<or> S = [] \<Longrightarrow> stepped path T c ls c' T' \<Longrightarrow> stepped path (S @ T) c ls c' (S @ T')"
  by (auto simp: stepped_def split: if_splits)

lemma stepped_enter: "S \<noteq> [] \<Longrightarrow> stepped path T True ls c' T' \<Longrightarrow> stepped path (S @ T) False ((path @ hd S) # ls) c' (tl S @ T')"
  by (auto simp: stepped_def)

definition sections_claim :: "(string \<times> body) list \<Rightarrow> bool" where
  "sections_claim bs \<longleftrightarrow>
     (\<forall>path t. wf_map (m_children (m_currentSection t)) \<longrightarrow> list_all (child_fits (m_children (m_currentSection t))) bs \<longrightarrow>
        (\<exists>ls t'. pass_sections path bs t = Some (ls, t') \<and> m_parents t' = m_parents t \<and>
           m_name (m_currentSection t') = m_name (m_currentSection t) \<and>
           m_runState (m_currentSection t') = m_runState (m_currentSection t) \<and>
           ran path bs (m_completedASectionThisRun t) (m_children (m_currentSection t)) ls
             (m_completedASectionThisRun t') (m_children (m_currentSection t'))))"

lemma child_todo_map_cong:
  "(\<And>n. n \<in> fst ` set bs \<Longrightarrow> map_find n m' = map_find n m) \<Longrightarrow> map (child_todo m') bs = map (child_todo m) bs"
  by (rule map_cong [OF refl]) (auto intro!: child_cong)

lemma child_fits_cong:
  "(\<And>n. n \<in> fst ` set bs \<Longrightarrow> map_find n m' = map_find n m) \<Longrightarrow> list_all (child_fits m') bs = list_all (child_fits m) bs"
  unfolding list_all_iff by (rule ball_cong [OF refl]) (auto intro!: child_cong)

text \<open>The two ways a section is treated, seen from the children of the current section.\<close>

lemma ran_skip:
  assumes "n \<notin> fst ` set bs" "map_find n m1 = Some s" "m_name s = n" "fits b s" "todo b s = [] \<longrightarrow> m_runState s = Completed"
    "\<And>k. k \<noteq> n \<Longrightarrow> map_find k m1 = map_find k m" "child_todo m (n, b) = map ((#) n) (todo b s)" "c \<or> m_runState s = Completed"
    "ran path bs c m1 ls c' m'"
  shows "ran path ((n, b) # bs) c m ls c' m'"
proof -
  have n: "map_find n m' = Some s" using assms(1,2,9) by (auto simp: ran_def Let_def)
  have "map_find k m1 = map_find k m" if "k \<in> fst ` set bs" for k using that assms(1,6) by metis
  then have T: "concat (map (child_todo m1) bs) = concat (map (child_todo m) bs)"
    by (subst child_todo_map_cong [where m = m]) simp_all
  have c: "child_todo m' (n, b) = child_todo m (n, b)" "child_fits m' (n, b)"
    using n assms(3-5,7) by (auto simp: child_todo_def child_fits_def)
  have "todo b s = []" if "m_runState s = Completed"
    using that by (cases b) (simp add: todo.simps)
  then have "c \<or> child_todo m (n, b) = []" using assms(7,8) by auto
  moreover have "stepped path (concat (map (child_todo m) bs)) c ls c' (concat (map (child_todo m') bs))"
    using assms(9) T by (simp add: ran_def)
  ultimately have "stepped path (child_todo m (n, b) @ concat (map (child_todo m) bs)) c ls c'
      (child_todo m (n, b) @ concat (map (child_todo m') bs))"
    by (rule stepped_skip)
  then show ?thesis
    using assms(6,9) n c by (simp add: ran_def)
qed

lemma ran_enter:
  assumes "n \<notin> fst ` set bs" "map_find n m2 = Some s'" "m_name s' = n" "fits b s'" "todo b s' = [] \<longrightarrow> m_runState s' = Completed"
    "\<And>k. k \<noteq> n \<Longrightarrow> map_find k m2 = map_find k m" "child_todo m (n, b) = map ((#) n) (todo b s)" "todo b s \<noteq> []"
    "todo b s' = tl (todo b s)" "ran path bs True m2 ls c' m'"
  shows "ran path ((n, b) # bs) False m ([(path @ [n]) @ hd (todo b s)] @ ls) c' m'"
proof -
  have n: "map_find n m' = Some s'" using assms(1,2,10) by (auto simp: ran_def Let_def)
  have "map_find k m2 = map_find k m" if "k \<in> fst ` set bs" for k using that assms(1,6) by metis
  then have T: "concat (map (child_todo m2) bs) = concat (map (child_todo m) bs)"
    by (subst child_todo_map_cong [where m = m]) simp_all
  have c: "child_todo m' (n, b) = tl (child_todo m (n, b))" "child_fits m' (n, b)"
    using n assms(3-5,7,9) by (auto simp: child_todo_def child_fits_def map_tl)
  have h: "child_todo m (n, b) \<noteq> []" "hd (child_todo m (n, b)) = n # hd (todo b s)"
    using assms(7,8) by (simp_all add: hd_map)
  have "stepped path (concat (map (child_todo m) bs)) True ls c' (concat (map (child_todo m') bs))"
    using assms(10) T by (simp add: ran_def)
  from stepped_enter [OF h(1) this]
  show ?thesis
    using assms(6,10) n c h(2) by (simp add: ran_def)
qed

lemma sections_claimI:
  assumes "\<forall>(n, b)\<in>set bs. body_claim b" "distinct (map fst bs)"
  shows "sections_claim bs"
  using assms
proof (induction bs)
  case Nil
  then show ?case by (simp add: sections_claim_def ran_def stepped_def)
next
  case (Cons x bs)
  obtain n b where x: "x = (n, b)" by (cases x)
  have IH: "sections_claim bs" and body: "body_claim b" and n: "n \<notin> fst ` set bs"
    using Cons by (auto simp: x)
  show ?case
    unfolding sections_claim_def
  proof (intro allI impI)
    fix path and t :: TestCaseTracker
    let ?s = "m_currentSection t" and ?c = "m_completedASectionThisRun t"
    assume wf: "wf_map (m_children ?s)" and fits: "list_all (child_fits (m_children ?s)) (x # bs)"
    have "child_fits (m_children ?s) (n, b)" using fits by (simp add: x)
    from acquired [OF wf this] obtain c s' where c: "acquireChild n ?s = (c, s')" "m_name c = n" "fits b c"
      "todo b c = [] \<longrightarrow> m_runState c = Completed" "m_runState s' = m_runState ?s" "m_name s' = m_name ?s" "wf_map (m_children s')"
      "\<And>k. map_find k (m_children s') = (if k = n then Some c else map_find k (m_children ?s))"
      "child_todo (m_children ?s) (n, b) = map ((#) n) (todo b c)" by metis
    have eq: "map_find k m = map_find k (m_children ?s)" if "k \<in> fst ` set bs" "\<And>k. k \<noteq> n \<Longrightarrow> map_find k m = map_find k (m_children s')" for k m
      using that n c(8) by metis
    have f: "list_all (child_fits m) bs" if "\<And>k. k \<noteq> n \<Longrightarrow> map_find k m = map_find k (m_children s')" for m
      using child_fits_cong [of bs m "m_children ?s"] eq that fits by simp
    show "\<exists>ls t'. pass_sections path (x # bs) t = Some (ls, t') \<and> m_parents t' = m_parents t \<and>
           m_name (m_currentSection t') = m_name ?s \<and> m_runState (m_currentSection t') = m_runState ?s \<and>
           ran path (x # bs) ?c (m_children ?s) ls (m_completedASectionThisRun t') (m_children (m_currentSection t'))"
    proof (cases "?c \<or> m_runState c = Completed")
      case True
      let ?t = "t\<lparr>m_currentSection := s'\<rparr>"
      obtain ls t' where t': "pass_sections path bs ?t = Some (ls, t')" "m_parents t' = m_parents t"
          "m_name (m_currentSection t') = m_name s'" "m_runState (m_currentSection t') = m_runState s'"
          "ran path bs ?c (m_children s') ls (m_completedASectionThisRun t') (m_children (m_currentSection t'))"
        using IH [unfolded sections_claim_def, rule_format, of ?t path] c(7) f [of "m_children s'"] by auto
      have "ran path ((n, b) # bs) ?c (m_children ?s) ls (m_completedASectionThisRun t') (m_children (m_currentSection t'))"
        by (rule ran_skip [OF n, of "m_children s'" c]) (use c True t'(5) in auto)
      then show ?thesis using t' c True by (auto simp: x enterSection_def)
    next
      case False
      let ?e = "enter_section c"
      let ?t = "t\<lparr>m_currentSection := ?e, m_parents := set_child ?e s' # m_parents t\<rparr>"
      have todo: "todo b c \<noteq> []" using False c(4) by auto
      obtain t1 where t1: "pass_body (path @ [n]) b ?t = Some ([(path @ [n]) @ hd (todo b c)], t1)"
          "m_parents t1 = set_child ?e s' # m_parents t" "m_name (m_currentSection t1) = n"
          "fits b (leave_section (m_currentSection t1))" "todo b (leave_section (m_currentSection t1)) = tl (todo b c)"
          "todo b (leave_section (m_currentSection t1)) = [] \<longrightarrow> m_runState (leave_section (m_currentSection t1)) = Completed"
        using body [unfolded body_claim_def, rule_format, of ?t "path @ [n]"] c False todo by auto
      let ?l = "leave_section (m_currentSection t1)" 
      let ?s2 = "set_child ?l (set_child ?e s')" and ?m2 = "map_assign n ?l (map_assign n ?e (m_children s'))"
      let ?t2 = "t1\<lparr>m_currentSection := ?s2, m_parents := m_parents t, m_completedASectionThisRun := True\<rparr>"
      have l: "m_name ?l = n" using t1(3) by (simp add: leave_section_def)
      have m2: "wf_map ?m2" "\<And>k. map_find k ?m2 = (if k = n then Some ?l else map_find k (m_children s'))"
        using c(7) by (auto simp: wf_map_assign map_find_assign)
      obtain ls t' where t': "pass_sections path bs ?t2 = Some (ls, t')" "m_parents t' = m_parents t"
          "m_name (m_currentSection t') = m_name s'" "m_runState (m_currentSection t') = m_runState s'"
          "ran path bs True ?m2 ls (m_completedASectionThisRun t') (m_children (m_currentSection t'))"
        using IH [unfolded sections_claim_def, rule_format, of ?t2 path] m2 f [of ?m2] l c(2) by auto
      have "ran path ((n, b) # bs) False (m_children ?s) ([(path @ [n]) @ hd (todo b c)] @ ls)
          (m_completedASectionThisRun t') (m_children (m_currentSection t'))"
        by (rule ran_enter [OF n, of ?m2 ?l]) (use c m2 l t1 t'(5) todo in auto)
      moreover have "leaveSection t1 = Some ?t2" using t1(2) by (simp add: leaveSection_def)
      ultimately show ?thesis using t' t1(1) c False by (auto simp: x enterSection_def)
    qed
  qed
qed

lemma leave_simps [simp]: "m_children (leave_section s) = m_children s" "m_name (leave_section s) = m_name s"
  by (simp_all add: leave_section_def)

lemma left_completed:
  assumes "wf_map (m_children s)"
  shows "m_runState (leave_section s) = Completed \<longleftrightarrow> (\<forall>n c. map_find n (m_children s) = Some c \<longrightarrow> m_runState c = Completed)"
proof -
  have "(n, c) \<in> set (m_children s) \<longleftrightarrow> map_find n (m_children s) = Some c" for n c
    using std_map.entry_iff [OF assms] by simp
  then show ?thesis by (auto simp: leave_section_def list_ex_iff)
qed

lemma known_children:
  assumes "\<forall>k. k \<notin> N \<longrightarrow> map_find k m' = map_find k m" "fst ` set m \<subseteq> N" "wf_map m" "wf_map m'"
  shows "fst ` set m' \<subseteq> N" "map_find k m' = Some c \<Longrightarrow> k \<in> N"
proof -
  have "map_find k m' = None" if "k \<notin> N" for k
    using that assms by (auto simp: map_find_map_of map_of_eq_None_iff)
  then show "map_find k m' = Some c \<Longrightarrow> k \<in> N" for k c by force
  then show "fst ` set m' \<subseteq> N" using std_map.entry_iff [OF assms(4)] by force
qed

text \<open>What leaving a section makes of it, when its sections have been run.\<close>

lemma left_section:
  assumes "fits (Body bs) s" "bs \<noteq> []" "todo (Body bs) s \<noteq> []" "m_runState s \<noteq> Completed"
    "ran path bs False (m_children s) ls c' (m_children s')"
  shows "ls = [path @ hd (todo (Body bs) s)]" "fits (Body bs) (leave_section s')"
    "todo (Body bs) (leave_section s') = tl (todo (Body bs) s)"
    "todo (Body bs) (leave_section s') = [] \<longrightarrow> m_runState (leave_section s') = Completed"
proof -
  let ?m = "m_children s" and ?m' = "m_children s'"
  have T: "todo (Body bs) s = concat (map (child_todo ?m) bs)" using assms(2,4) by (simp add: todo_eq)
  have m: "wf_map ?m" "fst ` set ?m \<subseteq> fst ` set bs" using assms(1) by (simp_all add: fits_eq)
  have r: "wf_map ?m'" "list_all (child_fits ?m') bs" "\<forall>n\<in>fst ` set bs. map_find n ?m' \<noteq> None"
    "\<forall>k. k \<notin> fst ` set bs \<longrightarrow> map_find k ?m' = map_find k ?m"
    "stepped path (todo (Body bs) s) False ls c' (concat (map (child_todo ?m') bs))"
    using assms(5) by (simp_all add: ran_def T)
  note known = known_children [OF r(4) m(2,1) r(1)]
  show "ls = [path @ hd (todo (Body bs) s)]" using r(5) assms(3) by (simp add: stepped_def)
  show "fits (Body bs) (leave_section s')" using r known(1) by (simp add: fits_eq)
  have tl: "concat (map (child_todo ?m') bs) = tl (todo (Body bs) s)" using r(5) assms(3) by (simp add: stepped_def)
  have seen: "child_todo ?m' (n, b) = [] \<longleftrightarrow> m_runState c = Completed"
    if "(n, b) \<in> set bs" "map_find n ?m' = Some c" for n b c
  proof -
    have "todo b c = [] \<longrightarrow> m_runState c = Completed" using r(2) that by (auto simp: list_all_iff child_fits_def)
    moreover have "m_runState c = Completed \<longrightarrow> todo b c = []" by (cases b) (simp add: todo.simps)
    ultimately show ?thesis using that(2) by (auto simp: child_todo_def)
  qed
  have "m_runState (leave_section s') = Completed \<longleftrightarrow> (\<forall>x\<in>set bs. child_todo ?m' x = [])"
    unfolding left_completed [OF r(1)]
  proof (intro iffI ballI allI impI)
    fix x assume a: "\<forall>n c. map_find n ?m' = Some c \<longrightarrow> m_runState c = Completed" and x: "x \<in> set bs"
    obtain n b where nb: "x = (n, b)" by (cases x)
    then obtain c where "map_find n ?m' = Some c" using r(3) x by force
    then show "child_todo ?m' x = []" using seen [of n b c] a x nb by simp
  next
    fix n c assume a: "\<forall>x\<in>set bs. child_todo ?m' x = []" and c: "map_find n ?m' = Some c"
    then obtain b where "(n, b) \<in> set bs" using known(2) by force
    with a c show "m_runState c = Completed" using seen [of n b c] by simp
  qed
  also have "\<dots> \<longleftrightarrow> concat (map (child_todo ?m') bs) = []" by (auto simp: concat_eq_Nil_conv)
  finally have c: "m_runState (leave_section s') = Completed \<longleftrightarrow> tl (todo (Body bs) s) = []" by (simp only: tl)
  have "todo (Body bs) (leave_section s') = (if m_runState (leave_section s') = Completed then [] else tl (todo (Body bs) s))"
    by (simp only: todo_eq [of bs "leave_section s'"] leave_simps tl assms(2) if_False)
  with c show "todo (Body bs) (leave_section s') = tl (todo (Body bs) s)"
      "todo (Body bs) (leave_section s') = [] \<longrightarrow> m_runState (leave_section s') = Completed"
    by simp_all
qed

lemma body_claimI: "distinct_names b \<Longrightarrow> body_claim b"
proof (induction b)
  case (Body bs)
  have sections: "sections_claim bs"
  proof (rule sections_claimI)
    show "\<forall>(n, b)\<in>set bs. body_claim b" using Body by (fastforce simp: snds.simps)
    show "distinct (map fst bs)" using Body.prems by simp
  qed
  show ?case
    unfolding body_claim_def
  proof (intro allI impI)
    fix path and t :: TestCaseTracker
    let ?s = "m_currentSection t"
    assume a: "fits (Body bs) ?s" "m_runState ?s \<noteq> Completed" "todo (Body bs) ?s \<noteq> []" "\<not> m_completedASectionThisRun t"
    show "\<exists>t'. pass_body path (Body bs) t = Some ([path @ hd (todo (Body bs) ?s)], t') \<and>
           m_parents t' = m_parents t \<and> m_name (m_currentSection t') = m_name ?s \<and>
           fits (Body bs) (leave_section (m_currentSection t')) \<and>
           todo (Body bs) (leave_section (m_currentSection t')) = tl (todo (Body bs) ?s) \<and>
           (todo (Body bs) (leave_section (m_currentSection t')) = [] \<longrightarrow> m_runState (leave_section (m_currentSection t')) = Completed)"
    proof (cases bs)
      case Nil
      then have "m_children ?s = []" using a(1) by (simp add: fits_eq)
      then show ?thesis using a Nil by (intro exI [of _ t]) (simp add: todo_eq fits_eq leave_section_def)
    next
      case (Cons x xs)
      obtain ls t' where t': "pass_sections path bs t = Some (ls, t')" "m_parents t' = m_parents t"
          "m_name (m_currentSection t') = m_name ?s"
          "ran path bs False (m_children ?s) ls (m_completedASectionThisRun t') (m_children (m_currentSection t'))"
        using sections [unfolded sections_claim_def, rule_format, of t path] a(1,4) by (auto simp: fits_eq)
      note l = left_section [OF a(1) _ a(3,2) t'(4)]
      have "bs \<noteq> []" using Cons by simp
      then show ?thesis using l t' Cons by (intro exI [of _ t']) simp
    qed
  qed
qed

section \<open>All runs\<close>

lemma pass_case_step:
  assumes "distinct_names b" "m_parents t = []" "fits b (m_currentSection t)" "todo b (m_currentSection t) \<noteq> []"
  shows "\<exists>t'. pass_case b t = Some ([hd (todo b (m_currentSection t))], t') \<and> m_parents t' = [] \<and>
     fits b (m_currentSection t') \<and> todo b (m_currentSection t') = tl (todo b (m_currentSection t)) \<and>
     (isCompleted t' \<longleftrightarrow> todo b (m_currentSection t') = [])"
proof -
  let ?s = "m_currentSection t" and ?t = "enterTestCase t"
  have t: "m_currentSection ?t = enter_section ?s" "m_parents ?t = []" "\<not> m_completedASectionThisRun ?t"
    using assms(2) by (simp_all add: enterTestCase_def m_testCase_def)
  have completed: "m_runState s = Completed \<Longrightarrow> todo b s = []" for s by (cases b) (simp add: todo.simps)
  then have "m_runState ?s \<noteq> Completed" using assms(4) by blast
  then obtain t1 where t1: "pass_body [] b ?t = Some ([[] @ hd (todo b ?s)], t1)" "m_parents t1 = []"
      "fits b (leave_section (m_currentSection t1))" "todo b (leave_section (m_currentSection t1)) = tl (todo b ?s)"
      "todo b (leave_section (m_currentSection t1)) = [] \<longrightarrow> m_runState (leave_section (m_currentSection t1)) = Completed"
    using body_claimI [OF assms(1), unfolded body_claim_def, rule_format, of ?t "[]"] assms(3,4) t by auto
  then show ?thesis
    using completed
    by (intro exI [of _ "leaveTestCase t1"]) (auto simp: pass_case_def leaveTestCase_def isCompleted_def m_testCase_def)
qed

lemma pass_all_returns:
  assumes "distinct_names b" "m_parents t = []" "fits b (m_currentSection t)" "todo b (m_currentSection t) \<noteq> []"
  shows "\<exists>t'. pass_all b lss t = Some (lss @ map (\<lambda>p. [p]) (todo b (m_currentSection t)), t') \<and> isCompleted t'"
  using assms(2-4)
proof (induction "length (todo b (m_currentSection t))" arbitrary: t lss rule: less_induct)
  case less
  obtain p ps where T: "todo b (m_currentSection t) = p # ps" using less.prems(3) by (cases "todo b (m_currentSection t)") auto
  obtain t' where t': "pass_case b t = Some ([p], t')" "m_parents t' = []"
      "fits b (m_currentSection t')" "todo b (m_currentSection t') = ps" "isCompleted t' \<longleftrightarrow> ps = []"
    using pass_case_step [OF assms(1) less.prems] T by auto
  show ?case
  proof (cases "isCompleted t'")
    case True
    then show ?thesis using t' T by (simp add: pass_all.simps [of b lss t])
  next
    case False
    have "length (todo b (m_currentSection t')) < length (todo b (m_currentSection t))" using T t'(4) by simp
    from less.hyps [OF this t'(2,3)] False t'(4,5) obtain t'' where
      "pass_all b (lss @ [ [p] ]) t' = Some ((lss @ [ [p] ]) @ map (\<lambda>p. [p]) ps, t'')" "isCompleted t''" by metis
    then show ?thesis using t'(1) False T by (simp add: pass_all.simps [of b lss t])
  qed
qed

section \<open>Properties\<close>

text \<open>
  C29. Every section once. A test function whose sections have different names on each level is run
  again and again, each run goes into exactly one innermost section, the next one in the order of
  the source, and after the last one the tracker says that the test case is completed: the loop ends
  after as many runs as there are innermost sections, and none is left out or repeated.
\<close>

theorem each_section_once:
  assumes "distinct_names b"
  shows "\<exists>t. pass_all b [] (TestCaseTracker_new n) = Some (map (\<lambda>p. [p]) (leaves b), t) \<and> isCompleted t"
proof -
  have "m_parents (TestCaseTracker_new n) = []" "m_currentSection (TestCaseTracker_new n) = TrackedSection_new n"
    by (simp_all add: TestCaseTracker_new_def)
  then show ?thesis
    using pass_all_returns [OF assms, of "TestCaseTracker_new n" "[]"] leaves_not_Nil [of b] new_section [of b n] by simp
qed

theorem each_section_once_witness:
  "\<exists>t. pass_all (Body [(''a'', Body [(''x'', Body []), (''y'', Body [])]), (''b'', Body [])]) [] (TestCaseTracker_new ''test'') =
     Some ([ [ [''a'', ''x''] ], [ [''a'', ''y''] ], [ [''b''] ] ], t) \<and> isCompleted t"
  using each_section_once [of "Body [(''a'', Body [(''x'', Body []), (''y'', Body [])]), (''b'', Body [])]" "''test''"] by simp

end
