(* ===== verification/CatchResult.thy ===== *)
theory CatchResult
  imports CatchStrings
begin

text \<open>
  What an assertion of Catch comes to: the kinds of results and how they are to be treated, the counts
  that are kept of them, the records that describe an assertion and its result, and the
  \<open>ResultBuilder\<close> that the macros fill in. What the builder does to the run of the tests is in
  \<open>CatchRun\<close>.
\<close>

section \<open>Results and dispositions\<close>

text \<open>\<open>ResultWas::OfType\<close>, the bits of an \<open>int\<close>.\<close>

type_synonym OfType = u32

definition FailureBit :: OfType where "FailureBit = 0x10"
definition ResultUnknown :: OfType where "ResultUnknown = - 1"
definition ResultOk :: OfType where "ResultOk = 0"
definition ResultInfo :: OfType where "ResultInfo = 1"
definition ResultWarning :: OfType where "ResultWarning = 2"
definition ExpressionFailed :: OfType where "ExpressionFailed = FailureBit OR 1"
definition ExplicitFailure :: OfType where "ExplicitFailure = FailureBit OR 2"
definition ResultException :: OfType where "ResultException = 0x100 OR FailureBit"
definition ThrewException :: OfType where "ThrewException = ResultException OR 1"
definition DidntThrowException :: OfType where "DidntThrowException = ResultException OR 2"

lemmas result_defs = FailureBit_def ResultUnknown_def ResultOk_def ResultInfo_def ResultWarning_def ExpressionFailed_def
  ExplicitFailure_def ResultException_def ThrewException_def DidntThrowException_def

definition type_isOk :: "OfType \<Rightarrow> bool" where
  "type_isOk resultType \<longleftrightarrow> resultType AND FailureBit = 0"

definition isJustInfo :: "OfType \<Rightarrow> bool" where
  "isJustInfo flags \<longleftrightarrow> flags = ResultInfo"

lemma type_isOk_simps [simp]:
  "type_isOk ResultOk" "type_isOk ResultInfo" "type_isOk ResultWarning" "\<not> type_isOk ExpressionFailed"
  "\<not> type_isOk ExplicitFailure" "\<not> type_isOk ThrewException" "\<not> type_isOk DidntThrowException" "\<not> type_isOk ResultUnknown"
  by (simp_all add: type_isOk_def result_defs)

text \<open>\<open>ResultDisposition::Flags\<close>; the operator \<open>|\<close> is \<open>OR\<close>.\<close>

type_synonym Flags = u32

definition NormalResult :: Flags where "NormalResult = 0"
definition ContinueOnFailure :: Flags where "ContinueOnFailure = 1"
definition FalseTest :: Flags where "FalseTest = 2"
definition SuppressFail :: Flags where "SuppressFail = 4"

lemmas flag_defs = NormalResult_def ContinueOnFailure_def FalseTest_def SuppressFail_def

definition shouldContinueOnFailure :: "Flags \<Rightarrow> bool" where
  "shouldContinueOnFailure flags \<longleftrightarrow> flags AND ContinueOnFailure \<noteq> 0"

definition isFalseTest :: "Flags \<Rightarrow> bool" where
  "isFalseTest flags \<longleftrightarrow> flags AND FalseTest \<noteq> 0"

definition shouldSuppressFailure :: "Flags \<Rightarrow> bool" where
  "shouldSuppressFailure flags \<longleftrightarrow> flags AND SuppressFail \<noteq> 0"

section \<open>Counts\<close>

record Counts =
  n_passed :: u32
  n_failed :: u32
  n_failedButOk :: u32

definition Counts_new :: Counts where
  "Counts_new = \<lparr>n_passed = 0, n_failed = 0, n_failedButOk = 0\<rparr>"

definition counts_minus :: "Counts \<Rightarrow> Counts \<Rightarrow> Counts" where
  "counts_minus a b =
     \<lparr>n_passed = n_passed a - n_passed b, n_failed = n_failed a - n_failed b, n_failedButOk = n_failedButOk a - n_failedButOk b\<rparr>"

definition counts_plus :: "Counts \<Rightarrow> Counts \<Rightarrow> Counts" where
  "counts_plus a b =
     \<lparr>n_passed = n_passed a + n_passed b, n_failed = n_failed a + n_failed b, n_failedButOk = n_failedButOk a + n_failedButOk b\<rparr>"

definition counts_total :: "Counts \<Rightarrow> u32" where
  "counts_total c = n_passed c + n_failed c + n_failedButOk c"

definition allPassed :: "Counts \<Rightarrow> bool" where
  "allPassed c \<longleftrightarrow> n_failed c = 0 \<and> n_failedButOk c = 0"

record Totals =
  n_assertions :: Counts
  n_testCases :: Counts

definition Totals_new :: Totals where
  "Totals_new = \<lparr>n_assertions = Counts_new, n_testCases = Counts_new\<rparr>"

definition totals_minus :: "Totals \<Rightarrow> Totals \<Rightarrow> Totals" where
  "totals_minus a b =
     \<lparr>n_assertions = counts_minus (n_assertions a) (n_assertions b), n_testCases = counts_minus (n_testCases a) (n_testCases b)\<rparr>"

definition delta :: "Totals \<Rightarrow> Totals \<Rightarrow> Totals" where
  "delta t prevTotals =
     (let diff = totals_minus t prevTotals in
      if n_failed (n_assertions diff) > 0
      then diff\<lparr>n_testCases := (n_testCases diff)\<lparr>n_failed := n_failed (n_testCases diff) + 1\<rparr>\<rparr>
      else if n_failedButOk (n_assertions diff) > 0
      then diff\<lparr>n_testCases := (n_testCases diff)\<lparr>n_failedButOk := n_failedButOk (n_testCases diff) + 1\<rparr>\<rparr>
      else diff\<lparr>n_testCases := (n_testCases diff)\<lparr>n_passed := n_passed (n_testCases diff) + 1\<rparr>\<rparr>)"

definition totals_plus :: "Totals \<Rightarrow> Totals \<Rightarrow> Totals" where
  "totals_plus a b =
     \<lparr>n_assertions = counts_plus (n_assertions a) (n_assertions b), n_testCases = counts_plus (n_testCases a) (n_testCases b)\<rparr>"

text \<open>The counts are an abelian group, place by place.\<close>

lemma counts_simps [simp]:
  "counts_minus a a = Counts_new" "counts_plus a (counts_minus b a) = b" "counts_minus (counts_plus a b) a = b"
  "counts_plus a Counts_new = a" "counts_plus Counts_new a = a"
  by (simp_all add: counts_minus_def counts_plus_def Counts_new_def)

lemma counts_plus_ac: "counts_plus (counts_plus a b) c = counts_plus a (counts_plus b c)" "counts_plus a b = counts_plus b a"
  by (simp_all add: counts_plus_def ac_simps)

section \<open>Assertions and their results\<close>

record AssertionInfo =
  ai_macroName :: string
  ai_lineInfo :: SourceLineInfo
  ai_capturedExpression :: string
  ai_resultDisposition :: Flags

definition AssertionInfo_new :: "string \<Rightarrow> SourceLineInfo \<Rightarrow> string \<Rightarrow> Flags \<Rightarrow> AssertionInfo" where
  "AssertionInfo_new m l e d = \<lparr>ai_macroName = m, ai_lineInfo = l, ai_capturedExpression = e, ai_resultDisposition = d\<rparr>"

record AssertionResultData =
  reconstructedExpression :: string
  rd_message :: string
  resultType :: OfType

definition AssertionResultData_new :: AssertionResultData where
  "AssertionResultData_new = \<lparr>reconstructedExpression = [], rd_message = [], resultType = ResultUnknown\<rparr>"

record AssertionResult =
  ar_info :: AssertionInfo
  ar_resultData :: AssertionResultData

definition succeeded :: "AssertionResult \<Rightarrow> bool" where
  "succeeded r \<longleftrightarrow> type_isOk (resultType (ar_resultData r))"

definition isOk :: "AssertionResult \<Rightarrow> bool" where
  "isOk r \<longleftrightarrow> type_isOk (resultType (ar_resultData r)) \<or> shouldSuppressFailure (ai_resultDisposition (ar_info r))"

definition getResultType :: "AssertionResult \<Rightarrow> OfType" where
  "getResultType r = resultType (ar_resultData r)"

definition hasExpression :: "AssertionResult \<Rightarrow> bool" where
  "hasExpression r \<longleftrightarrow> ai_capturedExpression (ar_info r) \<noteq> []"

definition hasMessage :: "AssertionResult \<Rightarrow> bool" where
  "hasMessage r \<longleftrightarrow> rd_message (ar_resultData r) \<noteq> []"

definition getExpression :: "AssertionResult \<Rightarrow> string" where
  "getExpression r =
     (if isFalseTest (ai_resultDisposition (ar_info r)) then ''!'' @ ai_capturedExpression (ar_info r)
      else ai_capturedExpression (ar_info r))"

definition getExpressionInMacro :: "AssertionResult \<Rightarrow> string" where
  "getExpressionInMacro r =
     (if ai_macroName (ar_info r) = [] then ai_capturedExpression (ar_info r)
      else ai_macroName (ar_info r) @ ''( '' @ ai_capturedExpression (ar_info r) @ '' )'')"

definition getExpandedExpression :: "AssertionResult \<Rightarrow> string" where
  "getExpandedExpression r = reconstructedExpression (ar_resultData r)"

definition hasExpandedExpression :: "AssertionResult \<Rightarrow> bool" where
  "hasExpandedExpression r \<longleftrightarrow> hasExpression r \<and> getExpandedExpression r \<noteq> getExpression r"

definition getMessage :: "AssertionResult \<Rightarrow> string" where
  "getMessage r = rd_message (ar_resultData r)"

definition getSourceInfo :: "AssertionResult \<Rightarrow> SourceLineInfo" where
  "getSourceInfo r = ai_lineInfo (ar_info r)"

definition getTestMacroName :: "AssertionResult \<Rightarrow> string" where
  "getTestMacroName r = ai_macroName (ar_info r)"

section \<open>The builder\<close>

record ExprComponents =
  testFalse :: bool
  e_lhs :: string
  e_rhs :: string
  e_op :: string

record ResultBuilder =
  rb_assertionInfo :: AssertionInfo
  rb_data :: AssertionResultData
  rb_exprComponents :: ExprComponents
  rb_stream :: string
  rb_shouldDebugBreak :: bool
  rb_shouldThrow :: bool

definition ResultBuilder_new :: "string \<Rightarrow> SourceLineInfo \<Rightarrow> string \<Rightarrow> Flags \<Rightarrow> ResultBuilder" where
  "ResultBuilder_new macro l expr d =
     \<lparr>rb_assertionInfo = AssertionInfo_new macro l expr d, rb_data = AssertionResultData_new,
       rb_exprComponents = \<lparr>testFalse = False, e_lhs = [], e_rhs = [], e_op = []\<rparr>, rb_stream = [],
       rb_shouldDebugBreak = False, rb_shouldThrow = False\<rparr>"

definition setResultType :: "OfType \<Rightarrow> ResultBuilder \<Rightarrow> ResultBuilder" where
  "setResultType result b = b\<lparr>rb_data := (rb_data b)\<lparr>resultType := result\<rparr>\<rparr>"

definition setResultBool :: "bool \<Rightarrow> ResultBuilder \<Rightarrow> ResultBuilder" where
  "setResultBool result b = b\<lparr>rb_data := (rb_data b)\<lparr>resultType := (if result then ResultOk else ExpressionFailed)\<rparr>\<rparr>"

definition setLhs :: "string \<Rightarrow> ResultBuilder \<Rightarrow> ResultBuilder" where
  "setLhs s b = b\<lparr>rb_exprComponents := (rb_exprComponents b)\<lparr>e_lhs := s\<rparr>\<rparr>"

definition setRhs :: "string \<Rightarrow> ResultBuilder \<Rightarrow> ResultBuilder" where
  "setRhs s b = b\<lparr>rb_exprComponents := (rb_exprComponents b)\<lparr>e_rhs := s\<rparr>\<rparr>"

definition setOp :: "string \<Rightarrow> ResultBuilder \<Rightarrow> ResultBuilder" where
  "setOp s b = b\<lparr>rb_exprComponents := (rb_exprComponents b)\<lparr>e_op := s\<rparr>\<rparr>"

text \<open>\<open>substr(1)\<close> throws \<open>std::out_of_range\<close> on an empty string: \<open>None\<close>.\<close>

definition reconstructExpression :: "ResultBuilder \<Rightarrow> string option" where
  "reconstructExpression b =
     (let c = rb_exprComponents b; i = rb_assertionInfo b in
      if e_op c = [] then Some (if e_lhs c = [] then ai_capturedExpression i else e_op c @ e_lhs c)
      else if e_op c = ''matches'' then Some (e_lhs c @ '' '' @ e_rhs c)
      else if e_op c \<noteq> ''!''
      then
        if length (e_lhs c) + length (e_rhs c) < 40 \<and> str_find [CHR 0x0A] (e_lhs c) = None \<and> str_find [CHR 0x0A] (e_rhs c) = None
        then Some (e_lhs c @ '' '' @ e_op c @ '' '' @ e_rhs c)
        else Some (e_lhs c @ [CHR 0x0A] @ e_op c @ [CHR 0x0A] @ e_rhs c)
      else if ai_capturedExpression i = [] then None
      else Some (''{can'' @ [CHR 0x27] @ ''t expand - use '' @ ai_macroName i @ ''_FALSE( '' @ drop 1 (ai_capturedExpression i)
        @ '' ) instead of '' @ ai_macroName i @ ''( '' @ ai_capturedExpression i @ '' ) for better diagnostics}''))"

text \<open>\<open>None\<close> also where the assertion of \<open>build\<close> trips.\<close>

definition build :: "ResultBuilder \<Rightarrow> AssertionResult option" where
  "build b =
     (if resultType (rb_data b) = ResultUnknown then None
      else
        let c = rb_exprComponents b; d = rb_data b;
            d = (if testFalse c
                 then
                   if resultType d = ResultOk then d\<lparr>resultType := ExpressionFailed\<rparr>
                   else if resultType d = ExpressionFailed then d\<lparr>resultType := ResultOk\<rparr>
                   else d
                 else d);
            d = d\<lparr>rd_message := rb_stream b\<rparr>
        in case reconstructExpression b of
             None \<Rightarrow> None
           | Some e \<Rightarrow>
               let e = (if testFalse c then if e_op c = [] then ''!'' @ e else ''!('' @ e @ '')'' else e)
               in Some \<lparr>ar_info = rb_assertionInfo b, ar_resultData = d\<lparr>reconstructedExpression := e\<rparr>\<rparr>)"

section \<open>Messages\<close>

record MessageInfo =
  mi_macroName :: string
  mi_lineInfo :: SourceLineInfo
  mi_type :: OfType
  mi_message :: string
  mi_sequence :: u32

text \<open>\<open>operator ==\<close> compares the sequence numbers.\<close>

definition message_equal :: "MessageInfo \<Rightarrow> MessageInfo \<Rightarrow> bool" where
  "message_equal a b \<longleftrightarrow> mi_sequence a = mi_sequence b"

definition message_less :: "MessageInfo \<Rightarrow> MessageInfo \<Rightarrow> bool" where
  "message_less a b \<longleftrightarrow> mi_sequence a < mi_sequence b"

record SectionInfo =
  sec_name :: string
  sec_description :: string
  sec_lineInfo :: SourceLineInfo

end
