(* ===== verification/CatchRun.thy ===== *)
theory CatchRun
  imports CatchSpec CatchTracker CatchResult
begin

text \<open>
  How Catch runs tests: the configuration, the run context that the assertions of a test report to,
  the assertion macros, one run of a test case with its sections, the loop that runs it until its
  sections are completed, and the runner that goes through the selected tests. An operation that may
  throw returns the exception, if any, with the new state; \<open>None\<close> as the whole result is an assertion of
  Catch itself that trips. Times and the redirection of the output streams are not modelled.
\<close>

section \<open>Configuration\<close>

datatype Verbosity = NoOutput | Quiet | NormalVerbosity

datatype ShowDurations = DefaultForReporter | Always | Never

record ConfigData =
  listTests :: bool
  listTags :: bool
  listReporters :: bool
  listTestNamesOnly :: bool
  showSuccessfulTests :: bool
  shouldDebugBreak :: bool
  noThrow :: bool
  showHelp :: bool
  showInvisibles :: bool
  abortAfter :: int
  verbosity :: Verbosity
  warnings :: nat
  showDurations :: ShowDurations
  reporterName :: string
  outputFilename :: string
  configName :: string
  processName :: string
  testsOrTags :: "string list"

definition NoAssertions :: nat where "NoAssertions = 1"

definition ConfigData_new :: ConfigData where
  "ConfigData_new =
     \<lparr>listTests = False, listTags = False, listReporters = False, listTestNamesOnly = False, showSuccessfulTests = False,
       shouldDebugBreak = False, noThrow = False, showHelp = False, showInvisibles = False, abortAfter = - 1,
       verbosity = NormalVerbosity, warnings = 0, showDurations = DefaultForReporter, reporterName = [], outputFilename = [], configName = [], processName = [], testsOrTags = []\<rparr>"

record Config =
  m_data :: ConfigData
  cfg_testSpec :: TestSpec

primrec parse_all :: "TagAliasRegistry \<Rightarrow> string list \<Rightarrow> TestSpecParser \<Rightarrow> TestSpecParser" where
  "parse_all reg [] p = p"
| "parse_all reg (s # ss) p = parse_all reg ss (parse reg s p)"

definition Config_new :: "TagAliasRegistry \<Rightarrow> ConfigData \<Rightarrow> Config" where
  "Config_new reg d =
     \<lparr>m_data = d, cfg_testSpec =
       (if testsOrTags d \<noteq> [] then CatchSpec.testSpec (parse_all reg (testsOrTags d) TestSpecParser_new) else [])\<rparr>"

definition allowThrows :: "Config \<Rightarrow> bool" where
  "allowThrows c \<longleftrightarrow> \<not> noThrow (m_data c)"

definition config_name :: "Config \<Rightarrow> string" where
  "config_name c = (if configName (m_data c) = [] then processName (m_data c) else configName (m_data c))"

definition includeSuccessfulResults :: "Config \<Rightarrow> bool" where
  "includeSuccessfulResults c \<longleftrightarrow> showSuccessfulTests (m_data c)"

definition warnAboutMissingAssertions :: "Config \<Rightarrow> bool" where
  "warnAboutMissingAssertions c \<longleftrightarrow> warnings (m_data c) AND NoAssertions \<noteq> 0"

section \<open>The run context\<close>

record UnfinishedSection =
  us_info :: SectionInfo
  us_prevAssertions :: Counts

text \<open>A generator has a size and an index; the generators of a test are in the order they were first asked for.\<close>

record GeneratorInfo =
  g_size :: u32
  g_currentIndex :: u32

type_synonym GeneratorsForTest = "(string \<times> GeneratorInfo) list"

text \<open>What the reporter is told.\<close>

datatype report =
  TestGroupStarting string
| TestGroupEnded string Totals bool
| TestCaseStarting TestCaseInfo
| TestCaseEnded TestCaseInfo Totals bool
| SectionStarting SectionInfo
| SectionEnded SectionInfo Counts bool
| AssertionEnded AssertionResult "MessageInfo list" Totals

text \<open>
  The reporter is an interface of Catch; what the run depends on is the answer of its \<open>assertionEnded\<close>,
  which says whether the messages are to be cleared: \<open>m_reporter\<close>. \<open>m_reports\<close> is what it has been told
  so far. \<open>globalCount\<close> and the generators are statics that the run uses.
\<close>

record RunContext =
  m_config :: Config
  m_reporter :: "AssertionResult \<Rightarrow> bool"
  m_reports :: "report list"
  m_activeTestCase :: "TestCaseInfo option"
  m_testCaseTracker :: "TestCaseTracker option"
  m_lastResult :: AssertionResult
  m_totals :: Totals
  m_messages :: "MessageInfo list"
  m_lastAssertionInfo :: AssertionInfo
  m_unfinishedSections :: "UnfinishedSection list"
  globalCount :: u32
  m_generatorsByTestName :: "(string \<times> GeneratorsForTest) list"

definition tell :: "report \<Rightarrow> RunContext \<Rightarrow> RunContext" where
  "tell r c = c\<lparr>m_reports := m_reports c @ [r]\<rparr>"

text \<open>The constructor; \<open>AssertionInfo\<close> leaves its disposition uninitialised: \<open>junk\<close>.\<close>

definition RunContext_new :: "Config \<Rightarrow> (AssertionResult \<Rightarrow> bool) \<Rightarrow> Flags \<Rightarrow> RunContext" where
  "RunContext_new cfg reporter junk =
     (let info = AssertionInfo_new [] SourceLineInfo_new [] junk in
      \<lparr>m_config = cfg, m_reporter = reporter, m_reports = [], m_activeTestCase = None, m_testCaseTracker = None,
        m_lastResult = \<lparr>ar_info = info, ar_resultData = AssertionResultData_new\<rparr>, m_totals = Totals_new, m_messages = [],
        m_lastAssertionInfo = info, m_unfinishedSections = [], globalCount = 0, m_generatorsByTestName = []\<rparr>)"

text \<open>The console reporter and the compact reporter answer like this.\<close>

definition console_assertionEnded :: "Config \<Rightarrow> AssertionResult \<Rightarrow> bool" where
  "console_assertionEnded cfg result \<longleftrightarrow>
     \<not> (\<not> includeSuccessfulResults cfg \<and> isOk result \<and> getResultType result \<noteq> ResultWarning)"

definition aborting :: "RunContext \<Rightarrow> bool" where
  "aborting c \<longleftrightarrow> n_failed (n_assertions (m_totals c)) = word_of_int (abortAfter (m_data (m_config c)))"

definition add_passed :: "RunContext \<Rightarrow> RunContext" where
  "add_passed c = c\<lparr>m_totals := (m_totals c)\<lparr>n_assertions := (n_assertions (m_totals c))\<lparr>n_passed := n_passed (n_assertions (m_totals c)) + 1\<rparr>\<rparr>\<rparr>"

definition add_failed :: "RunContext \<Rightarrow> RunContext" where
  "add_failed c = c\<lparr>m_totals := (m_totals c)\<lparr>n_assertions := (n_assertions (m_totals c))\<lparr>n_failed := n_failed (n_assertions (m_totals c)) + 1\<rparr>\<rparr>\<rparr>"

definition assertionEnded :: "AssertionResult \<Rightarrow> RunContext \<Rightarrow> RunContext" where
  "assertionEnded result c =
     (let c = (if getResultType result = ResultOk then add_passed c
               else if \<not> isOk result then add_failed c
               else c);
          c = tell (AssertionEnded result (m_messages c) (m_totals c)) c;
          c = (if m_reporter c result then c\<lparr>m_messages := []\<rparr> else c);
          last = m_lastAssertionInfo c;
          c = c\<lparr>m_lastAssertionInfo := AssertionInfo_new [] (ai_lineInfo last) ''{Unknown expression after the reported line}''
            (ai_resultDisposition last)\<rparr>
      in c\<lparr>m_lastResult := result\<rparr>)"

text \<open>Into a section or not, with the counts when it starts.\<close>

definition section_key :: "SectionInfo \<Rightarrow> string" where
  "section_key i = sec_name i @ ''@'' @ print_line_info (sec_lineInfo i)"

definition sectionStarted :: "SectionInfo \<Rightarrow> RunContext \<Rightarrow> (Counts option \<times> RunContext) option" where
  "sectionStarted i c =
     (case m_testCaseTracker c of
        None \<Rightarrow> None
      | Some t \<Rightarrow>
          (case enterSection (section_key i) t of
             (False, t) \<Rightarrow> Some (None, c\<lparr>m_testCaseTracker := Some t\<rparr>)
           | (True, t) \<Rightarrow>
               let c = c\<lparr>m_testCaseTracker := Some t\<rparr>;
                   c = c\<lparr>m_lastAssertionInfo := (m_lastAssertionInfo c)\<lparr>ai_lineInfo := sec_lineInfo i\<rparr>\<rparr>;
                   c = tell (SectionStarting i) c
               in Some (Some (n_assertions (m_totals c)), c)))"

definition testForMissingAssertions :: "Counts \<Rightarrow> RunContext \<Rightarrow> (bool \<times> Counts \<times> RunContext) option" where
  "testForMissingAssertions counts c =
     (if counts_total counts \<noteq> 0 \<or> \<not> warnAboutMissingAssertions (m_config c) then Some (False, counts, c)
      else
        case m_testCaseTracker c of
          None \<Rightarrow> None
        | Some t \<Rightarrow>
            if currentSectionHasChildren t then Some (False, counts, c)
            else Some (True, counts\<lparr>n_failed := n_failed counts + 1\<rparr>, add_failed c))"

definition track_leave :: "RunContext \<Rightarrow> RunContext option" where
  "track_leave c =
     (case m_testCaseTracker c of
        None \<Rightarrow> None
      | Some t \<Rightarrow> (case leaveSection t of None \<Rightarrow> None | Some t \<Rightarrow> Some (c\<lparr>m_testCaseTracker := Some t\<rparr>)))"

text \<open>\<open>unwinding\<close> is \<open>std::uncaught_exception()\<close>.\<close>

definition sectionEnded :: "bool \<Rightarrow> SectionInfo \<Rightarrow> Counts \<Rightarrow> RunContext \<Rightarrow> RunContext option" where
  "sectionEnded unwinding i prev c =
     (if unwinding
      then Some (c\<lparr>m_unfinishedSections := m_unfinishedSections c @ [\<lparr>us_info = i, us_prevAssertions = prev\<rparr>]\<rparr>)
      else
        case testForMissingAssertions (counts_minus (n_assertions (m_totals c)) prev) c of
          None \<Rightarrow> None
        | Some (missing, counts, c) \<Rightarrow>
            (case track_leave c of
               None \<Rightarrow> None
             | Some c \<Rightarrow> Some ((tell (SectionEnded i counts missing) c)\<lparr>m_messages := []\<rparr>)))"

definition pushScopedMessage :: "MessageInfo \<Rightarrow> RunContext \<Rightarrow> RunContext" where
  "pushScopedMessage m c = c\<lparr>m_messages := m_messages c @ [m]\<rparr>"

definition popScopedMessage :: "MessageInfo \<Rightarrow> RunContext \<Rightarrow> RunContext" where
  "popScopedMessage m c = c\<lparr>m_messages := filter (\<lambda>x. \<not> message_equal x m) (m_messages c)\<rparr>"

definition getCurrentTestName :: "RunContext \<Rightarrow> string" where
  "getCurrentTestName c = (case m_activeTestCase c of Some i \<Rightarrow> name i | None \<Rightarrow> [])"

subsection \<open>Generators\<close>

definition generator_moveNext :: "GeneratorInfo \<Rightarrow> bool \<times> GeneratorInfo" where
  "generator_moveNext g =
     (let g = g\<lparr>g_currentIndex := g_currentIndex g + 1\<rparr>
      in if g_currentIndex g = g_size g then (False, g\<lparr>g_currentIndex := 0\<rparr>) else (True, g))"

definition getGeneratorInfo :: "string \<Rightarrow> u32 \<Rightarrow> GeneratorsForTest \<Rightarrow> GeneratorInfo \<times> GeneratorsForTest" where
  "getGeneratorInfo fileInfo totalSize gs =
     (case map_of gs fileInfo of
        None \<Rightarrow> (let info = \<lparr>g_size = totalSize, g_currentIndex = 0\<rparr> in (info, gs @ [(fileInfo, info)]))
      | Some info \<Rightarrow> (info, gs))"

primrec generators_moveNext :: "GeneratorsForTest \<Rightarrow> bool \<times> GeneratorsForTest" where
  "generators_moveNext [] = (False, [])"
| "generators_moveNext (e # es) =
     (case generator_moveNext (snd e) of
        (True, g) \<Rightarrow> (True, (fst e, g) # es)
      | (False, g) \<Rightarrow> (case generators_moveNext es of (r, es) \<Rightarrow> (r, (fst e, g) # es)))"

definition getGeneratorIndex :: "string \<Rightarrow> u32 \<Rightarrow> RunContext \<Rightarrow> u32 \<times> RunContext" where
  "getGeneratorIndex fileInfo totalSize c =
     (let testName = getCurrentTestName c;
          gs = (case map_find testName (m_generatorsByTestName c) of Some gs \<Rightarrow> gs | None \<Rightarrow> []);
          (info, gs) = getGeneratorInfo fileInfo totalSize gs
      in (g_currentIndex info, c\<lparr>m_generatorsByTestName := map_assign testName gs (m_generatorsByTestName c)\<rparr>))"

definition advanceGeneratorsForCurrentTest :: "RunContext \<Rightarrow> bool \<times> RunContext" where
  "advanceGeneratorsForCurrentTest c =
     (case map_find (getCurrentTestName c) (m_generatorsByTestName c) of
        None \<Rightarrow> (False, c)
      | Some gs \<Rightarrow>
          let (again, gs) = generators_moveNext gs
          in (again, c\<lparr>m_generatorsByTestName := map_assign (getCurrentTestName c) gs (m_generatorsByTestName c)\<rparr>))"

section \<open>Assertions\<close>

text \<open>
  An exception in a test is Catch's own, which ends the test, or another one, given by the text that the
  registered translators make of it.
\<close>

datatype exn = TestFailureException | OtherException string

text \<open>The result of an operation: the exception it throws, if any.\<close>

type_synonym outcome = "exn option \<times> RunContext"

definition captureExpression :: "ResultBuilder \<Rightarrow> RunContext \<Rightarrow> (ResultBuilder \<times> RunContext) option" where
  "captureExpression b c =
     (case build b of
        None \<Rightarrow> None
      | Some result \<Rightarrow>
          let c = assertionEnded result c
          in if \<not> isOk result
             then
               let b = (if shouldDebugBreak (m_data (m_config c)) then b\<lparr>rb_shouldDebugBreak := True\<rparr> else b);
                   b = (if aborting c \<or> ai_resultDisposition (rb_assertionInfo b) = NormalResult
                        then b\<lparr>rb_shouldThrow := True\<rparr> else b)
               in Some (b, c)
             else Some (b, c))"

definition captureResult :: "OfType \<Rightarrow> ResultBuilder \<Rightarrow> RunContext \<Rightarrow> (ResultBuilder \<times> RunContext) option" where
  "captureResult r b c = captureExpression (setResultType r b) c"

definition endExpression :: "ResultBuilder \<Rightarrow> RunContext \<Rightarrow> (ResultBuilder \<times> RunContext) option" where
  "endExpression b c =
     captureExpression (b\<lparr>rb_exprComponents := (rb_exprComponents b)\<lparr>testFalse :=
       isFalseTest (ai_resultDisposition (rb_assertionInfo b))\<rparr>\<rparr>) c"

text \<open>\<open>react\<close>, after the break into a debugger, which is left out.\<close>

definition react :: "(ResultBuilder \<times> RunContext) option \<Rightarrow> outcome option" where
  "react r = (case r of None \<Rightarrow> None | Some (b, c) \<Rightarrow> Some (if rb_shouldThrow b then Some TestFailureException else None, c))"

text \<open>\<open>useActiveException\<close> and what follows it in a macro: translating Catch's own exception throws it again.\<close>

definition caught :: "Flags \<Rightarrow> exn \<Rightarrow> ResultBuilder \<Rightarrow> RunContext \<Rightarrow> outcome option" where
  "caught d e b c =
     (let b = b\<lparr>rb_assertionInfo := (rb_assertionInfo b)\<lparr>ai_resultDisposition := d\<rparr>\<rparr> in
      case e of
        TestFailureException \<Rightarrow> Some (Some TestFailureException, c)
      | OtherException s \<Rightarrow> react (captureResult ThrewException (b\<lparr>rb_stream := rb_stream b @ s\<rparr>) c))"

text \<open>
  The expression of an assertion, as \<open>ExpressionLhs\<close> takes it apart: one value, or two with an
  operator, printed, and the result of the comparison; or evaluating it throws.
\<close>

datatype expression =
  Unary bool
| Binary string string string bool
| Raising exn

definition print_bool :: "bool \<Rightarrow> string" where
  "print_bool v = (if v then ''true'' else ''false'')"

definition catch_test :: "expression \<Rightarrow> string \<Rightarrow> Flags \<Rightarrow> string \<Rightarrow> SourceLineInfo \<Rightarrow> RunContext \<Rightarrow> outcome option" where
  "catch_test e expr d macro l c =
     (let b = ResultBuilder_new macro l expr d in
      case e of
        Unary v \<Rightarrow> react (endExpression (setResultBool v (setLhs (print_bool v) b)) c)
      | Binary x operator y v \<Rightarrow> react (endExpression (setOp operator (setRhs y (setLhs x (setResultBool v b)))) c)
      | Raising x \<Rightarrow> caught NormalResult x b c)"

definition catch_no_throw :: "exn option \<Rightarrow> string \<Rightarrow> Flags \<Rightarrow> string \<Rightarrow> SourceLineInfo \<Rightarrow> RunContext \<Rightarrow> outcome option" where
  "catch_no_throw e expr d macro l c =
     (let b = ResultBuilder_new macro l expr d in
      case e of
        None \<Rightarrow> react (captureResult ResultOk b c)
      | Some x \<Rightarrow> caught d x b c)"

definition catch_throws :: "exn option \<Rightarrow> string \<Rightarrow> Flags \<Rightarrow> string \<Rightarrow> SourceLineInfo \<Rightarrow> RunContext \<Rightarrow> outcome option" where
  "catch_throws e expr d macro l c =
     (let b = ResultBuilder_new macro l expr d in
      if allowThrows (m_config c)
      then
        case e of
          None \<Rightarrow> react (captureResult DidntThrowException b c)
        | Some x \<Rightarrow> react (captureResult ResultOk b c)
      else react (captureResult ResultOk b c))"

text \<open>\<open>expected\<close> says whether the exception is of the type asked for.\<close>

definition catch_throws_as ::
  "exn option \<Rightarrow> (exn \<Rightarrow> bool) \<Rightarrow> string \<Rightarrow> Flags \<Rightarrow> string \<Rightarrow> SourceLineInfo \<Rightarrow> RunContext \<Rightarrow> outcome option" where
  "catch_throws_as e expected expr d macro l c =
     (let b = ResultBuilder_new macro l expr d in
      if allowThrows (m_config c)
      then
        case e of
          None \<Rightarrow> react (captureResult DidntThrowException b c)
        | Some x \<Rightarrow> if expected x then react (captureResult ResultOk b c) else caught d x b c
      else react (captureResult ResultOk b c))"

definition catch_msg :: "OfType \<Rightarrow> string \<Rightarrow> Flags \<Rightarrow> string \<Rightarrow> SourceLineInfo \<Rightarrow> RunContext \<Rightarrow> outcome option" where
  "catch_msg messageType text d macro l c =
     react (captureResult messageType ((ResultBuilder_new macro l [] d)\<lparr>rb_stream := text\<rparr>) c)"

text \<open>\<open>matcher\<close> is the text of the matcher, \<open>shown\<close> what its \<open>toString\<close> gives.\<close>

definition catch_check_that ::
  "string \<Rightarrow> string \<Rightarrow> string \<Rightarrow> bool + exn \<Rightarrow> string \<Rightarrow> Flags \<Rightarrow> string \<Rightarrow> SourceLineInfo \<Rightarrow> RunContext \<Rightarrow> outcome option" where
  "catch_check_that arg matcher shown m expr d macro l c =
     (let b = ResultBuilder_new macro l expr d in
      case m of
        Inr x \<Rightarrow> caught (d OR ContinueOnFailure) x b c
      | Inl matched \<Rightarrow>
          react (captureExpression
            (setResultBool matched (setOp ''matches'' (setRhs (if shown = ''{?}'' then matcher else shown) (setLhs arg b)))) c))"

text \<open>\<open>INFO\<close>: a message for as long as its scope is open.\<close>

definition catch_info :: "string \<Rightarrow> string \<Rightarrow> SourceLineInfo \<Rightarrow> RunContext \<Rightarrow> MessageInfo \<times> RunContext" where
  "catch_info text macro l c =
     (let n = globalCount c + 1;
          m = \<lparr>mi_macroName = macro, mi_lineInfo = l, mi_type = ResultInfo, mi_message = text, mi_sequence = n\<rparr>
      in (m, pushScopedMessage m (c\<lparr>globalCount := n\<rparr>)))"

section \<open>Tests\<close>

text \<open>
  A test function: assertions, messages that hold for the rest of their block, sections, exceptions.
  \<open>Assertion\<close> is any of the macros above, applied to its arguments.
\<close>

datatype assertion =
  Test expression
| NoThrow "exn option"
| ThrowsAny "exn option"
| ThrowsAs "exn option" bool
| Msg OfType
| CheckThat string string string "bool + exn"

datatype stmt =
  Assertion assertion string Flags string SourceLineInfo
| Message string string SourceLineInfo
| Section SectionInfo "stmt list"
| Raise exn

fun run_assertion :: "assertion \<Rightarrow> string \<Rightarrow> Flags \<Rightarrow> string \<Rightarrow> SourceLineInfo \<Rightarrow> RunContext \<Rightarrow> outcome option" where
  "run_assertion (Test e) expr d macro l c = catch_test e expr d macro l c"
| "run_assertion (NoThrow e) expr d macro l c = catch_no_throw e expr d macro l c"
| "run_assertion (ThrowsAny e) expr d macro l c = catch_throws e expr d macro l c"
| "run_assertion (ThrowsAs e expected) expr d macro l c = catch_throws_as e (\<lambda>_. expected) expr d macro l c"
| "run_assertion (Msg r) text d macro l c = catch_msg r text d macro l c"
| "run_assertion (CheckThat arg matcher shown m) expr d macro l c = catch_check_that arg matcher shown m expr d macro l c"

fun run_stmts :: "stmt list \<Rightarrow> RunContext \<Rightarrow> outcome option" where
  "run_stmts [] c = Some (None, c)"
| "run_stmts (Assertion a expr d macro l # ss) c =
     (case run_assertion a expr d macro l c of
        Some (None, c) \<Rightarrow> run_stmts ss c
      | r \<Rightarrow> r)"
| "run_stmts (Message text macro l # ss) c =
     (let (m, c) = catch_info text macro l c in
      case run_stmts ss c of
        None \<Rightarrow> None
      | Some (r, c) \<Rightarrow> Some (r, popScopedMessage m c))"
| "run_stmts (Section i body # ss) c =
     (case sectionStarted i c of
        None \<Rightarrow> None
      | Some (None, c) \<Rightarrow> run_stmts ss c
      | Some (Some prev, c) \<Rightarrow>
          (case run_stmts body c of
             None \<Rightarrow> None
           | Some (r, c) \<Rightarrow>
               (case sectionEnded (r \<noteq> None) i prev c of
                  None \<Rightarrow> None
                | Some c \<Rightarrow> if r = None then run_stmts ss c else Some (r, c))))"
| "run_stmts (Raise e # ss) c = Some (Some e, c)"

section \<open>Running a test case\<close>

primrec end_unfinished :: "UnfinishedSection list \<Rightarrow> RunContext \<Rightarrow> RunContext option" where
  "end_unfinished [] c = Some c"
| "end_unfinished (u # us) c =
     (case sectionEnded False (us_info u) (us_prevAssertions u) c of
        None \<Rightarrow> None
      | Some c \<Rightarrow> end_unfinished us c)"

text \<open>What follows a run of the test function: a test that may fail has its failures moved to \<open>failedButOk\<close>.\<close>

definition settle :: "'x TestCaseInfo_scheme \<Rightarrow> Counts \<Rightarrow> RunContext \<Rightarrow> Counts \<times> RunContext" where
  "settle i counts c =
     (if okToFail i
      then
        let counts = counts\<lparr>n_failedButOk := n_failed counts, n_failed := n_failedButOk counts\<rparr>;
            a = n_assertions (m_totals c);
            a = a\<lparr>n_failed := n_failed a - n_failedButOk counts\<rparr>;
            a = a\<lparr>n_failedButOk := n_failedButOk a + n_failedButOk counts\<rparr>
        in (counts, c\<lparr>m_totals := (m_totals c)\<lparr>n_assertions := a\<rparr>\<rparr>)
      else (counts, c))"

text \<open>The test function is an argument of the test case.\<close>

type_synonym test_function = "RunContext \<Rightarrow> outcome option"

definition case_section :: "'x TestCaseInfo_scheme \<Rightarrow> SectionInfo" where
  "case_section i = \<lparr>sec_name = name i, sec_description = description i, sec_lineInfo = lineInfo i\<rparr>"

definition invoke_guarded :: "test_function TestCase \<Rightarrow> RunContext \<Rightarrow> RunContext option" where
  "invoke_guarded t c =
     (case m_testCaseTracker c of
        None \<Rightarrow> None
      | Some tracker \<Rightarrow>
          (case test t (c\<lparr>m_testCaseTracker := Some (enterTestCase tracker)\<rparr>) of
             None \<Rightarrow> None
           | Some (r, c) \<Rightarrow>
               let c = c\<lparr>m_testCaseTracker := map_option leaveTestCase (m_testCaseTracker c)\<rparr>
               in case r of
                    Some (OtherException s) \<Rightarrow>
                      map_option snd
                        (caught NormalResult (OtherException s)
                          (ResultBuilder_new (ai_macroName (m_lastAssertionInfo c)) (ai_lineInfo (m_lastAssertionInfo c))
                            (ai_capturedExpression (m_lastAssertionInfo c)) (ai_resultDisposition (m_lastAssertionInfo c))) c)
                  | _ \<Rightarrow> Some c))"

definition runCurrentTest :: "test_function TestCase \<Rightarrow> RunContext \<Rightarrow> RunContext option" where
  "runCurrentTest t c =
     (let sec = case_section t;
          c = tell (SectionStarting sec) c;
          prev = n_assertions (m_totals c);
          c = c\<lparr>m_lastAssertionInfo := AssertionInfo_new ''TEST_CASE'' (lineInfo t) [] NormalResult\<rparr>
      in case invoke_guarded t c of
           None \<Rightarrow> None
         | Some c \<Rightarrow>
             (case end_unfinished (rev (m_unfinishedSections c)) c of
                None \<Rightarrow> None
              | Some c \<Rightarrow>
                  let c = c\<lparr>m_unfinishedSections := [], m_messages := []\<rparr>
                  in case testForMissingAssertions (counts_minus (n_assertions (m_totals c)) prev) c of
                       None \<Rightarrow> None
                     | Some (missing, counts, c) \<Rightarrow>
                         let (counts, c) = settle t counts c
                         in Some (tell (SectionEnded sec counts missing) c)))"

partial_function (option) run_sections :: "test_function TestCase \<Rightarrow> RunContext \<Rightarrow> RunContext option" where
  "run_sections t c =
     (case runCurrentTest t c of
        None \<Rightarrow> None
      | Some c \<Rightarrow>
          (case m_testCaseTracker c of
             None \<Rightarrow> None
           | Some tracker \<Rightarrow> if \<not> isCompleted tracker \<and> \<not> aborting c then run_sections t c else Some c))"

partial_function (option) run_generators :: "test_function TestCase \<Rightarrow> RunContext \<Rightarrow> RunContext option" where
  "run_generators t c =
     (case run_sections t c of
        None \<Rightarrow> None
      | Some c \<Rightarrow>
          (case advanceGeneratorsForCurrentTest c of
             (again, c) \<Rightarrow> if again \<and> \<not> aborting c then run_generators t c else Some c))"

definition runTest :: "test_function TestCase \<Rightarrow> RunContext \<Rightarrow> (Totals \<times> RunContext) option" where
  "runTest t c =
     (let prevTotals = m_totals c;
          info = TestCaseInfo.truncate t;
          c = tell (TestCaseStarting info) c;
          c = c\<lparr>m_activeTestCase := Some info, m_testCaseTracker := Some (TestCaseTracker_new (name t))\<rparr>
      in case run_generators t c of
           None \<Rightarrow> None
         | Some c \<Rightarrow>
             let deltaTotals = delta (m_totals c) prevTotals;
                 c = c\<lparr>m_totals := (m_totals c)\<lparr>n_testCases := counts_plus (n_testCases (m_totals c)) (n_testCases deltaTotals)\<rparr>\<rparr>;
                 c = tell (TestCaseEnded info deltaTotals (aborting c)) c
             in Some (deltaTotals, c\<lparr>m_activeTestCase := None, m_testCaseTracker := None\<rparr>))"

section \<open>The runner\<close>

text \<open>\<open>ran\<close> is the set of the tests that were run already, by name.\<close>

fun run_cases ::
  "test_function TestCase list \<Rightarrow> Totals \<Rightarrow> (string \<times> test_function TestCase) list \<Rightarrow> RunContext
    \<Rightarrow> (Totals \<times> (string \<times> test_function TestCase) list \<times> RunContext) option" where
  "run_cases [] totals already c = Some (totals, already, c)"
| "run_cases (t # ts) totals already c =
     (if map_find (name t) already = None
      then
        if aborting c then Some (totals, already, c)
        else
          case runTest t c of
            None \<Rightarrow> None
          | Some (d, c) \<Rightarrow> run_cases ts (totals_plus totals d) (map_assign (name t) t already) c
      else run_cases ts totals already c)"

definition runTests ::
  "TagAliasRegistry \<Rightarrow> Config \<Rightarrow> (AssertionResult \<Rightarrow> bool) \<Rightarrow> Flags \<Rightarrow> test_function TestRegistry
    \<Rightarrow> (string \<times> test_function TestCase) list \<Rightarrow> (Totals \<times> (string \<times> test_function TestCase) list \<times> RunContext) option" where
  "runTests reg cfg reporter junk tests already =
     (let c = tell (TestGroupStarting []) (RunContext_new cfg reporter junk);
          spec = (if \<not> hasFilters (cfg_testSpec cfg) then parseTestSpec reg ''~[.]'' else cfg_testSpec cfg)
      in case run_cases (getFilteredTests spec (allowThrows cfg) tests []) Totals_new already c of
           None \<Rightarrow> None
         | Some (totals, already, c) \<Rightarrow> Some (totals, already, tell (TestGroupEnded [] totals (aborting c)) c))"

text \<open>\<open>Session::run\<close> after the command line and the requests for lists: the exit code of the program.\<close>

definition session_result :: "Totals \<Rightarrow> 32 word" where
  "session_result totals = n_failed (n_assertions totals)"

section \<open>What an assertion does\<close>

text \<open>
  What running a test leaves alone unless something fails, and what it reports then, warnings included if
  \<open>w\<close> says so; the tracker is looked at apart.
\<close>

fun report_ok :: "bool \<Rightarrow> report \<Rightarrow> bool" where
  "report_ok w (AssertionEnded r ms t) \<longleftrightarrow> isOk r \<and> (w \<or> getResultType r \<noteq> ResultWarning)"
| "report_ok w (SectionEnded i n missing) \<longleftrightarrow> \<not> missing"
| "report_ok w _ \<longleftrightarrow> True"

definition quiet :: "bool \<Rightarrow> RunContext \<Rightarrow> RunContext \<Rightarrow> bool" where
  "quiet w c c' \<longleftrightarrow> m_config c' = m_config c \<and> m_activeTestCase c' = m_activeTestCase c
     \<and> m_unfinishedSections c' = m_unfinishedSections c \<and> m_generatorsByTestName c' = m_generatorsByTestName c
     \<and> n_testCases (m_totals c') = n_testCases (m_totals c) \<and> n_failed (n_assertions (m_totals c')) = n_failed (n_assertions (m_totals c))
     \<and> n_failedButOk (n_assertions (m_totals c')) = n_failedButOk (n_assertions (m_totals c))
     \<and> (\<forall>e\<in>set (m_reports c'). report_ok w e \<or> e \<in> set (m_reports c))"

lemma quiet_refl [simp]: "quiet w c c"
  by (simp add: quiet_def)

lemma quiet_trans [trans]: "quiet w c c' \<Longrightarrow> quiet w c' c'' \<Longrightarrow> quiet w c c''"
  unfolding quiet_def by (intro conjI; simp; metis)

lemma quiet_simps [simp]:
  "report_ok w r \<Longrightarrow> quiet w c (tell r c') \<longleftrightarrow> quiet w c c'" "quiet w c (c'\<lparr>m_messages := ms\<rparr>) \<longleftrightarrow> quiet w c c'"
  "quiet w c (c'\<lparr>m_lastAssertionInfo := i\<rparr>) \<longleftrightarrow> quiet w c c'" "quiet w c (c'\<lparr>m_testCaseTracker := t\<rparr>) \<longleftrightarrow> quiet w c c'"
  "quiet w c (popScopedMessage m c') \<longleftrightarrow> quiet w c c'"
  by (auto simp: quiet_def tell_def popScopedMessage_def)

lemma tell_simps [simp]:
  "m_config (tell r c) = m_config c" "m_testCaseTracker (tell r c) = m_testCaseTracker c" "m_totals (tell r c) = m_totals c"
  "m_unfinishedSections (tell r c) = m_unfinishedSections c" "m_activeTestCase (tell r c) = m_activeTestCase c"
  "m_generatorsByTestName (tell r c) = m_generatorsByTestName c"
  by (simp_all add: tell_def)

lemma assertionEnded_simps [simp]:
  "m_config (assertionEnded r c) = m_config c" "m_testCaseTracker (assertionEnded r c) = m_testCaseTracker c"
  "m_lastResult (assertionEnded r c) = r"
  "n_assertions (m_totals (assertionEnded r c)) =
     (if getResultType r = ResultOk then (n_assertions (m_totals c))\<lparr>n_passed := n_passed (n_assertions (m_totals c)) + 1\<rparr>
      else if isOk r then n_assertions (m_totals c)
      else (n_assertions (m_totals c))\<lparr>n_failed := n_failed (n_assertions (m_totals c)) + 1\<rparr>)"
  by (simp_all add: assertionEnded_def Let_def add_passed_def add_failed_def)

lemma assertionEnded_quiet:
  assumes "isOk r" "w \<or> getResultType r \<noteq> ResultWarning"
  shows "quiet w c (assertionEnded r c)"
  using assms by (simp add: quiet_def assertionEnded_def Let_def add_passed_def tell_def)

lemma isOk_passed: "getResultType r = ResultOk \<Longrightarrow> isOk r"
  by (simp add: isOk_def getResultType_def)

text \<open>Reporting the result and reacting to it.\<close>

lemma captured:
  assumes "build b = Some r" "\<not> rb_shouldThrow b"
  shows "react (captureExpression b c) =
     Some (if \<not> isOk r \<and> (aborting (assertionEnded r c) \<or> ai_resultDisposition (rb_assertionInfo b) = NormalResult)
       then Some TestFailureException else None, assertionEnded r c)"
  using assms by (simp add: captureExpression_def react_def Let_def)

lemma captured_ok:
  assumes "build b = Some r" "\<not> rb_shouldThrow b" "isOk r" "w \<or> getResultType r \<noteq> ResultWarning"
  shows "\<exists>c'. react (captureExpression b c) = Some (None, c') \<and> quiet w c c' \<and> m_testCaseTracker c' = m_testCaseTracker c"
  using assms assertionEnded_quiet [of r w c] by (simp add: captured)

text \<open>A builder that a macro has filled in.\<close>

lemma built:
  assumes "resultType (rb_data b) \<noteq> ResultUnknown" "e_op (rb_exprComponents b) \<noteq> ''!''"
  obtains r where "build b = Some r" "ar_info r = rb_assertionInfo b"
    "getResultType r =
       (if testFalse (rb_exprComponents b) \<and> resultType (rb_data b) = ResultOk then ExpressionFailed
        else if testFalse (rb_exprComponents b) \<and> resultType (rb_data b) = ExpressionFailed then ResultOk
        else resultType (rb_data b))"
proof -
  have "reconstructExpression b \<noteq> None"
    using assms(2) by (simp add: reconstructExpression_def Let_def)
  then obtain e where "reconstructExpression b = Some e" by blast
  with that assms(1) show ?thesis by (simp add: build_def Let_def getResultType_def)
qed

lemma builder_simps [simp]:
  "rb_assertionInfo (ResultBuilder_new m l e d) = AssertionInfo_new m l e d" "\<not> rb_shouldThrow (ResultBuilder_new m l e d)"
  "\<not> testFalse (rb_exprComponents (ResultBuilder_new m l e d))" "e_op (rb_exprComponents (ResultBuilder_new m l e d)) = []"
  "ai_resultDisposition (AssertionInfo_new m l e d) = d"
  by (simp_all add: ResultBuilder_new_def AssertionInfo_new_def)

lemmas setters = setResultType_def setResultBool_def setLhs_def setRhs_def setOp_def

lemma result_neq [simp]:
  "ResultOk \<noteq> ResultUnknown" "ExpressionFailed \<noteq> ResultUnknown" "ResultOk \<noteq> ExpressionFailed" "ExpressionFailed \<noteq> ResultOk"
  "DidntThrowException \<noteq> ResultUnknown" "ThrewException \<noteq> ResultUnknown" "ResultOk \<noteq> ResultWarning"
  "ExpressionFailed \<noteq> ResultWarning"
  by (simp_all add: result_defs)

text \<open>The two ways in which the macros come to a result.\<close>

lemma captureResult_ok:
  assumes "type_isOk r" "w \<or> r \<noteq> ResultWarning"
  shows "\<exists>c'. react (captureResult r (ResultBuilder_new m l e d\<lparr>rb_stream := s\<rparr>) c) = Some (None, c') \<and> quiet w c c' \<and>
     m_testCaseTracker c' = m_testCaseTracker c"
proof -
  let ?b = "setResultType r (ResultBuilder_new m l e d\<lparr>rb_stream := s\<rparr>)"
  have "r \<noteq> ResultUnknown" using assms by auto
  then have b: "resultType (rb_data ?b) \<noteq> ResultUnknown" "e_op (rb_exprComponents ?b) \<noteq> ''!''"
    "\<not> testFalse (rb_exprComponents ?b)" "resultType (rb_data ?b) = r" "\<not> rb_shouldThrow ?b"
    by (simp_all add: setters)
  obtain x where x: "build ?b = Some x" "getResultType x = r"
    by (rule built [OF b(1,2)]) (use b(3,4) in simp)
  have "isOk x" using x(2) assms by (simp add: isOk_def getResultType_def)
  then show ?thesis using captured_ok [OF x(1) b(5)] x(2) assms(2) by (simp add: captureResult_def)
qed

lemma captured_pass:
  "\<exists>c'. react (captureResult ResultOk (ResultBuilder_new m l e d) c) = Some (None, c') \<and> quiet w c c' \<and>
     m_testCaseTracker c' = m_testCaseTracker c"
proof -
  have "ResultBuilder_new m l e d\<lparr>rb_stream := []\<rparr> = ResultBuilder_new m l e d" by (simp add: ResultBuilder_new_def)
  then show ?thesis using captureResult_ok [where r = ResultOk and s = "[]"] by (metis type_isOk_simps(1) result_neq(7))
qed

text \<open>Which assertions pass; a failure that is suppressed does not count as one.\<close>

fun passes :: "assertion \<Rightarrow> Flags \<Rightarrow> bool" where
  "passes (Test (Unary v)) d \<longleftrightarrow> v \<noteq> isFalseTest d \<or> shouldSuppressFailure d"
| "passes (Test (Binary x operator y v)) d \<longleftrightarrow> operator \<noteq> ''!'' \<and> (v \<noteq> isFalseTest d \<or> shouldSuppressFailure d)"
| "passes (Test (Raising e)) d \<longleftrightarrow> False"
| "passes (NoThrow e) d \<longleftrightarrow> e = None"
| "passes (ThrowsAny e) d \<longleftrightarrow> e \<noteq> None"
| "passes (ThrowsAs e expected) d \<longleftrightarrow> e \<noteq> None \<and> expected"
| "passes (Msg r) d \<longleftrightarrow> type_isOk r"
| "passes (CheckThat arg matcher shown m) d \<longleftrightarrow> m = Inl True"

text \<open>A test of an expression: what its builder holds at the end.\<close>

lemma tested:
  assumes "e = Unary v \<or> e = Binary x operator y v \<and> operator \<noteq> ''!''"
  obtains r where "getResultType r = (if v \<noteq> isFalseTest d then ResultOk else ExpressionFailed)"
    "ar_info r = AssertionInfo_new macro l expr d"
    "catch_test e expr d macro l c =
       Some (if \<not> isOk r \<and> (aborting (assertionEnded r c) \<or> d = NormalResult) then Some TestFailureException else None,
         assertionEnded r c)"
proof -
  let ?b = "ResultBuilder_new macro l expr d"
  define b where "b = (let b = (case e of Unary v \<Rightarrow> setResultBool v (setLhs (print_bool v) ?b)
      | Binary x operator y v \<Rightarrow> setOp operator (setRhs y (setLhs x (setResultBool v ?b))) | _ \<Rightarrow> ?b)
    in b\<lparr>rb_exprComponents := (rb_exprComponents b)\<lparr>testFalse := isFalseTest d\<rparr>\<rparr>)"
  have b: "catch_test e expr d macro l c = react (captureExpression b c)"
    "resultType (rb_data b) = (if v then ResultOk else ExpressionFailed)" "e_op (rb_exprComponents b) \<noteq> ''!''"
    "testFalse (rb_exprComponents b) = isFalseTest d" "rb_assertionInfo b = AssertionInfo_new macro l expr d" "\<not> rb_shouldThrow b"
    using assms by (auto simp: b_def catch_test_def endExpression_def setters Let_def)
  obtain r where r: "build b = Some r" "ar_info r = rb_assertionInfo b"
      "getResultType r = (if v \<noteq> isFalseTest d then ResultOk else ExpressionFailed)"
    by (rule built [of b]) (use b(2-4) in auto)
  show ?thesis by (rule that [OF r(3)]) (simp_all add: r(2) b(1,5) captured [OF r(1) b(6)])
qed

lemma passing_test:
  assumes "passes (Test e) d"
  shows "\<exists>c'. catch_test e expr d macro l c = Some (None, c') \<and> quiet w c c' \<and> m_testCaseTracker c' = m_testCaseTracker c"
proof -
  obtain v x operator y where e: "e = Unary v \<or> e = Binary x operator y v \<and> operator \<noteq> ''!''"
      "v \<noteq> isFalseTest d \<or> shouldSuppressFailure d"
    using assms by (cases e) auto
  obtain r where r: "getResultType r = (if v \<noteq> isFalseTest d then ResultOk else ExpressionFailed)"
    "ar_info r = AssertionInfo_new macro l expr d"
    "catch_test e expr d macro l c =
       Some (if \<not> isOk r \<and> (aborting (assertionEnded r c) \<or> d = NormalResult) then Some TestFailureException else None,
         assertionEnded r c)"
    by (rule tested [OF e(1)])
  have "isOk r" using e(2) r(1,2) by (auto simp: isOk_def getResultType_def split: if_splits)
  moreover have "getResultType r \<noteq> ResultWarning" using r(1) by simp
  ultimately show ?thesis using r(3) assertionEnded_quiet by simp
qed

lemma passing_assertion:
  assumes "passes a d" "w \<or> a \<noteq> Msg ResultWarning"
  shows "\<exists>c'. run_assertion a expr d macro l c = Some (None, c') \<and> quiet w c c' \<and> m_testCaseTracker c' = m_testCaseTracker c"
proof (cases a)
  case (Test e)
  then show ?thesis using passing_test assms by simp
next
  case (Msg r)
  then show ?thesis using assms captureResult_ok [of r] by (simp add: catch_msg_def)
next
  case (CheckThat arg matcher shown m)
  let ?b = "setResultBool True (setOp ''matches'' (setRhs (if shown = ''{?}'' then matcher else shown) (setLhs arg
    (ResultBuilder_new macro l expr d))))"
  have b: "resultType (rb_data ?b) = ResultOk" "e_op (rb_exprComponents ?b) \<noteq> ''!''" "\<not> testFalse (rb_exprComponents ?b)"
    "\<not> rb_shouldThrow ?b" by (simp_all add: setters)
  obtain r where r: "build ?b = Some r" "getResultType r = ResultOk"
    by (rule built [of ?b]) (use b in auto)
  show ?thesis
    using captured_ok [OF r(1) b(4) isOk_passed [OF r(2)]] CheckThat assms r(2) by (simp add: catch_check_that_def)
qed (use assms captured_pass in \<open>auto simp: catch_no_throw_def catch_throws_def catch_throws_as_def Let_def\<close>)

section \<open>A test that passes\<close>

text \<open>The sections of a test function, as the tracker sees them.\<close>

fun sections :: "stmt list \<Rightarrow> (string \<times> body) list" where
  "sections [] = []"
| "sections (Section i b # ss) = (section_key i, Body (sections b)) # sections ss"
| "sections (Assertion a expr d macro l # ss) = sections ss"
| "sections (Message text macro l # ss) = sections ss"
| "sections (Raise e # ss) = sections ss"

fun all_pass :: "bool \<Rightarrow> stmt list \<Rightarrow> bool" where
  "all_pass w [] \<longleftrightarrow> True"
| "all_pass w (Section i b # ss) \<longleftrightarrow> all_pass w b \<and> all_pass w ss"
| "all_pass w (Assertion a expr d macro l # ss) \<longleftrightarrow> passes a d \<and> (w \<or> a \<noteq> Msg ResultWarning) \<and> all_pass w ss"
| "all_pass w (Message text macro l # ss) \<longleftrightarrow> all_pass w ss"
| "all_pass w (Raise e # ss) \<longleftrightarrow> False"

lemma pass_body_sections:
  assumes "pass_body path (Body bs) t = Some (ls, t')"
  shows "\<exists>ls'. pass_sections path bs t = Some (ls', t')"
  using assms by (cases bs) auto

lemma not_missing:
  "\<not> warnAboutMissingAssertions (m_config c) \<Longrightarrow> testForMissingAssertions counts c = Some (False, counts, c)"
  by (simp add: testForMissingAssertions_def)

lemma run_passing:
  assumes "all_pass w ss" "m_testCaseTracker c = Some t" "\<not> warnAboutMissingAssertions (m_config c)"
    "pass_sections path (sections ss) t = Some (ls, t')"
  shows "\<exists>c'. run_stmts ss c = Some (None, c') \<and> m_testCaseTracker c' = Some t' \<and> quiet w c c'"
  using assms
proof (induction ss c arbitrary: t t' path ls rule: run_stmts.induct)
  case (2 a expr d macro l ss c)
  have "passes a d" "w \<or> a \<noteq> Msg ResultWarning" "all_pass w ss" "pass_sections path (sections ss) t = Some (ls, t')" using "2.prems" by simp_all
  then obtain c1 where c1: "run_assertion a expr d macro l c = Some (None, c1)" "quiet w c c1" "m_testCaseTracker c1 = Some t"
    using passing_assertion [of a d w expr macro l c] "2.prems"(2) by auto
  have "\<not> warnAboutMissingAssertions (m_config c1)" using c1(2) "2.prems"(3) by (simp add: quiet_def)
  then obtain c2 where "run_stmts ss c1 = Some (None, c2)" "m_testCaseTracker c2 = Some t'" "quiet w c1 c2"
    using "2.IH" [of "(None, c1)" None c1 t path ls t'] c1 \<open>all_pass w ss\<close> \<open>pass_sections path (sections ss) t = Some (ls, t')\<close> by auto
  then show ?case using c1 quiet_trans by auto
next
  case (3 msg macro l ss c)
  obtain m c1 where c1: "catch_info msg macro l c = (m, c1)" by (cases "catch_info msg macro l c")
  then have q: "quiet w c c1" "m_testCaseTracker c1 = m_testCaseTracker c"
    by (auto simp: catch_info_def Let_def pushScopedMessage_def quiet_def)
  then obtain c2 where "run_stmts ss c1 = Some (None, c2)" "m_testCaseTracker c2 = Some t'" "quiet w c1 c2"
    using "3.IH" [OF c1 [symmetric] refl, of t path ls t'] "3.prems" by (auto simp: quiet_def)
  then show ?case using c1 q quiet_trans by (auto simp: popScopedMessage_def)
next
  case (4 i b ss c)
  obtain ok t1 where t1: "enterSection (section_key i) t = (ok, t1)" by (cases "enterSection (section_key i) t")
  let ?c = "c\<lparr>m_testCaseTracker := Some t1\<rparr>"
  have warn: "\<not> warnAboutMissingAssertions (m_config c)" and ss: "all_pass w ss" "all_pass w b" using "4.prems" by simp_all
  show ?case
  proof (cases ok)
    case False
    then have s: "sectionStarted i c = Some (None, ?c)" using "4.prems"(2) t1 by (simp add: sectionStarted_def)
    have "pass_sections path (sections ss) t1 = Some (ls, t')" using "4.prems"(4) t1 False by simp
    then obtain c2 where "run_stmts ss ?c = Some (None, c2)" "m_testCaseTracker c2 = Some t'" "quiet w ?c c2"
      using "4.IH"(1) [OF s refl refl, of t1 path ls t'] ss(1) warn by auto
    then show ?thesis using s by (auto simp: quiet_def)
  next
    case True
    obtain ls1 t2 t3 ls2 where p: "pass_body (path @ [section_key i]) (Body (sections b)) t1 = Some (ls1, t2)"
        "leaveSection t2 = Some t3" "pass_sections path (sections ss) t3 = Some (ls2, t')"
      using "4.prems"(4) t1 True by (auto split: option.splits)
    obtain prev c1 where s: "sectionStarted i c = Some (Some prev, c1)" "quiet w c c1" "m_testCaseTracker c1 = Some t1" "m_config c1 = m_config c"
      using "4.prems"(2) t1 True by (auto simp: sectionStarted_def Let_def)
    obtain ls' where "pass_sections (path @ [section_key i]) (sections b) t1 = Some (ls', t2)"
      using pass_body_sections [OF p(1)] by auto
    then obtain c2 where c2: "run_stmts b c1 = Some (None, c2)" "m_testCaseTracker c2 = Some t2" "quiet w c1 c2"
      using "4.IH"(2) [OF s(1) refl refl, of t1 "path @ [section_key i]" ls' t2] s ss(2) warn by auto
    then have w2: "\<not> warnAboutMissingAssertions (m_config c2)" using s(4) warn by (simp add: quiet_def)
    obtain c3 where c3: "sectionEnded False i prev c2 = Some c3" "quiet w c2 c3" "m_testCaseTracker c3 = Some t3"
      using not_missing [OF w2] c2(2) p(2) by (auto simp: sectionEnded_def track_leave_def)
    then have w3: "\<not> warnAboutMissingAssertions (m_config c3)" using w2 by (simp add: quiet_def)
    obtain c4 where "run_stmts ss c3 = Some (None, c4)" "m_testCaseTracker c4 = Some t'" "quiet w c3 c4"
      using "4.IH"(3) [OF s(1) refl refl c2(1) refl, of c3 t3 path ls2 t'] c3 p(3) ss(1) w3 by auto
    then show ?thesis using s c2 c3 by (auto intro: quiet_trans)
  qed
qed auto


section \<open>All runs of a test that passes\<close>

text \<open>The test cases a run passes with, and the context they start in.\<close>

definition case_passes :: "bool \<Rightarrow> test_function TestCase \<Rightarrow> stmt list \<Rightarrow> bool" where
  "case_passes w tc ss \<longleftrightarrow> test tc = run_stmts ss \<and> all_pass w ss \<and> distinct_names (Body (sections ss))"

definition passing_case :: "test_function TestCase \<Rightarrow> stmt list \<Rightarrow> bool" where
  "passing_case = case_passes True"

definition calm :: "RunContext \<Rightarrow> bool" where
  "calm c \<longleftrightarrow> m_unfinishedSections c = [] \<and> \<not> warnAboutMissingAssertions (m_config c) \<and> \<not> aborting c
     \<and> m_generatorsByTestName c = []"

lemma calm_quiet: "calm c \<Longrightarrow> quiet w c c' \<Longrightarrow> calm c'"
  by (simp add: calm_def quiet_def aborting_def)

lemma invoke_passing:
  assumes "case_passes w tc ss" "calm c" "m_testCaseTracker c = Some t" "pass_case (Body (sections ss)) t = Some (ls, t')"
  shows "\<exists>c'. invoke_guarded tc c = Some c' \<and> m_testCaseTracker c' = Some t' \<and> quiet w c c'"
proof -
  let ?c = "c\<lparr>m_testCaseTracker := Some (enterTestCase t)\<rparr>"
  obtain t1 where "pass_body [] (Body (sections ss)) (enterTestCase t) = Some (ls, t1)" and t': "t' = leaveTestCase t1"
    using assms(4) by (auto simp: pass_case_def split: option.splits)
  then obtain ls' where "pass_sections [] (sections ss) (enterTestCase t) = Some (ls', t1)"
    using pass_body_sections by blast
  then obtain c1 where "run_stmts ss ?c = Some (None, c1)" "m_testCaseTracker c1 = Some t1" "quiet w ?c c1"
    using run_passing [of w ss ?c "enterTestCase t" "[]" ls' t1] assms(1,2) by (auto simp: case_passes_def calm_def)
  then show ?thesis using assms(1,3) t' by (auto simp: invoke_guarded_def case_passes_def quiet_def)
qed

lemma settle_quiet:
  assumes "n_failed counts = 0" "n_failedButOk counts = 0"
  shows "quiet w c (snd (settle i counts c)) \<and> m_testCaseTracker (snd (settle i counts c)) = m_testCaseTracker c"
  using assms by (simp add: settle_def quiet_def Let_def)

lemma run_case_passing:
  assumes "case_passes w tc ss" "calm c" "m_testCaseTracker c = Some t" "pass_case (Body (sections ss)) t = Some (ls, t')"
  shows "\<exists>c'. runCurrentTest tc c = Some c' \<and> m_testCaseTracker c' = Some t' \<and> quiet w c c'"
proof -
  let ?c = "(tell (SectionStarting (case_section tc)) c)\<lparr>m_lastAssertionInfo := AssertionInfo_new ''TEST_CASE'' (lineInfo tc) [] NormalResult\<rparr>"
  have c: "calm ?c" using assms(2) by (simp add: calm_def aborting_def)
  then obtain c1 where c1: "invoke_guarded tc ?c = Some c1" "m_testCaseTracker c1 = Some t'" "quiet w ?c c1"
    using invoke_passing [OF assms(1) c _ assms(4)] assms(3) by auto
  have q: "quiet w c c1" using c1(3) by (auto simp: quiet_def tell_def)
  then have m: "m_unfinishedSections c1 = []" "\<not> warnAboutMissingAssertions (m_config c1)"
    using assms(2) by (simp_all add: quiet_def calm_def)
  let ?c1 = "c1\<lparr>m_unfinishedSections := [], m_messages := []\<rparr>"
  let ?counts = "counts_minus (n_assertions (m_totals c1)) (n_assertions (m_totals c))"
  have q1: "quiet w c ?c1" using q m(1) by (simp add: quiet_def)
  have "n_failed ?counts = 0" "n_failedButOk ?counts = 0" using q by (simp_all add: quiet_def counts_minus_def)
  note s = settle_quiet [OF this, of w ?c1 tc]
  obtain counts c2 where c2: "settle tc ?counts ?c1 = (counts, c2)" by (cases "settle tc ?counts ?c1")
  have "runCurrentTest tc c = Some (tell (SectionEnded (case_section tc) counts False) c2)"
    using c1(1) m not_missing [of ?c1] c2 by (simp add: runCurrentTest_def Let_def)
  then show ?thesis using s c2 c1(2) quiet_trans [OF q1] by simp
qed

lemma run_sections_passing:
  assumes "pass_all (Body (sections ss)) lss t = Some (lss', t')" "case_passes w tc ss"
    "calm c" "m_testCaseTracker c = Some t"
  shows "\<exists>c'. run_sections tc c = Some c' \<and> m_testCaseTracker c' = Some t' \<and> quiet w c c'"
proof -
  define P where "P = (\<lambda>b (lss :: string list list list) t (r :: string list list list \<times> TestCaseTracker).
      \<forall>c. b = Body (sections ss) \<longrightarrow> calm c \<longrightarrow> m_testCaseTracker c = Some t \<longrightarrow>
        (\<exists>c'. run_sections tc c = Some c' \<and> m_testCaseTracker c' = Some (snd r) \<and> quiet w c c'))"
  have "P (Body (sections ss)) lss t (lss', t')"
  proof (rule pass_all.raw_induct [OF _ assms(1)])
    fix pass_all and b and lss :: "string list list list" and t r
    assume IH: "\<And>b lss t r. pass_all b lss t = Some r \<Longrightarrow> P b lss t r"
      and step: "(case pass_case b t of None \<Rightarrow> None
        | Some (ls, t) \<Rightarrow> if isCompleted t then Some (lss @ [ls], t) else pass_all b (lss @ [ls]) t) = Some r"
    show "P b lss t r"
      unfolding P_def
    proof (intro allI impI)
      fix c assume b: "b = Body (sections ss)" and c: "calm c" "m_testCaseTracker c = Some t"
      obtain ls t1 where t1: "pass_case b t = Some (ls, t1)"
          "if isCompleted t1 then r = (lss @ [ls], t1) else pass_all b (lss @ [ls]) t1 = Some r"
        using step by (auto split: option.splits prod.splits if_splits)
      obtain c1 where c1: "runCurrentTest tc c = Some c1" "m_testCaseTracker c1 = Some t1" "quiet w c c1"
        using run_case_passing [OF assms(2) c] t1(1) b by auto
      have calm: "calm c1" using calm_quiet [OF c(1) c1(3)] .
      show "\<exists>c'. run_sections tc c = Some c' \<and> m_testCaseTracker c' = Some (snd r) \<and> quiet w c c'"
      proof (cases "isCompleted t1")
        case True
        then show ?thesis using c1 t1(2) by (simp add: run_sections.simps [of tc c])
      next
        case False
        then obtain c2 where "run_sections tc c1 = Some c2" "m_testCaseTracker c2 = Some (snd r)" "quiet w c1 c2"
          using IH [of b "lss @ [ls]" t1 r] t1(2) b calm c1(2) by (auto simp: P_def)
        then show ?thesis using False c1 calm quiet_trans by (auto simp: run_sections.simps [of tc c] calm_def)
      qed
    qed
  qed
  with assms(3,4) show ?thesis by (simp add: P_def)
qed

lemma runTest_passing:
  assumes "case_passes w tc ss" "calm c"
  shows "\<exists>d c'. runTest tc c = Some (d, c') \<and> n_testCases d = \<lparr>n_passed = 1, n_failed = 0, n_failedButOk = 0\<rparr> \<and>
     n_failed (n_assertions d) = 0 \<and> n_failedButOk (n_assertions d) = 0 \<and> calm c' \<and>
     n_testCases (m_totals c') = counts_plus (n_testCases (m_totals c)) (n_testCases d) \<and>
     n_failed (n_assertions (m_totals c')) = n_failed (n_assertions (m_totals c)) \<and>
     n_failedButOk (n_assertions (m_totals c')) = n_failedButOk (n_assertions (m_totals c)) \<and>
     (\<forall>e\<in>set (m_reports c'). report_ok w e \<or> e \<in> set (m_reports c))"
proof -
  let ?t = "TestCaseTracker_new (name tc)" and ?b = "Body (sections ss)"
  let ?c = "(tell (TestCaseStarting (TestCaseInfo.truncate tc)) c)
    \<lparr>m_activeTestCase := Some (TestCaseInfo.truncate tc), m_testCaseTracker := Some ?t\<rparr>"
  have calm: "calm ?c" using assms(2) by (simp add: calm_def aborting_def)
  have new: "m_parents ?t = []" "m_currentSection ?t = TrackedSection_new (name tc)" by (simp_all add: TestCaseTracker_new_def)
  then have "\<exists>r. pass_all ?b [] ?t = Some r"
    using pass_all_returns [of ?b ?t "[]"] leaves_not_Nil [of ?b] new_section [of ?b "name tc"] assms(1)
    by (auto simp: case_passes_def)
  then obtain r t' where p: "pass_all ?b [] ?t = Some (r, t')" by auto
  then obtain c1 where c1: "run_sections tc ?c = Some c1" "quiet w ?c c1"
    using run_sections_passing [OF p assms(1) calm] by auto
  have q: "n_failed (n_assertions (m_totals c1)) = n_failed (n_assertions (m_totals c))"
    "n_failedButOk (n_assertions (m_totals c1)) = n_failedButOk (n_assertions (m_totals c))"
    "n_testCases (m_totals c1) = n_testCases (m_totals c)" "m_unfinishedSections c1 = []"
    "m_config c1 = m_config c" "m_generatorsByTestName c1 = []"
    using c1(2) assms(2) by (simp_all add: quiet_def calm_def)
  have reports: "\<forall>e\<in>set (m_reports c1). report_ok w e \<or> e \<in> set (m_reports c)" using c1(2) by (auto simp: quiet_def tell_def)
  have "run_generators tc ?c = Some c1"
    using c1(1) q(6) by (simp add: run_generators.simps [of tc ?c] advanceGeneratorsForCurrentTest_def)
  moreover have "n_testCases (delta (m_totals c1) (m_totals c)) = \<lparr>n_passed = 1, n_failed = 0, n_failedButOk = 0\<rparr>"
    "n_failed (n_assertions (delta (m_totals c1) (m_totals c))) = 0"
    "n_failedButOk (n_assertions (delta (m_totals c1) (m_totals c))) = 0"
    using q(1-3) by (simp_all add: delta_def totals_minus_def counts_minus_def Counts_new_def)
  ultimately show ?thesis
    using assms(2) q reports by (auto simp: runTest_def Let_def calm_def aborting_def tell_def)
qed

lemma run_cases_passing:
  assumes "\<forall>tc\<in>set tcs. \<exists>ss. case_passes w tc ss" "distinct (map name tcs)" "calm c" "wf_map already"
    "\<forall>tc\<in>set tcs. map_find (name tc) already = None"
  shows "\<exists>d already' c'. run_cases tcs totals already c = Some (totals_plus totals d, already', c') \<and>
     n_testCases d = \<lparr>n_passed = of_nat (length tcs), n_failed = 0, n_failedButOk = 0\<rparr> \<and> n_failed (n_assertions d) = 0 \<and>
     n_testCases (m_totals c') = counts_plus (n_testCases (m_totals c)) (n_testCases d) \<and>
     n_failed (n_assertions (m_totals c')) = n_failed (n_assertions (m_totals c)) \<and>
     n_failedButOk (n_assertions (m_totals c')) = n_failedButOk (n_assertions (m_totals c)) \<and>
     (\<forall>e\<in>set (m_reports c'). report_ok w e \<or> e \<in> set (m_reports c))"
  using assms
proof (induction tcs arbitrary: totals already c)
  case Nil
  show ?case by (intro exI [of _ Totals_new]) (auto simp: totals_plus_def Totals_new_def Counts_new_def counts_plus_def)
next
  case (Cons tc tcs)
  obtain ss where "case_passes w tc ss" using Cons.prems(1) by auto
  then obtain d c1 where d: "runTest tc c = Some (d, c1)" "n_testCases d = \<lparr>n_passed = 1, n_failed = 0, n_failedButOk = 0\<rparr>"
      "n_failed (n_assertions d) = 0" "calm c1" "n_testCases (m_totals c1) = counts_plus (n_testCases (m_totals c)) (n_testCases d)"
      "n_failed (n_assertions (m_totals c1)) = n_failed (n_assertions (m_totals c))"
      "n_failedButOk (n_assertions (m_totals c1)) = n_failedButOk (n_assertions (m_totals c))"
      "\<forall>e\<in>set (m_reports c1). report_ok w e \<or> e \<in> set (m_reports c)"
    using runTest_passing [OF _ Cons.prems(3)] by blast
  let ?already = "map_assign (name tc) tc already"
  have "wf_map ?already" using Cons.prems(4) by (rule wf_map_assign)
  moreover have "\<forall>x\<in>set tcs. map_find (name x) ?already = None"
  proof
    fix x assume x: "x \<in> set tcs"
    have "name tc \<notin> set (map name tcs)" using Cons.prems(2) by simp
    moreover have "name x \<in> set (map name tcs)" using x by simp
    ultimately have "name x \<noteq> name tc" by metis
    then show "map_find (name x) ?already = None" using Cons.prems(4,5) x by (simp add: map_find_assign)
  qed
  ultimately obtain d' r c' where d': "run_cases tcs (totals_plus totals d) ?already c1 = Some (totals_plus (totals_plus totals d) d', r, c')"
      "n_testCases d' = \<lparr>n_passed = of_nat (length tcs), n_failed = 0, n_failedButOk = 0\<rparr>" "n_failed (n_assertions d') = 0"
      "n_testCases (m_totals c') = counts_plus (n_testCases (m_totals c1)) (n_testCases d')"
      "n_failed (n_assertions (m_totals c')) = n_failed (n_assertions (m_totals c1))"
      "n_failedButOk (n_assertions (m_totals c')) = n_failedButOk (n_assertions (m_totals c1))"
      "\<forall>e\<in>set (m_reports c'). report_ok w e \<or> e \<in> set (m_reports c1)"
    using Cons.IH [of c1 ?already "totals_plus totals d"] Cons.prems(1,2) d(4) by auto
  have "totals_plus (totals_plus totals d) d' = totals_plus totals (totals_plus d d')"
    by (simp add: totals_plus_def counts_plus_ac(1))
  moreover have "\<not> aborting c" using Cons.prems(3) by (simp add: calm_def)
  moreover have "\<forall>e\<in>set (m_reports c'). report_ok w e \<or> e \<in> set (m_reports c)" using d(8) d'(7) by blast
  ultimately show ?case
    using Cons.prems(5) d(1-7) d'(1-6)
    by (intro exI [of _ "totals_plus d d'"] exI [of _ r] exI [of _ c']) (simp add: totals_plus_def counts_plus_def)
qed

text \<open>A test with two sections.\<close>

definition example_test :: "stmt list" where
  "example_test =
     [Assertion (Test (Unary True)) ''ready'' NormalResult ''REQUIRE'' SourceLineInfo_new,
      Section \<lparr>sec_name = ''a'', sec_description = [], sec_lineInfo = SourceLineInfo_new\<rparr>
        [Assertion (Test (Binary ''1'' ''=='' ''1'' True)) ''x == 1'' ContinueOnFailure ''CHECK'' SourceLineInfo_new],
      Section \<lparr>sec_name = ''b'', sec_description = [], sec_lineInfo = SourceLineInfo_new\<rparr>
        [Assertion (NoThrow None) ''f()'' NormalResult ''REQUIRE_NOTHROW'' SourceLineInfo_new]]"

lemma passing_tests_run:
  assumes "\<forall>tc\<in>set (getAllTests tests). \<exists>ss. case_passes w tc ss" "distinct (map name (getAllTests tests))"
    "\<not> warnAboutMissingAssertions cfg" "word_of_int (abortAfter (m_data cfg)) \<noteq> (0 :: u32)"
  shows "\<exists>totals already c. runTests reg cfg reporter junk tests [] = Some (totals, already, c) \<and>
     n_testCases totals = \<lparr>n_passed = of_nat (length (getFilteredTests
         (if hasFilters (cfg_testSpec cfg) then cfg_testSpec cfg else parseTestSpec reg ''~[.]'') (allowThrows cfg) tests [])),
       n_failed = 0, n_failedButOk = 0\<rparr> \<and> session_result totals = 0 \<and>
     n_testCases (m_totals c) = n_testCases totals \<and> allPassed (n_assertions (m_totals c)) \<and> (\<forall>e\<in>set (m_reports c). report_ok w e)"
proof -
  let ?spec = "if hasFilters (cfg_testSpec cfg) then cfg_testSpec cfg else parseTestSpec reg ''~[.]''"
  let ?tcs = "getFilteredTests ?spec (allowThrows cfg) tests []"
  let ?c = "tell (TestGroupStarting []) (RunContext_new cfg reporter junk)"
  have tcs: "?tcs = filter (\<lambda>t. spec_matches ?spec t \<and> (allowThrows cfg \<or> \<not> throws t)) (getAllTests tests)"
    by (simp add: getFilteredTests_def getAllTests_def filter_tests_eq)
  have "\<forall>tc\<in>set ?tcs. \<exists>ss. case_passes w tc ss" "distinct (map name ?tcs)"
    using assms(1,2) unfolding tcs by (auto intro: distinct_map_filter)
  moreover have "calm ?c"
    using assms(3,4) by (simp add: calm_def aborting_def RunContext_new_def Let_def Totals_new_def Counts_new_def tell_def)
  ultimately obtain d r c' where run: "run_cases ?tcs Totals_new [] ?c = Some (totals_plus Totals_new d, r, c')"
     "n_testCases d = \<lparr>n_passed = of_nat (length ?tcs), n_failed = 0, n_failedButOk = 0\<rparr>" "n_failed (n_assertions d) = 0"
     "n_testCases (m_totals c') = counts_plus (n_testCases (m_totals ?c)) (n_testCases d)"
     "n_failed (n_assertions (m_totals c')) = n_failed (n_assertions (m_totals ?c))"
     "n_failedButOk (n_assertions (m_totals c')) = n_failedButOk (n_assertions (m_totals ?c))"
     "\<forall>e\<in>set (m_reports c'). report_ok w e \<or> e \<in> set (m_reports ?c)"
    using run_cases_passing [of ?tcs w ?c "[]" Totals_new] by (auto simp: wf_map_def)
  have c: "m_totals ?c = Totals_new" "\<forall>e\<in>set (m_reports ?c). report_ok w e" by (simp_all add: RunContext_new_def Let_def tell_def)
  have "runTests reg cfg reporter junk tests [] =
      Some (totals_plus Totals_new d, r, tell (TestGroupEnded [] (totals_plus Totals_new d) (aborting c')) c')"
    using run(1) by (simp add: runTests_def Let_def if_distrib [where f = Not] split: if_splits)
  moreover have "\<forall>e\<in>set (m_reports (tell (TestGroupEnded [] (totals_plus Totals_new d) (aborting c')) c')). report_ok w e"
    using run(7) c(2) by (auto simp: tell_def)
  ultimately show ?thesis
    using run(2-6) unfolding c(1)
    by (auto simp: session_result_def totals_plus_def counts_plus_def Totals_new_def Counts_new_def allPassed_def)
qed

text \<open>A test registered with that function, and the default selection.\<close>

lemma example_registered:
  "\<exists>r tc. AutoReg (run_stmts example_test) SourceLineInfo_new ''a test'' ''[!shouldfail]'' TestRegistry_new = Inr r \<and>
     getAllTests r = [tc] \<and> test tc = run_stmts example_test \<and> lcaseTags tc = [''!shouldfail'']"
  by (simp add: AutoReg_def makeTestCase_def startsWith_def substr_def tag_char_def isReservedTag_def parseSpecialTag_def
    property_defs set_insert_def insort_insert_key_def TestCaseInfo_new_def Let_def toLower_def tolower_def registerTest_def
    register_named_def TestRegistry_new_def TestCaseInfo.defs TestCase.defs getAllTests_def)

lemma example_passes: "test tc = run_stmts example_test \<Longrightarrow> case_passes w tc example_test"
  by (simp add: case_passes_def example_test_def flag_defs isFalseTest_def section_key_def)

lemma default_config:
  "\<not> hasFilters (cfg_testSpec (Config_new [] ConfigData_new))" "allowThrows (Config_new [] ConfigData_new)"
  "\<not> warnAboutMissingAssertions (Config_new [] ConfigData_new)" "abortAfter (m_data (Config_new [] ConfigData_new)) = - 1"
  by (simp_all add: Config_new_def ConfigData_new_def hasFilters_def allowThrows_def warnAboutMissingAssertions_def)

lemma thrown_outcome:
  "\<exists>c' r. catch_test (Raising (OtherException what)) expr d macro l c = Some (Some TestFailureException, c') \<and>
     m_reports c' = m_reports c @ [AssertionEnded r (m_messages c) (m_totals c')] \<and> getResultType r = ThrewException \<and>
     n_assertions (m_totals c') = (let n = n_assertions (m_totals c) in n\<lparr>n_failed := n_failed n + 1\<rparr>)"
proof -
  let ?b = "setResultType ThrewException ((ResultBuilder_new macro l expr d)\<lparr>rb_assertionInfo := (AssertionInfo_new macro l expr d)\<lparr>ai_resultDisposition := NormalResult\<rparr>, rb_stream := what\<rparr>)"
  obtain r where r: "build ?b = Some r" "ar_info r = rb_assertionInfo ?b" "getResultType r = ThrewException"
    by (rule built [of ?b]) (auto simp: setters ResultBuilder_new_def)
  have "\<not> isOk r" using r by (auto simp: isOk_def getResultType_def setters flag_defs shouldSuppressFailure_def)
  have "catch_test (Raising (OtherException what)) expr d macro l c = react (captureExpression ?b c)"
    by (simp add: catch_test_def caught_def captureResult_def Let_def ResultBuilder_new_def)
  moreover have "ai_resultDisposition (rb_assertionInfo ?b) = NormalResult" "\<not> rb_shouldThrow ?b"
    by (simp_all add: setters ResultBuilder_new_def)
  ultimately have c: "catch_test (Raising (OtherException what)) expr d macro l c = Some (Some TestFailureException, assertionEnded r c)"
    using captured [OF r(1)] \<open>\<not> isOk r\<close> by simp
  have "ThrewException \<noteq> ResultOk" by (simp add: result_defs)
  then have "m_reports (assertionEnded r c) = m_reports c @ [AssertionEnded r (m_messages c) (m_totals (assertionEnded r c))]"
    using r(3) \<open>\<not> isOk r\<close> by (simp add: assertionEnded_def Let_def add_failed_def tell_def)
  then show ?thesis
    using c r(3) \<open>\<not> isOk r\<close> \<open>ThrewException \<noteq> ResultOk\<close> by (intro exI [of _ "assertionEnded r c"] exI [of _ r]) (simp add: Let_def)
qed

section \<open>Properties\<close>

text \<open>
  C36. What an assertion does. An assertion always returns, and the reporter is told of it exactly once,
  with the kind of the result. If its expression, negated for the \<open>_FALSE\<close> macros, holds, it counts as
  passed and the test goes on; if not and failures are suppressed, nothing is counted; otherwise it
  counts as failed, and the test is given up at once if the disposition is exactly \<open>Normal\<close> or the
  limit of failures is reached. So a \<open>REQUIRE\<close> that fails ends the test, a \<open>REQUIRE_FALSE\<close> that fails
  does not. If the evaluation of the expression throws an exception of the program under test, it counts as
  failed and ends the test whatever the disposition. (The operator \<open>!\<close>, for which an expression is printed
  in a way of its own, is none that the expression templates pass on.)
\<close>

theorem assertion_outcome:
  assumes "e = Unary v \<or> e = Binary x operator y v \<and> operator \<noteq> ''!''"
  shows "(\<exists>c' r. catch_test e expr d macro l c =
       Some (if v = isFalseTest d \<and> \<not> shouldSuppressFailure d \<and> (aborting c' \<or> d = NormalResult) then Some TestFailureException else None, c') \<and>
     m_reports c' = m_reports c @ [AssertionEnded r (m_messages c) (m_totals c')] \<and>
     getResultType r = (if v \<noteq> isFalseTest d then ResultOk else ExpressionFailed) \<and> ar_info r = AssertionInfo_new macro l expr d \<and>
     n_assertions (m_totals c') =
       (let n = n_assertions (m_totals c) in
        if v \<noteq> isFalseTest d then n\<lparr>n_passed := n_passed n + 1\<rparr>
        else if shouldSuppressFailure d then n else n\<lparr>n_failed := n_failed n + 1\<rparr>) \<and>
     n_testCases (m_totals c') = n_testCases (m_totals c) \<and>
     succeeded (m_lastResult c') = (v \<noteq> isFalseTest d) \<and> m_config c' = m_config c) \<and>
   (\<exists>c' r. catch_test (Raising (OtherException what)) expr d macro l c = Some (Some TestFailureException, c') \<and>
     m_reports c' = m_reports c @ [AssertionEnded r (m_messages c) (m_totals c')] \<and> getResultType r = ThrewException \<and>
     n_assertions (m_totals c') = (let n = n_assertions (m_totals c) in n\<lparr>n_failed := n_failed n + 1\<rparr>))"
proof (rule conjI [OF _ thrown_outcome])
  obtain r where r: "getResultType r = (if v \<noteq> isFalseTest d then ResultOk else ExpressionFailed)"
    "ar_info r = AssertionInfo_new macro l expr d"
    "catch_test e expr d macro l c =
       Some (if \<not> isOk r \<and> (aborting (assertionEnded r c) \<or> d = NormalResult) then Some TestFailureException else None,
         assertionEnded r c)"
    by (rule tested [OF assms])
  have "isOk r \<longleftrightarrow> v \<noteq> isFalseTest d \<or> shouldSuppressFailure d" "succeeded r \<longleftrightarrow> v \<noteq> isFalseTest d"
    using r(1,2) by (auto simp: isOk_def succeeded_def getResultType_def split: if_splits)
  then show "\<exists>c' r. catch_test e expr d macro l c =
       Some (if v = isFalseTest d \<and> \<not> shouldSuppressFailure d \<and> (aborting c' \<or> d = NormalResult) then Some TestFailureException else None, c') \<and>
     m_reports c' = m_reports c @ [AssertionEnded r (m_messages c) (m_totals c')] \<and>
     getResultType r = (if v \<noteq> isFalseTest d then ResultOk else ExpressionFailed) \<and> ar_info r = AssertionInfo_new macro l expr d \<and>
     n_assertions (m_totals c') =
       (let n = n_assertions (m_totals c) in
        if v \<noteq> isFalseTest d then n\<lparr>n_passed := n_passed n + 1\<rparr>
        else if shouldSuppressFailure d then n else n\<lparr>n_failed := n_failed n + 1\<rparr>) \<and>
     n_testCases (m_totals c') = n_testCases (m_totals c) \<and>
     succeeded (m_lastResult c') = (v \<noteq> isFalseTest d) \<and> m_config c' = m_config c"
    using r by (intro exI [of _ "assertionEnded r c"] exI [of _ r]) (simp add: Let_def assertionEnded_def add_passed_def add_failed_def tell_def)
qed

theorem assertion_outcome_witness:
  "\<exists>c'. catch_test (Unary True) ''x'' (NormalResult OR FalseTest) ''REQUIRE_FALSE'' SourceLineInfo_new
       (RunContext_new (Config_new [] ConfigData_new) (\<lambda>_. True) 0) = Some (None, c') \<and>
     n_failed (n_assertions (m_totals c')) = 1 \<and> length (m_reports c') = 1"
proof -
  let ?c = "RunContext_new (Config_new [] ConfigData_new) (\<lambda>_. True) 0"
  show ?thesis
    using conjunct1 [OF assertion_outcome [of "Unary True" True _ _ _ "''x''" "NormalResult OR FalseTest" "''REQUIRE_FALSE''" SourceLineInfo_new ?c]]
    by (auto simp: flag_defs isFalseTest_def shouldSuppressFailure_def RunContext_new_def Totals_new_def Counts_new_def
      Let_def aborting_def Config_new_def ConfigData_new_def)
qed

text \<open>
  A run that passes. Take tests whose assertions all hold, whose sections have different names on
  each level, and a configuration that neither warns of missing assertions nor aborts before the first
  failure. Then the runner returns: every selected test is run through all of its sections and counted
  once, as passed, whatever its tags say, nothing fails, and the exit code is 0.
\<close>

theorem passing_session:
  assumes "\<forall>tc\<in>set (getAllTests tests). \<exists>ss. passing_case tc ss" "distinct (map name (getAllTests tests))"
    "\<not> warnAboutMissingAssertions cfg" "word_of_int (abortAfter (m_data cfg)) \<noteq> (0 :: u32)"
  shows "\<exists>totals already c. runTests reg cfg reporter junk tests [] = Some (totals, already, c) \<and>
     n_testCases totals = \<lparr>n_passed = of_nat (length (getFilteredTests
         (if hasFilters (cfg_testSpec cfg) then cfg_testSpec cfg else parseTestSpec reg ''~[.]'') (allowThrows cfg) tests [])),
       n_failed = 0, n_failedButOk = 0\<rparr> \<and> session_result totals = 0"
  using passing_tests_run [of tests True, OF assms(1) [unfolded passing_case_def] assms(2-4), of reg reporter junk] by blast

theorem passing_session_witness:
  "\<exists>r totals already c. AutoReg (run_stmts example_test) SourceLineInfo_new ''a test'' ''[!shouldfail]'' TestRegistry_new = Inr r \<and>
     runTests [] (Config_new [] ConfigData_new) (\<lambda>_. True) 0 r [] = Some (totals, already, c) \<and>
     n_testCases totals = \<lparr>n_passed = 1, n_failed = 0, n_failedButOk = 0\<rparr> \<and> session_result totals = 0"
proof -
  let ?cfg = "Config_new [] ConfigData_new"
  obtain r tc where r: "AutoReg (run_stmts example_test) SourceLineInfo_new ''a test'' ''[!shouldfail]'' TestRegistry_new = Inr r"
      "getAllTests r = [tc]" "test tc = run_stmts example_test" "lcaseTags tc = [''!shouldfail'']"
    using example_registered by blast
  have "getFilteredTests (parseTestSpec [] ''~[.]'') True r [] = [tc]"
    using r(2,4) by (simp add: getFilteredTests_def getAllTests_def filter_tests_eq default_spec aliases_ok_def)
  then show ?thesis
    using passing_session [of r ?cfg "[]" "\<lambda>_. True" 0] r default_config example_passes [OF r(3), of True] by (auto simp: passing_case_def)
qed

end
