(* ===== verification/CatchReport.thy ===== *)
theory CatchReport
  imports CatchXml CatchRun
begin

text \<open>
  The XML reporter of Catch, behind the adapter that lets it, as a reporter of the old interface, listen
  to a run: what each report adds to the document. The reports of any run are properly nested, and for
  properly nested reports the markup of the document is right.
\<close>

section \<open>The reporter\<close>

record XmlReporter =
  xr_config :: Config
  m_currentTestSuccess :: bool
  m_xml :: XmlWriter
  m_sectionDepth :: int

text \<open>The constructor does not set \<open>m_currentTestSuccess\<close>: it is \<open>junk\<close>.\<close>

definition XmlReporter_new :: "Config \<Rightarrow> bool \<Rightarrow> XmlReporter" where
  "XmlReporter_new cfg junk = \<lparr>xr_config = cfg, m_currentTestSuccess = junk, m_xml = XmlWriter_new, m_sectionDepth = 0\<rparr>"

text \<open>What is written goes to the new stream from then on.\<close>

definition setStream :: "XmlWriter \<Rightarrow> XmlWriter" where
  "setStream w = w\<lparr>m_os := []\<rparr>"

definition StartTesting :: "XmlReporter \<Rightarrow> XmlReporter" where
  "StartTesting r =
     (let w = startElement ''Catch'' (setStream (m_xml r))
      in r\<lparr>m_xml := if config_name (xr_config r) \<noteq> [] then writeAttribute ''name'' (config_name (xr_config r)) w else w\<rparr>)"

text \<open>The counts, in an element of their own.\<close>

definition overall_results :: "Counts \<Rightarrow> XmlWriter \<Rightarrow> XmlWriter option" where
  "overall_results n =
     scopedElement ''OverallResults''
       (\<lambda>w. writeAttribute_nat ''expectedFailures'' (unat (n_failedButOk n))
         (writeAttribute_nat ''failures'' (unat (n_failed n)) (writeAttribute_nat ''successes'' (unat (n_passed n)) w)))"

definition end_with_results :: "Counts \<Rightarrow> XmlReporter \<Rightarrow> XmlReporter option" where
  "end_with_results n r =
     do {
       w \<leftarrow> overall_results n (m_xml r);
       w \<leftarrow> endElement w;
       Some (r\<lparr>m_xml := w\<rparr>)
     }"

definition EndTesting :: "Totals \<Rightarrow> XmlReporter \<Rightarrow> XmlReporter option" where
  "EndTesting totals = end_with_results (n_assertions totals)"

definition StartGroup :: "string \<Rightarrow> XmlReporter \<Rightarrow> XmlReporter" where
  "StartGroup groupName r = r\<lparr>m_xml := writeAttribute ''name'' groupName (startElement ''Group'' (m_xml r))\<rparr>"

definition EndGroup :: "Totals \<Rightarrow> XmlReporter \<Rightarrow> XmlReporter option" where
  "EndGroup totals = end_with_results (n_assertions totals)"

definition StartSection :: "string \<Rightarrow> string \<Rightarrow> XmlReporter \<Rightarrow> XmlReporter" where
  "StartSection sectionName descr r =
     (let depth = m_sectionDepth r;
          r = r\<lparr>m_sectionDepth := depth + 1\<rparr>
      in if depth > 0
         then r\<lparr>m_xml := writeAttribute ''description'' descr
           (writeAttribute ''name'' (trim sectionName) (startElement ''Section'' (m_xml r)))\<rparr>
         else r)"

definition EndSection :: "Counts \<Rightarrow> XmlReporter \<Rightarrow> XmlReporter option" where
  "EndSection assertions r =
     (let r = r\<lparr>m_sectionDepth := m_sectionDepth r - 1\<rparr>
      in if m_sectionDepth r > 0 then end_with_results assertions r else Some r)"

definition StartTestCase :: "'x TestCaseInfo_scheme \<Rightarrow> XmlReporter \<Rightarrow> XmlReporter" where
  "StartTestCase testInfo r =
     r\<lparr>m_xml := writeAttribute ''name'' (trim (name testInfo)) (startElement ''TestCase'' (m_xml r)), m_currentTestSuccess := True\<rparr>"

text \<open>An element that holds a text and nothing else, and the one for an exception.\<close>

definition text_element :: "string \<Rightarrow> string \<Rightarrow> XmlWriter \<Rightarrow> XmlWriter option" where
  "text_element n s = scopedElement n (writeText s True)"

definition exception_element :: "AssertionResult \<Rightarrow> XmlWriter \<Rightarrow> XmlWriter option" where
  "exception_element a =
     scopedElement ''Exception''
       (\<lambda>w. writeText (getMessage a) True
         (writeAttribute_nat ''line'' (si_line (getSourceInfo a)) (writeAttribute ''filename'' (si_file (getSourceInfo a)) w)))"

definition open_expression :: "AssertionResult \<Rightarrow> XmlReporter \<Rightarrow> XmlReporter option" where
  "open_expression a r =
     do {
       let w = writeAttribute_nat ''line'' (si_line (getSourceInfo a))
         (writeAttribute ''filename'' (si_file (getSourceInfo a))
           (writeAttribute_bool ''success'' (succeeded a) (startElement ''Expression'' (m_xml r))));
       w \<leftarrow> text_element ''Original'' (getExpression a) w;
       w \<leftarrow> text_element ''Expanded'' (getExpandedExpression a) w;
       Some (r\<lparr>m_xml := w, m_currentTestSuccess := (m_currentTestSuccess r \<and> succeeded a)\<rparr>)
     }"

definition result_element :: "AssertionResult \<Rightarrow> XmlReporter \<Rightarrow> XmlReporter option" where
  "result_element a r =
     (let update = (\<lambda>fails w. r\<lparr>m_xml := w, m_currentTestSuccess := (m_currentTestSuccess r \<and> \<not> fails)\<rparr>);
          t = getResultType a
      in if t = ThrewException then map_option (update True) (exception_element a (m_xml r))
         else if t = ResultInfo then map_option (update False) (text_element ''Info'' (getMessage a) (m_xml r))
         else if t = ResultWarning then map_option (update False) (text_element ''Warning'' (getMessage a) (m_xml r))
         else if t = ExplicitFailure then map_option (update True) (text_element ''Failure'' (getMessage a) (m_xml r))
         else Some r)"

definition Result :: "AssertionResult \<Rightarrow> XmlReporter \<Rightarrow> XmlReporter option" where
  "Result a r =
     (if \<not> includeSuccessfulResults (xr_config r) \<and> getResultType a = ResultOk then Some r
      else
        do {
          r \<leftarrow> (if hasExpression a then open_expression a r else Some r);
          r \<leftarrow> result_element a r;
          if hasExpression a then map_option (\<lambda>w. r\<lparr>m_xml := w\<rparr>) (endElement (m_xml r)) else Some r
        })"

definition EndTestCase :: "XmlReporter \<Rightarrow> XmlReporter option" where
  "EndTestCase r =
     do {
       w \<leftarrow> scopedElement ''OverallResult'' (writeAttribute_bool ''success'' (m_currentTestSuccess r)) (m_xml r);
       w \<leftarrow> endElement w;
       Some (r\<lparr>m_xml := w\<rparr>)
     }"

section \<open>The adapter\<close>

text \<open>The message of a result is reported with the messages in scope.\<close>

definition AssertionStats_new :: "AssertionResult \<Rightarrow> MessageInfo list \<Rightarrow> u32 \<Rightarrow> MessageInfo list" where
  "AssertionStats_new a messages n =
     (if hasMessage a
      then messages @ [\<lparr>mi_macroName = getTestMacroName a, mi_lineInfo = getSourceInfo a, mi_type = getResultType a,
        mi_message = getMessage a, mi_sequence = n\<rparr>]
      else messages)"

primrec info_results :: "MessageInfo list \<Rightarrow> XmlReporter \<Rightarrow> XmlReporter option" where
  "info_results [] r = Some r"
| "info_results (m # ms) r =
     (if mi_type m = ResultInfo
      then
        do {
          a \<leftarrow> build (setResultType ResultInfo
            ((ResultBuilder_new (mi_macroName m) (mi_lineInfo m) [] NormalResult)\<lparr>rb_stream := mi_message m\<rparr>));
          r \<leftarrow> Result a r;
          info_results ms r
        }
      else info_results ms r)"

definition adapter_assertionEnded :: "AssertionResult \<Rightarrow> MessageInfo list \<Rightarrow> XmlReporter \<Rightarrow> XmlReporter option" where
  "adapter_assertionEnded a messages r =
     do {
       r \<leftarrow> (if getResultType a \<noteq> ResultOk then info_results messages r else Some r);
       Result a r
     }"

text \<open>One report; \<open>NoAssertionsInSection\<close> and \<open>Aborted\<close> write nothing.\<close>

fun xml_report :: "report \<Rightarrow> XmlReporter \<Rightarrow> XmlReporter option" where
  "xml_report (TestGroupStarting n) r = Some (StartGroup n r)"
| "xml_report (TestGroupEnded n totals ab) r = EndGroup totals r"
| "xml_report (TestCaseStarting i) r = Some (StartTestCase i r)"
| "xml_report (TestCaseEnded i totals ab) r = EndTestCase r"
| "xml_report (SectionStarting i) r = Some (StartSection (sec_name i) (sec_description i) r)"
| "xml_report (SectionEnded i counts missing) r = EndSection counts r"
| "xml_report (AssertionEnded a messages totals) r = adapter_assertionEnded a (AssertionStats_new a messages 0) r"

primrec xml_reports :: "report list \<Rightarrow> XmlReporter \<Rightarrow> XmlReporter option" where
  "xml_reports [] r = Some r"
| "xml_reports (e # es) r = do { r \<leftarrow> xml_report e r; xml_reports es r }"

text \<open>A whole run: \<open>testRunStarting\<close> in the constructor of the run context, \<open>testRunEnded\<close> in its destructor.\<close>

definition xml_document :: "Config \<Rightarrow> bool \<Rightarrow> RunContext \<Rightarrow> string option" where
  "xml_document cfg junk c =
     do {
       r \<leftarrow> xml_reports (m_reports c) (StartTesting (XmlReporter_new cfg junk));
       r \<leftarrow> EndTesting (m_totals c) r;
       Some (m_os (XmlWriter_delete (m_xml r)))
     }"

section \<open>Elements\<close>

text \<open>A writer with these elements open; one in the last of them, with attributes among \<open>used\<close>.\<close>

definition elements :: "string list \<Rightarrow> XmlWriter \<Rightarrow> bool" where
  "elements ns w \<longleftrightarrow> (\<exists>u. consistent u w) \<and> m_tags w = ns \<and> m_os w \<noteq> []"

definition attributed :: "string set \<Rightarrow> string list \<Rightarrow> XmlWriter \<Rightarrow> bool" where
  "attributed used ns w \<longleftrightarrow> (\<exists>u. consistent (Some u) w \<and> set u \<subseteq> used) \<and> m_tags w = ns"

lemma names [simp]:
  "element_name ''Catch''" "element_name ''Group''" "element_name ''TestCase''" "element_name ''Section''" "element_name ''Expression''"
  "element_name ''Original''" "element_name ''Expanded''" "element_name ''Exception''" "element_name ''Info''" "element_name ''Warning''"
  "element_name ''Failure''" "element_name ''OverallResults''" "element_name ''OverallResult''" "element_name ''name''"
  "element_name ''description''" "element_name ''successes''" "element_name ''failures''" "element_name ''expectedFailures''"
  "element_name ''success''" "element_name ''filename''" "element_name ''line''"
  by (simp_all add: element_name_def name_char_def letter_def)

lemma attributed_elements: "attributed used ns w \<Longrightarrow> elements ns w"
  by (auto simp: attributed_def elements_def consistent_def)

lemma start_attributed: "elements ns w \<Longrightarrow> ns \<noteq> [] \<Longrightarrow> element_name n \<Longrightarrow> attributed {} (ns @ [n]) (startElement n w)"
  using startElement_consistent [of _ w n] by (fastforce simp: elements_def attributed_def)

lemma attribute_attributed:
  assumes "attributed used ns w" "element_name a" "a \<notin> used"
  shows "attributed (insert a used) ns (writeAttribute a v w)" "attributed (insert a used) ns (writeAttribute_bool a b w)"
    "attributed (insert a used) ns (writeAttribute_nat a k w)"
proof -
  obtain u where u: "consistent (Some u) w" "set u \<subseteq> used" "m_tags w = ns" using assms(1) by (auto simp: attributed_def)
  then have "a \<notin> set u" using assms(3) by auto
  note c = writeAttribute_consistent [OF u(1) assms(2) this]
  show "attributed (insert a used) ns (writeAttribute a v w)" using c(1) [of v] c(4) u(2,3) by (fastforce simp: attributed_def)
  show "attributed (insert a used) ns (writeAttribute_bool a b w)" "attributed (insert a used) ns (writeAttribute_nat a k w)"
    using c(2,3,5,6) u(2,3) by (fastforce simp: attributed_def)+
qed

lemma text_elements:
  assumes "elements ns w" "ns \<noteq> []"
  shows "elements ns (writeText s b w)"
proof -
  obtain u where u: "consistent u w" "m_tags w = ns" "m_os w \<noteq> []" using assms(1) by (auto simp: elements_def)
  then have "m_os (writeText s b w) \<noteq> []"
    by (simp add: writeText_def writeEncodedText_def ensureTagClosed_def put_def Let_def)
  then show ?thesis using writeText_consistent [OF u(1), of s b] u(2) assms(2) unfolding elements_def by blast
qed

lemma end_elements: "elements (ns @ [n]) w \<Longrightarrow> \<exists>w'. endElement w = Some w' \<and> elements ns w'"
  using endElement_consistent [of _ w] by (fastforce simp: elements_def)

text \<open>An element that is open while \<open>f\<close> writes.\<close>

lemma scoped_elements:
  assumes "elements ns w" "ns \<noteq> []" "element_name n" "\<And>w. attributed {} (ns @ [n]) w \<Longrightarrow> elements (ns @ [n]) (f w)"
  shows "\<exists>w'. scopedElement n f w = Some w' \<and> elements ns w'"
  using end_elements [OF assms(4) [OF start_attributed [OF assms(1-3)]]] by (simp add: scopedElement_def)

lemma overall_elements: "elements ns w \<Longrightarrow> ns \<noteq> [] \<Longrightarrow> \<exists>w'. overall_results n w = Some w' \<and> elements ns w'"
  unfolding overall_results_def
  by (rule scoped_elements, assumption+, simp, rule attributed_elements, (rule attribute_attributed)+, assumption, simp_all)

lemma text_element_elements:
  "elements ns w \<Longrightarrow> ns \<noteq> [] \<Longrightarrow> element_name n \<Longrightarrow> \<exists>w'. text_element n s w = Some w' \<and> elements ns w'"
  unfolding text_element_def
  by (rule scoped_elements, assumption+, rule text_elements [OF attributed_elements], assumption, simp)

lemma exception_elements: "elements ns w \<Longrightarrow> ns \<noteq> [] \<Longrightarrow> \<exists>w'. exception_element a w = Some w' \<and> elements ns w'"
  unfolding exception_element_def
  by (rule scoped_elements, assumption+, simp, rule text_elements [OF attributed_elements], (rule attribute_attributed)+, assumption, simp_all)

section \<open>Properly nested reports\<close>

text \<open>Where a run can be; a test case has a section of its own, in which everything else happens, once for every run of it.\<close>

datatype stage = Outside | InGroup | Fresh | InCase nat

fun report_next :: "stage \<Rightarrow> report \<Rightarrow> stage option" where
  "report_next Outside (TestGroupStarting n) = Some InGroup"
| "report_next InGroup (TestGroupEnded n t a) = Some Outside"
| "report_next InGroup (TestCaseStarting i) = Some Fresh"
| "report_next Fresh (SectionStarting i) = Some (InCase 1)"
| "report_next (InCase 0) (TestCaseEnded i t a) = Some InGroup"
| "report_next (InCase d) (SectionStarting i) = Some (InCase (Suc d))"
| "report_next (InCase (Suc d)) (SectionEnded i n m) = Some (InCase d)"
| "report_next (InCase (Suc d)) (AssertionEnded a ms t) = Some (InCase (Suc d))"
| "report_next _ _ = None"

primrec nested :: "stage \<Rightarrow> report list \<Rightarrow> stage option" where
  "nested st [] = Some st"
| "nested st (e # es) = do { st \<leftarrow> report_next st e; nested st es }"

lemma nested_append: "nested st (xs @ ys) = do { st \<leftarrow> nested st xs; nested st ys }"
  by (induction xs arbitrary: st) (auto split: bind_splits)

fun stage_tags :: "stage \<Rightarrow> string list" where
  "stage_tags Outside = [''Catch'']"
| "stage_tags InGroup = [''Catch'', ''Group'']"
| "stage_tags Fresh = [''Catch'', ''Group'', ''TestCase'']"
| "stage_tags (InCase d) = [''Catch'', ''Group'', ''TestCase''] @ replicate (d - 1) ''Section''"

fun depth_of :: "stage \<Rightarrow> nat" where
  "depth_of (InCase d) = d"
| "depth_of _ = 0"

definition at_stage :: "stage \<Rightarrow> XmlReporter \<Rightarrow> bool" where
  "at_stage st r \<longleftrightarrow> elements (stage_tags st) (m_xml r) \<and> m_sectionDepth r = int (depth_of st)"

lemma stage_tags_not_Nil [simp]: "stage_tags st \<noteq> []"
  by (cases st) auto

lemma success_elements:
  "elements ns w \<Longrightarrow> ns \<noteq> [] \<Longrightarrow> \<exists>w'. scopedElement ''OverallResult'' (writeAttribute_bool ''success'' b) w = Some w' \<and> elements ns w'"
  by (rule scoped_elements, assumption+, simp, rule attributed_elements, rule attribute_attributed, assumption, simp_all)

text \<open>What each report does to the writer.\<close>

lemma end_with_results_elements:
  assumes "elements (ns @ [n]) (m_xml r)"
  shows "\<exists>w. end_with_results k r = Some (r\<lparr>m_xml := w\<rparr>) \<and> elements ns w"
proof -
  obtain w where w: "overall_results k (m_xml r) = Some w" "elements (ns @ [n]) w"
    using overall_elements [OF assms] by auto
  show ?thesis using end_elements [OF w(2)] w(1) by (auto simp: end_with_results_def)
qed

lemma attributes_elements:
  assumes "elements ns w" "ns \<noteq> []" "element_name n" "element_name a" "element_name b" "a \<noteq> b"
  shows "elements (ns @ [n]) (writeAttribute a v (startElement n w))"
    "elements (ns @ [n]) (writeAttribute b v' (writeAttribute a v (startElement n w)))"
proof -
  have a: "attributed (insert a {}) (ns @ [n]) (writeAttribute a v (startElement n w))"
    using attribute_attributed(1) [OF start_attributed [OF assms(1-3)] assms(4)] by simp
  then show "elements (ns @ [n]) (writeAttribute a v (startElement n w))" by (rule attributed_elements)
  show "elements (ns @ [n]) (writeAttribute b v' (writeAttribute a v (startElement n w)))"
    using attributed_elements [OF attribute_attributed(1) [OF a assms(5)]] assms(6) by simp
qed

lemma open_expression_elements:
  assumes "elements ns (m_xml r)" "ns \<noteq> []"
  shows "\<exists>r'. open_expression a r = Some r' \<and> elements (ns @ [''Expression'']) (m_xml r') \<and> m_sectionDepth r' = m_sectionDepth r"
proof -
  let ?w = "writeAttribute_nat ''line'' (si_line (getSourceInfo a)) (writeAttribute ''filename'' (si_file (getSourceInfo a))
    (writeAttribute_bool ''success'' (succeeded a) (startElement ''Expression'' (m_xml r))))"
  have "elements (ns @ [''Expression'']) ?w"
    by (rule attributed_elements, (rule attribute_attributed)+, rule start_attributed [OF assms]) simp_all
  then obtain w1 where w1: "text_element ''Original'' (getExpression a) ?w = Some w1" "elements (ns @ [''Expression'']) w1"
    using text_element_elements [of _ ?w "''Original''"] by auto
  then obtain w2 where "text_element ''Expanded'' (getExpandedExpression a) w1 = Some w2" "elements (ns @ [''Expression'']) w2"
    using text_element_elements [of _ w1 "''Expanded''"] by auto
  with w1 show ?thesis by (simp add: open_expression_def)
qed

lemma result_element_elements:
  assumes "elements ns (m_xml r)" "ns \<noteq> []"
  shows "\<exists>r'. result_element a r = Some r' \<and> elements ns (m_xml r') \<and> m_sectionDepth r' = m_sectionDepth r"
  using exception_elements [OF assms, of a] text_element_elements [OF assms, of "''Info''" "getMessage a"]
    text_element_elements [OF assms, of "''Warning''" "getMessage a"] text_element_elements [OF assms, of "''Failure''" "getMessage a"] assms(1)
  by (auto simp: result_element_def Let_def)

lemma Result_elements:
  assumes "elements ns (m_xml r)" "ns \<noteq> []"
  shows "\<exists>r'. Result a r = Some r' \<and> elements ns (m_xml r') \<and> m_sectionDepth r' = m_sectionDepth r"
proof (cases "hasExpression a")
  case True
  obtain r1 where r1: "open_expression a r = Some r1" "elements (ns @ [''Expression'']) (m_xml r1)" "m_sectionDepth r1 = m_sectionDepth r"
    using open_expression_elements [OF assms] by blast
  obtain r2 where r2: "result_element a r1 = Some r2" "elements (ns @ [''Expression'']) (m_xml r2)" "m_sectionDepth r2 = m_sectionDepth r1"
    using result_element_elements [OF r1(2)] by blast
  show ?thesis using end_elements [OF r2(2)] r1 r2 assms(1) True by (auto simp: Result_def)
next
  case False
  then show ?thesis using result_element_elements [OF assms, of a] assms(1) by (auto simp: Result_def)
qed

lemma build_info: "\<exists>a. build (setResultType ResultInfo ((ResultBuilder_new m l [] d)\<lparr>rb_stream := s\<rparr>)) = Some a"
  by (simp add: build_def setResultType_def ResultBuilder_new_def reconstructExpression_def result_defs)

lemma info_results_elements:
  assumes "elements ns (m_xml r)" "ns \<noteq> []"
  shows "\<exists>r'. info_results ms r = Some r' \<and> elements ns (m_xml r') \<and> m_sectionDepth r' = m_sectionDepth r"
  using assms(1)
proof (induction ms arbitrary: r)
  case (Cons m ms)
  obtain a where a: "build (setResultType ResultInfo
      ((ResultBuilder_new (mi_macroName m) (mi_lineInfo m) [] NormalResult)\<lparr>rb_stream := mi_message m\<rparr>)) = Some a"
    using build_info by blast
  obtain r1 where "Result a r = Some r1" "elements ns (m_xml r1)" "m_sectionDepth r1 = m_sectionDepth r"
    using Result_elements [OF Cons.prems assms(2)] by blast
  then show ?case using Cons.IH [of r1] Cons.IH [OF Cons.prems] a by auto
qed (simp add: assms)

lemma assertion_elements:
  assumes "elements ns (m_xml r)" "ns \<noteq> []"
  shows "\<exists>r'. adapter_assertionEnded a ms r = Some r' \<and> elements ns (m_xml r') \<and> m_sectionDepth r' = m_sectionDepth r"
proof -
  obtain r1 where r1: "(if getResultType a \<noteq> ResultOk then info_results ms r else Some r) = Some r1" "elements ns (m_xml r1)"
      "m_sectionDepth r1 = m_sectionDepth r"
    using info_results_elements [OF assms, of ms] assms(1) by (cases "getResultType a = ResultOk") auto
  show ?thesis using Result_elements [OF r1(2) assms(2), of a] r1 by (simp add: adapter_assertionEnded_def)
qed

lemma report_at_stage:
  assumes "at_stage st r" "report_next st e = Some st'"
  shows "\<exists>r'. xml_report e r = Some r' \<and> at_stage st' r'"
  using assms
proof (induction st e rule: report_next.induct)
  case (1 n)
  then show ?case using attributes_elements(1) [of "[''Catch'']" "m_xml r" "''Group''" "''name''" "''line''" n]
    by (auto simp: at_stage_def StartGroup_def)
next
  case (2 n t a)
  then show ?case using end_with_results_elements [of "[''Catch'']" "''Group''" r "n_assertions t"]
    by (auto simp: at_stage_def EndGroup_def)
next
  case (3 i)
  then show ?case
    using attributes_elements(1) [of "[''Catch'', ''Group'']" "m_xml r" "''TestCase''" "''name''" "''line''" "trim (name i)"]
    by (auto simp: at_stage_def StartTestCase_def)
next
  case (4 i)
  then show ?case by (auto simp: at_stage_def StartSection_def Let_def)
next
  case (5 i t a)
  have "elements [''Catch'', ''Group'', ''TestCase''] (m_xml r)" using 5(1) by (simp add: at_stage_def)
  from success_elements [OF this] obtain w where w: "scopedElement ''OverallResult'' (writeAttribute_bool ''success'' (m_currentTestSuccess r)) (m_xml r) = Some w"
      "elements ([''Catch'', ''Group''] @ [''TestCase'']) w"
    by auto
  then show ?case using end_elements [OF w(2)] 5 by (auto simp: at_stage_def EndTestCase_def)
next
  case (6 d i)
  have "stage_tags (InCase (Suc d)) = (if d = 0 then stage_tags (InCase d) else stage_tags (InCase d) @ [''Section''])"
    by (cases d) (simp_all add: replicate_append_same)
  then show ?case
    using 6 attributes_elements(2) [of "stage_tags (InCase d)" "m_xml r" "''Section''" "''name''" "''description''" "sec_description i" "trim (sec_name i)"]
    by (auto simp: at_stage_def StartSection_def Let_def)
next
  case (7 d i n m)
  have "stage_tags (InCase (Suc d)) = (if d = 0 then stage_tags (InCase d) else stage_tags (InCase d) @ [''Section''])"
    by (cases d) (simp_all add: replicate_append_same)
  then show ?case
    using 7 end_with_results_elements [of "stage_tags (InCase d)" "''Section''" "r\<lparr>m_sectionDepth := int d\<rparr>" n]
    by (cases d) (auto simp: at_stage_def EndSection_def Let_def)
next
  case (8 d a ms t)
  then show ?case using assertion_elements [of "stage_tags (InCase (Suc d))" r a] by (auto simp: at_stage_def)
qed simp_all

lemma reports_at_stage:
  assumes "at_stage st r" "nested st es = Some st'"
  shows "\<exists>r'. xml_reports es r = Some r' \<and> at_stage st' r'"
  using assms
proof (induction es arbitrary: st r)
  case (Cons e es)
  then obtain st1 where "report_next st e = Some st1" "nested st1 es = Some st'" by (auto split: bind_splits)
  with Cons.IH report_at_stage [OF Cons.prems(1)] show ?case by fastforce
qed simp

lemma StartTesting_at_stage: "at_stage Outside (StartTesting (XmlReporter_new cfg junk))"
proof -
  have "consistent (Some []) (startElement ''Catch'' XmlWriter_new) \<and> m_tags (startElement ''Catch'' XmlWriter_new) = [''Catch'']"
    using startElement_consistent [OF consistent_new, of "''Catch''"] by (simp add: XmlWriter_new_def)
  then have a: "attributed {} [''Catch''] (startElement ''Catch'' XmlWriter_new)" by (simp add: attributed_def)
  have "setStream XmlWriter_new = XmlWriter_new" by (simp add: setStream_def XmlWriter_new_def)
  then show ?thesis
    using attributed_elements [OF a] attributed_elements [OF attribute_attributed(1) [OF a, of "''name''"]]
    by (simp add: at_stage_def StartTesting_def XmlReporter_new_def Let_def)
qed

lemma document_markup:
  assumes "nested Outside (m_reports c) = Some Outside"
  shows "\<exists>s. xml_document cfg junk c = Some s \<and> markup_ok s"
proof -
  obtain r where r: "xml_reports (m_reports c) (StartTesting (XmlReporter_new cfg junk)) = Some r" "at_stage Outside r"
    using reports_at_stage [OF StartTesting_at_stage assms] by blast
  then have "elements ([] @ [''Catch'']) (m_xml r)" by (simp add: at_stage_def)
  from end_with_results_elements [OF this] obtain w
    where w: "EndTesting (m_totals c) r = Some (r\<lparr>m_xml := w\<rparr>)" "elements [] w"
    unfolding EndTesting_def by blast
  then show ?thesis using r(1) XmlWriter_delete_markup [of _ w] by (auto simp: xml_document_def elements_def)
qed

section \<open>Every run reports properly nested\<close>

text \<open>
  A part of a run that leads from \<open>b\<close> sections in progress, below that of the test case, to \<open>b'\<close>: to the
  reporter there are also those that an exception has left unfinished.
\<close>

definition goes :: "nat \<Rightarrow> RunContext \<Rightarrow> nat \<Rightarrow> RunContext \<Rightarrow> bool" where
  "goes b c b' c' \<longleftrightarrow>
     (\<exists>es. m_reports c' = m_reports c @ es \<and>
       nested (InCase (Suc (b + length (m_unfinishedSections c)))) es = Some (InCase (Suc (b' + length (m_unfinishedSections c')))))"

lemma goes_refl: "m_reports c' = m_reports c \<Longrightarrow> m_unfinishedSections c' = m_unfinishedSections c \<Longrightarrow> goes b c b c'"
  by (simp add: goes_def)

lemma goes_trans: "goes b c b1 c1 \<Longrightarrow> goes b1 c1 b2 c2 \<Longrightarrow> goes b c b2 c2"
  by (fastforce simp: goes_def nested_append)

lemma goes_tell:
  assumes "report_next (InCase (Suc (b + length (m_unfinishedSections c)))) e = Some (InCase (Suc (b' + length (m_unfinishedSections c'))))"
    "m_reports c' = m_reports c @ [e]"
  shows "goes b c b' c'"
  using assms by (simp add: goes_def)

lemma next_section [simp]: "report_next (InCase d) (SectionStarting i) = Some (InCase (Suc d))"
  by (cases d) simp_all

lemma goes_assertionEnded: "goes b c b (assertionEnded a c)"
  by (rule goes_tell [of _ _ "AssertionEnded a (m_messages c) (m_totals (assertionEnded a c))"])
    (simp_all add: assertionEnded_def tell_def add_passed_def add_failed_def Let_def)

lemma goes_captureExpression: "captureExpression r c = Some (r', c') \<Longrightarrow> goes b c b c'"
  using goes_assertionEnded by (auto simp: captureExpression_def Let_def split: option.splits if_splits)

lemma goes_captureResult: "captureResult t r c = Some (r', c') \<Longrightarrow> goes b c b c'"
  unfolding captureResult_def by (rule goes_captureExpression)

lemma goes_react: "react r = Some (x, c') \<Longrightarrow> (\<And>b' c''. r = Some (b', c'') \<Longrightarrow> goes b c b c'') \<Longrightarrow> goes b c b c'"
  by (auto simp: react_def split: option.splits)

lemma goes_caught: "caught f e r c = Some (x, c') \<Longrightarrow> goes b c b c'"
  by (auto simp: caught_def Let_def goes_refl split: exn.splits elim!: goes_react goes_captureResult)

lemma goes_assertion:
  assumes "run_assertion a expr f macro l c = Some (x, c')"
  shows "goes b c b c'"
  using assms
  by (cases a)
    (auto simp: catch_test_def catch_no_throw_def catch_throws_def catch_throws_as_def catch_msg_def catch_check_that_def
      endExpression_def Let_def split: expression.splits option.splits sum.splits if_splits
      elim!: goes_react goes_captureResult goes_captureExpression goes_caught)

lemma goes_sectionStarted:
  "sectionStarted i c = Some (None, c') \<Longrightarrow> goes b c b c'"
  "sectionStarted i c = Some (Some n, c') \<Longrightarrow> goes b c (Suc b) c'"
proof -
  show "sectionStarted i c = Some (None, c') \<Longrightarrow> goes b c b c'"
    by (auto simp: sectionStarted_def Let_def split: option.splits prod.splits bool.splits intro!: goes_refl)
  show "sectionStarted i c = Some (Some n, c') \<Longrightarrow> goes b c (Suc b) c'"
    by (auto simp: sectionStarted_def Let_def tell_def split: option.splits prod.splits bool.splits intro!: goes_tell)
qed

lemma missing_reports:
  assumes "testForMissingAssertions n c = Some (m, n', c')"
  shows "m_reports c' = m_reports c" "m_unfinishedSections c' = m_unfinishedSections c"
  using assms by (auto simp: testForMissingAssertions_def add_failed_def split: option.splits if_splits)

lemma sectionEnded_reports:
  assumes "sectionEnded False i prev c = Some c'"
  shows "\<exists>n m. m_reports c' = m_reports c @ [SectionEnded i n m]" "m_unfinishedSections c' = m_unfinishedSections c"
proof -
  obtain m n c1 c2 where "testForMissingAssertions (counts_minus (n_assertions (m_totals c)) prev) c = Some (m, n, c1)"
      "track_leave c1 = Some c2" "c' = (tell (SectionEnded i n m) c2)\<lparr>m_messages := []\<rparr>"
    using assms by (auto simp: sectionEnded_def split: option.splits)
  then show "\<exists>n m. m_reports c' = m_reports c @ [SectionEnded i n m]" "m_unfinishedSections c' = m_unfinishedSections c"
    using missing_reports by (auto simp: track_leave_def tell_def split: option.splits)
qed

lemma goes_sectionEnded:
  assumes "sectionEnded unwinding i prev c = Some c'"
  shows "goes (Suc b) c b c'"
proof (cases unwinding)
  case True
  then show ?thesis using assms by (auto simp: sectionEnded_def goes_def)
next
  case False
  then show ?thesis using sectionEnded_reports [of i prev c c'] assms by (auto simp: goes_def)
qed

lemma goes_run_stmts: "run_stmts ss c = Some (x, c') \<Longrightarrow> goes b c b c'"
proof (induction ss c arbitrary: x c' b rule: run_stmts.induct)
  case (2 a expr f macro l ss c)
  obtain r c1 where r: "run_assertion a expr f macro l c = Some (r, c1)" "if r = None then run_stmts ss c1 = Some (x, c') else c' = c1"
    using "2.prems" by (auto split: option.splits)
  have "r = None \<Longrightarrow> goes b c1 b c'" using "2.IH" [OF r(1)] r(2) by simp
  then show ?case using goes_assertion [OF r(1), of b] r(2) by (auto split: if_splits intro: goes_trans)
next
  case (3 s macro l ss c)
  obtain m c1 where m: "catch_info s macro l c = (m, c1)" by (cases "catch_info s macro l c")
  then obtain c2 where c2: "run_stmts ss c1 = Some (x, c2)" "c' = popScopedMessage m c2"
    using "3.prems" by (auto split: option.splits)
  have "goes b c b c1" using m by (auto simp: catch_info_def pushScopedMessage_def Let_def intro!: goes_refl)
  moreover have "goes b c2 b c'" using c2(2) by (simp add: popScopedMessage_def goes_refl)
  ultimately show ?case using goes_trans "3.IH" [OF m [symmetric] refl c2(1)] by blast
next
  case (4 i body ss c)
  obtain n c1 where s: "sectionStarted i c = Some (n, c1)" using "4.prems" by (auto split: option.splits)
  show ?case
  proof (cases n)
    case None
    then show ?thesis
      using s "4.prems" "4.IH"(1) [OF s refl] goes_sectionStarted(1) [of i c c1 b] by (auto intro: goes_trans)
  next
    case (Some prev)
    then obtain r c2 c3 where r: "run_stmts body c1 = Some (r, c2)" "sectionEnded (r \<noteq> None) i prev c2 = Some c3"
        "if r = None then run_stmts ss c3 = Some (x, c') else c' = c3"
      using s "4.prems" by (auto split: option.splits if_splits)
    have "goes b c (Suc b) c1" using goes_sectionStarted(2) s Some by blast
    moreover have "goes (Suc b) c1 (Suc b) c2" using "4.IH"(2) s Some r(1) by blast
    moreover have "goes (Suc b) c2 b c3" using goes_sectionEnded [OF r(2)] by blast
    ultimately have "goes b c b c3" by (blast intro: goes_trans)
    moreover have "r = None \<Longrightarrow> goes b c3 b c'" using "4.IH"(3) s Some r by auto
    ultimately show ?thesis using r(3) by (auto split: if_splits intro: goes_trans)
  qed
qed (simp_all add: goes_refl)

text \<open>The run of a test function, of a test case, and of all of them.\<close>

definition test_body :: "test_function TestCase \<Rightarrow> bool" where
  "test_body t \<longleftrightarrow> (\<exists>ss. test t = run_stmts ss)"

definition stays :: "stage \<Rightarrow> RunContext \<Rightarrow> RunContext \<Rightarrow> bool" where
  "stays st c c' \<longleftrightarrow>
     m_unfinishedSections c' = [] \<and> (\<exists>es. m_reports c' = m_reports c @ es \<and> nested st es = Some st \<and>
       (st = InCase 0 \<longrightarrow> nested Fresh es = Some (InCase 0)))"

lemma stays_trans: "stays st c c1 \<Longrightarrow> stays st c1 c2 \<Longrightarrow> stays st c c2"
  by (fastforce simp: stays_def nested_append)

lemma end_unfinished_reports:
  assumes "end_unfinished us c = Some c'"
  shows "\<exists>es. m_reports c' = m_reports c @ es \<and> nested (InCase (d + length us)) es = Some (InCase d)"
  using assms
proof (induction us arbitrary: c)
  case (Cons u us)
  then obtain c1 where c1: "sectionEnded False (us_info u) (us_prevAssertions u) c = Some c1" "end_unfinished us c1 = Some c'"
    by (auto split: option.splits)
  then obtain es where "m_reports c' = m_reports c1 @ es" "nested (InCase (d + length us)) es = Some (InCase d)" using Cons.IH by blast
  then show ?case using sectionEnded_reports(1) [OF c1(1)] by auto
qed simp

lemma goes_invoke:
  assumes "test_body t" "invoke_guarded t c = Some c'"
  shows "goes b c b c'"
proof -
  obtain ss where ss: "test t = run_stmts ss" using assms(1) by (auto simp: test_body_def)
  then obtain tr r c1 where r: "run_stmts ss (c\<lparr>m_testCaseTracker := tr\<rparr>) = Some (r, c1)"
      "c' = c1\<lparr>m_testCaseTracker := map_option leaveTestCase (m_testCaseTracker c1)\<rparr> \<or>
       (\<exists>s rb x. caught NormalResult (OtherException s) rb (c1\<lparr>m_testCaseTracker := map_option leaveTestCase (m_testCaseTracker c1)\<rparr>) = Some (x, c'))"
    using assms(2) by (auto simp: invoke_guarded_def Let_def split: option.splits exn.splits) blast
  have "goes b c b (c\<lparr>m_testCaseTracker := tr\<rparr>)"
    "goes b c1 b (c1\<lparr>m_testCaseTracker := map_option leaveTestCase (m_testCaseTracker c1)\<rparr>)"
    by (simp_all add: goes_refl)
  then show ?thesis using goes_run_stmts [OF r(1)] r(2) goes_caught goes_trans by metis
qed

lemma stays_runCurrentTest:
  assumes "test_body t" "runCurrentTest t c = Some c'" "m_unfinishedSections c = []"
  shows "stays (InCase 0) c c'"
proof -
  let ?c = "(tell (SectionStarting (case_section t)) c)\<lparr>m_lastAssertionInfo := AssertionInfo_new ''TEST_CASE'' (lineInfo t) [] NormalResult\<rparr>"
  obtain c1 c2 m n c3 n' c4 where c: "invoke_guarded t ?c = Some c1" "end_unfinished (rev (m_unfinishedSections c1)) c1 = Some c2"
      "testForMissingAssertions (counts_minus (n_assertions (m_totals c2)) (n_assertions (m_totals c)))
         (c2\<lparr>m_unfinishedSections := [], m_messages := []\<rparr>) = Some (m, n, c3)"
      "settle t n c3 = (n', c4)" "c' = tell (SectionEnded (case_section t) n' m) c4"
    using assms(2) by (auto simp: runCurrentTest_def Let_def tell_def split: option.splits prod.splits)
  obtain es where es: "m_reports c1 = m_reports c @ [SectionStarting (case_section t)] @ es"
      "nested (InCase 1) es = Some (InCase (1 + length (m_unfinishedSections c1)))"
    using goes_invoke [OF assms(1) c(1), of 0] assms(3) by (auto simp: goes_def tell_def)
  obtain es2 where es2: "m_reports c2 = m_reports c1 @ es2"
      "nested (InCase (1 + length (m_unfinishedSections c1))) es2 = Some (InCase 1)"
    using end_unfinished_reports [OF c(2), of 1] by auto
  have "m_reports c4 = m_reports c2" "m_unfinishedSections c4 = []"
    using missing_reports [OF c(3)] c(4) by (auto simp: settle_def Let_def split: if_splits)
  then have "m_reports c' = m_reports c @ [SectionStarting (case_section t)] @ es @ es2 @ [SectionEnded (case_section t) n' m]"
    "m_unfinishedSections c' = []"
    using c(5) es(1) es2(1) by (simp_all add: tell_def)
  then show ?thesis
    using es(2) es2(2) by (auto simp: stays_def nested_append)
qed

lemma stays_run_sections:
  assumes "test_body t" "run_sections t c = Some c'" "m_unfinishedSections c = []"
  shows "stays (InCase 0) c c'"
proof -
  have "test_body t \<longrightarrow> m_unfinishedSections c = [] \<longrightarrow> stays (InCase 0) c c'"
  proof (rule run_sections.raw_induct [OF _ assms(2), where P = "\<lambda>t c c'. test_body t \<longrightarrow> m_unfinishedSections c = [] \<longrightarrow> stays (InCase 0) c c'"])
    fix run_sections and t and c c' :: RunContext
    assume IH: "\<And>t c c'. run_sections t c = Some c' \<Longrightarrow> test_body t \<longrightarrow> m_unfinishedSections c = [] \<longrightarrow> stays (InCase 0) c c'"
      and step: "(case runCurrentTest t c of
        None \<Rightarrow> None
      | Some c \<Rightarrow>
          (case m_testCaseTracker c of
             None \<Rightarrow> None
           | Some tracker \<Rightarrow> if \<not> isCompleted tracker \<and> \<not> aborting c then run_sections t c else Some c)) = Some c'"
    show "test_body t \<longrightarrow> m_unfinishedSections c = [] \<longrightarrow> stays (InCase 0) c c'"
    proof (intro impI)
      assume t: "test_body t" "m_unfinishedSections c = []"
      obtain c1 where c1: "runCurrentTest t c = Some c1" "c' = c1 \<or> run_sections t c1 = Some c'"
        using step by (auto split: option.splits if_splits)
      have s: "stays (InCase 0) c c1" by (rule stays_runCurrentTest [OF t(1) c1(1) t(2)])
      then have "m_unfinishedSections c1 = []" by (simp add: stays_def)
      with s show "stays (InCase 0) c c'" using c1(2) IH t(1) stays_trans by blast
    qed
  qed
  then show ?thesis using assms(1,3) by simp
qed

lemma advance_reports:
  assumes "advanceGeneratorsForCurrentTest c = (r, c')"
  shows "m_reports c' = m_reports c" "m_unfinishedSections c' = m_unfinishedSections c"
  using assms by (auto simp: advanceGeneratorsForCurrentTest_def Let_def split: option.splits prod.splits)

lemma stays_run_generators:
  assumes "test_body t" "run_generators t c = Some c'" "m_unfinishedSections c = []"
  shows "stays (InCase 0) c c'"
proof -
  have "test_body t \<longrightarrow> m_unfinishedSections c = [] \<longrightarrow> stays (InCase 0) c c'"
  proof (rule run_generators.raw_induct [OF _ assms(2), where P = "\<lambda>t c c'. test_body t \<longrightarrow> m_unfinishedSections c = [] \<longrightarrow> stays (InCase 0) c c'"])
    fix run_generators and t and c c' :: RunContext
    assume IH: "\<And>t c c'. run_generators t c = Some c' \<Longrightarrow> test_body t \<longrightarrow> m_unfinishedSections c = [] \<longrightarrow> stays (InCase 0) c c'"
      and step: "(case run_sections t c of
        None \<Rightarrow> None
      | Some c \<Rightarrow>
          (case advanceGeneratorsForCurrentTest c of
             (again, c) \<Rightarrow> if again \<and> \<not> aborting c then run_generators t c else Some c)) = Some c'"
    show "test_body t \<longrightarrow> m_unfinishedSections c = [] \<longrightarrow> stays (InCase 0) c c'"
    proof (intro impI)
      assume t: "test_body t" "m_unfinishedSections c = []"
      obtain c1 again c2 where c1: "run_sections t c = Some c1" "advanceGeneratorsForCurrentTest c1 = (again, c2)"
          "c' = c2 \<or> run_generators t c2 = Some c'"
        using step by (auto split: option.splits prod.splits if_splits)
      have s: "stays (InCase 0) c c2"
        using stays_run_sections [OF t(1) c1(1) t(2)] advance_reports [OF c1(2)] by (simp add: stays_def)
      then have "m_unfinishedSections c2 = []" by (simp add: stays_def)
      with s show "stays (InCase 0) c c'" using c1(3) IH t(1) stays_trans by blast
    qed
  qed
  then show ?thesis using assms(1,3) by simp
qed

lemma stays_runTest:
  assumes "test_body t" "runTest t c = Some (totals, c')" "m_unfinishedSections c = []"
  shows "stays InGroup c c'"
proof -
  let ?info = "TestCaseInfo.truncate t"
  let ?c = "(tell (TestCaseStarting ?info) c)\<lparr>m_activeTestCase := Some ?info, m_testCaseTracker := Some (TestCaseTracker_new (name t))\<rparr>"
  obtain c1 ab where c1: "run_generators t ?c = Some c1" "m_reports c' = m_reports c1 @ [TestCaseEnded ?info totals ab]"
      "m_unfinishedSections c' = m_unfinishedSections c1"
    using assms(2) by (auto simp: runTest_def Let_def tell_def split: option.splits)
  have "stays (InCase 0) ?c c1" using stays_run_generators [OF assms(1) c1(1)] assms(3) by (simp add: tell_def)
  then show ?thesis using c1(2,3) by (auto simp: stays_def tell_def nested_append)
qed

lemma stays_run_cases:
  assumes "\<forall>t\<in>set ts. test_body t" "run_cases ts totals already c = Some (totals', already', c')" "m_unfinishedSections c = []"
  shows "stays InGroup c c'"
  using assms
proof (induction ts totals already c rule: run_cases.induct)
  case (2 t ts totals already c)
  consider (known) "map_find (name t) already \<noteq> None" | (stop) "map_find (name t) already = None" "aborting c"
    | (run) "map_find (name t) already = None" "\<not> aborting c" by blast
  then show ?case
  proof cases
    case run
    then obtain d c1 where c1: "runTest t c = Some (d, c1)" "run_cases ts (totals_plus totals d) (map_assign (name t) t already) c1 = Some (totals', already', c')"
      using "2.prems"(2) by (auto split: option.splits)
    have s: "stays InGroup c c1" using stays_runTest [OF _ c1(1)] "2.prems"(1,3) by simp
    then have "stays InGroup c1 c'"
      using "2.IH"(1) [OF run c1(1) refl _ c1(2)] "2.prems"(1) by (simp add: stays_def)
    with s show ?thesis by (rule stays_trans)
  qed (use 2 in \<open>auto simp: stays_def\<close>)
qed (simp add: stays_def)

lemma run_nested:
  assumes "\<forall>tc\<in>set (getAllTests tests). test_body tc"
    "runTests reg cfg reporter flags tests [] = Some (totals, already, c)"
  shows "nested Outside (m_reports c) = Some Outside"
proof -
  let ?spec = "if \<not> hasFilters (cfg_testSpec cfg) then parseTestSpec reg ''~[.]'' else cfg_testSpec cfg"
  let ?tcs = "getFilteredTests ?spec (allowThrows cfg) tests []"
  let ?c = "tell (TestGroupStarting []) (RunContext_new cfg reporter flags)"
  obtain c1 ab where c1: "run_cases ?tcs Totals_new [] ?c = Some (totals, already, c1)" "c = tell (TestGroupEnded [] totals ab) c1"
    using assms(2) by (auto simp: runTests_def Let_def split: option.splits)
  have "\<forall>tc\<in>set ?tcs. test_body tc"
    using assms(1) by (auto simp: getFilteredTests_def getAllTests_def filter_tests_eq)
  moreover have "m_unfinishedSections ?c = []" "m_reports ?c = [TestGroupStarting []]"
    by (simp_all add: tell_def RunContext_new_def Let_def)
  ultimately show ?thesis
    using stays_run_cases [OF _ c1(1)] c1(2) by (auto simp: stays_def tell_def nested_append)
qed

lemma example_run:
  "\<exists>r totals already c. AutoReg (run_stmts example_test) SourceLineInfo_new ''a test'' ''[!shouldfail]'' TestRegistry_new = Inr r \<and>
     (\<forall>tc\<in>set (getAllTests r). test_body tc) \<and>
     runTests [] (Config_new [] ConfigData_new) (\<lambda>_. True) 0 r [] = Some (totals, already, c)"
proof -
  obtain r tc where r: "AutoReg (run_stmts example_test) SourceLineInfo_new ''a test'' ''[!shouldfail]'' TestRegistry_new = Inr r"
      "getAllTests r = [tc]" "test tc = run_stmts example_test"
    using example_registered by blast
  then obtain totals already c where "runTests [] (Config_new [] ConfigData_new) (\<lambda>_. True) 0 r [] = Some (totals, already, c)"
    using passing_tests_run [of r True "Config_new [] ConfigData_new" "[]" "\<lambda>_. True" 0] default_config r(2) exI [where P = "case_passes True tc", OF example_passes [OF r(3)]] by auto
  then show ?thesis using r by (auto simp: test_body_def)
qed

section \<open>Properties\<close>

text \<open>
  C32. A run and the markup of its XML report. Whatever the tests do, be it assertions that fail,
  exceptions out of nested sections, messages, generators: when the runner returns, what it has reported is
  properly nested, and the XML reporter writes a document whose markup is right: there is one root,
  every element is ended, by its own name and in the right order, the attributes of an element are
  quoted and have different names, all entities are known, and no text or name can be taken for markup. The document
  need not be well-formed XML: characters that XML forbids, and the end mark of a CDATA section, go into it as they are.
\<close>

theorem xml_report_markup:
  assumes "\<forall>tc\<in>set (getAllTests tests). test_body tc"
    "runTests reg cfg (\<lambda>_. True) flags tests [] = Some (totals, already, c)"
  shows "nested Outside (m_reports c) = Some Outside \<and> (\<exists>s. xml_document cfg junk c = Some s \<and> markup_ok s)"
  using run_nested [OF assms] document_markup by blast

theorem xml_report_markup_witness:
  "\<exists>r totals already c s. AutoReg (run_stmts example_test) SourceLineInfo_new ''a test'' ''[!shouldfail]'' TestRegistry_new = Inr r \<and>
     runTests [] (Config_new [] ConfigData_new) (\<lambda>_. True) 0 r [] = Some (totals, already, c) \<and>
     xml_document (Config_new [] ConfigData_new) False c = Some s \<and> markup_ok s"
proof -
  obtain r totals already c where c: "AutoReg (run_stmts example_test) SourceLineInfo_new ''a test'' ''[!shouldfail]'' TestRegistry_new = Inr r"
      "\<forall>tc\<in>set (getAllTests r). test_body tc" "runTests [] (Config_new [] ConfigData_new) (\<lambda>_. True) 0 r [] = Some (totals, already, c)"
    using example_run by blast
  from xml_report_markup [OF c(2,3), of False] show ?thesis using c(1,3) by blast
qed

end
