(* ===== verification/CatchSession.thy ===== *)
theory CatchSession
  imports CatchClara CatchReport
begin

text \<open>
  A session of Catch: the options of its command line, the requests for lists, the runner that is made for
  the configuration, and the exit code. What the session finds in its surroundings is a parameter: files, reporters,
  aliases and the registered tests.
\<close>

section \<open>The options\<close>

definition abortAfterFirst :: "ConfigData \<Rightarrow> ConfigData" where
  "abortAfterFirst c = c\<lparr>abortAfter := 1\<rparr>"

definition abortAfterX :: "ConfigData \<Rightarrow> int \<Rightarrow> string + ConfigData" where
  "abortAfterX c x =
     (if x < 1 then Inl ''Value after -x or --abortAfter must be greater than zero'' else Inr (c\<lparr>abortAfter := x\<rparr>))"

definition addTestOrTags :: "ConfigData \<Rightarrow> string \<Rightarrow> ConfigData" where
  "addTestOrTags c s = c\<lparr>testsOrTags := testsOrTags c @ [s]\<rparr>"

definition addWarning :: "ConfigData \<Rightarrow> string \<Rightarrow> string + ConfigData" where
  "addWarning c w =
     (if w = ''NoAssertions'' then Inr (c\<lparr>warnings := warnings c OR NoAssertions\<rparr>)
      else Inl (''Unrecognised warning: '' @ [CHR 0x27] @ w @ [CHR 0x27]))"

definition setShowDurations :: "ConfigData \<Rightarrow> bool \<Rightarrow> ConfigData" where
  "setShowDurations c b = c\<lparr>showDurations := if b then Always else Never\<rparr>"

text \<open>\<open>files\<close> has the lines of the files that can be opened.\<close>

definition loadTestNamesFromFile :: "(string \<Rightarrow> string list option) \<Rightarrow> ConfigData \<Rightarrow> string \<Rightarrow> string + ConfigData" where
  "loadTestNamesFromFile files c fn =
     (case files fn of
        None \<Rightarrow> Inl (''Unable to load input file: '' @ fn)
      | Some ls \<Rightarrow>
          Inr (foldl (\<lambda>c l. let l = trim l in
            if l \<noteq> [] \<and> \<not> startsWith l ''#'' then addTestOrTags c ([CHR 0x22] @ l @ [CHR 0x22] @ '','') else c) c ls))"

definition bind_bool :: "((bool \<Rightarrow> bool) \<Rightarrow> ConfigData \<Rightarrow> ConfigData) \<Rightarrow> ConfigData IArgFunction" where
  "bind_bool member = BoundDataMember convert_bool (Inr True) (\<lambda>v. member (\<lambda>_. v))"

definition bind_string :: "((string \<Rightarrow> string) \<Rightarrow> ConfigData \<Rightarrow> ConfigData) \<Rightarrow> ConfigData IArgFunction" where
  "bind_string member = BoundDataMember convert_string invalid_conversion (\<lambda>v. member (\<lambda>_. v))"

definition catch_options :: "(string \<Rightarrow> string list option) \<Rightarrow> (string list \<times> string \<times> ConfigData IArgFunction \<times> string) list" where
  "catch_options files =
     [([''-?'', ''-h'', ''--help''], ''display usage information'', bind_bool showHelp_update, []),
      ([''-l'', ''--list-tests''], ''list all/matching test cases'', bind_bool listTests_update, []),
      ([''-t'', ''--list-tags''], ''list all/matching tags'', bind_bool listTags_update, []),
      ([''-s'', ''--success''], ''include successful tests in output'', bind_bool showSuccessfulTests_update, []),
      ([''-b'', ''--break''], ''break into debugger on failure'', bind_bool shouldDebugBreak_update, []),
      ([''-e'', ''--nothrow''], ''skip exception tests'', bind_bool noThrow_update, []),
      ([''-i'', ''--invisibles''], ''show invisibles (tabs, newlines)'', bind_bool showInvisibles_update, []),
      ([''-o'', ''--out''], ''output filename'', bind_string outputFilename_update, ''filename''),
      ([''-r'', ''--reporter''], ''reporter to use (defaults to console)'', bind_string reporterName_update, ''name''),
      ([''-n'', ''--name''], ''suite name'', bind_string configName_update, ''name''),
      ([''-a'', ''--abort''], ''abort at first failure'', BoundUnaryFunction abortAfterFirst, []),
      ([''-x'', ''--abortx''], ''abort after x failures'', BoundBinaryFunction convert_int invalid_conversion abortAfterX, ''no. failures''),
      ([''-w'', ''--warn''], ''enable warnings'', BoundBinaryFunction convert_string invalid_conversion addWarning, ''warning name''),
      ([''-d'', ''--durations''], ''show test durations'',
        BoundBinaryFunction convert_bool (Inr True) (\<lambda>c b. Inr (setShowDurations c b)), ''yes/no''),
      ([''-f'', ''--input-file''], ''load test names to run from a file'',
        BoundBinaryFunction convert_string invalid_conversion (loadTestNamesFromFile files), ''filename''),
      ([''--list-test-names-only''], ''list all/matching test cases names only'', bind_bool listTestNamesOnly_update, []),
      ([''--list-reporters''], ''list all reporters'', bind_bool listReporters_update, [])]"

fun add_options :: "(string list \<times> string \<times> 'c IArgFunction \<times> string) list \<Rightarrow> 'c CommandLine \<Rightarrow> string + 'c CommandLine" where
  "add_options [] cli = Inr cli"
| "add_options ((ns, descr, field, p) # os) cli =
     (case add_option ns descr field p cli of Inl e \<Rightarrow> Inl e | Inr cli \<Rightarrow> add_options os cli)"

definition makeCommandLineParser :: "(string \<Rightarrow> string list option) \<Rightarrow> string + ConfigData CommandLine" where
  "makeCommandLineParser files =
     (case add_options (catch_options files) (CommandLine_new\<lparr>m_boundProcessName := bind_string processName_update\<rparr>) of
        Inl e \<Rightarrow> Inl e
      | Inr cli \<Rightarrow>
          add_floating ''which test or tests to use''
            (BoundBinaryFunction convert_string invalid_conversion (\<lambda>c s. Inr (addTestOrTags c s))) ''test name, pattern or tags'' cli)"

section \<open>Lists\<close>

type_synonym 'a with_output = "text_fault + 'a \<times> string"

definition newline :: string where
  "newline = [CHR 0x0A]"

text \<open>A text, wrapped and printed.\<close>

definition wrapped :: "string \<Rightarrow> TextAttributes \<Rightarrow> text_fault + string" where
  "wrapped s attr = map_sum id print_lines (Text_new s attr)"

text \<open>The tests that a list is about.\<close>

definition listed_tests :: "TagAliasRegistry \<Rightarrow> Config \<Rightarrow> 'f TestRegistry \<Rightarrow> 'f TestCase list" where
  "listed_tests reg cfg tests =
     getFilteredTests (if hasFilters (cfg_testSpec cfg) then cfg_testSpec cfg else parseTestSpec reg ''*'') (allowThrows cfg) tests []"

definition list_test :: "'x TestCaseInfo_scheme \<Rightarrow> text_fault + string" where
  "list_test i =
     concat_sum
       [wrapped (name i) (TextAttributes_new\<lparr>initialIndent := Some 2, indent := 4\<rparr>), Inr newline,
        (if tags i = [] then Inr [] else wrapped (tagsAsString i) (TextAttributes_new\<lparr>indent := 6\<rparr>)),
        (if tags i = [] then Inr [] else Inr newline)]"

definition list_tests :: "TagAliasRegistry \<Rightarrow> Config \<Rightarrow> 'f TestRegistry \<Rightarrow> nat with_output" where
  "list_tests reg cfg tests =
     (let matched = listed_tests reg cfg tests; some = hasFilters (cfg_testSpec cfg) in
      map_sum id (Pair (length matched))
        (concat_sum
          (Inr ((if some then ''Matching test cases:'' else ''All available test cases:'') @ newline) # map list_test matched @
           [Inr (print_plural \<lparr>p_count = length matched, p_label = if some then ''matching test case'' else ''test case''\<rparr> @
             newline @ newline)])))"

definition list_test_names_only :: "TagAliasRegistry \<Rightarrow> Config \<Rightarrow> 'f TestRegistry \<Rightarrow> nat with_output" where
  "list_test_names_only reg cfg tests =
     (let matched = listed_tests reg cfg tests in Inr (length matched, concat (map (\<lambda>t. name t @ newline) matched)))"

record TagInfo =
  spellings :: "string list"
  ti_count :: nat

definition TagInfo_add :: "string \<Rightarrow> TagInfo \<Rightarrow> TagInfo" where
  "TagInfo_add s i = \<lparr>spellings = set_insert s (spellings i), ti_count = ti_count i + 1\<rparr>"

definition TagInfo_all :: "TagInfo \<Rightarrow> string" where
  "TagInfo_all i = concat (map (\<lambda>s. ''['' @ s @ '']'') (spellings i))"

definition count_tag :: "(string \<times> TagInfo) list \<Rightarrow> string \<Rightarrow> (string \<times> TagInfo) list" where
  "count_tag m tagName =
     (let k = toLower tagName;
          i = (case map_find k m of Some i \<Rightarrow> i | None \<Rightarrow> \<lparr>spellings = [], ti_count = 0\<rparr>)
      in map_assign k (TagInfo_add tagName i) m)"

definition tag_counts :: "'f TestCase list \<Rightarrow> (string \<times> TagInfo) list" where
  "tag_counts ts = foldl count_tag [] (concat (map tags ts))"

definition list_tag :: "TagInfo \<Rightarrow> text_fault + string" where
  "list_tag i =
     (let n = decimal (ti_count i); oss = ''  '' @ replicate (2 - length n) CHR '' '' @ n @ ''  '' in
      concat_sum [Inr oss, wrapped (TagInfo_all i) (TextAttributes_new\<lparr>initialIndent := Some 0, indent := length oss, width := 70\<rparr>),
        Inr newline])"

definition list_tags :: "TagAliasRegistry \<Rightarrow> Config \<Rightarrow> 'f TestRegistry \<Rightarrow> nat with_output" where
  "list_tags reg cfg tests =
     (let m = tag_counts (listed_tests reg cfg tests) in
      map_sum id (Pair (length m))
        (concat_sum
          (Inr ((if hasFilters (cfg_testSpec cfg) then ''Tags for matching test cases:'' else ''All available tags:'') @ newline) #
           map (list_tag \<circ> snd) m @ [Inr (print_plural \<lparr>p_count = length m, p_label = ''tag''\<rparr> @ newline @ newline)])))"

text \<open>The factories of the reporters: their names, in order, with their descriptions.\<close>

definition list_reporter :: "nat \<Rightarrow> string \<times> string \<Rightarrow> text_fault + string" where
  "list_reporter maxNameLen f =
     concat_sum
       [Inr (''  '' @ fst f @ '':''), blanks (size_minus maxNameLen (length (fst f)) + 2),
        wrapped (snd f)
          (TextAttributes_new\<lparr>initialIndent := Some 0, indent := 7 + maxNameLen, width := size_minus (size_minus 80 maxNameLen) 8\<rparr>),
        Inr newline]"

definition list_reporters :: "(string \<times> string) list \<Rightarrow> nat with_output" where
  "list_reporters factories =
     (let maxNameLen = foldl (\<lambda>m f. max m (length (fst f))) 0 factories in
      map_sum id (Pair (length factories))
        (concat_sum (Inr (''Available reports:'' @ newline) # map (list_reporter maxNameLen) factories @ [Inr newline])))"

text \<open>The lists that are asked for, and how many entries they have together.\<close>

fun list_all_of :: "(bool \<times> nat with_output) list \<Rightarrow> nat option with_output" where
  "list_all_of [] = Inr (None, [])"
| "list_all_of ((False, r) # rs) = list_all_of rs"
| "list_all_of ((True, r) # rs) =
     (case r of
        Inl e \<Rightarrow> Inl e
      | Inr (n, s) \<Rightarrow>
          map_sum id (\<lambda>(m, t). (Some (n + (case m of Some m \<Rightarrow> m | None \<Rightarrow> 0)), s @ t)) (list_all_of rs))"

definition list_requests :: "TagAliasRegistry \<Rightarrow> (string \<times> string) list \<Rightarrow> Config \<Rightarrow> 'f TestRegistry \<Rightarrow> nat option with_output" where
  "list_requests reg factories cfg tests =
     list_all_of
       [(listTests (m_data cfg), list_tests reg cfg tests), (listTestNamesOnly (m_data cfg), list_test_names_only reg cfg tests),
        (listTags (m_data cfg), list_tags reg cfg tests), (listReporters (m_data cfg), list_reporters factories)]"

section \<open>Sessions\<close>

definition int_max :: int where
  "int_max = 2 ^ 31 - 1"

record Session =
  m_cli :: "ConfigData CommandLine"
  m_unusedTokens :: "Token list"
  m_configData :: ConfigData
  s_config :: "Config option"

text \<open>There can be one session; \<open>alreadyInstantiated\<close> is the static that says so.\<close>

definition Session_new :: "(string \<Rightarrow> string list option) \<Rightarrow> bool \<Rightarrow> string + Session" where
  "Session_new files alreadyInstantiated =
     (case makeCommandLineParser files of
        Inl e \<Rightarrow> Inl e
      | Inr cli \<Rightarrow>
          if alreadyInstantiated then Inl ''Only one instance of Catch::Session can ever be used''
          else Inr \<lparr>m_cli = cli, m_unusedTokens = [], m_configData = ConfigData_new, s_config = None\<rparr>)"

text \<open>What the session finds: aliases, reporters, the tests, which files can be written, the texts of standard exceptions.\<close>

record surroundings =
  env_aliases :: TagAliasRegistry
  env_factories :: "(string \<times> string) list"
  env_reporter :: "string \<Rightarrow> Config \<Rightarrow> AssertionResult \<Rightarrow> bool"
  env_writable :: "string \<Rightarrow> bool"
  env_tests :: "test_function TestRegistry"
  env_flags :: Flags
  env_what :: "text_fault \<Rightarrow> string"

definition show_help :: "string \<Rightarrow> Session \<Rightarrow> text_fault + string" where
  "show_help proc s =
     concat_sum
       [Inr (newline @ ''Catch v1.0 build 53'' @ newline), usage (m_cli s) proc,
        Inr (''For more detail usage please see the project docs'' @ newline @ newline)]"

text \<open>
  An exception makes the error message and the usage text; what it has printed before is not kept. If
  printing the message throws as well, nothing catches it.
\<close>

definition input_error :: "string \<Rightarrow> Session \<Rightarrow> (int \<times> Session) with_output" where
  "input_error e s =
     map_sum id (Pair (int_max, s))
       (concat_sum
         [Inr (newline @ ''Error(s) in input:'' @ newline), wrapped e (TextAttributes_new\<lparr>indent := 2\<rparr>),
          Inr (newline @ newline), usage (m_cli s) (processName (m_configData s))])"

definition applyCommandLine :: "surroundings \<Rightarrow> bool \<Rightarrow> string list \<Rightarrow> Session \<Rightarrow> (int \<times> Session) with_output" where
  "applyCommandLine env failOnUnused argv s =
     (let s = s\<lparr>m_cli := setThrowOnUnrecognisedTokens failOnUnused (m_cli s)\<rparr> in
      case parseInto (m_cli s) argv (m_configData s) of
        (Inr ts, d) \<Rightarrow>
          (let s = s\<lparr>m_configData := d, m_unusedTokens := ts\<rparr> in
           case (if showHelp d then show_help (processName d) s else Inr []) of
             Inr out \<Rightarrow> Inr ((0, s\<lparr>s_config := None\<rparr>), out)
           | Inl f \<Rightarrow> if f = PastEnd then Inl f else input_error (env_what env f) s)
      | (Inl e, d) \<Rightarrow> input_error e (s\<lparr>m_configData := d\<rparr>))"

definition reporter_name :: "Config \<Rightarrow> string" where
  "reporter_name cfg = (if reporterName (m_data cfg) = [] then ''console'' else reporterName (m_data cfg))"

text \<open>The constructor of the runner: the output file and the reporter; \<open>Inl\<close> is the exception.\<close>

definition Runner_new :: "surroundings \<Rightarrow> Config \<Rightarrow> string + unit" where
  "Runner_new env cfg =
     (let file = outputFilename (m_data cfg) in
      if file \<noteq> [] \<and> \<not> env_writable env file then Inl (''Unable to open file: '' @ [CHR 0x27] @ file @ [CHR 0x27])
      else if reporter_name cfg \<notin> set (map fst (env_factories env))
      then Inl (''No reporter registered with name: '' @ [CHR 0x27] @ reporter_name cfg @ [CHR 0x27])
      else Inr ())"

definition useConfigData :: "ConfigData \<Rightarrow> Session \<Rightarrow> Session" where
  "useConfigData d s = s\<lparr>m_configData := d, s_config := None\<rparr>"

definition session_config :: "surroundings \<Rightarrow> Session \<Rightarrow> Config" where
  "session_config env s = (case s_config s of Some cfg \<Rightarrow> cfg | None \<Rightarrow> Config_new (env_aliases env) (m_configData s))"

text \<open>\<open>Session::run\<close>: the exit code; \<open>None\<close> where the runner has none. An exception out of a list is caught and printed.\<close>

definition run_session :: "surroundings \<Rightarrow> Session \<Rightarrow> (int \<times> Session) with_output option" where
  "run_session env s =
     (if showHelp (m_configData s) then Some (Inr ((0, s), []))
      else
        let cfg = session_config env s; s = s\<lparr>s_config := Some cfg\<rparr> in
        case Runner_new env cfg of
          Inl e \<Rightarrow> Some (Inr ((int_max, s), e @ newline))
        | Inr _ \<Rightarrow>
            (case list_requests (env_aliases env) (env_factories env) cfg (env_tests env) of
               Inl f \<Rightarrow> Some (if f = PastEnd then Inl f else Inr ((int_max, s), env_what env f @ newline))
             | Inr (Some n, out) \<Rightarrow> Some (Inr ((sint (word_of_nat n :: 32 word), s), out))
             | Inr (None, out) \<Rightarrow>
                 map_option (\<lambda>(totals, already, c). Inr ((sint (session_result totals), s), out))
                   (runTests (env_aliases env) cfg (env_reporter env (reporter_name cfg) cfg) (env_flags env) (env_tests env) [])))"

definition run_main :: "surroundings \<Rightarrow> string list \<Rightarrow> Session \<Rightarrow> (int \<times> Session) with_output option" where
  "run_main env argv s =
     (case applyCommandLine env True argv s of
        Inl f \<Rightarrow> Some (Inl f)
      | Inr ((code, s), out) \<Rightarrow>
          if code = 0 then map_option (map_sum id (\<lambda>(r, out'). (r, out @ out'))) (run_session env s)
          else Some (Inr ((code, s), out)))"

section \<open>The options of Catch\<close>

definition option_arg :: "string list \<times> string \<times> 'c IArgFunction \<times> string \<Rightarrow> 'c Arg" where
  "option_arg x =
     (case x of (ns, descr, field, p) \<Rightarrow>
        \<lparr>boundField = field, arg_description = descr, placeholder = p, shortNames = map (drop 1) (filter (\<lambda>n. \<not> startsWith n ''--'') ns),
          longName = concat (map (drop 2) (filter (\<lambda>n. startsWith n ''--'') ns)), position = - 1\<rparr>)"

definition tests_arg :: "ConfigData Arg" where
  "tests_arg =
     (Arg_new (BoundBinaryFunction convert_string invalid_conversion (\<lambda>c s. Inr (addTestOrTags c s))))
       \<lparr>arg_description := ''which test or tests to use'', placeholder := ''test name, pattern or tags''\<rparr>"

definition catch_cli :: "(string \<Rightarrow> string list option) \<Rightarrow> ConfigData CommandLine" where
  "catch_cli files =
     CommandLine_new\<lparr>m_boundProcessName := bind_string processName_update, m_options := map option_arg (catch_options files),
       m_floatingArg := Some tests_arg\<rparr>"

lemma make_catch_cli: "makeCommandLineParser files = Inr (catch_cli files)"
  by (simp add: makeCommandLineParser_def catch_options_def add_option_def addOptName_def startsWith_def substr_def Arg_new_def
    CommandLine_new_def add_floating_def catch_cli_def option_arg_def tests_arg_def)

lemma catch_cli_simps [simp]:
  "m_options (catch_cli files) = map option_arg (catch_options files)" "m_positionalArgs (catch_cli files) = []"
  "m_floatingArg (catch_cli files) = Some tests_arg" "m_boundProcessName (catch_cli files) = bind_string processName_update"
  by (simp_all add: catch_cli_def CommandLine_new_def)

lemma set_process_name: "set_arg (bind_string processName_update) d s = Inr (d\<lparr>processName := s\<rparr>)"
  by (simp add: bind_string_def BoundDataMember_def convert_string_def)

lemma Session_new_simps:
  assumes "Session_new files False = Inr s"
  shows "m_cli s = catch_cli files" "m_configData s = ConfigData_new"
  using assms by (auto simp: Session_new_def make_catch_cli)

text \<open>A command line for the examples: two options and a tag.\<close>

definition no_files :: "string \<Rightarrow> string list option" where
  "no_files = (\<lambda>_. None)"

definition example_items :: "ConfigData cl_item list" where
  "example_items =
     [Opt (option_arg (catch_options no_files ! 3)) (Token_new LongOpt ''success'') None, Word ''[fast]'',
      Opt (option_arg (catch_options no_files ! 11)) (Token_new ShortOpt ''x'') (Some ''3'')]"

lemma example_items_valid: "\<forall>i\<in>set example_items. valid_item (catch_cli no_files) i"
  by (simp add: example_items_def catch_options_def option_arg_def startsWith_def substr_def matches_token_def hasShortName_def
    hasLongName_def option_name_def separators_def takesArg_def plain_word_def)

lemma example_items_set: "set_items example_items d = Inr (d\<lparr>showSuccessfulTests := True, abortAfter := 3\<rparr>)"
  by (simp add: example_items_def catch_options_def option_arg_def bind_bool_def BoundDataMember_def BoundBinaryFunction_def
    convert_int_def read_int_def is_spacing_def is_digit_def digits_value_def abortAfterX_def)

lemma example_words: "concat (map item_words example_items) = [''--success'', ''[fast]'', ''-x'', ''3'']"
  by (simp add: example_items_def render_token_def)

lemma example_items_words: "take_words tests_arg example_items d = Inr (d\<lparr>testsOrTags := testsOrTags d @ [''[fast]'']\<rparr>)"
  by (simp add: example_items_def tests_arg_def Arg_new_def BoundBinaryFunction_def convert_string_def addTestOrTags_def)

definition example_env :: "test_function TestRegistry \<Rightarrow> surroundings" where
  "example_env r =
     \<lparr>env_aliases = [], env_factories = [(''console'', ''Reports test results as plain lines of text'')],
       env_reporter = (\<lambda>_ _ _. True), env_writable = (\<lambda>_. False), env_tests = r, env_flags = 0, env_what = (\<lambda>_. [])\<rparr>"

text \<open>The usage text can always be printed.\<close>

lemma Text_one_line:
  assumes "CHR 0x0A \<notin> set s" "tabChar attr \<notin> set s" "initialIndent attr = None" "indent attr + length s \<le> width attr"
  shows "\<exists>l. Text_new s attr = Inr l \<and> length l \<le> 1 \<and> (\<forall>x\<in>set l. length x \<le> width attr)"
proof (cases "s = []")
  case True
  then show ?thesis using assms(3) by (simp add: Text_new_def text_loop.simps)
next
  case False
  have "find_last_of {tabChar attr} (length s) s = None" using assms(2) by (simp add: find_last_of_None)
  moreover have "find_first_of {CHR 0x0A} s = None" using assms(1) by (simp add: find_first_of_None)
  moreover have "min (length s) (size_minus (width attr) (indent attr)) = length s" using assms(4) by (simp add: size_minus_def)
  ultimately have "text_pass attr True (indent attr) s = Inr (replicate (indent attr) CHR '' '' @ s, indent attr, [])"
    by (simp add: text_pass_def Let_def spliceLine_def)
  then show ?thesis
    using assms(3,4) False by (simp add: Text_new_def text_loop.simps [of attr "[]"] text_loop.simps [of attr "[_]"])
qed

lemma concat_sum_returns: "\<forall>r\<in>set rs. \<exists>s. r = Inr s \<Longrightarrow> \<exists>s. concat_sum rs = Inr s"
  by (induction rs rule: concat_sum.induct) auto

lemma option_usage_returns:
  assumes "CHR 0x0A \<notin> set (commands a)" "CHR 0x09 \<notin> set (commands a)" "CHR 0x09 \<notin> set (arg_description a)"
    "length (commands a) \<le> m" "m + 3 < wid" "ind + m < 2 ^ 30"
  shows "\<exists>s. option_usage m ind wid a = Inr s"
proof -
  obtain u where u: "Text_new (commands a) (TextAttributes_new\<lparr>width := m + ind, indent := ind\<rparr>) = Inr u" "length u \<le> 1"
      "\<forall>x\<in>set u. length x \<le> m + ind"
    using Text_one_line [of "commands a" "TextAttributes_new\<lparr>width := m + ind, indent := ind\<rparr>"] assms(1,2,4)
    by (auto simp: TextAttributes_new_def)
  let ?attr = "TextAttributes_new\<lparr>width := size_minus (size_minus wid m) 3\<rparr>"
  have "tabChar ?attr \<notin> set (arg_description a)" "0 < width ?attr" "indent ?attr < width ?attr"
    using assms(3,5) by (auto simp: TextAttributes_new_def size_minus_def)
  from text_loop_splits [OF this, of "[]"] obtain d where d: "Text_new (arg_description a) ?attr = Inr d"
    by (auto simp: Text_new_def TextAttributes_new_def)
  have "\<exists>s. usage_row m ind u d i = Inr s" for i
  proof -
    have "length (if i < length u then u ! i else []) \<le> m + ind" using u(3) by auto
    then show ?thesis using assms(6) by (auto simp: usage_row_def Let_def blanks_def size_minus_def)
  qed
  then have "\<exists>s. concat_sum (map (usage_row m ind u d) [0..<max (length u) (length d)]) = Inr s" by (intro concat_sum_returns) auto
  then show ?thesis by (simp add: option_usage_def u(1) d)
qed

lemma foldl_max: "(m :: nat) \<le> foldl (\<lambda>m a. max m (f a)) m xs \<and> (\<forall>x\<in>set xs. f x \<le> foldl (\<lambda>m a. max m (f a)) m xs)"
proof (induction xs arbitrary: m)
  case (Cons x xs)
  show ?case using Cons [of "max m (f x)"] by auto
qed simp

lemma catch_commands:
  "foldl (\<lambda>m a. max m (length (commands a))) 0 (m_options (catch_cli files)) < 60"
  "\<forall>a\<in>set (m_options (catch_cli files)). CHR 0x0A \<notin> set (commands a) \<and> CHR 0x09 \<notin> set (commands a) \<and> CHR 0x09 \<notin> set (arg_description a)"
  by (simp_all add: catch_options_def option_arg_def startsWith_def substr_def commands_def)

lemma usage_returns: "\<exists>out. usage (setThrowOnUnrecognisedTokens b (catch_cli files)) p = Inr out"
proof -
  let ?cli = "setThrowOnUnrecognisedTokens b (catch_cli files)"
  have c: "m_options ?cli = m_options (catch_cli files)" "m_positionalArgs ?cli = []" "m_floatingArg ?cli = Some tests_arg"
    "m_highestSpecifiedArgPosition ?cli = m_highestSpecifiedArgPosition CommandLine_new"
    by (simp_all add: setThrowOnUnrecognisedTokens_def catch_cli_def CommandLine_new_def)
  let ?os = "m_options (catch_cli files)" and ?m = "foldl (\<lambda>m a. max m (length (commands a))) 0 (m_options (catch_cli files))"
  have m: "?m < 60" "\<And>a. a \<in> set ?os \<Longrightarrow> length (commands a) \<le> ?m"
    using catch_commands(1) foldl_max [of 0 "\<lambda>a. length (commands a)" ?os] by auto
  have "\<exists>s. option_usage ?m 2 80 a = Inr s" if "a \<in> set ?os" for a
    using m(1) by (intro option_usage_returns m(2) that) (use catch_commands(2) that in auto)
  then have "\<exists>s. concat_sum (map (option_usage ?m 2 80) ?os) = Inr s" by (intro concat_sum_returns) auto
  then have "\<exists>s. optUsage 2 80 ?cli = Inr s" by (simp add: optUsage_def Let_def c)
  moreover have "validate ?cli = Inr ()"
    by (simp add: validate_def setThrowOnUnrecognisedTokens_def)
  moreover have "argSynopsis ?cli \<noteq> None"
    by (auto simp: argSynopsis_def Let_def synopsis_at_def c)
  ultimately show ?thesis by (auto simp: usage_def Let_def)
qed

lemma input_error_returns:
  assumes "CHR 0x09 \<notin> set e" "m_cli s = setThrowOnUnrecognisedTokens b (catch_cli files)"
  shows "\<exists>out. input_error e s = Inr ((int_max, s), out)"
proof -
  let ?attr = "TextAttributes_new\<lparr>indent := 2\<rparr>"
  have "tabChar ?attr \<notin> set e" "2 < width ?attr" "indent ?attr < width ?attr" using assms(1) by (auto simp: TextAttributes_new_def)
  from text_loop_splits [OF this, of "[]"] obtain ls where "Text_new e ?attr = Inr ls"
    by (auto simp: Text_new_def TextAttributes_new_def)
  moreover obtain u where "usage (m_cli s) (processName (m_configData s)) = Inr u"
    using usage_returns [of b files] assms(2) by auto
  ultimately show ?thesis by (simp add: input_error_def wrapped_def)
qed

section \<open>Properties\<close>

text \<open>
  C31. What is written on a command line is what is set. Take options, each by a name that it is the first to
  have and with a value if it takes one, and words, in any order; then the parser sets the options in
  the order in which they were written, hands the words, in order, to the floating argument, and
  leaves no token over.
\<close>

theorem command_line_round_trip:
  assumes "\<forall>i\<in>set is. valid_item cli i" "m_positionalArgs cli = []" "m_floatingArg cli = Some f"
    "set_arg (m_boundProcessName cli) c (process_name exe) = Inr c1" "set_items is c1 = Inr c2" "take_words f is c2 = Inr c3"
  shows "parseInto cli (exe # concat (map item_words is)) c = (Inr [], c3)"
  by (rule items_parsed [OF assms])

theorem command_line_round_trip_witness:
  "parseInto (catch_cli no_files) [''bin/tests'', ''--success'', ''[fast]'', ''-x'', ''3''] ConfigData_new =
     (Inr [], ConfigData_new\<lparr>processName := ''tests'', showSuccessfulTests := True, abortAfter := 3, testsOrTags := [''[fast]'']\<rparr>)"
proof -
  have "process_name ''bin/tests'' = ''tests''" by (simp add: process_name_def find_last_of_def)
  then show ?thesis
    using command_line_round_trip [OF example_items_valid, of tests_arg ConfigData_new "''bin/tests''"]
    by (simp add: set_process_name example_items_set example_items_words example_words ConfigData_new_def)
qed

text \<open>
  C33. From the command line to the exit code. Start the program with valid options and words that ask for
  no help and no list, name a reporter that exists and a file that can be written, neither warn of
  missing assertions nor set the limit of failures to 0. If of all registered tests, whether
  selected or not, the assertions hold, the sections on each level have different names, and no two
  tests have the same name, then the run returns with the exit code 0, and nothing is printed but by the reporter.
\<close>

theorem session_passes:
  assumes "Session_new files False = Inr s" "\<forall>i\<in>set is. valid_item (catch_cli files) i"
    "set_items is (ConfigData_new\<lparr>processName := process_name exe\<rparr>) = Inr d'" "take_words tests_arg is d' = Inr d"
    "\<not> showHelp d \<and> \<not> listTests d \<and> \<not> listTestNamesOnly d \<and> \<not> listTags d \<and> \<not> listReporters d"
    "Runner_new env (Config_new (env_aliases env) d) = Inr ()"
    "warnings d AND NoAssertions = 0" "word_of_int (abortAfter d) \<noteq> (0 :: u32)"
    "\<forall>tc\<in>set (getAllTests (env_tests env)). \<exists>ss. passing_case tc ss" "distinct (map name (getAllTests (env_tests env)))"
  shows "\<exists>s'. run_main env (exe # concat (map item_words is)) s = Some (Inr ((0, s'), []))"
proof -
  note s = Session_new_simps [OF assms(1)]
  let ?argv = "exe # concat (map item_words is)"
  let ?cli = "setThrowOnUnrecognisedTokens True (catch_cli files)"
  have cli: "m_options ?cli = m_options (catch_cli files)" "m_positionalArgs ?cli = []" "m_floatingArg ?cli = Some tests_arg"
    "m_boundProcessName ?cli = bind_string processName_update"
    by (simp_all add: setThrowOnUnrecognisedTokens_def)
  have "\<forall>i\<in>set is. valid_item ?cli i"
  proof
    fix i assume "i \<in> set is"
    then have "valid_item (catch_cli files) i" using assms(2) by blast
    then show "valid_item ?cli i" using cli(1) by (cases i) simp_all
  qed
  then have "parseInto ?cli ?argv ConfigData_new = (Inr [], d)"
    using items_parsed [OF _ cli(2,3) _ assms(3,4)] cli(4) by (simp add: set_process_name)
  then obtain s' where s': "applyCommandLine env True ?argv s = Inr ((0, s'), [])" "m_configData s' = d" "s_config s' = None"
    using s assms(5) by (auto simp: applyCommandLine_def Let_def)
  have cfg: "m_data (Config_new (env_aliases env) d) = d" by (simp add: Config_new_def)
  then have "list_requests (env_aliases env) (env_factories env) (Config_new (env_aliases env) d) (env_tests env) = Inr (None, [])"
    using assms(5) by (simp add: list_requests_def)
  moreover obtain totals already c where "session_result totals = 0"
      "runTests (env_aliases env) (Config_new (env_aliases env) d)
         (env_reporter env (reporter_name (Config_new (env_aliases env) d)) (Config_new (env_aliases env) d)) (env_flags env)
         (env_tests env) [] = Some (totals, already, c)"
    using passing_tests_run [of _ True, OF assms(9) [unfolded passing_case_def] assms(10), of "Config_new (env_aliases env) d" "env_aliases env"
        "env_reporter env (reporter_name (Config_new (env_aliases env) d)) (Config_new (env_aliases env) d)" "env_flags env"]
      assms(7,8) cfg
    by (auto simp: warnAboutMissingAssertions_def)
  ultimately have "run_session env s' = Some (Inr ((0, s'\<lparr>s_config := Some (Config_new (env_aliases env) d)\<rparr>), []))"
    using s'(2,3) assms(5,6) by (simp add: run_session_def session_config_def Let_def)
  then show ?thesis using s'(1) by (simp add: run_main_def)
qed

theorem session_passes_witness:
  "\<exists>r s s'. AutoReg (run_stmts example_test) SourceLineInfo_new ''a test'' ''[!shouldfail]'' TestRegistry_new = Inr r \<and>
     Session_new no_files False = Inr s \<and>
     run_main (example_env r) [''bin/tests'', ''--success'', ''[fast]'', ''-x'', ''3''] s = Some (Inr ((0, s'), []))"
proof -
  obtain r tc where r: "AutoReg (run_stmts example_test) SourceLineInfo_new ''a test'' ''[!shouldfail]'' TestRegistry_new = Inr r"
      "getAllTests r = [tc]" "test tc = run_stmts example_test"
    using example_registered by blast
  obtain s where s: "Session_new no_files False = Inr s" by (simp add: Session_new_def make_catch_cli)
  let ?d = "ConfigData_new\<lparr>processName := process_name ''bin/tests'', showSuccessfulTests := True, abortAfter := 3, testsOrTags := [''[fast]'']\<rparr>"
  have "Runner_new (example_env r) (Config_new (env_aliases (example_env r)) ?d) = Inr ()"
    by (simp add: Runner_new_def example_env_def Config_new_def ConfigData_new_def reporter_name_def)
  moreover have "\<exists>ss. passing_case tc ss" using example_passes [OF r(3)] by (auto simp: passing_case_def)
  ultimately show ?thesis
    using session_passes [OF s example_items_valid example_items_set, of "''bin/tests''" ?d "example_env r"] r s
    by (simp add: example_items_words example_words ConfigData_new_def example_env_def)
qed

text \<open>
  C35. An option that nobody knows. If a word of the command line is cut into an option that Catch does
  not have, anywhere before a double dash, then parsing the command line fails with a message and the
  program does nothing but print that message and the usage text. If the message has no tab
  character in it the printing returns, and the exit code is the largest \<open>int\<close>. (With a tab the text
  formatter may fail, \<open>tab_in_short_line\<close> in the theory of the texts.)
\<close>

theorem unknown_option_refused:
  assumes "Session_new files False = Inr s" "t \<in> set (parseIntoTokens argv)" "token_type t \<noteq> Positional"
    "\<forall>x\<in>set (catch_options files). \<not> matches_token t (option_arg x)"
  shows "\<exists>e c' s'. parseInto (setThrowOnUnrecognisedTokens True (m_cli s)) argv ConfigData_new = (Inl e, c') \<and>
     run_main env argv s = Some (input_error e s') \<and>
     (CHR 0x09 \<notin> set e \<longrightarrow> (\<exists>out. run_main env argv s = Some (Inr ((int_max, s'), out))))"
proof -
  note s = Session_new_simps [OF assms(1)]
  let ?cli = "setThrowOnUnrecognisedTokens True (catch_cli files)"
  obtain e c' where p: "parseInto ?cli argv ConfigData_new = (Inl e, c')"
    using unknown_option_fails [of t argv ?cli ConfigData_new] assms(2-4) by (auto simp: setThrowOnUnrecognisedTokens_def)
  let ?s = "s\<lparr>m_cli := ?cli, m_configData := c'\<rparr>"
  have e: "applyCommandLine env True argv s = input_error e ?s" using s p by (simp add: applyCommandLine_def Let_def)
  have i: "\<forall>r out. input_error e ?s = Inr (r, out) \<longrightarrow> r = (int_max, ?s)"
    by (auto simp: input_error_def map_sum_def split: sum.splits)
  have r: "run_main env argv s = Some (input_error e ?s)"
    using i e by (cases "input_error e ?s") (auto simp: run_main_def int_max_def)
  moreover have "CHR 0x09 \<notin> set e \<Longrightarrow> \<exists>out. input_error e ?s = Inr ((int_max, ?s), out)"
    by (rule input_error_returns) simp_all
  ultimately show ?thesis using p s by auto
qed

theorem unknown_option_refused_witness:
  "\<exists>s s' out. Session_new no_files False = Inr s \<and>
     run_main (example_env TestRegistry_new) [''tests'', ''--verbose=2''] s = Some (Inr ((2147483647, s'), out))"
proof -
  obtain s where s: "Session_new no_files False = Inr s" by (simp add: Session_new_def make_catch_cli)
  let ?t = "Token_new LongOpt ''verbose''" and ?argv = "[''tests'', ''--verbose=2'']"
  let ?cli = "setThrowOnUnrecognisedTokens True (m_cli s)"
  have ts: "parseIntoTokens ?argv = [?t, Token_new Positional ''2'']"
    by (simp add: parseIntoTokens_def word_tokens.simps [of "''--verbose=2''"] first_token_def char_at_def separators_def
      Token_new_def word_tokens_plain plain_word_def)
  have m: "\<forall>x\<in>set (catch_options no_files). \<not> matches_token ?t (option_arg x)"
    by (simp add: catch_options_def option_arg_def matches_token_def hasLongName_def startsWith_def substr_def Token_new_def)
  have cli: "m_options ?cli \<noteq> []" "\<forall>a\<in>set (m_options ?cli). \<not> matches_token ?t a" "m_throwOnUnrecognisedTokens ?cli"
      "m_boundProcessName ?cli = bind_string processName_update"
    using m Session_new_simps(1) [OF s] by (auto simp: setThrowOnUnrecognisedTokens_def catch_options_def)
  have "option_tokens ?cli [?t, Token_new Positional ''2''] c [] [] = ([Token_new Positional ''2''], c, [''unrecognised option: verbose''])" for c
    using cli(3) by (simp add: try_options_none cli(2))
  then have "\<exists>c. parseInto ?cli ?argv ConfigData_new = (Inl ''unrecognised option: verbose'', c)"
    using cli(1) by (simp add: parseInto_def cli(4) set_process_name ts populate_def validate_def populateOptions_def parsed_then_def)
  then show ?thesis
    using unknown_option_refused [OF s, of ?t ?argv "example_env TestRegistry_new"] s ts m by (auto simp: int_max_def)
qed

text \<open>
  A value that its option does not take is reported twice, the second time as an option nobody knows:
  the loop over the options goes on after the exception.
\<close>

theorem refused_value_reported_twice:
  assumes "option_name t" "plain_word v" "m_options cli = as @ a # bs" "\<forall>b\<in>set (as @ bs). \<not> matches_token t b" "matches_token t a"
    "takesArg a" "set_arg (m_boundProcessName cli) c (process_name exe) = Inr c1" "set_arg (boundField a) c1 v = Inl e"
    "m_throwOnUnrecognisedTokens cli"
  shows "fst (parseInto cli [exe, render_token t, v] c) =
     Inl (while_parsing e a @ newline @ ''unrecognised option: '' @ token_data t)"
proof -
  have "try_options t (as @ a # bs) [Token_new Positional v] c1 [] = (False, [], c1, [while_parsing e a])"
    using assms(4-6,8) by (induction "as") (auto simp: try_options_none)
  moreover have "parseIntoTokens [exe, render_token t, v] = [t, Token_new Positional v]"
    using assms(1,2) word_tokens_option [OF assms(1)] by (auto simp: parseIntoTokens_def word_tokens_plain plain_word_def)
  moreover have "token_type t \<noteq> Positional" using assms(1) by (auto simp: option_name_def)
  ultimately show ?thesis
    using assms(3,7,9) by (simp add: parseInto_def populate_def validate_def populateOptions_def parsed_then_def newline_def)
qed

theorem refused_value_reported_twice_witness:
  "fst (parseInto (setThrowOnUnrecognisedTokens True (catch_cli no_files)) [''tests'', ''-x'', ''0''] ConfigData_new) =
     Inl (''Value after -x or --abortAfter must be greater than zero'' @ newline @ ''- while parsing: (-x, --abortx <no. failures>)'' @
       newline @ ''unrecognised option: x'')"
proof -
  let ?os = "map option_arg (catch_options no_files)" and ?a = "option_arg (catch_options no_files ! 11)"
  let ?t = "Token_new ShortOpt ''x''" and ?cli = "setThrowOnUnrecognisedTokens True (catch_cli no_files)"
  let ?e = "''Value after -x or --abortAfter must be greater than zero''"
  have os: "m_options ?cli = take 11 ?os @ ?a # drop 12 ?os" by (simp add: setThrowOnUnrecognisedTokens_def catch_options_def)
  have "\<forall>b\<in>set (take 11 ?os @ drop 12 ?os). \<not> matches_token ?t b"
    by (simp add: catch_options_def option_arg_def matches_token_def hasShortName_def startsWith_def substr_def)
  moreover have "matches_token ?t ?a" "takesArg ?a" "commands ?a = ''-x, --abortx <no. failures>''"
    by (simp_all add: catch_options_def option_arg_def matches_token_def hasShortName_def startsWith_def substr_def takesArg_def commands_def)
  moreover have "set_arg (boundField ?a) d ''0'' = Inl ?e" for d
    by (simp add: catch_options_def option_arg_def BoundBinaryFunction_def convert_int_def read_int_def is_spacing_def is_digit_def
      digits_value_def abortAfterX_def)
  moreover have "option_name ?t" "plain_word ''0''" "render_token ?t = ''-x''"
    by (simp_all add: option_name_def separators_def plain_word_def render_token_def)
  moreover have "set_arg (m_boundProcessName ?cli) ConfigData_new (process_name ''tests'') =
      Inr (ConfigData_new\<lparr>processName := process_name ''tests''\<rparr>)" "m_throwOnUnrecognisedTokens ?cli"
    by (simp_all add: setThrowOnUnrecognisedTokens_def set_process_name)
  ultimately show ?thesis
    using refused_value_reported_twice [of ?t "''0''" ?cli, OF _ _ os] by (simp add: while_parsing_def newline_def del: map_map)
qed

end
