(* ===== verification/CatchJunit.thy ===== *)
theory CatchJunit
  imports CatchReport "HOL-Library.Multiset"
begin

text \<open>
  The JUnit reporter of Catch and the base class that collects the reports of a run in trees: one for each
  test case, its sections being nodes that later runs of the test find again by their place in the source.
  The document is written when a group ends. A pointer to a node of the tree is its path from the root.
\<close>

section \<open>Collecting the reports\<close>

text \<open>A duration is kept as the text that is printed for it.\<close>

record AssertionStats =
  as_assertionResult :: AssertionResult
  as_infoMessages :: "MessageInfo list"
  as_totals :: Totals

record SectionStats =
  ss_sectionInfo :: SectionInfo
  ss_assertions :: Counts
  ss_duration :: string
  ss_missingAssertions :: bool

datatype SectionNode =
  SectionNode (sn_stats: SectionStats) (childSections: "SectionNode list") (sn_assertions: "AssertionStats list")
    (sn_stdOut: string) (sn_stdErr: string)

record TestCaseNode =
  tn_testInfo :: TestCaseInfo
  tn_totals :: Totals
  tn_root :: SectionNode

record TestGroupNode =
  gn_name :: string
  gn_totals :: Totals
  gn_children :: "TestCaseNode list"

record CumulativeReporterBase =
  m_testCases :: "TestCaseNode list"
  m_testGroups :: "TestGroupNode list"
  m_testRuns :: "(Totals \<times> TestGroupNode list) list"
  m_rootSection :: "SectionNode option"
  m_deepestSection :: "nat list option"
  m_nodeStack :: "nat list list"

text \<open>The node that a path leads to.\<close>

fun node_at :: "nat list \<Rightarrow> SectionNode \<Rightarrow> SectionNode option" where
  "node_at [] n = Some n"
| "node_at (i # p) n = (if i < length (childSections n) then node_at p (childSections n ! i) else None)"

fun update_node :: "nat list \<Rightarrow> (SectionNode \<Rightarrow> SectionNode) \<Rightarrow> SectionNode \<Rightarrow> SectionNode" where
  "update_node [] f n = f n"
| "update_node (i # p) f (SectionNode s cs as out err) =
     SectionNode s (if i < length cs then cs[i := update_node p f (cs ! i)] else cs) as out err"

definition SectionNode_new :: "SectionStats \<Rightarrow> SectionNode" where
  "SectionNode_new s = SectionNode s [] [] [] []"

definition add_child :: "SectionNode \<Rightarrow> SectionNode \<Rightarrow> SectionNode" where
  "add_child c n = SectionNode (sn_stats n) (childSections n @ [c]) (sn_assertions n) (sn_stdOut n) (sn_stdErr n)"

definition add_assertion :: "AssertionStats \<Rightarrow> SectionNode \<Rightarrow> SectionNode" where
  "add_assertion a n = SectionNode (sn_stats n) (childSections n) (sn_assertions n @ [a]) (sn_stdOut n) (sn_stdErr n)"

definition set_stats :: "SectionStats \<Rightarrow> SectionNode \<Rightarrow> SectionNode" where
  "set_stats s n = SectionNode s (childSections n) (sn_assertions n) (sn_stdOut n) (sn_stdErr n)"

definition set_output :: "string \<Rightarrow> string \<Rightarrow> SectionNode \<Rightarrow> SectionNode" where
  "set_output out err n = SectionNode (sn_stats n) (childSections n) (sn_assertions n) out err"

text \<open>\<open>std::find_if\<close> with \<open>BySectionInfo\<close>.\<close>

primrec child_index :: "SourceLineInfo \<Rightarrow> SectionNode list \<Rightarrow> nat option" where
  "child_index l [] = None"
| "child_index l (n # ns) =
     (if line_equal (sec_lineInfo (ss_sectionInfo (sn_stats n))) l then Some 0 else map_option Suc (child_index l ns))"

definition cumulative_sectionStarting :: "SectionInfo \<Rightarrow> 'a CumulativeReporterBase_scheme \<Rightarrow> 'a CumulativeReporterBase_scheme option" where
  "cumulative_sectionStarting i r =
     (let node = SectionNode_new \<lparr>ss_sectionInfo = i, ss_assertions = Counts_new, ss_duration = ''0.0'', ss_missingAssertions = False\<rparr>;
          enter = (\<lambda>root p. r\<lparr>m_rootSection := Some root, m_nodeStack := m_nodeStack r @ [p], m_deepestSection := Some p\<rparr>)
      in if m_nodeStack r = [] then Some (enter (case m_rootSection r of None \<Rightarrow> node | Some root \<Rightarrow> root) [])
         else
           do {
             root \<leftarrow> m_rootSection r;
             let p = last (m_nodeStack r);
             parent \<leftarrow> node_at p root;
             case child_index (sec_lineInfo i) (childSections parent) of
               Some k \<Rightarrow> Some (enter root (p @ [k]))
             | None \<Rightarrow> Some (enter (update_node p (add_child node) root) (p @ [length (childSections parent)]))
           })"

text \<open>The asserts are kept: \<open>None\<close> is where they fail.\<close>

definition cumulative_assertionEnded :: "AssertionStats \<Rightarrow> 'a CumulativeReporterBase_scheme \<Rightarrow> 'a CumulativeReporterBase_scheme option" where
  "cumulative_assertionEnded a r =
     (if m_nodeStack r = [] then None
      else map_option (\<lambda>root. r\<lparr>m_rootSection := Some (update_node (last (m_nodeStack r)) (add_assertion a) root)\<rparr>) (m_rootSection r))"

definition cumulative_sectionEnded :: "SectionStats \<Rightarrow> 'a CumulativeReporterBase_scheme \<Rightarrow> 'a CumulativeReporterBase_scheme option" where
  "cumulative_sectionEnded s r =
     (if m_nodeStack r = [] then None
      else
        map_option (\<lambda>root. r\<lparr>m_rootSection := Some (update_node (last (m_nodeStack r)) (set_stats s) root),
          m_nodeStack := butlast (m_nodeStack r)\<rparr>) (m_rootSection r))"

definition cumulative_testCaseEnded ::
  "TestCaseInfo \<Rightarrow> Totals \<Rightarrow> string \<times> string \<Rightarrow> 'a CumulativeReporterBase_scheme \<Rightarrow> 'a CumulativeReporterBase_scheme option" where
  "cumulative_testCaseEnded i totals output r =
     (if m_nodeStack r \<noteq> [] then None
      else
        do {
          root \<leftarrow> m_rootSection r;
          p \<leftarrow> m_deepestSection r;
          let root = update_node p (set_output (fst output) (snd output)) root;
          Some (r\<lparr>m_testCases := m_testCases r @ [\<lparr>tn_testInfo = i, tn_totals = totals, tn_root = root\<rparr>], m_rootSection := None\<rparr>)
        })"

definition cumulative_testGroupEnded :: "string \<Rightarrow> Totals \<Rightarrow> 'a CumulativeReporterBase_scheme \<Rightarrow> 'a CumulativeReporterBase_scheme" where
  "cumulative_testGroupEnded n totals r =
     r\<lparr>m_testGroups := m_testGroups r @ [\<lparr>gn_name = n, gn_totals = totals, gn_children = m_testCases r\<rparr>], m_testCases := []\<rparr>"

definition cumulative_testRunEnded :: "Totals \<Rightarrow> 'a CumulativeReporterBase_scheme \<Rightarrow> 'a CumulativeReporterBase_scheme" where
  "cumulative_testRunEnded totals r = r\<lparr>m_testRuns := m_testRuns r @ [(totals, m_testGroups r)], m_testGroups := []\<rparr>"

section \<open>Writing the document\<close>

text \<open>
  The template for attributes, which is also taken for string literals, prints the value as it is. An
  element that is open for a whole block is ended at the end of the block.
\<close>

definition writeAttribute_text :: "string \<Rightarrow> string \<Rightarrow> XmlWriter \<Rightarrow> XmlWriter" where
  "writeAttribute_text n s w = (if n \<noteq> [] then put ('' '' @ n @ [CHR ''='', CHR 0x22] @ s @ [CHR 0x22]) w else w)"

definition scopedBlock :: "string \<Rightarrow> (XmlWriter \<Rightarrow> XmlWriter option) \<Rightarrow> XmlWriter \<Rightarrow> XmlWriter option" where
  "scopedBlock n f w = do { w \<leftarrow> f (startElement n w); endElement w }"

definition failure_element :: "OfType \<Rightarrow> string" where
  "failure_element t =
     (if t = ThrewException then ''error''
      else if t = ExplicitFailure \<or> t = ExpressionFailed \<or> t = DidntThrowException then ''failure'' else ''internalError'')"

definition failure_text :: "AssertionStats \<Rightarrow> string" where
  "failure_text a =
     (let result = as_assertionResult a
      in (if getMessage result \<noteq> [] then getMessage result @ [CHR 0x0A] else []) @
         concat (map (\<lambda>m. if mi_type m = ResultInfo then mi_message m @ [CHR 0x0A] else []) (as_infoMessages a)) @
         ''at '' @ print_line_info (getSourceInfo result))"

definition writeAssertion :: "AssertionStats \<Rightarrow> XmlWriter \<Rightarrow> XmlWriter option" where
  "writeAssertion a w =
     (let result = as_assertionResult a
      in if isOk result then Some w
         else
           scopedElement (failure_element (getResultType result))
             (\<lambda>w. writeText (failure_text a) False
               (writeAttribute ''type'' (getTestMacroName result) (writeAttribute ''message'' (getExpandedExpression result) w))) w)"

primrec writeAssertions :: "AssertionStats list \<Rightarrow> XmlWriter \<Rightarrow> XmlWriter option" where
  "writeAssertions [] w = Some w"
| "writeAssertions (a # as) w = do { w \<leftarrow> writeAssertion a w; writeAssertions as w }"

definition write_output :: "string \<Rightarrow> string \<Rightarrow> XmlWriter \<Rightarrow> XmlWriter option" where
  "write_output n s w = scopedElement n (writeText (trim s) False) w"

definition write_testcase :: "string \<Rightarrow> string \<Rightarrow> SectionNode \<Rightarrow> XmlWriter \<Rightarrow> XmlWriter option" where
  "write_testcase cls nm n =
     scopedBlock ''testcase''
       (\<lambda>w. do {
          let w = (if cls = [] then writeAttribute_text ''name'' ''root'' (writeAttribute ''classname'' nm w)
                   else writeAttribute ''name'' nm (writeAttribute ''classname'' cls w));
          w \<leftarrow> writeAssertions (sn_assertions n) (writeAttribute ''time'' (ss_duration (sn_stats n)) w);
          w \<leftarrow> (if sn_stdOut n \<noteq> [] then write_output ''system-out'' (sn_stdOut n) w else Some w);
          if sn_stdErr n \<noteq> [] then write_output ''system-err'' (sn_stdErr n) w else Some w
        })"

definition section_path :: "string \<Rightarrow> SectionNode \<Rightarrow> string" where
  "section_path rootName n =
     (let nm = trim (sec_name (ss_sectionInfo (sn_stats n))) in if rootName \<noteq> [] then rootName @ ''/'' @ nm else nm)"

fun writeSection :: "string \<Rightarrow> string \<Rightarrow> SectionNode \<Rightarrow> XmlWriter \<Rightarrow> XmlWriter option"
  and writeSections :: "string \<Rightarrow> string \<Rightarrow> SectionNode list \<Rightarrow> XmlWriter \<Rightarrow> XmlWriter option" where
  "writeSection cls rootName (SectionNode s cs as out err) w =
     (let n = SectionNode s cs as out err;
          nm = section_path rootName n
      in do {
           w \<leftarrow> (if as \<noteq> [] \<or> out \<noteq> [] \<or> err \<noteq> [] then write_testcase cls nm n w else Some w);
           if cls = [] then writeSections nm [] cs w else writeSections cls nm cs w
         })"
| "writeSections cls rootName [] w = Some w"
| "writeSections cls rootName (n # ns) w = do { w \<leftarrow> writeSection cls rootName n w; writeSections cls rootName ns w }"

definition writeTestCase :: "TestCaseNode \<Rightarrow> XmlWriter \<Rightarrow> XmlWriter option" where
  "writeTestCase t =
     (let cls = className (tn_testInfo t)
      in writeSection (if cls = [] \<and> childSections (tn_root t) = [] then ''global'' else cls) [] (tn_root t))"

primrec writeTestCases :: "TestCaseNode list \<Rightarrow> XmlWriter \<Rightarrow> XmlWriter option" where
  "writeTestCases [] w = Some w"
| "writeTestCases (t # ts) w = do { w \<leftarrow> writeTestCase t w; writeTestCases ts w }"

section \<open>The reporter\<close>

record JunitReporter = CumulativeReporterBase +
  jr_config :: Config
  jr_xml :: XmlWriter
  stdOutForSuite :: string
  stdErrForSuite :: string
  unexpectedExceptions :: u32

text \<open>The constructor does not set \<open>unexpectedExceptions\<close>: it is \<open>junk\<close>.\<close>

definition JunitReporter_new :: "Config \<Rightarrow> u32 \<Rightarrow> JunitReporter" where
  "JunitReporter_new cfg junk =
     \<lparr>m_testCases = [], m_testGroups = [], m_testRuns = [], m_rootSection = None, m_deepestSection = None, m_nodeStack = [],
      jr_config = cfg, jr_xml = XmlWriter_new, stdOutForSuite = [], stdErrForSuite = [], unexpectedExceptions = junk\<rparr>"

definition junit_testRunStarting :: "JunitReporter \<Rightarrow> JunitReporter" where
  "junit_testRunStarting r = r\<lparr>jr_xml := startElement ''testsuites'' (jr_xml r)\<rparr>"

definition junit_testGroupStarting :: "JunitReporter \<Rightarrow> JunitReporter" where
  "junit_testGroupStarting r = r\<lparr>stdOutForSuite := [], stdErrForSuite := [], unexpectedExceptions := 0\<rparr>"

definition junit_assertionEnded :: "AssertionStats \<Rightarrow> JunitReporter \<Rightarrow> JunitReporter option" where
  "junit_assertionEnded a r =
     cumulative_assertionEnded a
       (if getResultType (as_assertionResult a) = ThrewException then r\<lparr>unexpectedExceptions := unexpectedExceptions r + 1\<rparr> else r)"

definition junit_testCaseEnded :: "TestCaseInfo \<Rightarrow> Totals \<Rightarrow> string \<times> string \<Rightarrow> JunitReporter \<Rightarrow> JunitReporter option" where
  "junit_testCaseEnded i totals output r =
     cumulative_testCaseEnded i totals output
       (r\<lparr>stdOutForSuite := stdOutForSuite r @ fst output, stdErrForSuite := stdErrForSuite r @ snd output\<rparr>)"

definition suite_attributes :: "TestGroupNode \<Rightarrow> string \<Rightarrow> JunitReporter \<Rightarrow> XmlWriter \<Rightarrow> XmlWriter" where
  "suite_attributes g suiteTime r w =
     (let n = n_assertions (gn_totals g);
          w = writeAttribute ''name'' (gn_name g) w;
          w = writeAttribute_nat ''errors'' (unat (unexpectedExceptions r)) w;
          w = writeAttribute_nat ''failures'' (unat (n_failed n - unexpectedExceptions r)) w;
          w = writeAttribute_nat ''tests'' (unat (counts_total n)) w;
          w = writeAttribute_text ''hostname'' ''tbd'' w;
          w = writeAttribute_text ''time'' (if showDurations (m_data (jr_config r)) = Never then [] else suiteTime) w
      in writeAttribute_text ''timestamp'' ''tbd'' w)"

definition writeGroup :: "TestGroupNode \<Rightarrow> string \<Rightarrow> JunitReporter \<Rightarrow> JunitReporter option" where
  "writeGroup g suiteTime r =
     map_option (\<lambda>w. r\<lparr>jr_xml := w\<rparr>)
       (scopedBlock ''testsuite''
          (\<lambda>w. do {
             w \<leftarrow> writeTestCases (gn_children g) (suite_attributes g suiteTime r w);
             w \<leftarrow> write_output ''system-out'' (stdOutForSuite r) w;
             write_output ''system-err'' (stdErrForSuite r) w
           }) (jr_xml r))"

definition junit_testGroupEnded :: "string \<Rightarrow> Totals \<Rightarrow> string \<Rightarrow> JunitReporter \<Rightarrow> JunitReporter option" where
  "junit_testGroupEnded n totals suiteTime r =
     (let r = cumulative_testGroupEnded n totals r in writeGroup (last (m_testGroups r)) suiteTime r)"

definition junit_testRunEnded :: "Totals \<Rightarrow> JunitReporter \<Rightarrow> JunitReporter option" where
  "junit_testRunEnded totals r =
     (let r = cumulative_testRunEnded totals r in map_option (\<lambda>w. r\<lparr>jr_xml := w\<rparr>) (endElement (jr_xml r)))"

text \<open>
  What the streams and the clock add to the \<open>n\<close>-th report: the output of a test case that ends there, and
  the text of a duration.
\<close>

record junit_surroundings =
  je_output :: "nat \<Rightarrow> string \<times> string"
  je_duration :: "nat \<Rightarrow> string"

fun junit_report :: "junit_surroundings \<Rightarrow> nat \<Rightarrow> report \<Rightarrow> JunitReporter \<Rightarrow> JunitReporter option" where
  "junit_report env k (TestGroupStarting n) r = Some (junit_testGroupStarting r)"
| "junit_report env k (TestGroupEnded n totals ab) r = junit_testGroupEnded n totals (je_duration env k) r"
| "junit_report env k (TestCaseStarting i) r = Some r"
| "junit_report env k (TestCaseEnded i totals ab) r = junit_testCaseEnded i totals (je_output env k) r"
| "junit_report env k (SectionStarting i) r = cumulative_sectionStarting i r"
| "junit_report env k (SectionEnded i counts missing) r =
     cumulative_sectionEnded
       \<lparr>ss_sectionInfo = i, ss_assertions = counts, ss_duration = je_duration env k, ss_missingAssertions = missing\<rparr> r"
| "junit_report env k (AssertionEnded a messages totals) r =
     junit_assertionEnded
       \<lparr>as_assertionResult = a, as_infoMessages = AssertionStats_new a messages 0, as_totals = totals\<rparr> r"

primrec junit_reports :: "junit_surroundings \<Rightarrow> nat \<Rightarrow> report list \<Rightarrow> JunitReporter \<Rightarrow> JunitReporter option" where
  "junit_reports env k [] r = Some r"
| "junit_reports env k (e # es) r = do { r \<leftarrow> junit_report env k e r; junit_reports env (Suc k) es r }"

definition junit_document :: "junit_surroundings \<Rightarrow> Config \<Rightarrow> u32 \<Rightarrow> RunContext \<Rightarrow> string option" where
  "junit_document env cfg junk c =
     do {
       r \<leftarrow> junit_reports env 0 (m_reports c) (junit_testRunStarting (JunitReporter_new cfg junk));
       r \<leftarrow> junit_testRunEnded (m_totals c) r;
       Some (m_os (XmlWriter_delete (jr_xml r)))
     }"

section \<open>The trees hold what was reported\<close>

fun tree_assertions :: "SectionNode \<Rightarrow> AssertionStats multiset"
  and trees_assertions :: "SectionNode list \<Rightarrow> AssertionStats multiset" where
  "tree_assertions (SectionNode s cs as out err) = mset as + trees_assertions cs"
| "trees_assertions [] = {#}"
| "trees_assertions (n # ns) = tree_assertions n + trees_assertions ns"

lemma trees_append [simp]: "trees_assertions (ns @ ms) = trees_assertions ns + trees_assertions ms"
  by (induction ns) (auto simp: ac_simps)

lemma tree_parts [simp]:
  "tree_assertions (SectionNode_new s) = {#}" "tree_assertions (add_child c n) = tree_assertions n + tree_assertions c"
  "tree_assertions (add_assertion a n) = add_mset a (tree_assertions n)" "tree_assertions (set_stats s n) = tree_assertions n"
  "tree_assertions (set_output out err n) = tree_assertions n"
  by (cases n; simp add: SectionNode_new_def add_child_def add_assertion_def set_stats_def set_output_def ac_simps)+

lemma trees_update:
  "i < length ns \<Longrightarrow> trees_assertions (ns[i := n]) + tree_assertions (ns ! i) = trees_assertions ns + tree_assertions n"
proof (induction ns arbitrary: i)
  case (Cons m ns)
  then show ?case by (cases i) (auto simp: ac_simps)
qed simp

text \<open>An update at a place that exists changes the tree by what it changes of the node.\<close>

lemma update_assertions:
  assumes "node_at p n \<noteq> None" "\<And>m. tree_assertions (f m) = tree_assertions m + d"
  shows "tree_assertions (update_node p f n) = tree_assertions n + d"
  using assms
proof (induction p f n rule: update_node.induct)
  case (2 i p f s cs as out err)
  then have i: "i < length cs" "node_at p (cs ! i) \<noteq> None" by (auto split: if_splits)
  have "trees_assertions (cs[i := update_node p f (cs ! i)]) = trees_assertions cs + d"
    using trees_update [OF i(1), of "update_node p f (cs ! i)"] "2.IH" [OF i "2.prems"(2)] by (auto simp: ac_simps)
  then show ?case using i(1) by (simp add: ac_simps)
qed simp

lemma node_at_append: "node_at (p @ q) n = do { m \<leftarrow> node_at p n; node_at q m }"
  by (induction p arbitrary: n) auto

lemma node_at_update: "node_at p (update_node p f n) = map_option f (node_at p n)"
proof (induction p f n rule: update_node.induct)
  case (2 i p f s cs as out err)
  then show ?case by auto
qed simp

text \<open>An update that keeps the children, or adds to them, keeps all places.\<close>

lemma node_at_kept:
  assumes "\<And>m. \<exists>more. childSections (f m) = childSections m @ more" "node_at q n \<noteq> None"
  shows "node_at q (update_node p f n) \<noteq> None"
  using assms
proof (induction p f n arbitrary: q rule: update_node.induct)
  case (1 f n)
  obtain more where "childSections (f n) = childSections n @ more" using "1.prems"(1) by blast
  then show ?case using "1.prems"(2) by (cases q) (auto simp: nth_append split: if_splits)
next
  case (2 i p f s cs as out err)
  show ?case
  proof (cases q)
    case (Cons j q')
    then have j: "j < length cs" "node_at q' (cs ! j) \<noteq> None" using "2.prems"(2) by (auto split: if_splits)
    then show ?thesis using "2.IH" [of q', OF _ "2.prems"(1)] Cons by (cases "i = j") auto
  qed simp
qed

section \<open>The markup of the document\<close>

lemma junit_names [simp]:
  "element_name ''testsuites''" "element_name ''testsuite''" "element_name ''testcase''" "element_name ''error''" "element_name ''failure''"
  "element_name ''internalError''" "element_name ''system-out''" "element_name ''system-err''" "element_name ''errors''"
  "element_name ''tests''" "element_name ''hostname''" "element_name ''time''" "element_name ''timestamp''" "element_name ''classname''"
  "element_name ''type''" "element_name ''message''"
  by (simp_all add: element_name_def name_char_def letter_def)

definition plain_text :: "string \<Rightarrow> bool" where
  "plain_text s \<longleftrightarrow> (\<forall>c\<in>set s. c \<notin> charsToEncode)"

lemma plain_literals [simp]: "plain_text ''tbd''" "plain_text ''root''" "plain_text []"
  by (simp_all add: plain_text_def charsToEncode_def)

lemma text_attributed:
  assumes "attributed used ns w" "element_name a" "a \<notin> used" "plain_text s"
  shows "attributed (insert a used) ns (writeAttribute_text a s w)"
proof -
  obtain u where u: "consistent (Some u) w" "set u \<subseteq> used" "m_tags w = ns" using assms(1) by (auto simp: attributed_def)
  then have "a \<notin> set u" using assms(3) by auto
  from attribute_consistent [OF u(1) assms(2) this scan_plain, of s] show ?thesis
    using assms(2,4) u(2,3) by (fastforce simp: attributed_def writeAttribute_text_def element_name_def plain_text_def)
qed

lemma block_elements:
  assumes "elements ns w" "ns \<noteq> []" "element_name n"
    "\<And>w. attributed {} (ns @ [n]) w \<Longrightarrow> \<exists>w'. f w = Some w' \<and> elements (ns @ [n]) w'"
  shows "\<exists>w'. scopedBlock n f w = Some w' \<and> elements ns w'"
  using assms(4) [OF start_attributed [OF assms(1-3)]] end_elements by (fastforce simp: scopedBlock_def)

lemma failure_element_name [simp]: "element_name (failure_element t)"
  by (simp add: failure_element_def)

lemma writeAssertion_elements:
  assumes "elements ns w" "ns \<noteq> []"
  shows "\<exists>w'. writeAssertion a w = Some w' \<and> elements ns w'"
proof (cases "isOk (as_assertionResult a)")
  case False
  have "\<exists>w'. scopedElement (failure_element t) (\<lambda>w. writeText s False (writeAttribute ''type'' x (writeAttribute ''message'' y w))) w = Some w' \<and>
      elements ns w'" for t s x y
    by (rule scoped_elements [OF assms], simp, rule text_elements [OF attributed_elements], (rule attribute_attributed)+, assumption, simp_all)
  then show ?thesis using False unfolding writeAssertion_def Let_def by simp
qed (use assms in \<open>simp add: writeAssertion_def\<close>)

lemma writeAssertions_elements:
  "elements ns w \<Longrightarrow> ns \<noteq> [] \<Longrightarrow> \<exists>w'. writeAssertions as w = Some w' \<and> elements ns w'"
proof (induction "as" arbitrary: w)
  case (Cons a "as")
  then show ?case using writeAssertion_elements [OF Cons.prems, of a] by auto
qed simp

lemma output_elements:
  assumes "elements ns w" "ns \<noteq> []" "element_name n"
  shows "\<exists>w'. write_output n s w = Some w' \<and> elements ns w'"
  unfolding write_output_def
  by (rule scoped_elements [OF assms], rule text_elements [OF attributed_elements], assumption, simp)

lemma testcase_elements:
  assumes "elements ns w" "ns \<noteq> []"
  shows "\<exists>w'. write_testcase cls nm n w = Some w' \<and> elements ns w'"
  unfolding write_testcase_def
proof (rule block_elements [OF assms])
  fix w assume w: "attributed {} (ns @ [''testcase'']) w"
  let ?w = "if cls = [] then writeAttribute_text ''name'' ''root'' (writeAttribute ''classname'' nm w)
    else writeAttribute ''name'' nm (writeAttribute ''classname'' cls w)"
  have "attributed (insert ''name'' (insert ''classname'' {})) (ns @ [''testcase'']) ?w"
    using text_attributed [OF attribute_attributed(1) [OF w, of "''classname''" nm], of "''name''" "''root''"]
      attribute_attributed(1) [OF attribute_attributed(1) [OF w, of "''classname''" cls], of "''name''" nm]
    by simp
  from attribute_attributed(1) [OF this, of "''time''" "ss_duration (sn_stats n)"]
  have "elements (ns @ [''testcase'']) (writeAttribute ''time'' (ss_duration (sn_stats n)) ?w)" by (simp add: attributed_elements)
  from writeAssertions_elements [OF this, of "sn_assertions n"] obtain w1 where
    w1: "writeAssertions (sn_assertions n) (writeAttribute ''time'' (ss_duration (sn_stats n)) ?w) = Some w1" "elements (ns @ [''testcase'']) w1"
    by auto
  obtain w2 where w2: "(if sn_stdOut n \<noteq> [] then write_output ''system-out'' (sn_stdOut n) w1 else Some w1) = Some w2" "elements (ns @ [''testcase'']) w2"
    using output_elements [OF w1(2), of "''system-out''" "sn_stdOut n"] w1(2) by (cases "sn_stdOut n = []") auto
  show "\<exists>w'. (do {
          let w = ?w;
          w \<leftarrow> writeAssertions (sn_assertions n) (writeAttribute ''time'' (ss_duration (sn_stats n)) w);
          w \<leftarrow> (if sn_stdOut n \<noteq> [] then write_output ''system-out'' (sn_stdOut n) w else Some w);
          if sn_stdErr n \<noteq> [] then write_output ''system-err'' (sn_stdErr n) w else Some w
        }) = Some w' \<and> elements (ns @ [''testcase'']) w'"
    unfolding Let_def using w1 w2 output_elements [OF w2(2), of "''system-err''" "sn_stdErr n"] by simp
qed simp

lemma section_elements:
  assumes "ns \<noteq> []"
  shows "elements ns w \<Longrightarrow> \<exists>w'. writeSection cls rootName n w = Some w' \<and> elements ns w'"
    "elements ns w \<Longrightarrow> \<exists>w'. writeSections cls rootName nodes w = Some w' \<and> elements ns w'"
proof (induction cls rootName n w and cls rootName nodes w rule: writeSection_writeSections.induct)
  case (1 cls rootName s cs as out err w)
  let ?n = "SectionNode s cs as out err"
  obtain w1 where w1: "(if as \<noteq> [] \<or> out \<noteq> [] \<or> err \<noteq> [] then write_testcase cls (section_path rootName ?n) ?n w else Some w) = Some w1"
      "elements ns w1"
    using testcase_elements [OF "1.prems" assms, of cls "section_path rootName ?n" ?n] "1.prems"
    by (cases "as \<noteq> [] \<or> out \<noteq> [] \<or> err \<noteq> []") auto
  then show ?case
    using "1.IH" [OF refl refl w1(1)] unfolding writeSection.simps Let_def w1(1) by (cases "cls = []") simp_all
next
  case (3 cls rootName n ms w)
  then show ?case by fastforce
qed simp

lemma cases_elements:
  "elements ns w \<Longrightarrow> ns \<noteq> [] \<Longrightarrow> \<exists>w'. writeTestCases ts w = Some w' \<and> elements ns w'"
proof (induction ts arbitrary: w)
  case (Cons t ts)
  obtain w1 where "writeTestCase t w = Some w1" "elements ns w1"
    using section_elements(1) [OF Cons.prems(2,1)] unfolding writeTestCase_def Let_def by blast
  then show ?case using Cons.IH [OF _ Cons.prems(2)] by simp
qed simp

lemma suite_attributed:
  assumes "attributed {} ns w" "plain_text suiteTime"
  shows "elements ns (suite_attributes g suiteTime r w)"
  unfolding suite_attributes_def Let_def
  by (rule attributed_elements, (rule text_attributed attribute_attributed)+, rule assms(1)) (use assms(2) in simp_all)

lemma writeGroup_elements:
  assumes "elements [''testsuites''] (jr_xml r)" "plain_text suiteTime"
  shows "\<exists>w. writeGroup g suiteTime r = Some (r\<lparr>jr_xml := w\<rparr>) \<and> elements [''testsuites''] w"
proof -
  have "\<exists>w'. (do {
      w \<leftarrow> writeTestCases (gn_children g) (suite_attributes g suiteTime r w);
      w \<leftarrow> write_output ''system-out'' (stdOutForSuite r) w;
      write_output ''system-err'' (stdErrForSuite r) w
    }) = Some w' \<and> elements ([''testsuites''] @ [''testsuite'']) w'" (is "\<exists>w'. ?f w = Some w' \<and> _")
    if w: "attributed {} ([''testsuites''] @ [''testsuite'']) w" for w
  proof -
    obtain w1 where w1: "writeTestCases (gn_children g) (suite_attributes g suiteTime r w) = Some w1"
        "elements ([''testsuites''] @ [''testsuite'']) w1"
      using cases_elements [OF suite_attributed [OF w assms(2)]] by blast
    obtain w2 where w2: "write_output ''system-out'' (stdOutForSuite r) w1 = Some w2" "elements ([''testsuites''] @ [''testsuite'']) w2"
      using output_elements [OF w1(2), of "''system-out''"] by auto
    show ?thesis using w1(1) w2(1) output_elements [OF w2(2), of "''system-err''"] by simp
  qed
  from block_elements [of "[''testsuites'']", OF assms(1) _ _ this, of "\<lambda>w. w"] show ?thesis by (auto simp: writeGroup_def)
qed

section \<open>Every properly nested report is taken\<close>

text \<open>The pointers lead to nodes of the tree of the test case; with \<open>d\<close> sections in progress.\<close>

definition tree_ok :: "nat \<Rightarrow> 'a CumulativeReporterBase_scheme \<Rightarrow> bool" where
  "tree_ok d r \<longleftrightarrow>
     length (m_nodeStack r) = d \<and>
     (\<exists>root p. m_rootSection r = Some root \<and> m_deepestSection r = Some p \<and> (\<forall>q\<in>set (p # m_nodeStack r). node_at q root \<noteq> None))"

definition no_tree :: "'a CumulativeReporterBase_scheme \<Rightarrow> bool" where
  "no_tree r \<longleftrightarrow> m_nodeStack r = [] \<and> m_rootSection r = None"

definition finished :: "'a CumulativeReporterBase_scheme \<Rightarrow> TestCaseNode list" where
  "finished r = concat (map gn_children (m_testGroups r)) @ m_testCases r"

definition collected :: "'a CumulativeReporterBase_scheme \<Rightarrow> AssertionStats multiset" where
  "collected r =
     trees_assertions (map tn_root (finished r)) + (case m_rootSection r of None \<Rightarrow> {#} | Some n \<Rightarrow> tree_assertions n)"

lemma child_index_Some: "child_index l ns = Some k \<Longrightarrow> k < length ns"
  by (induction ns arbitrary: k) (auto split: if_splits)

lemma child_parts [simp]:
  "childSections (add_child c n) = childSections n @ [c]" "childSections (add_assertion a n) = childSections n"
  "childSections (set_stats s n) = childSections n" "childSections (set_output out err n) = childSections n"
  by (simp_all add: add_child_def add_assertion_def set_stats_def set_output_def)

lemma node_at_same:
  assumes "\<And>m. childSections (f m) = childSections m" "node_at q n \<noteq> None"
  shows "node_at q (update_node p f n) \<noteq> None"
  by (rule node_at_kept [OF _ assms(2)]) (simp add: assms(1))

lemma starting_ok:
  assumes "tree_ok d r \<or> no_tree r \<and> d = 0"
  shows "\<exists>root st p. cumulative_sectionStarting i r = Some (r\<lparr>m_rootSection := Some root, m_nodeStack := st, m_deepestSection := Some p\<rparr>) \<and>
     tree_ok (Suc d) (r\<lparr>m_rootSection := Some root, m_nodeStack := st, m_deepestSection := Some p\<rparr>) \<and>
     collected (r\<lparr>m_rootSection := Some root, m_nodeStack := st, m_deepestSection := Some p\<rparr>) = collected r"
proof (cases "m_nodeStack r = []")
  case True
  let ?node = "SectionNode_new \<lparr>ss_sectionInfo = i, ss_assertions = Counts_new, ss_duration = ''0.0'', ss_missingAssertions = False\<rparr>"
  from True show ?thesis
    using assms
    by (intro exI [of _ "case m_rootSection r of None \<Rightarrow> ?node | Some root \<Rightarrow> root"] exI [of _ "[] # []"] exI [of _ "[]"])
      (auto simp: cumulative_sectionStarting_def Let_def tree_ok_def no_tree_def collected_def finished_def split: option.splits)
next
  case False
  let ?p = "last (m_nodeStack r)"
  let ?node = "SectionNode_new \<lparr>ss_sectionInfo = i, ss_assertions = Counts_new, ss_duration = ''0.0'', ss_missingAssertions = False\<rparr>"
  obtain root where root: "m_rootSection r = Some root" "\<forall>q\<in>set (m_nodeStack r). node_at q root \<noteq> None" "length (m_nodeStack r) = d"
    using assms False by (auto simp: tree_ok_def no_tree_def)
  then obtain parent where parent: "node_at ?p root = Some parent" using False by fastforce
  show ?thesis
  proof (cases "child_index (sec_lineInfo i) (childSections parent)")
    case None
    let ?root = "update_node ?p (add_child ?node) root"
    have "node_at q root \<noteq> None \<Longrightarrow> node_at q ?root \<noteq> None" for q by (rule node_at_kept) simp_all
    then have "\<forall>q\<in>set (m_nodeStack r). node_at q ?root \<noteq> None" using root(2) by blast
    moreover have "node_at (?p @ [length (childSections parent)]) ?root \<noteq> None"
      by (simp add: node_at_append node_at_update parent)
    moreover have "tree_assertions ?root = tree_assertions root + {#}"
      by (rule update_assertions) (simp_all add: parent)
    ultimately show ?thesis
      using False root(1,3) parent None
      by (intro exI [of _ ?root] exI [of _ "m_nodeStack r @ [?p @ [length (childSections parent)]]"] exI [of _ "?p @ [length (childSections parent)]"])
        (auto simp: cumulative_sectionStarting_def Let_def tree_ok_def collected_def finished_def)
  next
    case (Some k)
    then have "node_at (?p @ [k]) root \<noteq> None" using child_index_Some [OF Some] by (simp add: node_at_append parent)
    then show ?thesis
      using False root parent Some
      by (intro exI [of _ root] exI [of _ "m_nodeStack r @ [?p @ [k]]"] exI [of _ "?p @ [k]"])
        (auto simp: cumulative_sectionStarting_def Let_def tree_ok_def collected_def finished_def)
  qed
qed

lemma stack_last:
  assumes "tree_ok (Suc d) r"
  shows "m_nodeStack r \<noteq> []" "m_rootSection r = Some root \<Longrightarrow> node_at (last (m_nodeStack r)) root \<noteq> None"
proof -
  show "m_nodeStack r \<noteq> []" using assms by (auto simp: tree_ok_def)
  then show "m_rootSection r = Some root \<Longrightarrow> node_at (last (m_nodeStack r)) root \<noteq> None"
    using assms last_in_set [of "m_nodeStack r"] by (auto simp: tree_ok_def)
qed

lemma assertion_ok:
  assumes "tree_ok (Suc d) r"
  shows "\<exists>root. cumulative_assertionEnded a r = Some (r\<lparr>m_rootSection := Some root\<rparr>) \<and> tree_ok (Suc d) (r\<lparr>m_rootSection := Some root\<rparr>) \<and>
     collected (r\<lparr>m_rootSection := Some root\<rparr>) = add_mset a (collected r)"
proof -
  obtain root p where root: "m_rootSection r = Some root" "m_deepestSection r = Some p" "\<forall>q\<in>set (p # m_nodeStack r). node_at q root \<noteq> None"
      "length (m_nodeStack r) = Suc d"
    using assms by (auto simp: tree_ok_def)
  let ?root = "update_node (last (m_nodeStack r)) (add_assertion a) root"
  have "\<forall>q\<in>set (p # m_nodeStack r). node_at q ?root \<noteq> None" using root(3) node_at_same [of "add_assertion a", OF child_parts(2)] by blast
  moreover have "tree_assertions ?root = tree_assertions root + {#a#}"
    by (rule update_assertions) (simp_all add: stack_last [OF assms] root(1))
  ultimately show ?thesis
    using root stack_last(1) [OF assms] by (auto simp: cumulative_assertionEnded_def tree_ok_def collected_def finished_def)
qed

lemma ended_ok:
  assumes "tree_ok (Suc d) r"
  shows "\<exists>root. cumulative_sectionEnded s r = Some (r\<lparr>m_rootSection := Some root, m_nodeStack := butlast (m_nodeStack r)\<rparr>) \<and>
     tree_ok d (r\<lparr>m_rootSection := Some root, m_nodeStack := butlast (m_nodeStack r)\<rparr>) \<and>
     collected (r\<lparr>m_rootSection := Some root, m_nodeStack := butlast (m_nodeStack r)\<rparr>) = collected r"
proof -
  obtain root p where root: "m_rootSection r = Some root" "m_deepestSection r = Some p" "\<forall>q\<in>set (p # m_nodeStack r). node_at q root \<noteq> None"
      "length (m_nodeStack r) = Suc d"
    using assms by (auto simp: tree_ok_def)
  let ?root = "update_node (last (m_nodeStack r)) (set_stats s) root"
  have "\<forall>q\<in>set (p # m_nodeStack r). node_at q ?root \<noteq> None" using root(3) node_at_same [of "set_stats s", OF child_parts(3)] by blast
  then have "\<forall>q\<in>set (p # butlast (m_nodeStack r)). node_at q ?root \<noteq> None" by (auto dest: in_set_butlastD)
  moreover have "tree_assertions ?root = tree_assertions root + {#}"
    by (rule update_assertions) (simp_all add: stack_last [OF assms] root(1))
  ultimately show ?thesis
    using root stack_last(1) [OF assms] by (auto simp: cumulative_sectionEnded_def tree_ok_def collected_def finished_def)
qed

lemma case_ended_ok:
  assumes "tree_ok 0 r"
  shows "\<exists>root. cumulative_testCaseEnded i totals output r =
       Some (r\<lparr>m_testCases := m_testCases r @ [\<lparr>tn_testInfo = i, tn_totals = totals, tn_root = root\<rparr>], m_rootSection := None\<rparr>) \<and>
     collected (r\<lparr>m_testCases := m_testCases r @ [\<lparr>tn_testInfo = i, tn_totals = totals, tn_root = root\<rparr>], m_rootSection := None\<rparr>) = collected r"
proof -
  obtain root p where root: "m_rootSection r = Some root" "m_deepestSection r = Some p" "node_at p root \<noteq> None" "m_nodeStack r = []"
    using assms by (auto simp: tree_ok_def)
  have "tree_assertions (update_node p (set_output (fst output) (snd output)) root) = tree_assertions root + {#}"
    by (rule update_assertions) (simp_all add: root(3))
  then show ?thesis using root by (auto simp: cumulative_testCaseEnded_def collected_def finished_def)
qed

text \<open>What a report contributes to the trees.\<close>

fun reported_assertions :: "report \<Rightarrow> AssertionStats list" where
  "reported_assertions (AssertionEnded a ms t) =
     [\<lparr>as_assertionResult = a, as_infoMessages = AssertionStats_new a ms 0, as_totals = t\<rparr>]"
| "reported_assertions _ = []"

fun reported_cases :: "report \<Rightarrow> TestCaseInfo list" where
  "reported_cases (TestCaseEnded i t ab) = [i]"
| "reported_cases _ = []"

definition junit_at :: "stage \<Rightarrow> JunitReporter \<Rightarrow> bool" where
  "junit_at st r \<longleftrightarrow>
     elements [''testsuites''] (jr_xml r) \<and> (case st of InCase d \<Rightarrow> tree_ok d r | _ \<Rightarrow> no_tree r) \<and> (st = Outside \<longrightarrow> m_testCases r = [])"

definition takes :: "report list \<Rightarrow> JunitReporter \<Rightarrow> JunitReporter \<Rightarrow> bool" where
  "takes es r r' \<longleftrightarrow>
     collected r' = collected r + mset (concat (map reported_assertions es)) \<and>
     map tn_testInfo (finished r') = map tn_testInfo (finished r) @ concat (map reported_cases es)"

lemma takes_trans: "takes es r r1 \<Longrightarrow> takes fs r1 r2 \<Longrightarrow> takes (es @ fs) r r2"
  by (simp add: takes_def)

lemma report_taken:
  assumes "junit_at st r" "report_next st e = Some st'" "\<And>k. plain_text (je_duration env k)"
  shows "\<exists>r'. junit_report env k e r = Some r' \<and> junit_at st' r' \<and> takes [e] r r'"
  using assms(1,2)
proof (induction st e rule: report_next.induct)
  case (1 n)
  then show ?case by (auto simp: junit_at_def junit_testGroupStarting_def no_tree_def takes_def collected_def finished_def)
next
  case (2 n t a)
  let ?r = "cumulative_testGroupEnded n t r"
  have "elements [''testsuites''] (jr_xml ?r)" using 2 by (simp add: junit_at_def cumulative_testGroupEnded_def)
  from writeGroup_elements [OF this assms(3)] show ?case
    using 2
    by (fastforce simp: junit_testGroupEnded_def junit_at_def cumulative_testGroupEnded_def no_tree_def takes_def collected_def finished_def)
next
  case (3 i)
  then show ?case by (simp add: junit_at_def takes_def)
next
  case (4 i)
  then show ?case
    using starting_ok [of 0 r i] by (fastforce simp: junit_at_def takes_def finished_def)
next
  case (5 i t a)
  let ?r = "r\<lparr>stdOutForSuite := stdOutForSuite r @ fst (je_output env k), stdErrForSuite := stdErrForSuite r @ snd (je_output env k)\<rparr>"
  have "tree_ok 0 ?r" "collected ?r = collected r" "finished ?r = finished r"
    using 5 by (auto simp: junit_at_def tree_ok_def collected_def finished_def)
  with case_ended_ok [of ?r i t "je_output env k"] show ?case
    using 5 by (fastforce simp: junit_at_def junit_testCaseEnded_def takes_def no_tree_def tree_ok_def finished_def)
next
  case (6 d i)
  then show ?case
    using starting_ok [of d r i] by (fastforce simp: junit_at_def takes_def finished_def)
next
  case (7 d i n m)
  then show ?case using ended_ok [of d r] by (fastforce simp: junit_at_def takes_def finished_def)
next
  case (8 d a ms t)
  let ?r = "if getResultType a = ThrewException then r\<lparr>unexpectedExceptions := unexpectedExceptions r + 1\<rparr> else r"
  have "tree_ok (Suc d) ?r" "collected ?r = collected r" "finished ?r = finished r" "jr_xml ?r = jr_xml r"
    using 8 by (auto simp: junit_at_def tree_ok_def collected_def finished_def)
  with assertion_ok [of d ?r] show ?case
    using 8 by (fastforce simp: junit_at_def junit_assertionEnded_def takes_def finished_def)
qed simp_all

lemma reports_taken:
  assumes "junit_at st r" "nested st es = Some st'" "\<And>k. plain_text (je_duration env k)"
  shows "\<exists>r'. junit_reports env k es r = Some r' \<and> junit_at st' r' \<and> takes es r r'"
  using assms(1,2)
proof (induction es arbitrary: st r k)
  case (Cons e es)
  then obtain st1 where st1: "report_next st e = Some st1" "nested st1 es = Some st'" by (auto split: bind_splits)
  obtain r1 where r1: "junit_report env k e r = Some r1" "junit_at st1 r1" "takes [e] r r1"
    using report_taken [OF Cons.prems(1) st1(1) assms(3)] by blast
  from Cons.IH [OF r1(2) st1(2), of "Suc k"] show ?case using r1 takes_trans [OF r1(3)] by fastforce
qed (simp add: takes_def)

lemma junit_start: "junit_at Outside (junit_testRunStarting (JunitReporter_new cfg junk))"
proof -
  have "consistent (Some []) (startElement ''testsuites'' XmlWriter_new) \<and> m_tags (startElement ''testsuites'' XmlWriter_new) = [''testsuites'']"
    using startElement_consistent [OF consistent_new, of "''testsuites''"] by (simp add: XmlWriter_new_def)
  then have "attributed {} [''testsuites''] (startElement ''testsuites'' XmlWriter_new)" by (simp add: attributed_def)
  from attributed_elements [OF this] show ?thesis
    by (simp add: junit_at_def junit_testRunStarting_def JunitReporter_new_def no_tree_def)
qed

lemma junit_run:
  assumes "nested Outside (m_reports c) = Some Outside" "\<And>k. plain_text (je_duration env k)"
  shows "\<exists>r s. junit_reports env 0 (m_reports c) (junit_testRunStarting (JunitReporter_new cfg junk)) = Some r \<and>
     junit_document env cfg junk c = Some s \<and> markup_ok s \<and>
     map tn_testInfo (concat (map gn_children (m_testGroups r))) = concat (map reported_cases (m_reports c)) \<and>
     trees_assertions (map tn_root (concat (map gn_children (m_testGroups r)))) = mset (concat (map reported_assertions (m_reports c)))"
proof -
  obtain r where r: "junit_reports env 0 (m_reports c) (junit_testRunStarting (JunitReporter_new cfg junk)) = Some r" "junit_at Outside r"
      "takes (m_reports c) (junit_testRunStarting (JunitReporter_new cfg junk)) r"
    using reports_taken [OF junit_start assms] by blast
  then have "elements ([] @ [''testsuites'']) (jr_xml r)" by (simp add: junit_at_def)
  from end_elements [OF this] obtain w where w: "endElement (jr_xml r) = Some w" "elements [] w" by blast
  then have "junit_testRunEnded (m_totals c) r = Some ((cumulative_testRunEnded (m_totals c) r)\<lparr>jr_xml := w\<rparr>)"
    by (simp add: junit_testRunEnded_def cumulative_testRunEnded_def)
  moreover have "markup_ok (m_os (XmlWriter_delete w))" using w(2) XmlWriter_delete_markup by (auto simp: elements_def)
  moreover have "m_testCases r = []" "m_rootSection r = None" using r(2) by (auto simp: junit_at_def no_tree_def)
  ultimately show ?thesis
    using r(1,3)
    by (auto simp: junit_document_def takes_def collected_def finished_def junit_testRunStarting_def JunitReporter_new_def)
qed

text \<open>
  The failures of a suite are those of the run without the exceptions. An exception in a test that may
  fail is no failure of the run: the difference is then below zero and wraps around.
\<close>

lemma excused_exceptions_wrap:
  assumes "n_failed (n_assertions (gn_totals g)) < unexpectedExceptions r"
  shows "unat (n_failed (n_assertions (gn_totals g)) - unexpectedExceptions r) + unat (unexpectedExceptions r) =
     2 ^ 32 + unat (n_failed (n_assertions (gn_totals g)))"
proof -
  have "unat (unexpectedExceptions r) < 2 ^ 32" using unsigned_less [of "unexpectedExceptions r", where 'a = nat] by simp
  then show ?thesis using assms by (simp add: unat_sub_if' word_less_nat_alt)
qed

section \<open>Properties\<close>

text \<open>
  C37. A run and its JUnit report. Whatever the tests do, when the runner returns, the trees that the
  reporter has collected hold every test case that was run, in order, and every assertion that was
  reported, none twice, however often the sections of a test were gone into; no pointer and no assert of
  the reporter has failed. The markup of the document written from the trees is right (one root, elements
  that nest, different quoted attributes, known entities, no text that can be taken for markup), provided the clock's
  times have none of the three encoded characters in them; it need not be well-formed XML, since the characters that
  XML forbids are not kept out.
\<close>

theorem junit_report_complete:
  assumes "\<forall>tc\<in>set (getAllTests tests). test_body tc"
    "runTests reg cfg (\<lambda>_. True) flags tests [] = Some (totals, already, c)" "\<forall>k. plain_text (je_duration env k)"
  shows "\<exists>r s. junit_reports env 0 (m_reports c) (junit_testRunStarting (JunitReporter_new cfg junk)) = Some r \<and>
     junit_document env cfg junk c = Some s \<and> markup_ok s \<and>
     map tn_testInfo (concat (map gn_children (m_testGroups r))) = concat (map reported_cases (m_reports c)) \<and>
     trees_assertions (map tn_root (concat (map gn_children (m_testGroups r)))) = mset (concat (map reported_assertions (m_reports c)))"
  using junit_run [OF run_nested [OF assms(1,2)]] assms(3) by blast

theorem junit_report_complete_witness:
  "\<exists>r totals already c s. AutoReg (run_stmts example_test) SourceLineInfo_new ''a test'' ''[!shouldfail]'' TestRegistry_new = Inr r \<and>
     runTests [] (Config_new [] ConfigData_new) (\<lambda>_. True) 0 r [] = Some (totals, already, c) \<and>
     junit_document \<lparr>je_output = \<lambda>_. (''out'', []), je_duration = \<lambda>_. ''0.5''\<rparr> (Config_new [] ConfigData_new) 0 c = Some s \<and>
     markup_ok s"
proof -
  obtain r totals already c where c: "AutoReg (run_stmts example_test) SourceLineInfo_new ''a test'' ''[!shouldfail]'' TestRegistry_new = Inr r"
      "\<forall>tc\<in>set (getAllTests r). test_body tc" "runTests [] (Config_new [] ConfigData_new) (\<lambda>_. True) 0 r [] = Some (totals, already, c)"
    using example_run by blast
  have "\<forall>k. plain_text (je_duration \<lparr>je_output = \<lambda>_. (''out'', []), je_duration = \<lambda>_. ''0.5''\<rparr> k)"
    by (simp add: plain_text_def charsToEncode_def)
  from junit_report_complete [OF c(2,3) this, of 0] show ?thesis using c(1,3) by blast
qed

end
