(* ===== verification/CatchConsole.thy ===== *)
theory CatchConsole
  imports CatchClara CatchReport
begin

text \<open>
  The console reporter of Catch and the base class of the reporters that print as they go. Headers are
  printed late: when there is something to say about a section. Colours are left out. A fault is \<open>None\<close>
  where an assert fails or a null pointer is followed, else that of the text formatter.
\<close>

section \<open>Text\<close>

type_synonym 'a reported = "text_fault option + 'a"

definition nl :: string where
  "nl = [CHR 0x0A]"

definition getLineOfChars :: "char \<Rightarrow> string" where
  "getLineOfChars c = replicate 79 c"

definition text_block :: "string \<Rightarrow> TextAttributes \<Rightarrow> string reported" where
  "text_block s attr = map_sum Some print_lines (Text_new s attr)"

text \<open>\<open>std::string::find\<close> of a colon and a blank.\<close>

fun find_colon :: "string \<Rightarrow> nat option" where
  "find_colon [] = None"
| "find_colon (c # s) = (if c = CHR '':'' \<and> s \<noteq> [] \<and> hd s = CHR '' '' then Some 0 else map_option Suc (find_colon s))"

definition printHeaderString :: "string \<Rightarrow> nat \<Rightarrow> string reported" where
  "printHeaderString s ind =
     (let i = (case find_colon s of Some i \<Rightarrow> i + 2 | None \<Rightarrow> 0)
      in concat_sum [text_block s (TextAttributes_new\<lparr>indent := ind + i, initialIndent := Some ind\<rparr>), Inr nl])"

definition printOpenHeader :: "string \<Rightarrow> string reported" where
  "printOpenHeader n = concat_sum [Inr (getLineOfChars CHR ''-'' @ nl), printHeaderString n 0]"

definition printClosedHeader :: "string \<Rightarrow> string reported" where
  "printClosedHeader n = concat_sum [printOpenHeader n, Inr (getLineOfChars CHR ''.'' @ nl)]"

definition printSummaryDivider :: string where
  "printSummaryDivider = getLineOfChars CHR ''-'' @ nl"

section \<open>One assertion\<close>

text \<open>The words before and after the expression; \<open>n\<close> is the number of messages.\<close>

definition printer_labels :: "AssertionResult \<Rightarrow> nat \<Rightarrow> string \<times> string" where
  "printer_labels result n =
     (let t = getResultType result;
          messages = (\<lambda>s. if n = 1 then s @ ''with message'' else if n > 1 then s @ ''with messages'' else [])
      in if t = ResultOk then (''PASSED'', messages [])
         else if t = ExpressionFailed then (if isOk result then ''FAILED - but was ok'' else ''FAILED'', messages [])
         else if t = ThrewException then (''FAILED'', ''due to unexpected exception with message'')
         else if t = DidntThrowException then (''FAILED'', ''because no exception was thrown where one was expected'')
         else if t = ResultInfo then ([], ''info'')
         else if t = ResultWarning then ([], ''warning'')
         else if t = ExplicitFailure then (''FAILED'', messages ''explicitly '')
         else if t = ResultUnknown \<or> t = FailureBit \<or> t = ResultException then (''** internal error **'', [])
         else ([], []))"

definition printSourceInfo :: "AssertionResult \<Rightarrow> string" where
  "printSourceInfo result = print_line_info (getSourceInfo result) @ '': ''"

definition printResultType :: "string \<Rightarrow> string" where
  "printResultType passOrFail = (if passOrFail \<noteq> [] then passOrFail @ '':'' @ nl else [])"

definition printOriginalExpression :: "AssertionResult \<Rightarrow> string" where
  "printOriginalExpression result = (if hasExpression result then ''  '' @ getExpressionInMacro result @ nl else [])"

definition printReconstructedExpression :: "AssertionResult \<Rightarrow> string reported" where
  "printReconstructedExpression result =
     (if hasExpandedExpression result
      then concat_sum [Inr (''with expansion:'' @ nl), text_block (getExpandedExpression result) (TextAttributes_new\<lparr>indent := 2\<rparr>), Inr nl]
      else Inr [])"

definition printMessage :: "string \<Rightarrow> bool \<Rightarrow> MessageInfo list \<Rightarrow> string reported" where
  "printMessage messageLabel printInfoMessages messages =
     concat_sum
       (Inr (if messageLabel \<noteq> [] then messageLabel @ '':'' @ nl else []) #
        map (\<lambda>m. if printInfoMessages \<or> mi_type m \<noteq> ResultInfo
                 then concat_sum [text_block (mi_message m) (TextAttributes_new\<lparr>indent := 2\<rparr>), Inr nl] else Inr []) messages)"

definition print_assertion :: "AssertionResult \<Rightarrow> MessageInfo list \<Rightarrow> Totals \<Rightarrow> bool \<Rightarrow> string reported" where
  "print_assertion result messages totals printInfoMessages =
     (let (passOrFail, messageLabel) = printer_labels result (length messages)
      in concat_sum
           ([Inr (printSourceInfo result)] @
            (if counts_total (n_assertions totals) > 0
             then [Inr ((if isOk result then nl else []) @ printResultType passOrFail @ printOriginalExpression result),
                   printReconstructedExpression result]
             else [Inr nl]) @
            [printMessage messageLabel printInfoMessages messages]))"

section \<open>The totals\<close>

text \<open>A column of numbers, all as wide as the widest.\<close>

definition pad :: "nat \<Rightarrow> string \<Rightarrow> string" where
  "pad n s = replicate (n - length s) CHR '' '' @ s"

primrec pad_rows :: "string list \<Rightarrow> string \<Rightarrow> string list \<times> string" where
  "pad_rows [] row = ([], row)"
| "pad_rows (r # rs) row =
     (let r = pad (length row) r;
          (rs, row) = pad_rows rs (pad (length r) row)
      in (r # rs, row))"

record SummaryColumn =
  sc_label :: string
  sc_rows :: "string list"

definition SummaryColumn_new :: "string \<Rightarrow> SummaryColumn" where
  "SummaryColumn_new l = \<lparr>sc_label = l, sc_rows = []\<rparr>"

definition addRow :: "u32 \<Rightarrow> SummaryColumn \<Rightarrow> SummaryColumn" where
  "addRow count c = (let (rows, row) = pad_rows (sc_rows c) (decimal (unat count)) in c\<lparr>sc_rows := rows @ [row]\<rparr>)"

definition summary_cell :: "string \<Rightarrow> nat \<Rightarrow> SummaryColumn \<Rightarrow> string" where
  "summary_cell label row c =
     (let value = sc_rows c ! row
      in if sc_label c = [] then label @ '': '' @ (if value \<noteq> ''0'' then value else ''- none -'')
         else if value \<noteq> ''0'' then '' | '' @ value @ '' '' @ sc_label c
         else [])"

definition printSummaryRow :: "string \<Rightarrow> SummaryColumn list \<Rightarrow> nat \<Rightarrow> string" where
  "printSummaryRow label cols row = concat (map (summary_cell label row) cols) @ nl"

definition summary_columns :: "Totals \<Rightarrow> SummaryColumn list" where
  "summary_columns totals =
     (let t = n_testCases totals; a = n_assertions totals
      in [addRow (counts_total a) (addRow (counts_total t) (SummaryColumn_new [])),
          addRow (n_passed a) (addRow (n_passed t) (SummaryColumn_new ''passed'')),
          addRow (n_failed a) (addRow (n_failed t) (SummaryColumn_new ''failed'')),
          addRow (n_failedButOk a) (addRow (n_failedButOk t) (SummaryColumn_new ''failed as expected''))])"

definition printTotals :: "Totals \<Rightarrow> string" where
  "printTotals totals =
     (if counts_total (n_testCases totals) = 0 then ''No tests ran'' @ nl
      else if counts_total (n_assertions totals) > 0 \<and> allPassed (n_assertions totals) then
        ''All tests passed ('' @ print_plural \<lparr>p_count = unat (n_passed (n_assertions totals)), p_label = ''assertion''\<rparr> @ '' in '' @
        print_plural \<lparr>p_count = unat (n_passed (n_testCases totals)), p_label = ''test case''\<rparr> @ '')'' @ nl
      else
        printSummaryRow ''test cases'' (summary_columns totals) 0 @ printSummaryRow ''assertions'' (summary_columns totals) 1)"

text \<open>The bar: how many of its characters each kind of test case gets. The sums are of machine words.\<close>

definition makeRatio :: "u32 \<Rightarrow> u32 \<Rightarrow> u32" where
  "makeRatio number whole =
     (let ratio = (if whole > 0 then 80 * number div whole else 0) in if ratio = 0 \<and> number > 0 then 1 else ratio)"

text \<open>\<open>findMax\<close> returns a reference: \<open>f\<close> is what is done to it.\<close>

definition at_findMax :: "(u32 \<Rightarrow> u32) \<Rightarrow> u32 \<times> u32 \<times> u32 \<Rightarrow> u32 \<times> u32 \<times> u32" where
  "at_findMax f = (\<lambda>(i, j, k). if i > j \<and> i > k then (f i, j, k) else if j > k then (i, f j, k) else (i, j, f k))"

definition ratio_sum :: "u32 \<times> u32 \<times> u32 \<Rightarrow> u32" where
  "ratio_sum = (\<lambda>(i, j, k). i + j + k)"

lemma ratio_sum_at: "ratio_sum (at_findMax (\<lambda>x. x + d) r) = ratio_sum r + d"
  by (cases r) (auto simp: ratio_sum_def at_findMax_def)

lemma unat_pred: "0 < unat (w :: u32) \<Longrightarrow> unat (w - 1) = unat w - 1"
  by (subst unat_sub) (auto simp: word_le_nat_alt)

function grow :: "u32 \<times> u32 \<times> u32 \<Rightarrow> u32 \<times> u32 \<times> u32" where
  "grow r = (if ratio_sum r < 79 then grow (at_findMax (\<lambda>x. x + 1) r) else r)"
  by pat_completeness auto
termination
  by (relation "measure (\<lambda>r. 79 - unat (ratio_sum r))") (auto simp: ratio_sum_at word_less_nat_alt unat_word_ariths)

declare grow.simps [simp del]

function shrink :: "u32 \<times> u32 \<times> u32 \<Rightarrow> u32 \<times> u32 \<times> u32" where
  "shrink r = (if ratio_sum r > 79 then shrink (at_findMax (\<lambda>x. x - 1) r) else r)"
  by pat_completeness auto
termination
  by (relation "measure (\<lambda>r. unat (ratio_sum r))")
    (use ratio_sum_at [of "-1"] in \<open>auto simp: word_less_nat_alt unat_pred\<close>)

declare shrink.simps [simp del]

definition equals_signs :: "u32 \<Rightarrow> string reported" where
  "equals_signs n = (if unat n < 2 ^ 31 then Inr (replicate (unat n) CHR ''='') else Inl (Some LengthError))"

definition divider_ratios :: "Counts \<Rightarrow> u32 \<times> u32 \<times> u32" where
  "divider_ratios t =
     (let whole = counts_total t
      in shrink (grow (makeRatio (n_failed t) whole, makeRatio (n_failedButOk t) whole, makeRatio (n_passed t) whole)))"

definition printTotalsDivider :: "Totals \<Rightarrow> string reported" where
  "printTotalsDivider totals =
     (let t = n_testCases totals
      in if counts_total t > 0
         then
           let (failedRatio, failedButOkRatio, passedRatio) = divider_ratios t
           in concat_sum [equals_signs failedRatio, equals_signs failedButOkRatio, equals_signs passedRatio, Inr nl]
         else Inr (replicate 79 CHR ''='' @ nl))"

section \<open>The reporter\<close>

text \<open>A value that may be there, and whether it has been used.\<close>

record 'a LazyStat =
  ls_value :: "'a option"
  ls_used :: bool

definition LazyStat_assign :: "'a \<Rightarrow> 'a LazyStat" where
  "LazyStat_assign x = \<lparr>ls_value = Some x, ls_used = False\<rparr>"

definition LazyStat_reset :: "'a LazyStat" where
  "LazyStat_reset = \<lparr>ls_value = None, ls_used = False\<rparr>"

record GroupInfo =
  gi_name :: string
  gi_groupsCounts :: nat

record StreamingReporterBase =
  sr_config :: Config
  sr_stream :: string
  currentTestRunInfo :: "string LazyStat"
  currentGroupInfo :: "GroupInfo LazyStat"
  currentTestCaseInfo :: "TestCaseInfo LazyStat"
  m_sectionStack :: "SectionInfo list"

definition emit :: "string reported \<Rightarrow> 'a StreamingReporterBase_scheme \<Rightarrow> 'a StreamingReporterBase_scheme reported" where
  "emit out r = map_sum id (\<lambda>s. r\<lparr>sr_stream := sr_stream r @ s\<rparr>) out"

definition base_testRunStarting :: "string \<Rightarrow> 'a StreamingReporterBase_scheme \<Rightarrow> 'a StreamingReporterBase_scheme" where
  "base_testRunStarting n r = r\<lparr>currentTestRunInfo := LazyStat_assign n\<rparr>"

definition base_testGroupStarting :: "GroupInfo \<Rightarrow> 'a StreamingReporterBase_scheme \<Rightarrow> 'a StreamingReporterBase_scheme" where
  "base_testGroupStarting g r = r\<lparr>currentGroupInfo := LazyStat_assign g\<rparr>"

definition base_testCaseStarting :: "TestCaseInfo \<Rightarrow> 'a StreamingReporterBase_scheme \<Rightarrow> 'a StreamingReporterBase_scheme" where
  "base_testCaseStarting i r = r\<lparr>currentTestCaseInfo := LazyStat_assign i\<rparr>"

definition base_sectionStarting :: "SectionInfo \<Rightarrow> 'a StreamingReporterBase_scheme \<Rightarrow> 'a StreamingReporterBase_scheme" where
  "base_sectionStarting i r = r\<lparr>m_sectionStack := m_sectionStack r @ [i]\<rparr>"

definition base_sectionEnded :: "'a StreamingReporterBase_scheme \<Rightarrow> 'a StreamingReporterBase_scheme reported" where
  "base_sectionEnded r = (if m_sectionStack r = [] then Inl None else Inr (r\<lparr>m_sectionStack := butlast (m_sectionStack r)\<rparr>))"

definition base_testCaseEnded :: "'a StreamingReporterBase_scheme \<Rightarrow> 'a StreamingReporterBase_scheme reported" where
  "base_testCaseEnded r = (if m_sectionStack r \<noteq> [] then Inl None else Inr (r\<lparr>currentTestCaseInfo := LazyStat_reset\<rparr>))"

definition base_testGroupEnded :: "'a StreamingReporterBase_scheme \<Rightarrow> 'a StreamingReporterBase_scheme" where
  "base_testGroupEnded r = r\<lparr>currentGroupInfo := LazyStat_reset\<rparr>"

definition base_testRunEnded :: "'a StreamingReporterBase_scheme \<Rightarrow> 'a StreamingReporterBase_scheme" where
  "base_testRunEnded r = r\<lparr>currentTestCaseInfo := LazyStat_reset, currentGroupInfo := LazyStat_reset, currentTestRunInfo := LazyStat_reset\<rparr>"

record ConsoleReporter = StreamingReporterBase +
  m_headerPrinted :: bool

definition ConsoleReporter_new :: "Config \<Rightarrow> ConsoleReporter" where
  "ConsoleReporter_new cfg =
     \<lparr>sr_config = cfg, sr_stream = [], currentTestRunInfo = LazyStat_reset, currentGroupInfo = LazyStat_reset,
      currentTestCaseInfo = LazyStat_reset, m_sectionStack = [], m_headerPrinted = False\<rparr>"

definition run_info :: "string \<Rightarrow> string" where
  "run_info n =
     nl @ getLineOfChars CHR ''~'' @ nl @ n @ '' is a Catch v1.0 b53 host application.'' @ nl @ ''Run with -? for options'' @ nl @ nl"

definition lazyPrintRunInfo :: "ConsoleReporter \<Rightarrow> ConsoleReporter reported" where
  "lazyPrintRunInfo r =
     (case ls_value (currentTestRunInfo r) of
        None \<Rightarrow> Inl None
      | Some n \<Rightarrow> emit (Inr (run_info n)) (r\<lparr>currentTestRunInfo := (currentTestRunInfo r)\<lparr>ls_used := True\<rparr>\<rparr>))"

definition lazyPrintGroupInfo :: "ConsoleReporter \<Rightarrow> ConsoleReporter reported" where
  "lazyPrintGroupInfo r =
     (case ls_value (currentGroupInfo r) of
        None \<Rightarrow> Inl None
      | Some g \<Rightarrow>
          if gi_name g \<noteq> [] \<and> gi_groupsCounts g > 1
          then emit (printClosedHeader (''Group: '' @ gi_name g)) (r\<lparr>currentGroupInfo := (currentGroupInfo r)\<lparr>ls_used := True\<rparr>\<rparr>)
          else Inr r)"

definition case_header :: "string \<Rightarrow> SectionInfo list \<Rightarrow> string reported" where
  "case_header n stack =
     (let l = sec_lineInfo (hd stack)
      in concat_sum
           (printOpenHeader n # map (\<lambda>i. printHeaderString (sec_name i) 2) (tl stack) @
            [Inr ((if \<not> line_empty l then getLineOfChars CHR ''-'' @ nl @ print_line_info l @ nl else []) @
               getLineOfChars CHR ''.'' @ nl @ nl)]))"

definition printTestCaseAndSectionHeader :: "ConsoleReporter \<Rightarrow> ConsoleReporter reported" where
  "printTestCaseAndSectionHeader r =
     (case ls_value (currentTestCaseInfo r) of
        None \<Rightarrow> Inl None
      | Some i \<Rightarrow> if m_sectionStack r = [] then Inl None else emit (case_header (name i) (m_sectionStack r)) r)"

definition and_then :: "'a reported \<Rightarrow> ('a \<Rightarrow> 'b reported) \<Rightarrow> 'b reported" where
  "and_then x f = (case x of Inl e \<Rightarrow> Inl e | Inr a \<Rightarrow> f a)"

definition lazyPrint :: "ConsoleReporter \<Rightarrow> ConsoleReporter reported" where
  "lazyPrint r =
     and_then (if \<not> ls_used (currentTestRunInfo r) then lazyPrintRunInfo r else Inr r) (\<lambda>r.
     and_then (if \<not> ls_used (currentGroupInfo r) then lazyPrintGroupInfo r else Inr r) (\<lambda>r.
     if \<not> m_headerPrinted r
     then and_then (printTestCaseAndSectionHeader r) (\<lambda>r. Inr (r\<lparr>m_headerPrinted := True\<rparr>))
     else Inr r))"

definition console_noMatchingTestCases :: "string \<Rightarrow> ConsoleReporter \<Rightarrow> ConsoleReporter reported" where
  "console_noMatchingTestCases spec r = emit (Inr (''No test cases matched '' @ [CHR 0x27] @ spec @ [CHR 0x27] @ nl)) r"

text \<open>The answer of \<open>assertionEnded\<close> is \<open>console_assertionEnded\<close>; this is what it prints.\<close>

definition console_print_assertion :: "AssertionResult \<Rightarrow> MessageInfo list \<Rightarrow> Totals \<Rightarrow> ConsoleReporter \<Rightarrow> ConsoleReporter reported" where
  "console_print_assertion result messages totals r =
     (let drop = \<not> includeSuccessfulResults (sr_config r) \<and> isOk result
      in if drop \<and> getResultType result \<noteq> ResultWarning then Inr r
         else
           and_then (lazyPrint r) (\<lambda>r. emit (concat_sum [print_assertion result messages totals (\<not> drop), Inr nl]) r))"

definition console_sectionStarting :: "SectionInfo \<Rightarrow> ConsoleReporter \<Rightarrow> ConsoleReporter" where
  "console_sectionStarting i r = base_sectionStarting i (r\<lparr>m_headerPrinted := False\<rparr>)"

text \<open>\<open>duration\<close> is the text of the duration in seconds.\<close>

definition console_sectionEnded :: "SectionInfo \<Rightarrow> bool \<Rightarrow> string \<Rightarrow> ConsoleReporter \<Rightarrow> ConsoleReporter reported" where
  "console_sectionEnded i missing duration r =
     and_then
       (if missing
        then
          and_then (lazyPrint r) (\<lambda>r. emit (Inr (nl @ ''No assertions in '' @
            (if length (m_sectionStack r) > 1 then ''section'' else ''test case'') @ '' '' @ [CHR 0x27] @ sec_name i @ [CHR 0x27] @ nl @ nl)) r)
        else Inr r) (\<lambda>r.
     let always = showDurations (m_data (sr_config r)) = Always
     in if m_headerPrinted r
        then
          and_then (emit (Inr (if always then ''Completed in '' @ duration @ ''s'' @ nl else [])) r) (\<lambda>r.
          base_sectionEnded (r\<lparr>m_headerPrinted := False\<rparr>))
        else
          and_then (emit (Inr (if always then sec_name i @ '' completed in '' @ duration @ ''s'' @ nl else [])) r) base_sectionEnded)"

definition console_testCaseEnded :: "ConsoleReporter \<Rightarrow> ConsoleReporter reported" where
  "console_testCaseEnded r = and_then (base_testCaseEnded r) (\<lambda>r. Inr (r\<lparr>m_headerPrinted := False\<rparr>))"

definition console_testGroupEnded :: "string \<Rightarrow> Totals \<Rightarrow> ConsoleReporter \<Rightarrow> ConsoleReporter reported" where
  "console_testGroupEnded n totals r =
     and_then
       (if ls_used (currentGroupInfo r)
        then emit (Inr (printSummaryDivider @ ''Summary for group '' @ [CHR 0x27] @ n @ [CHR 0x27] @ '':'' @ nl @ printTotals totals @ nl @ nl)) r
        else Inr r)
       (\<lambda>r. Inr (base_testGroupEnded r))"

definition console_testRunEnded :: "Totals \<Rightarrow> ConsoleReporter \<Rightarrow> ConsoleReporter reported" where
  "console_testRunEnded totals r =
     and_then (emit (concat_sum [printTotalsDivider totals, Inr (printTotals totals @ nl)]) r) (\<lambda>r. Inr (base_testRunEnded r))"

text \<open>One report; \<open>durations k\<close> is the text of the duration of the \<open>k\<close>-th. A run has one group.\<close>

fun console_report :: "(nat \<Rightarrow> string) \<Rightarrow> nat \<Rightarrow> report \<Rightarrow> ConsoleReporter \<Rightarrow> ConsoleReporter reported" where
  "console_report durations k (TestGroupStarting n) r = Inr (base_testGroupStarting \<lparr>gi_name = n, gi_groupsCounts = 1\<rparr> r)"
| "console_report durations k (TestGroupEnded n totals ab) r = console_testGroupEnded n totals r"
| "console_report durations k (TestCaseStarting i) r = Inr (base_testCaseStarting i r)"
| "console_report durations k (TestCaseEnded i totals ab) r = console_testCaseEnded r"
| "console_report durations k (SectionStarting i) r = Inr (console_sectionStarting i r)"
| "console_report durations k (SectionEnded i counts missing) r = console_sectionEnded i missing (durations k) r"
| "console_report durations k (AssertionEnded a messages totals) r =
     console_print_assertion a (AssertionStats_new a messages 0) totals r"

primrec console_reports :: "(nat \<Rightarrow> string) \<Rightarrow> nat \<Rightarrow> report list \<Rightarrow> ConsoleReporter \<Rightarrow> ConsoleReporter reported" where
  "console_reports durations k [] r = Inr r"
| "console_reports durations k (e # es) r = and_then (console_report durations k e r) (console_reports durations (Suc k) es)"

definition console_output :: "(nat \<Rightarrow> string) \<Rightarrow> Config \<Rightarrow> RunContext \<Rightarrow> string reported" where
  "console_output durations cfg c =
     and_then (console_reports durations 0 (m_reports c) (base_testRunStarting (config_name cfg) (ConsoleReporter_new cfg))) (\<lambda>r.
     and_then (console_testRunEnded (m_totals c) r) (\<lambda>r. Inr (sr_stream r)))"

section \<open>The bar has its length\<close>

definition nat_sum :: "u32 \<times> u32 \<times> u32 \<Rightarrow> nat" where
  "nat_sum = (\<lambda>(i, j, k). unat i + unat j + unat k)"

lemma unat_ratio_sum: "nat_sum r < 2 ^ 32 \<Longrightarrow> unat (ratio_sum r) = nat_sum r"
  by (cases r) (simp add: nat_sum_def ratio_sum_def unat_word_ariths)

text \<open>The largest of three, and what is done to it.\<close>

lemma at_findMax_cases:
  obtains (first) i j k where "r = (i, j, k)" "j \<le> i" "k \<le> i" "\<And>f. at_findMax f r = (f i, j, k)"
  | (second) i j k where "r = (i, j, k)" "i \<le> j" "k \<le> j" "\<And>f. at_findMax f r = (i, f j, k)"
  | (third) i j k where "r = (i, j, k)" "i \<le> k" "j \<le> k" "\<And>f. at_findMax f r = (i, j, f k)"
proof -
  obtain i j k where r: "r = (i, j, k)" by (cases r)
  consider "i > j \<and> i > k" | "\<not> (i > j \<and> i > k)" "j > k" | "\<not> (i > j \<and> i > k)" "\<not> j > k" by blast
  then show ?thesis
  proof cases
    case 1
    then have "j \<le> i" "k \<le> i" by auto
    from first [OF r this] show ?thesis using 1 r by (simp add: at_findMax_def)
  next
    case 2
    then have "i \<le> j" "k \<le> j" by auto
    from second [OF r this] show ?thesis using 2 r by (simp add: at_findMax_def)
  next
    case 3
    then have "i \<le> k" "j \<le> k" by auto
    from third [OF r this] show ?thesis using 3 r by (simp add: at_findMax_def)
  qed
qed

text \<open>Each part that has a character keeps one.\<close>

definition keeps :: "u32 \<times> u32 \<times> u32 \<Rightarrow> u32 \<times> u32 \<times> u32 \<Rightarrow> bool" where
  "keeps r r' \<longleftrightarrow>
     (case (r, r') of ((i, j, k), (i', j', k')) \<Rightarrow> (i > 0 \<longrightarrow> i' > 0) \<and> (j > 0 \<longrightarrow> j' > 0) \<and> (k > 0 \<longrightarrow> k' > 0))"

lemma keeps_refl [simp]: "keeps r r"
  by (simp add: keeps_def split: prod.split)

lemma keeps_trans: "keeps r r' \<Longrightarrow> keeps r' r'' \<Longrightarrow> keeps r r''"
  by (auto simp: keeps_def)

lemma unat_suc: "unat (w :: u32) + 1 < 2 ^ 32 \<Longrightarrow> unat (w + 1) = unat w + 1"
  by (simp add: unat_word_ariths)

lemma step_up:
  assumes "nat_sum r < 79"
  shows "nat_sum (at_findMax (\<lambda>x. x + 1) r) = nat_sum r + 1" "keeps r (at_findMax (\<lambda>x. x + 1) r)"
  by (cases rule: at_findMax_cases [of r]; use assms in \<open>simp add: nat_sum_def keeps_def word_less_nat_alt unat_suc\<close>)+

lemma step_down:
  assumes "79 < nat_sum r"
  shows "nat_sum (at_findMax (\<lambda>x. x - 1) r) = nat_sum r - 1" "keeps r (at_findMax (\<lambda>x. x - 1) r)"
  by (cases rule: at_findMax_cases [of r]; use assms in \<open>simp add: nat_sum_def keeps_def word_less_nat_alt word_le_nat_alt unat_pred\<close>)+

lemma grown:
  assumes "nat_sum r < 2 ^ 32"
  shows "nat_sum (grow r) = max 79 (nat_sum r) \<and> keeps r (grow r)"
  using assms
proof (induction r rule: grow.induct)
  case (1 r)
  show ?case
  proof (cases "nat_sum r < 79")
    case True
    then have "ratio_sum r < 79" using unat_ratio_sum [OF "1.prems"] by (simp add: word_less_nat_alt)
    then show ?thesis
      using "1.IH" step_up [OF True] True keeps_trans by (auto simp: grow.simps [of r])
  next
    case False
    then have "\<not> ratio_sum r < 79" using unat_ratio_sum [OF "1.prems"] by (simp add: word_less_nat_alt)
    then show ?thesis using False by (simp add: grow.simps [of r])
  qed
qed

lemma shrunk:
  assumes "79 \<le> nat_sum r" "nat_sum r < 2 ^ 32"
  shows "nat_sum (shrink r) = 79 \<and> keeps r (shrink r)"
  using assms
proof (induction r rule: shrink.induct)
  case (1 r)
  show ?case
  proof (cases "79 < nat_sum r")
    case True
    then have "ratio_sum r > 79" using unat_ratio_sum [OF "1.prems"(2)] by (simp add: word_less_nat_alt)
    then show ?thesis
      using "1.IH" step_down [OF True] True "1.prems"(2) keeps_trans by (auto simp: shrink.simps [of r])
  next
    case False
    then have "\<not> ratio_sum r > 79" using unat_ratio_sum [OF "1.prems"(2)] by (simp add: word_less_nat_alt)
    then show ?thesis using False "1.prems"(1) by (simp add: shrink.simps [of r])
  qed
qed

lemma makeRatio_bounds:
  assumes "unat n \<le> unat whole" "unat whole < 2 ^ 25"
  shows "unat (makeRatio n whole) \<le> 80" "n > 0 \<Longrightarrow> makeRatio n whole > 0"
proof -
  have "unat (80 * n) = 80 * unat n" using assms by (simp add: unat_word_ariths)
  then have "unat (80 * n div whole) = 80 * unat n div unat whole" by (simp add: unat_div)
  moreover have "80 * unat n div unat whole \<le> 80"
  proof (cases "unat whole = 0")
    case False
    have "80 * unat n div unat whole \<le> 80 * unat whole div unat whole" using assms(1) by (intro div_le_mono) simp
    then show ?thesis using False by simp
  qed simp
  ultimately show "unat (makeRatio n whole) \<le> 80" by (simp add: makeRatio_def Let_def)
  show "n > 0 \<Longrightarrow> makeRatio n whole > 0" by (simp add: makeRatio_def Let_def word_neq_0_conv)
qed

lemma divider_shares:
  assumes "unat (n_failed t) + unat (n_failedButOk t) + unat (n_passed t) < 2 ^ 25"
  shows "\<exists>i j k. divider_ratios t = (i, j, k) \<and> unat i + unat j + unat k = 79 \<and>
     (n_failed t > 0 \<longrightarrow> i > 0) \<and> (n_failedButOk t > 0 \<longrightarrow> j > 0) \<and> (n_passed t > 0 \<longrightarrow> k > 0)"
proof -
  let ?w = "counts_total t"
  let ?r = "(makeRatio (n_failed t) ?w, makeRatio (n_failedButOk t) ?w, makeRatio (n_passed t) ?w)"
  have w: "unat ?w = unat (n_failed t) + unat (n_failedButOk t) + unat (n_passed t)"
    using assms by (simp add: counts_total_def unat_word_ariths)
  then have b: "unat n \<le> unat ?w \<Longrightarrow> unat (makeRatio n ?w) \<le> 80" "unat n \<le> unat ?w \<Longrightarrow> n > 0 \<Longrightarrow> makeRatio n ?w > 0" for n
    using makeRatio_bounds assms by auto
  have "nat_sum ?r \<le> 240" using b(1) [of "n_failed t"] b(1) [of "n_failedButOk t"] b(1) [of "n_passed t"] w by (simp add: nat_sum_def)
  then have g: "nat_sum (grow ?r) = max 79 (nat_sum ?r)" "keeps ?r (grow ?r)" "nat_sum ?r \<le> 240" using grown [of ?r] by auto
  then have "nat_sum (shrink (grow ?r)) = 79 \<and> keeps (grow ?r) (shrink (grow ?r))" using shrunk [of "grow ?r"] by auto
  moreover from this have "keeps ?r (shrink (grow ?r))" using g(2) keeps_trans by blast
  moreover have "divider_ratios t = shrink (grow ?r)" by (simp add: divider_ratios_def Let_def)
  ultimately show ?thesis
    using b(2) [of "n_failed t"] b(2) [of "n_failedButOk t"] b(2) [of "n_passed t"] w
    by (cases "shrink (grow ?r)") (auto simp: nat_sum_def keeps_def)
qed

lemma divider_line:
  assumes "unat (n_failed (n_testCases totals)) + unat (n_failedButOk (n_testCases totals)) + unat (n_passed (n_testCases totals)) < 2 ^ 25"
  shows "printTotalsDivider totals = Inr (replicate 79 CHR ''='' @ nl)"
proof -
  obtain i j k where r: "divider_ratios (n_testCases totals) = (i, j, k)" "unat i + unat j + unat k = 79"
    using divider_shares [OF assms] by blast
  then have "replicate (unat i) CHR ''='' @ replicate (unat j) CHR ''='' @ replicate (unat k) CHR ''='' = replicate 79 CHR ''=''"
    by (simp flip: replicate_add)
  then show ?thesis using r by (simp add: printTotalsDivider_def Let_def equals_signs_def flip: append_assoc)
qed

section \<open>Nothing is printed while all is well\<close>

fun says_nothing :: "report \<Rightarrow> bool" where
  "says_nothing (AssertionEnded a ms t) \<longleftrightarrow> isOk a \<and> getResultType a \<noteq> ResultWarning"
| "says_nothing (SectionEnded i n missing) \<longleftrightarrow> \<not> missing"
| "says_nothing _ \<longleftrightarrow> True"

definition silent_at :: "Config \<Rightarrow> stage \<Rightarrow> ConsoleReporter \<Rightarrow> bool" where
  "silent_at cfg st r \<longleftrightarrow>
     sr_config r = cfg \<and> sr_stream r = [] \<and> length (m_sectionStack r) = depth_of st \<and> \<not> ls_used (currentGroupInfo r) \<and> \<not> m_headerPrinted r"

lemma report_silent:
  assumes "\<not> includeSuccessfulResults cfg" "showDurations (m_data cfg) \<noteq> Always" "silent_at cfg st r" "says_nothing e"
    "report_next st e = Some st'"
  shows "\<exists>r'. console_report durations k e r = Inr r' \<and> silent_at cfg st' r'"
  using assms(3-5)
proof (induction st e rule: report_next.induct)
  case (7 d i n m)
  then have "m_sectionStack r \<noteq> []" by (auto simp: silent_at_def)
  then show ?case
    using 7 assms(1,2) by (auto simp: silent_at_def console_sectionEnded_def and_then_def emit_def Let_def base_sectionEnded_def)
qed (use assms(1,2) in \<open>auto simp: silent_at_def base_testGroupStarting_def LazyStat_assign_def console_testGroupEnded_def
    and_then_def base_testGroupEnded_def LazyStat_reset_def base_testCaseStarting_def console_sectionStarting_def base_sectionStarting_def
    console_testCaseEnded_def base_testCaseEnded_def console_print_assertion_def Let_def\<close>)

lemma reports_silent:
  assumes "\<not> includeSuccessfulResults cfg" "showDurations (m_data cfg) \<noteq> Always" "silent_at cfg st r" "\<forall>e\<in>set es. says_nothing e"
    "nested st es = Some st'"
  shows "\<exists>r'. console_reports durations k es r = Inr r' \<and> silent_at cfg st' r'"
  using assms(3-5)
proof (induction es arbitrary: st r k)
  case (Cons e es)
  then obtain st1 where st1: "report_next st e = Some st1" "nested st1 es = Some st'" by (auto split: bind_splits)
  obtain r1 where "console_report durations k e r = Inr r1" "silent_at cfg st1 r1"
    using report_silent [OF assms(1,2) Cons.prems(1) _ st1(1), where durations = durations and k = k] Cons.prems(2) by auto
  then show ?case using Cons.IH [of st1 r1 "Suc k"] Cons.prems(2) st1(2) by (auto simp: and_then_def)
qed auto

section \<open>Properties\<close>

text \<open>
  The bar under a run. With fewer than \<open>2 ^ 25\<close> test cases both loops end and share 79 characters
  out among failed, excused and passed test cases, and each kind that occurs gets one at least.
\<close>

theorem totals_divider_shares:
  assumes "unat (n_failed t) + unat (n_failedButOk t) + unat (n_passed t) < 2 ^ 25"
  shows "\<exists>i j k. divider_ratios t = (i, j, k) \<and> unat i + unat j + unat k = 79 \<and>
     (n_failed t > 0 \<longrightarrow> i > 0) \<and> (n_failedButOk t > 0 \<longrightarrow> j > 0) \<and> (n_passed t > 0 \<longrightarrow> k > 0)"
  by (rule divider_shares [OF assms])

theorem totals_divider_shares_witness:
  "\<exists>i j k. divider_ratios \<lparr>n_passed = 1000, n_failed = 1, n_failedButOk = 0\<rparr> = (i, j, k) \<and> unat i + unat j + unat k = 79 \<and> i > 0 \<and> k > 0"
  using totals_divider_shares [of "\<lparr>n_passed = 1000, n_failed = 1, n_failedButOk = 0\<rparr>"] by auto

text \<open>
  C38. What one sees when all tests pass. Let the assertions of all registered tests hold, no test use
  \<open>WARN\<close>, the sections on each level and the tests have different names, and let the configuration
  neither print successes nor durations, nor warn of missing assertions, nor set the limit of failures
  to 0. If at least one test is selected, and fewer than \<open>2 ^ 25\<close>, then with the console reporter the
  runner returns, the exit code is 0, and the output is the bar and one line that names the number of
  assertions and of test cases, and nothing else; if no assertion was counted, the table of the totals
  takes the place of that line.
\<close>

theorem console_all_passed:
  assumes "\<forall>tc\<in>set (getAllTests tests). \<exists>ss. case_passes False tc ss" "distinct (map name (getAllTests tests))"
    "\<not> warnAboutMissingAssertions cfg" "word_of_int (abortAfter (m_data cfg)) \<noteq> (0 :: u32)"
    "\<not> includeSuccessfulResults cfg" "showDurations (m_data cfg) \<noteq> Always"
    "n = length (getFilteredTests (if hasFilters (cfg_testSpec cfg) then cfg_testSpec cfg else parseTestSpec reg ''~[.]'')
       (allowThrows cfg) tests [])" "0 < n" "n < 2 ^ 25"
  shows "\<exists>totals already c. runTests reg cfg (console_assertionEnded cfg) junk tests [] = Some (totals, already, c) \<and>
     session_result totals = 0 \<and>
     console_output durations cfg c =
       Inr (replicate 79 CHR ''='' @ nl @
         (if n_passed (n_assertions (m_totals c)) = 0 then printTotals (m_totals c)
          else
            ''All tests passed ('' @
            print_plural \<lparr>p_count = unat (n_passed (n_assertions (m_totals c))), p_label = ''assertion''\<rparr> @ '' in '' @
            print_plural \<lparr>p_count = n, p_label = ''test case''\<rparr> @ '')'' @ nl) @ nl)"
proof -
  obtain totals already c where c: "runTests reg cfg (console_assertionEnded cfg) junk tests [] = Some (totals, already, c)"
      "n_testCases (m_totals c) = \<lparr>n_passed = of_nat n, n_failed = 0, n_failedButOk = 0\<rparr>" "session_result totals = 0"
      "allPassed (n_assertions (m_totals c))" "\<forall>e\<in>set (m_reports c). report_ok False e"
    using passing_tests_run [OF assms(1-4), of reg "console_assertionEnded cfg" junk] assms(7) by auto
  have "\<forall>tc\<in>set (getAllTests tests). test_body tc" using assms(1) by (auto simp: test_body_def case_passes_def)
  note nest = run_nested [OF this c(1)]
  have n: "unat (of_nat n :: u32) = n" using assms(9) by (simp add: unat_of_nat)
  then have pos: "(of_nat n :: u32) > 0" using assms(8) by (simp add: word_less_nat_alt)
  have "says_nothing e" if "e \<in> set (m_reports c)" for e using bspec [OF c(5) that] by (cases e) auto
  moreover have "silent_at cfg Outside (base_testRunStarting (config_name cfg) (ConsoleReporter_new cfg))"
    by (simp add: silent_at_def base_testRunStarting_def ConsoleReporter_new_def LazyStat_reset_def)
  ultimately obtain r where r: "console_reports durations 0 (m_reports c) (base_testRunStarting (config_name cfg) (ConsoleReporter_new cfg)) = Inr r"
      "sr_stream r = []"
    using reports_silent [OF assms(5,6) _ _ nest, where durations = durations and k = 0] by (auto simp: silent_at_def)
  have d: "printTotalsDivider (m_totals c) = Inr (replicate 79 CHR ''='' @ nl)"
    by (rule divider_line) (use c(2) n assms(9) in simp)
  have "counts_total (n_testCases (m_totals c)) \<noteq> 0" "counts_total (n_assertions (m_totals c)) = n_passed (n_assertions (m_totals c))"
    using c(2,4) pos by (auto simp: counts_total_def allPassed_def)
  then have "console_output durations cfg c =
       Inr (replicate 79 CHR ''='' @ nl @
         (if n_passed (n_assertions (m_totals c)) = 0 then printTotals (m_totals c)
          else
            ''All tests passed ('' @
            print_plural \<lparr>p_count = unat (n_passed (n_assertions (m_totals c))), p_label = ''assertion''\<rparr> @ '' in '' @
            print_plural \<lparr>p_count = n, p_label = ''test case''\<rparr> @ '')'' @ nl) @ nl)"
    using r d c(2,4) n
    by (simp add: console_output_def and_then_def console_testRunEnded_def emit_def base_testRunEnded_def printTotals_def flip: word_neq_0_conv)
  with c(1,3) show ?thesis by blast
qed

theorem console_all_passed_witness:
  "\<exists>r totals already c s. AutoReg (run_stmts example_test) SourceLineInfo_new ''a test'' ''[!shouldfail]'' TestRegistry_new = Inr r \<and>
     runTests [] (Config_new [] ConfigData_new) (console_assertionEnded (Config_new [] ConfigData_new)) 0 r [] = Some (totals, already, c) \<and>
     console_output (\<lambda>_. ''0'') (Config_new [] ConfigData_new) c = Inr (replicate 79 CHR ''='' @ nl @ s)"
proof -
  let ?cfg = "Config_new [] ConfigData_new"
  obtain r tc where r: "AutoReg (run_stmts example_test) SourceLineInfo_new ''a test'' ''[!shouldfail]'' TestRegistry_new = Inr r"
      "getAllTests r = [tc]" "test tc = run_stmts example_test" "lcaseTags tc = [''!shouldfail'']"
    using example_registered by blast
  have "getFilteredTests (parseTestSpec [] ''~[.]'') True r [] = [tc]"
    using r(2,4) by (simp add: getFilteredTests_def getAllTests_def filter_tests_eq default_spec aliases_ok_def)
  moreover have "showDurations (m_data ?cfg) \<noteq> Always" "\<not> includeSuccessfulResults ?cfg"
    by (simp_all add: Config_new_def ConfigData_new_def includeSuccessfulResults_def)
  ultimately show ?thesis
    using console_all_passed [of r ?cfg 1 "[]" 0 "\<lambda>_. ''0''"] r default_config exI [where P = "case_passes False tc", OF example_passes [OF r(3)]] by auto
qed

text \<open>A zero in a column that is padded is not recognised as one.\<close>

lemma padded_zero_printed:
  "printSummaryRow ''test cases'' (summary_columns
     \<lparr>n_assertions = \<lparr>n_passed = 10, n_failed = 1, n_failedButOk = 0\<rparr>, n_testCases = \<lparr>n_passed = 0, n_failed = 1, n_failedButOk = 0\<rparr>\<rparr>) 0 =
   ''test cases:  1 |  0 passed | 1 failed'' @ nl"
proof -
  have "decimal 0 = ''0''" "decimal 1 = ''1''" "decimal (Suc 0) = ''1''" "decimal 10 = ''10''" "decimal 11 = ''11''" by code_simp+
  then show ?thesis
    by (simp add: printSummaryRow_def summary_columns_def summary_cell_def addRow_def SummaryColumn_new_def pad_def counts_total_def Let_def)
qed

end
