(* ===== verification/CatchCompact.thy ===== *)
theory CatchCompact
  imports CatchConsole
begin

text \<open>
  The compact reporter of Catch: one line for each result. Printing the messages is a loop that need not
  end; a call that does not return is \<open>None\<close>.
\<close>

section \<open>One assertion\<close>

text \<open>A message in single quotes, the next one if there is one: the text and the messages that are left.\<close>

definition quoted_message :: "MessageInfo \<Rightarrow> string" where
  "quoted_message m = '' '' @ [CHR 0x27] @ mi_message m @ [CHR 0x27]"

definition compact_printMessage :: "MessageInfo list \<Rightarrow> string \<times> MessageInfo list" where
  "compact_printMessage ms = (case ms of [] \<Rightarrow> ([], []) | m # ms \<Rightarrow> (quoted_message m, ms))"

text \<open>The loop goes on to the next message only if it has printed this one.\<close>

partial_function (option) remaining_loop :: "bool \<Rightarrow> MessageInfo list \<Rightarrow> string \<Rightarrow> string option" where
  "remaining_loop printInfoMessages ms out =
     (case ms of
        [] \<Rightarrow> Some out
      | m # rest \<Rightarrow>
          if printInfoMessages \<or> mi_type m \<noteq> ResultInfo
          then remaining_loop printInfoMessages rest (out @ quoted_message m @ (if rest \<noteq> [] then '' and'' else []))
          else remaining_loop printInfoMessages ms out)"

definition printRemainingMessages :: "bool \<Rightarrow> MessageInfo list \<Rightarrow> string option" where
  "printRemainingMessages printInfoMessages ms =
     (if ms = [] then Some []
      else remaining_loop printInfoMessages ms ('' with '' @ print_plural \<lparr>p_count = length ms, p_label = ''message''\<rparr> @ '':''))"

definition compact_resultType :: "string \<Rightarrow> string" where
  "compact_resultType passOrFail = (if passOrFail \<noteq> [] then '' '' @ passOrFail @ '':'' else [])"

definition printIssue :: "string \<Rightarrow> string" where
  "printIssue issue = '' '' @ issue"

definition compact_originalExpression :: "AssertionResult \<Rightarrow> string" where
  "compact_originalExpression result = (if hasExpression result then '' '' @ getExpression result else [])"

definition compact_reconstructedExpression :: "AssertionResult \<Rightarrow> string" where
  "compact_reconstructedExpression result = (if hasExpandedExpression result then '' for: '' @ getExpandedExpression result else [])"

definition printExpressionWas :: "AssertionResult \<Rightarrow> string" where
  "printExpressionWas result = (if hasExpression result then ''; expression was:'' @ compact_originalExpression result else [])"

definition compact_print :: "AssertionResult \<Rightarrow> MessageInfo list \<Rightarrow> bool \<Rightarrow> string option" where
  "compact_print result messages printInfo =
     (let t = getResultType result;
          source = print_line_info (getSourceInfo result) @ '':'';
          (first, rest) = compact_printMessage messages;
          expression = compact_originalExpression result @ compact_reconstructedExpression result;
          line = (\<lambda>s ms. map_option (\<lambda>r. source @ s @ r) (printRemainingMessages printInfo ms))
      in if t = ResultOk then line (compact_resultType ''passed'' @ expression) messages
         else if t = ExpressionFailed then
           line (compact_resultType (if isOk result then ''failed - but was ok'' else ''failed'') @ expression) messages
         else if t = ThrewException then
           line (compact_resultType ''failed'' @ printIssue ''unexpected exception with message:'' @ first @ printExpressionWas result) rest
         else if t = DidntThrowException then
           line (compact_resultType ''failed'' @ printIssue ''expected exception, got none'' @ printExpressionWas result) messages
         else if t = ResultInfo then line (compact_resultType ''info'' @ first) rest
         else if t = ResultWarning then line (compact_resultType ''warning'' @ first) rest
         else if t = ExplicitFailure then line (compact_resultType ''failed'' @ printIssue ''explicitly'') messages
         else if t = ResultUnknown \<or> t = FailureBit \<or> t = ResultException
         then Some (source @ compact_resultType ''** internal error **'')
         else Some source)"

section \<open>The totals\<close>

definition bothOrAll :: "u32 \<Rightarrow> string" where
  "bothOrAll count = (if count = 1 then [] else if count = 2 then ''both '' else ''all '')"

definition counted :: "u32 \<Rightarrow> string \<Rightarrow> string" where
  "counted n l = print_plural \<lparr>p_count = unat n, p_label = l\<rparr>"

definition compact_printTotals :: "Totals \<Rightarrow> string" where
  "compact_printTotals totals =
     (let t = n_testCases totals; a = n_assertions totals
      in if counts_total t = 0 then ''No tests ran.''
         else if n_failed t = counts_total t then
           ''Failed '' @ bothOrAll (n_failed t) @ counted (n_failed t) ''test case'' @ '', failed '' @
           (if n_failed a = counts_total a then bothOrAll (n_failed a) else []) @ counted (n_failed a) ''assertion'' @ ''.''
         else if counts_total a = 0 then
           ''Passed '' @ bothOrAll (counts_total t) @ counted (counts_total t) ''test case'' @ '' (no assertions).''
         else if n_failed a \<noteq> 0 then
           ''Failed '' @ counted (n_failed t) ''test case'' @ '', failed '' @ counted (n_failed a) ''assertion'' @ ''.''
         else
           ''Passed '' @ bothOrAll (n_passed t) @ counted (n_passed t) ''test case'' @ '' with '' @ counted (n_passed a) ''assertion'' @ ''.'')"

section \<open>The reporter\<close>

type_synonym CompactReporter = StreamingReporterBase

definition CompactReporter_new :: "Config \<Rightarrow> CompactReporter" where
  "CompactReporter_new cfg =
     \<lparr>sr_config = cfg, sr_stream = [], currentTestRunInfo = LazyStat_reset, currentGroupInfo = LazyStat_reset,
      currentTestCaseInfo = LazyStat_reset, m_sectionStack = []\<rparr>"

definition write_line :: "string \<Rightarrow> CompactReporter \<Rightarrow> CompactReporter" where
  "write_line s r = r\<lparr>sr_stream := sr_stream r @ s @ nl\<rparr>"

text \<open>What \<open>assertionEnded\<close> prints; its answer is \<open>console_assertionEnded\<close>.\<close>

definition compact_assertion :: "AssertionResult \<Rightarrow> MessageInfo list \<Rightarrow> CompactReporter \<Rightarrow> CompactReporter option" where
  "compact_assertion result messages r =
     (let drop = \<not> includeSuccessfulResults (sr_config r) \<and> isOk result
      in if drop \<and> getResultType result \<noteq> ResultWarning then Some r
         else map_option (\<lambda>s. write_line s r) (compact_print result messages (\<not> drop)))"

definition compact_testRunEnded :: "Totals \<Rightarrow> CompactReporter \<Rightarrow> CompactReporter" where
  "compact_testRunEnded totals r = base_testRunEnded (write_line (compact_printTotals totals @ nl) r)"

text \<open>The other reports only change the base class.\<close>

fun compact_report :: "report \<Rightarrow> CompactReporter \<Rightarrow> CompactReporter reported option" where
  "compact_report (TestGroupStarting n) r = Some (Inr (base_testGroupStarting \<lparr>gi_name = n, gi_groupsCounts = 1\<rparr> r))"
| "compact_report (TestGroupEnded n totals ab) r = Some (Inr (base_testGroupEnded r))"
| "compact_report (TestCaseStarting i) r = Some (Inr (base_testCaseStarting i r))"
| "compact_report (TestCaseEnded i totals ab) r = Some (base_testCaseEnded r)"
| "compact_report (SectionStarting i) r = Some (Inr (base_sectionStarting i r))"
| "compact_report (SectionEnded i counts missing) r = Some (base_sectionEnded r)"
| "compact_report (AssertionEnded a messages totals) r = map_option Inr (compact_assertion a (AssertionStats_new a messages 0) r)"

primrec compact_reports :: "report list \<Rightarrow> CompactReporter \<Rightarrow> CompactReporter reported option" where
  "compact_reports [] r = Some (Inr r)"
| "compact_reports (e # es) r =
     (case compact_report e r of
        None \<Rightarrow> None
      | Some (Inl f) \<Rightarrow> Some (Inl f)
      | Some (Inr r) \<Rightarrow> compact_reports es r)"

definition compact_output :: "Config \<Rightarrow> RunContext \<Rightarrow> string reported option" where
  "compact_output cfg c =
     map_option (map_sum id (\<lambda>r. sr_stream (compact_testRunEnded (m_totals c) r)))
       (compact_reports (m_reports c) (base_testRunStarting (config_name cfg) (CompactReporter_new cfg)))"

section \<open>When the loop ends\<close>

lemma stuck_message:
  assumes "\<not> printInfoMessages" "mi_type m = ResultInfo" "remaining_loop printInfoMessages (m # rest) out = Some s"
  shows False
proof -
  have "\<not> p \<longrightarrow> ms \<noteq> [] \<longrightarrow> mi_type (hd ms) \<noteq> ResultInfo" if "remaining_loop p ms out = Some s" for p ms out s
    by (rule remaining_loop.raw_induct [OF _ that, where P = "\<lambda>p ms out s. \<not> p \<longrightarrow> ms \<noteq> [] \<longrightarrow> mi_type (hd ms) \<noteq> ResultInfo"])
      (fastforce split: list.splits if_splits)
  from this [OF assms(3)] show False using assms(1,2) by simp
qed

lemma remaining_loop_returns:
  "remaining_loop printInfoMessages ms out = None \<longleftrightarrow> \<not> printInfoMessages \<and> (\<exists>m\<in>set ms. mi_type m = ResultInfo)"
proof (induction ms arbitrary: out)
  case (Cons m ms)
  show ?case
  proof (cases "printInfoMessages \<or> mi_type m \<noteq> ResultInfo")
    case True
    then show ?thesis using Cons.IH by (auto simp: remaining_loop.simps [of _ "m # ms"])
  next
    case False
    then have "remaining_loop printInfoMessages (m # ms) out = None"
      using stuck_message [of printInfoMessages m ms out] by (cases "remaining_loop printInfoMessages (m # ms) out") auto
    then show ?thesis using False by auto
  qed
qed (simp add: remaining_loop.simps [of _ "[]"])

lemma printRemaining_returns:
  "printRemainingMessages p ms = None \<longleftrightarrow> \<not> p \<and> (\<exists>m\<in>set ms. mi_type m = ResultInfo)"
  by (simp add: printRemainingMessages_def remaining_loop_returns)

lemma printMessage_rest: "snd (compact_printMessage ms) = tl ms"
  by (simp add: compact_printMessage_def split: list.split)

section \<open>Properties\<close>

text \<open>
  C39. When the compact reporter hangs. It takes a result and returns unless the result is a warning,
  successes are not to be printed, and among the messages in scope, the first apart, is an \<open>INFO\<close>: then it
  prints for ever nothing, and the test program hangs.
\<close>

theorem compact_hangs:
  "compact_assertion a ms r = None \<longleftrightarrow>
     \<not> includeSuccessfulResults (sr_config r) \<and> isOk a \<and> getResultType a = ResultWarning \<and> (\<exists>m\<in>set (tl ms). mi_type m = ResultInfo)"
proof -
  obtain first where m: "compact_printMessage ms = (first, tl ms)"
    using printMessage_rest [of ms] by (cases "compact_printMessage ms") simp
  have "\<exists>z. printRemainingMessages True x = Some z" for x using printRemaining_returns [of True x] by auto
  then have p: "compact_print a ms True \<noteq> None" by (simp add: compact_print_def Let_def m)
  have w: "compact_print a ms False = None \<longleftrightarrow> (\<exists>m\<in>set (tl ms). mi_type m = ResultInfo)" if "getResultType a = ResultWarning"
    using that by (simp add: compact_print_def Let_def m printRemaining_returns result_defs)
  show ?thesis
    using p w
    by (cases "includeSuccessfulResults (sr_config r)"; cases "isOk a"; cases "getResultType a = ResultWarning")
      (simp_all add: compact_assertion_def Let_def)
qed

end
