(* ===== verification/CatchMatchers.thy ===== *)
theory CatchMatchers
  imports CatchStrings "HOL-Library.Sublist"
begin

text \<open>
  The matchers of Catch for strings, and how values are printed in the expansion of an expression.
\<close>

section \<open>Matchers\<close>

datatype matcher =
    Equals string | Contains string | StartsWith string | EndsWith string
  | AllOf "matcher list" | AnyOf "matcher list"

text \<open>\<open>std::string::find\<close> as a \<open>size_t\<close>: \<open>npos\<close> is the largest one.\<close>

definition find_size :: "string \<Rightarrow> string \<Rightarrow> size_t" where
  "find_size s t = (case str_find t s of Some p \<Rightarrow> of_nat p | None \<Rightarrow> - 1)"

fun match_string :: "matcher \<Rightarrow> string \<Rightarrow> bool" where
  "match_string (Equals t) s \<longleftrightarrow> t = s"
| "match_string (Contains t) s \<longleftrightarrow> find_size s t \<noteq> - 1"
| "match_string (StartsWith t) s \<longleftrightarrow> find_size s t = 0"
| "match_string (EndsWith t) s \<longleftrightarrow> find_size s t = of_nat (length s) - of_nat (length t)"
| "match_string (AllOf ms) s \<longleftrightarrow> list_all (\<lambda>m. match_string m s) ms"
| "match_string (AnyOf ms) s \<longleftrightarrow> list_ex (\<lambda>m. match_string m s) ms"

text \<open>\<open>add\<close> of the two classes that combine matchers, and the separator.\<close>

fun matcher_add :: "matcher \<Rightarrow> matcher \<Rightarrow> matcher" where
  "matcher_add (AllOf ms) m = AllOf (ms @ [m])"
| "matcher_add (AnyOf ms) m = AnyOf (ms @ [m])"
| "matcher_add m' m = m'"

fun separated :: "string \<Rightarrow> string list \<Rightarrow> string" where
  "separated sep [] = []"
| "separated sep [s] = s"
| "separated sep (s # ss) = s @ sep @ separated sep ss"

definition in_quotes :: "string \<Rightarrow> string" where
  "in_quotes s = [CHR 0x22] @ s @ [CHR 0x22]"

fun matcher_toString :: "matcher \<Rightarrow> string" where
  "matcher_toString (Equals t) = ''equals: '' @ in_quotes t"
| "matcher_toString (Contains t) = ''contains: '' @ in_quotes t"
| "matcher_toString (StartsWith t) = ''starts with: '' @ in_quotes t"
| "matcher_toString (EndsWith t) = ''ends with: '' @ in_quotes t"
| "matcher_toString (AllOf ms) = ''( '' @ separated '' and '' (map matcher_toString ms) @ '' )''"
| "matcher_toString (AnyOf ms) = ''( '' @ separated '' or '' (map matcher_toString ms) @ '' )''"

section \<open>Printing values\<close>

definition invisible :: "char \<Rightarrow> string" where
  "invisible c = (if c = CHR 0x0A then [CHR 0x5C, CHR ''n''] else if c = CHR 0x09 then [CHR 0x5C, CHR ''t''] else [])"

text \<open>The loop over the positions of a string that grows while it is gone through.\<close>

function show_invisibles :: "nat \<Rightarrow> string \<Rightarrow> string" where
  "show_invisibles i s =
     (if i < length s
      then
        let subs = invisible (s ! i)
        in if subs \<noteq> [] then show_invisibles (i + 2) (take i s @ subs @ drop (i + 1) s) else show_invisibles (i + 1) s
      else s)"
  by pat_completeness auto
termination
  by (relation "measure (\<lambda>(i, s). length s - i)") (auto simp: invisible_def split: if_splits)

declare show_invisibles.simps [simp del]

definition toString_string :: "bool \<Rightarrow> string \<Rightarrow> string" where
  "toString_string showInvisibles s = in_quotes (if showInvisibles then show_invisibles 0 s else s)"

definition toString_chars :: "bool \<Rightarrow> string option \<Rightarrow> string" where
  "toString_chars showInvisibles p = (case p of Some s \<Rightarrow> toString_string showInvisibles s | None \<Rightarrow> ''{null string}'')"

definition hex_digit :: "nat \<Rightarrow> char" where
  "hex_digit d = (if d < 10 then char_of (48 + d) else char_of (87 + d))"

fun hexadecimal :: "nat \<Rightarrow> string" where
  "hexadecimal n = (if n < 16 then [hex_digit n] else hexadecimal (n div 16) @ [hex_digit (n mod 16)])"

declare hexadecimal.simps [simp del]

definition toString_int :: "32 word \<Rightarrow> string" where
  "toString_int value = (if sint value < 0 then ''-'' @ decimal (nat (- sint value)) else decimal (nat (sint value)))"

definition toString_ulong :: "u32 \<Rightarrow> string" where
  "toString_ulong value = (if value > 8192 then ''0x'' @ hexadecimal (unat value) else decimal (unat value))"

definition toString_bool :: "bool \<Rightarrow> string" where
  "toString_bool value = (if value then ''true'' else ''false'')"

text \<open>\<open>char\<close> is signed.\<close>

definition toString_char :: "u8 \<Rightarrow> string" where
  "toString_char value = (if value <s 32 then toString_ulong (scast value) else [char_of (unat value)])"

definition rawMemoryToString :: "u8 list \<Rightarrow> string" where
  "rawMemoryToString bytes = ''0x'' @ concat (map (\<lambda>b. [hex_digit (unat b div 16), hex_digit (unat b mod 16)]) (rev bytes))"

section \<open>What a matcher matches\<close>

lemma str_find_Some:
  "str_find t s = Some p \<Longrightarrow> take (length t) (drop p s) = t \<and> p + length t \<le> length s \<and> (\<forall>k<p. take (length t) (drop k s) \<noteq> t)"
proof (induction s arbitrary: p)
  case (Cons c cs)
  show ?case
  proof (cases "take (length t) (c # cs) = t")
    case True
    then have "length t \<le> length (c # cs)" by (metis length_take min.cobounded1 min_def)
    then show ?thesis using Cons.prems True by simp
  next
    case False
    then obtain q where q: "str_find t cs = Some q" "p = Suc q" using Cons.prems by auto
    have "take (length t) (drop k (c # cs)) \<noteq> t" if "k < p" for k
      using Cons.IH [OF q(1)] q(2) that False by (cases k) auto
    then show ?thesis using Cons.IH [OF q(1)] q(2) by simp
  qed
qed (auto split: if_splits)

lemma str_find_occurs:
  assumes "take (length t) (drop p s) = t" "p + length t \<le> length s"
  shows "\<exists>q\<le>p. str_find t s = Some q"
proof -
  have "s = take p s @ t @ drop (p + length t) s"
    using assms(1) by (metis append_take_drop_id add.commute drop_drop)
  then obtain q where q: "str_find t s = Some q" using str_find_None [of t s] by (cases "str_find t s") auto
  have "\<not> p < q" using str_find_Some [OF q] assms(1) by blast
  then show ?thesis using q by (intro exI [of _ q]) simp
qed

lemma find_size_simps:
  assumes "length s < 2 ^ 31"
  shows "find_size s t = - 1 \<longleftrightarrow> str_find t s = None" "k \<le> length s \<Longrightarrow> find_size s t = of_nat k \<longleftrightarrow> str_find t s = Some k"
proof -
  have w: "unat (of_nat k :: size_t) = k" if "k \<le> length s" for k using assms that by (simp add: unat_of_nat)
  have m: "(of_nat k :: size_t) \<noteq> - 1" if "k \<le> length s" for k
  proof
    assume "(of_nat k :: size_t) = - 1"
    then have "unat (of_nat k :: size_t) = unat (- 1 :: size_t)" by simp
    then show False using w [OF that] that assms by (simp add: unsigned_minus_1_eq_mask mask_eq_exp_minus_1)
  qed
  have b: "p \<le> length s" if "str_find t s = Some p" for p using str_find_Some [OF that] by simp
  show "find_size s t = - 1 \<longleftrightarrow> str_find t s = None"
    using m b by (auto simp: find_size_def split: option.splits)
  show "find_size s t = of_nat k \<longleftrightarrow> str_find t s = Some k" if "k \<le> length s"
  proof (cases "str_find t s")
    case (Some p)
    have "p = k" if e: "(of_nat p :: size_t) = of_nat k"
      using arg_cong [OF e, of unat] w [OF b [OF Some]] w [OF \<open>k \<le> length s\<close>] by simp
    then show ?thesis using Some by (auto simp: find_size_def)
  qed (use m [OF that] in \<open>auto simp: find_size_def\<close>)
qed

lemma ends_with:
  assumes "length s < 2 ^ 31" "length t < 2 ^ 31"
  shows "match_string (EndsWith t) s \<longleftrightarrow>
     length t = Suc (length s) \<or> suffix t s \<and> (\<forall>k < length s - length t. take (length t) (drop k s) \<noteq> t)"
proof (cases "length t \<le> length s")
  case True
  let ?d = "length s - length t"
  have "of_nat (length s) - of_nat (length t) = (of_nat ?d :: size_t)" using True by (simp add: of_nat_diff)
  then have "match_string (EndsWith t) s \<longleftrightarrow> str_find t s = Some ?d" using find_size_simps(2) [OF assms(1), of ?d t] by simp
  also have "\<dots> \<longleftrightarrow> take (length t) (drop ?d s) = t \<and> (\<forall>k<?d. take (length t) (drop k s) \<noteq> t)"
  proof
    assume r: "take (length t) (drop ?d s) = t \<and> (\<forall>k<?d. take (length t) (drop k s) \<noteq> t)"
    then obtain q where q: "q \<le> ?d" "str_find t s = Some q" using str_find_occurs [of t ?d s] True by auto
    then have "\<not> q < ?d" using r str_find_Some [OF q(2)] by blast
    then show "str_find t s = Some ?d" using q by simp
  qed (use str_find_Some in blast)
  also have "take (length t) (drop ?d s) = t \<longleftrightarrow> suffix t s"
    using True by (auto simp: suffix_def) (metis append_take_drop_id)
  finally show ?thesis using True by auto
next
  case False
  then have "str_find t s = None" using str_find_Some [of t s] by (cases "str_find t s") auto
  then have "find_size s t = - 1" by (simp add: find_size_def)
  moreover have "(- 1 = of_nat (length s) - (of_nat (length t) :: size_t)) \<longleftrightarrow> of_nat (length t) = (of_nat (Suc (length s)) :: size_t)"
    by (auto simp: algebra_simps)
  moreover have "\<dots> \<longleftrightarrow> length t = Suc (length s)"
  proof
    assume "of_nat (length t) = (of_nat (Suc (length s)) :: size_t)"
    then have "unat (of_nat (length t) :: size_t) = unat (of_nat (Suc (length s)) :: size_t)" by simp
    then show "length t = Suc (length s)" using assms by (simp only: unat_of_nat) simp
  qed simp
  moreover have "\<not> suffix t s" using False by (auto simp: suffix_def)
  ultimately show ?thesis by simp
qed

lemma show_invisibles_from:
  "show_invisibles (length u) (u @ s) = u @ concat (map (\<lambda>c. if invisible c = [] then [c] else invisible c) s)"
proof (induction s arbitrary: u)
  case Nil
  show ?case by (simp add: show_invisibles.simps [of "length u" u])
next
  case (Cons c s)
  let ?v = "if invisible c = [] then [c] else invisible c"
  have "show_invisibles (length u) (u @ c # s) = show_invisibles (length (u @ ?v)) ((u @ ?v) @ s)"
    by (subst show_invisibles.simps) (auto simp: Let_def invisible_def)
  then show ?case using Cons.IH [of "u @ ?v"] by simp
qed

section \<open>Properties\<close>

text \<open>
  C40. What the matchers for strings match. \<open>Contains\<close> and \<open>StartsWith\<close> do what their names say.
  \<open>EndsWith\<close> compares where the text occurs first with where it would have to end: it fails when the text
  occurs earlier as well, and it matches any text that is one character too long.
\<close>

theorem string_matchers:
  assumes "length s < 2 ^ 31" "length t < 2 ^ 31"
  shows "(match_string (Contains t) s \<longleftrightarrow> sublist t s) \<and> (match_string (StartsWith t) s \<longleftrightarrow> prefix t s) \<and>
     (match_string (EndsWith t) s \<longleftrightarrow>
        length t = Suc (length s) \<or> suffix t s \<and> (\<forall>k < length s - length t. take (length t) (drop k s) \<noteq> t))"
proof (intro conjI)
  show "match_string (Contains t) s \<longleftrightarrow> sublist t s"
    using find_size_simps(1) [OF assms(1), of t] str_find_None [of t s] by (simp add: sublist_def)
  have "prefix t s \<longleftrightarrow> take (length t) s = t" by (metis append_eq_conv_conj append_take_drop_id prefix_def)
  moreover have "str_find t s = Some 0 \<longleftrightarrow> take (length t) s = t" by (cases s) auto
  ultimately have "str_find t s = Some 0 \<longleftrightarrow> prefix t s" by simp
  then show "match_string (StartsWith t) s \<longleftrightarrow> prefix t s" using find_size_simps(2) [OF assms(1), of 0 t] by simp
  show "match_string (EndsWith t) s \<longleftrightarrow>
      length t = Suc (length s) \<or> suffix t s \<and> (\<forall>k < length s - length t. take (length t) (drop k s) \<noteq> t)"
    by (rule ends_with [OF assms])
qed

theorem string_matchers_witness:
  "\<not> match_string (EndsWith ''ab'') ''abab'' \<and> match_string (EndsWith ''xyz'') ''ab'' \<and> match_string (StartsWith ''ab'') ''abab''"
  using string_matchers [of "''abab''" "''ab''"] string_matchers [of "''ab''" "''xyz''"] by (auto simp: prefix_def)

end
