(* ===== verification/Spec2Isabelle.thy ===== *)
theory Spec2Isabelle
  imports Exchange Lifetime MessageTests ServerTests ThreadTests ServerApp ClientApp CatchSession CatchJunit CatchCompact CatchMatchers
begin

text \<open>
  Verification of the memcached example: a cache server and its client that speak the memcached binary
  protocol, in C++ for Win32. The library is
  \<open>src/MemcachedLib/MemcachedLib\<close>; the applications and the tests are directories beside it, and sources are named relative
  to \<open>src/MemcachedLib\<close> or to the library.

  \<^bold>\<open>The program and its theories.\<close> A message is bytes in a buffer, the buffer travels through a socket, the
  server keeps a map behind a lock, and two console programs drive server and client. The theories follow
  the calls, from the bottom up; the state of a class is a record with the members of the class, a method
  is a definition of the same name that takes the object and returns it updated.

    \<^item> \<open>Prelude\<close>: machine types (\<open>u8\<close> to \<open>u64\<close>, \<open>size_t\<close> has 32 bits), the results of operations, the heap.
    \<^item> \<open>DataBuffer\<close>: \<open>DataBuffer.h\<close> and \<open>.cpp\<close>. A cell of the array is a byte or not yet written; the
      offsets are machine words, so that the guards wrap around as they do in the code.
    \<^item> \<open>Header\<close>, \<open>Messages\<close>: \<open>MemcacheDefs.h\<close>, \<open>MemcacheMessages.h\<close> and \<open>.cpp\<close>. The four classes of messages
      are one record with a tag; a virtual call is a case distinction on the tag.
    \<^item> \<open>Threading\<close>, \<open>Sync\<close>: \<open>Threading\<close>, \<open>Event\<close>, \<open>Mutex\<close>, \<open>LockHelper\<close> and \<open>ReadWriteLock\<close>. The lock is modelled twice: as
      methods that run without interruption, and as threads with a program counter whose single steps on
      the shared members interleave freely (\<open>rw_step\<close>).
    \<^item> \<open>Socket\<close>: \<open>MemcacheSocket.h\<close> and \<open>.cpp\<close>. Winsock is a parameter, a record of functions on the state of the
      network. The locale \<open>socket_handler\<close> is \<open>IMemcacheSocketHandler\<close>: what the owner of a socket has to keep up so
      that the loop of the socket is safe and ends.
    \<^item> \<open>StdMap\<close>, \<open>Server\<close>: \<open>MemcacheServer.h\<close> and \<open>.cpp\<close>. \<open>std::map\<close> is a sorted association list, behind the locale
      \<open>ordered_map\<close>. The server is an interpretation of \<open>socket_handler\<close>.
    \<^item> \<open>Lifetime\<close>: the threads of the server statement by statement: \<open>MemcacheSocket::Run\<close> with \<open>OnSocketClosed\<close>,
      \<open>MemcacheServer::Run\<close> with \<open>ProcessClosedSockets\<close>, and \<open>Shutdown\<close> with \<open>CloseAllSockets\<close>, for any number of connections
      and any interleaving (\<open>life_step\<close>).
    \<^item> \<open>Client\<close>: \<open>MemcacheClient.h\<close> and \<open>.cpp\<close>, the second interpretation of \<open>socket_handler\<close>.
    \<^item> \<open>Exchange\<close>: client, server and the two directions of a connection put together.
    \<^item> \<open>Console\<close>, \<open>ServerApp\<close>, \<open>ClientApp\<close>: \<open>MemcacheServer/main.cpp\<close> and \<open>MemcacheClient/main.cpp\<close>, with what they use of \<open>std::cin\<close> and \<open>std::cout\<close>.
    \<^item> \<open>MessageTests\<close>, \<open>ServerTests\<close>, \<open>ThreadTests\<close>: the unit tests, run on the model.
    \<^item> \<open>CatchStrings\<close>, \<open>CatchSpec\<close>, \<open>CatchTracker\<close>, \<open>CatchResult\<close>, \<open>CatchRun\<close>: the part of the test framework
      \<open>MemcachedUnitTests/catch.hpp\<close> that decides which tests are run, how often, and what their result is.
    \<^item> \<open>CatchText\<close>, \<open>CatchXml\<close>, \<open>CatchReport\<close>, \<open>CatchJunit\<close>, \<open>CatchConsole\<close>, \<open>CatchCompact\<close>: its output: \<open>Tbc::Text\<close>, which
      wraps texts, \<open>XmlWriter\<close>, and the four reporters. A reporter is fed with the reports that a run leaves in
      \<open>m_reports\<close>; \<open>CatchReport\<close> says in which order these can come (\<open>report_next\<close>). A pointer of the JUnit reporter to
      a node of its tree is the path to it.
    \<^item> \<open>CatchMatchers\<close>: the matchers for strings, and how values are printed (\<open>toString\<close>).
    \<^item> \<open>CatchClara\<close>, \<open>CatchSession\<close>: the command line parser Clara, the options of Catch, the lists, and \<open>Session\<close>, which
      leads from the command line to the exit code. An exception is \<open>Inl\<close> of its text.

  \<^bold>\<open>Results.\<close> An operation that can go wrong returns \<open>Inl\<close> a fault or \<open>Inr\<close> a value: \<open>BadAlloc\<close> where \<open>new\<close> throws,
  \<open>BadAccess\<close> where a pointer leaves its array or is null, \<open>BadCast\<close> where a message is taken for one of another class,
  \<open>Indeterminate\<close> where a value nobody wrote decides.
  The heap is a parameter: a function that says whether the next allocation succeeds and what the new bytes
  hold, so that no theorem depends on their values. A call that blocks, and a loop that does not end, is
  \<open>None\<close>; that a call returns is always stated as such (\<open>returns\<close>), and \<open>yields\<close> says what a call
  that may fail does when it comes back.

  \<^bold>\<open>What the lemmas and properties show.\<close>

    \<^item> Buffer: the class invariant (offsets within the array, array of the announced length) is kept by every
      operation in every sequence of calls, as long as a buffer is not written to after \<open>Cleanup\<close>; values read back as they were written, but for 8-byte values,
      whose upper half is lost in a sign extension; the guards are exact.
    \<^item> Messages: what is sent is the frame of the protocol, byte for byte; what is built parses back to the same
      message, but for the upper half of \<open>CAS\<close>; every input is parsed without leaving an array; which inputs are accepted, and what becomes
      of the short ones.
    \<^item> Socket: the stream is cut into messages the same way however the network cuts it; reading returns if
      every \<open>recv\<close> makes progress, and never does once the peer has closed.
    \<^item> Lock: in every interleaving at most one thread writes; calls that are not interrupted refine the
      lock one means (an abstract counter and flag), and each lock call returns exactly when it should; with interruptions
      a reader can be beside a writer, in two ways. The proof is rule induction over the reachable states of any number of threads.
    \<^item> Server: sequences of requests refine an abstract map (\<open>cache_after\<close>); sessions, start, shutdown and the
      management thread keep the invariant and close each connection exactly once.
    \<^item> Threads of the server: each socket is destroyed at most once, by one thread, and all of them are when a shutdown returns;
      but the shutdown can wait for a connection's thread that waits for it, which is the only deadlock, and a
      connection's thread can end up destroying its own socket. Three invariants (who holds which mutex, where
      the pointers are, that none is lost) are proved by rule induction.
    \<^item> Client and exchange: \<open>Set\<close> and \<open>Get\<close> over a connection have the effect on the server, and the result,
      that one expects, when nothing is pending; answers are not tied to requests otherwise.
    \<^item> Applications: what ends them, and that nothing typed or received makes either access what it may not.
    \<^item> Catch: each innermost section of a test is run exactly once, in order; a printed test specification
      parses back; the registry is consistent; tests that pass are counted once each, and the exit code
      is 0; what a failing assertion does, kind by kind.
    \<^item> Output and command line of Catch: the formatter keeps to the width and loses nothing; the XML report
      of any run nests and quotes its markup rightly, though it lets characters through that XML forbids; the JUnit reporter
      keeps every assertion and its asserts never fail; what the console shows when all tests pass; when the
      compact reporter never returns; what the matchers match; a command line sets exactly what it names, an unknown option is refused, and from the command line of a run in which all holds the exit code is 0.

  \<^bold>\<open>Loops.\<close> Loops over data are structural recursion, or \<open>function\<close> with a measure (the formatter's
  is bounded by its thousand lines, \<open>grow\<close> and \<open>shrink\<close>, which adjust the bar of the console, by the sum of its
  parts). Loops that wait for the
  network, a thread or the user are \<open>partial_function (option)\<close>, and no fuel is used: \<open>fill\<close> and \<open>Run_loop\<close> (sockets),
  \<open>srv_Run\<close> (management thread), \<open>server_commands\<close> and \<open>client_commands\<close> (the applications), \<open>sleepy_Run\<close> (a test),
  \<open>pass_all\<close>, \<open>run_sections\<close> and \<open>run_generators\<close> (runs of a test), and \<open>remaining_loop\<close> (messages of the
  compact reporter). For each there is a theorem that it returns, with the conditions under which it does.

  \<^bold>\<open>What the model relies on.\<close> Winsock, the heap, events and the standard streams behave as documented; what a
  theorem needs of them is a named premise (\<open>recv_ok\<close>, \<open>heap_serves\<close>, \<open>events_ok\<close>), and each theorem with
  premises has a witness that meets them with concrete functions.

  \<^bold>\<open>Not modelled.\<close>

    \<^item> Some interleavings. \<open>Lifetime\<close> leaves out the data cache, and the moment between the start of a connection's
      thread and its entry into the map; in \<open>Server\<close> a handler runs as a whole, under the locks it takes, and the lock of
      the cache is modelled step by step in \<open>Sync\<close>.
    \<^item> The text of messages that are only printed for debugging, times, and \<open>Sleep\<close>.
    \<^item> Of Catch: colours, the redirection of streams, the clock, the printing of floating point numbers and wide strings,
      \<open>Approx\<close>, the templates that take expressions apart, the registries of reporters and exception translators,
      and the Objective-C parts. They print, or are template machinery without a state of their own; what a
      stream or the clock adds to a report is a parameter. What is printed before an
      exception in a list or in the usage text is not kept. The scanner of XML documents asks neither for the
      set of characters nor for the end mark of CDATA sections.
    \<^item> Project files, precompiled headers and version macros.
\<close>

end
